(* ===== verification/Prelude.thy ===== *)
theory Prelude
  imports Main "HOL-Library.AList" "HOL-Library.Multiset" "HOL-Library.Word"
    "HOL-Library.List_Lexorder" "HOL-Library.Char_ord" "HOL-Library.Sublist"
begin

text \<open>
  Shared vocabulary and lemmas of the development.

  Go maps are association lists with distinct keys: the list order stands for
  the order in which one run of the program happens to enumerate the map, so a
  theorem over every such list holds for every enumeration order.  Reading is
  \<open>map_of\<close>, writing \<open>AList.update\<close>, removing \<open>AList.delete\<close>.
  A slice is a list; \<open>copy\<close> and the slice expressions the sources use are the
  functions below.
\<close>

subsection \<open>Early returns\<close>

lemma bind_Inr_iff:
  "(case x of Inl e \<Rightarrow> Inl e | Inr v \<Rightarrow> f v) = Inr c \<longleftrightarrow> (\<exists>v. x = Inr v \<and> f v = Inr c)"
  by (cases x) simp_all

subsection \<open>Slices\<close>

definition go_copy :: "'a list \<Rightarrow> nat \<Rightarrow> 'a list \<Rightarrow> 'a list" where
  \<comment> \<open>\<open>copy(dst[off:], src)\<close>: the shorter of the two decides how much moves.\<close>
  "go_copy dst off src =
     take off dst @ take (length dst - off) src
       @ drop (off + min (length src) (length dst - off)) dst"

definition go_slice :: "'a list \<Rightarrow> nat \<Rightarrow> nat \<Rightarrow> 'a list" where
  \<comment> \<open>\<open>xs[lo:hi]\<close> for \<open>lo \<le> hi \<le> len(xs)\<close>.\<close>
  "go_slice xs lo hi = drop lo (take hi xs)"

lemma length_go_copy [simp]: "off \<le> length dst \<Longrightarrow> length (go_copy dst off src) = length dst"
  by (auto simp: go_copy_def min_def)

lemma go_copy_fill:
  "length src \<le> n \<Longrightarrow> go_copy (replicate n x) 0 src = src @ replicate (n - length src) x"
  by (simp add: go_copy_def min_def)

lemma go_copy_two:
  assumes "length xs + length ys \<le> n"
  shows "go_copy (go_copy (replicate n x) 0 xs) (length xs) ys
       = xs @ ys @ replicate (n - length xs - length ys) x"
  using assms by (simp add: go_copy_def min_def)

subsection \<open>Positions in a ring\<close>

lemma ring_index:
  "(h::nat) < n \<Longrightarrow> i < n \<Longrightarrow> (h + i) mod n = (if h + i < n then h + i else h + i - n)"
  by (simp add: mod_if)

lemma ring_index_inj:
  "(h::nat) < n \<Longrightarrow> i < n \<Longrightarrow> c < n \<Longrightarrow> ((h + i) mod n = (h + c) mod n) = (i = c)"
  by (auto simp: ring_index split: if_splits)

lemma rotate_write:
  assumes "h < length xs" "c < length xs"
  shows "rotate h (xs[(h + c) mod length xs := y]) = (rotate h xs)[c := y]"
proof (rule nth_equalityI)
  fix i assume "i < length (rotate h (xs[(h + c) mod length xs := y]))"
  then have i: "i < length xs" by simp
  then have "0 < length xs" by linarith
  then have "(h + c) mod length xs < length xs" "(h + i) mod length xs < length xs"
    by simp_all
  with i assms show "rotate h (xs[(h + c) mod length xs := y]) ! i = (rotate h xs)[c := y] ! i"
    by (simp add: nth_rotate nth_list_update ring_index_inj)
qed simp

lemma rotate_Suc_write:
  assumes "h < length xs"
  shows "rotate (Suc h mod length xs) (xs[h := y]) = tl (rotate h xs) @ [y]"
proof -
  have "rotate (Suc h mod length xs) (xs[h := y]) = rotate1 (rotate h (xs[h := y]))"
    by (metis length_list_update rotate_Suc rotate_conv_mod)
  also have "rotate h (xs[h := y]) = (rotate h xs)[0 := y]"
    using rotate_write [of h xs 0 y] assms by (cases xs) simp_all
  also have "rotate1 ((rotate h xs)[0 := y]) = tl (rotate h xs) @ [y]"
    using assms by (cases "rotate h xs") auto
  finally show ?thesis .
qed

subsection \<open>Runs of a step function with output\<close>

fun run_steps :: "('i \<Rightarrow> 's \<Rightarrow> 's \<times> 'o list) \<Rightarrow> 'i list \<Rightarrow> 's \<Rightarrow> 's \<times> 'o list" where
  "run_steps step [] s = (s, [])"
| "run_steps step (i # is) s =
     (let (s1, out) = step i s; (s2, out') = run_steps step is s1 in (s2, out @ out'))"

lemma run_steps_Cons_parts [simp]:
  "fst (run_steps step (i # is) s) = fst (run_steps step is (fst (step i s)))"
  "snd (run_steps step (i # is) s) = snd (step i s) @ snd (run_steps step is (fst (step i s)))"
  by (simp_all add: split_beta Let_def)

lemma run_steps_append_parts [simp]:
  "fst (run_steps step (xs @ ys) s) = fst (run_steps step ys (fst (run_steps step xs s)))"
  "snd (run_steps step (xs @ ys) s) =
     snd (run_steps step xs s) @ snd (run_steps step ys (fst (run_steps step xs s)))"
  by (induction xs arbitrary: s) (simp_all del: run_steps.simps(2))

lemma run_steps_invariant:
  assumes "\<And>i s. I s \<Longrightarrow> I (fst (step i s))" "I s"
  shows "I (fst (run_steps step is s))"
  using assms(2) by (induction "is" arbitrary: s) (simp_all add: assms(1) del: run_steps.simps(2))

subsection \<open>Association lists\<close>

text \<open>
  Proofs look at an association list through \<open>map_of\<close>: updates and deletions
  are rewritten to function updates, and a lookup stays a lookup.
\<close>

declare update_conv' [simp] delete_conv' [simp]
declare map_of_eq_Some_iff [simp del] Some_eq_map_of_iff [simp del] map_of_eq_None_iff [simp del]

lemma distinct_keys_update [simp]:
  "distinct (map fst m) \<Longrightarrow> distinct (map fst (AList.update k v m))"
  by (rule distinct_update)

lemma distinct_keys_delete [simp]:
  "distinct (map fst m) \<Longrightarrow> distinct (map fst (AList.delete k m))"
  by (rule distinct_delete)

lemma set_map_of: "distinct (map fst m) \<Longrightarrow> (k, v) \<in> set m \<longleftrightarrow> map_of m k = Some v"
  by (auto simp: map_of_is_SomeI dest: map_of_SomeD)

definition all_vals :: "('v \<Rightarrow> bool) \<Rightarrow> ('k \<times> 'v) list \<Rightarrow> bool" where
  \<comment> \<open>Every entry of a map satisfies the predicate.\<close>
  "all_vals P m \<longleftrightarrow> list_all (\<lambda>(k, v). P v) m"

lemma all_vals_simps [simp]:
  "all_vals P []" "all_vals P ((k, v) # m) \<longleftrightarrow> P v \<and> all_vals P m"
  "all_vals P (m @ m') \<longleftrightarrow> all_vals P m \<and> all_vals P m'"
  by (simp_all add: all_vals_def)

lemma all_vals_update [intro, simp]: "all_vals P m \<Longrightarrow> P v \<Longrightarrow> all_vals P (AList.update k v m)"
  by (induction m) (auto simp: all_vals_def)

lemma all_vals_delete [intro, simp]: "all_vals P m \<Longrightarrow> all_vals P (AList.delete k m)"
  by (auto simp: all_vals_def list_all_iff AList.delete_eq)

lemma all_vals_lookup: "all_vals P m \<Longrightarrow> map_of m k = Some v \<Longrightarrow> P v"
  by (auto simp: all_vals_def list_all_iff dest: map_of_SomeD)

lemma all_vals_mono: "all_vals P m \<Longrightarrow> (\<And>v. P v \<Longrightarrow> Q v) \<Longrightarrow> all_vals Q m"
  by (auto simp: all_vals_def list_all_iff)

subsection \<open>Sums over the values of a map\<close>

definition total :: "('k \<rightharpoonup> 'v) \<Rightarrow> ('v \<Rightarrow> 'a multiset) \<Rightarrow> 'a multiset" where
  \<comment> \<open>What all the values of a finite map have together.\<close>
  "total m f = (\<Sum>k \<in> dom m. f (the (m k)))"

lemma total_enter:
  assumes "finite (dom m)" "m k = None"
  shows "total (m(k \<mapsto> v)) f = total m f + f v"
proof -
  have "(\<Sum>j \<in> dom m. f (the ((m(k \<mapsto> v)) j))) = (\<Sum>j \<in> dom m. f (the (m j)))"
    by (rule sum.cong) (use assms(2) in \<open>auto\<close>)
  with assms show ?thesis by (simp add: total_def domIff insert_absorb add.commute)
qed

lemma total_leave:
  assumes "finite (dom m)" "m k = Some v"
  shows "total m f = total (m(k := None)) f + f v"
proof -
  have "m = (m(k := None))(k \<mapsto> v)" using assms(2) by (auto simp: fun_eq_iff)
  moreover have "total ((m(k := None))(k \<mapsto> v)) f = total (m(k := None)) f + f v"
    by (rule total_enter) (use assms(1) in simp_all)
  ultimately show ?thesis by simp
qed

lemma total_cong: "(\<And>k v. m k = Some v \<Longrightarrow> f v = g v) \<Longrightarrow> total m f = total m g"
  unfolding total_def by (rule sum.cong) auto

lemma total_bump:
  assumes "finite (dom m)" "m k = Some v" "g v = f v + x" "\<And>j w. m j = Some w \<Longrightarrow> j \<noteq> k \<Longrightarrow> g w = f w"
  shows "total m g = total m f + x"
proof -
  have "total (m(k := None)) g = total (m(k := None)) f"
    by (rule total_cong) (use assms(4) in \<open>auto split: if_splits\<close>)
  then show ?thesis using assms(1-3) by (simp add: total_leave [where k = k])
qed

lemma total_member:
  assumes "finite (dom m)"
  shows "x \<in># total m f \<longleftrightarrow> (\<exists>k v. m k = Some v \<and> x \<in># f v)"
  using assms by (fastforce simp: total_def set_mset_sum dom_def)

lemma nth_update_if: "xs[p := v] ! x = (if x = p \<and> p < length xs then v else xs ! x)"
  by (cases "p < length xs") (auto simp: nth_list_update list_update_beyond)

subsection \<open>Sums over the entries of an association list\<close>

definition tally :: "('v \<Rightarrow> int) \<Rightarrow> ('k \<times> 'v) list \<Rightarrow> int" where
  "tally f m = sum_list (map (\<lambda>e. f (snd e)) m)"

lemma tally_simps [simp]: "tally f [] = 0" "tally f (e # m) = f (snd e) + tally f m"
  by (simp_all add: tally_def)

lemma delete_absent: "map_of m k = None \<Longrightarrow> AList.delete k m = m"
  by (induction m) (auto split: if_splits)

lemma tally_delete:
  "distinct (map fst m) \<Longrightarrow> map_of m k = Some v \<Longrightarrow> tally f (AList.delete k m) = tally f m - f v"
proof (induction m)
  case (Cons e m)
  show ?case
  proof (cases "fst e = k")
    case True
    then have "map_of m k = None" using Cons.prems(1) by (simp add: map_of_eq_None_iff)
    then show ?thesis using True Cons.prems by (cases e) (simp add: delete_absent)
  next
    case False
    then show ?thesis using Cons by (cases e) auto
  qed
qed simp

lemma tally_update:
  "distinct (map fst m) \<Longrightarrow> tally f (AList.update k v m) = tally f (AList.delete k m) + f v"
proof (induction m)
  case (Cons e m)
  show ?case
  proof (cases "fst e = k")
    case True
    then have "map_of m k = None" using Cons.prems(1) by (simp add: map_of_eq_None_iff)
    then show ?thesis using True by (cases e) (simp add: delete_absent)
  next
    case False
    then show ?thesis using Cons by (cases e) auto
  qed
qed simp

lemma tally_nonneg: "(\<And>v. 0 \<le> f v) \<Longrightarrow> 0 \<le> tally f m"
  by (induction m) auto

lemma tally_ge:
  "(\<And>v. 0 \<le> f v) \<Longrightarrow> map_of m k = Some v \<Longrightarrow> f v \<le> tally f m"
proof -
  assume p: "\<And>v. 0 \<le> f v"
  have n: "0 \<le> tally f xs" for xs using p by (rule tally_nonneg)
  show "map_of m k = Some v \<Longrightarrow> ?thesis"
  proof (induction m)
    case (Cons e m)
    then show ?case using n [of m] p [of "snd e"] by (auto split: if_splits)
  qed simp
qed

lemma tally_pos:
  "(\<And>v. 0 \<le> f v) \<Longrightarrow> 0 < tally f m \<longleftrightarrow> (\<exists>e \<in> set m. 0 < f (snd e))"
proof -
  assume p: "\<And>v. 0 \<le> f v"
  have n: "0 \<le> tally f xs" for xs using p by (rule tally_nonneg)
  show ?thesis
  proof (induction m)
    case (Cons e m)
    then show ?case using n [of m] p [of "snd e"] by (auto simp: order_less_le)
  qed simp
qed

lemma fold_keeps:
  assumes "\<And>x s. f (g x s) = f s"
  shows "f (fold g xs s) = f s"
  by (induction xs arbitrary: s) (simp_all add: assms)

end
