(* ===== verification/Queue.thy ===== *)
theory Queue
  imports Prelude
begin

text \<open>
  The enricher's line of events (\<open>ievent/enricher/queue.go\<close>): a ring of
  pointers to items that grows by doubling and shrinks by halving.  The items
  themselves live in a store, since a caller holds the pointer across a read
  while a resize moves the ring's entries.  A slot holds \<open>None\<close> for Go's nil.
  \<open>take_line\<close> is the iterator consumed to its end, which is how every
  \<open>range\<close> over it in the enricher consumes it; its \<open>None\<close> is the nil
  dereference the ring invariant rules out.
\<close>

subsection \<open>State and operations\<close>

definition minRing :: nat where
  "minRing = 2"

record 'e item =
  it_ev :: "'e option"
  settled :: bool
  skip :: bool

record 'e queue =
  items :: "nat option list"
  head :: nat
  tail :: nat
  qcount :: nat
  store :: "'e item list"

definition new_queue :: "'e queue" where
  "new_queue = \<lparr>items = [], head = 0, tail = 0, qcount = 0, store = []\<rparr>"

definition resize :: "nat \<Rightarrow> 'e queue \<Rightarrow> 'e queue" where
  "resize n q =
     (let fresh = replicate n None;
          moved =
            (if qcount q = 0 then fresh
             else if head q < tail q then go_copy fresh 0 (go_slice (items q) (head q) (tail q))
             else go_copy (go_copy fresh 0 (drop (head q) (items q)))
                    (length (items q) - head q) (take (tail q) (items q)))
      in q\<lparr>items := moved, head := 0, tail := qcount q mod n\<rparr>)"

definition push :: "'e \<Rightarrow> bool \<Rightarrow> 'e queue \<Rightarrow> 'e queue \<times> nat" where
  "push ev s q =
     (let q1 = (if qcount q = length (items q)
                then resize (max (length (items q) * 2) minRing) q else q);
          it = length (store q1)
      in (q1\<lparr>items := (items q1)[tail q1 := Some it],
             tail := (tail q1 + 1) mod length (items q1),
             qcount := qcount q1 + 1,
             store := store q1 @ [\<lparr>it_ev = Some ev, settled = s, skip = False\<rparr>]\<rparr>, it))"

definition settle :: "nat \<Rightarrow> 'e \<Rightarrow> 'e queue \<Rightarrow> 'e queue" where
  "settle it ev q =
     q\<lparr>store := (store q)[it := (store q ! it)\<lparr>it_ev := Some ev, settled := True\<rparr>]\<rparr>"

definition trash :: "nat \<Rightarrow> 'e queue \<Rightarrow> 'e queue" where
  "trash it q =
     q\<lparr>store := (store q)[it := (store q ! it)\<lparr>it_ev := None, settled := True, skip := True\<rparr>]\<rparr>"

definition clear_front :: "'e queue \<Rightarrow> 'e queue" where
  \<comment> \<open>The slot is cleared, the head steps on.\<close>
  "clear_front q =
     q\<lparr>items := (items q)[head q := None], head := (head q + 1) mod length (items q),
       qcount := qcount q - 1\<rparr>"

definition pop_front :: "'e queue \<Rightarrow> 'e queue" where
  \<comment> \<open>The middle of the loop of \<open>take\<close>: clear the front, then shrink a ring a quarter full.\<close>
  "pop_front q =
     (let q1 = clear_front q; half = length (items q1) div 2
      in if minRing \<le> half \<and> qcount q1 \<le> half div 2 then resize half q1 else q1)"

lemma qcount_resize [simp]: "qcount (resize n q) = qcount q"
  by (simp add: resize_def Let_def)

lemma store_resize [simp]: "store (resize n q) = store q"
  by (simp add: resize_def Let_def)

lemma qcount_pop_front [simp]: "qcount (pop_front q) = qcount q - 1"
  by (simp add: pop_front_def clear_front_def Let_def)

lemma store_pop_front [simp]: "store (pop_front q) = store q"
  by (simp add: pop_front_def clear_front_def Let_def)

function take_line :: "bool \<Rightarrow> 'e queue \<Rightarrow> ('e queue \<times> 'e option list) option" where
  "take_line all q =
     (if 0 < qcount q then
        (case items q ! head q of
           None \<Rightarrow> None
         | Some p \<Rightarrow>
             (let it = store q ! p in
              if \<not> all \<and> \<not> settled it then Some (q, [])
              else (case take_line all (pop_front q) of
                      None \<Rightarrow> None
                    | Some (q', out) \<Rightarrow>
                        Some (q', if skip it then out else it_ev it # out))))
      else Some (q, []))"
  by pat_completeness auto
termination
  by (relation "measure (\<lambda>(all, q). qcount q)") auto

declare take_line.simps [simp del]

definition release :: "'e queue \<Rightarrow> ('e queue \<times> 'e option list) option" where
  "release q = take_line False q"

definition drain :: "'e queue \<Rightarrow> ('e queue \<times> 'e option list) option" where
  "drain q = take_line True q"

subsection \<open>The invariant and the line it stands for\<close>

definition ring :: "'e queue \<Rightarrow> nat list \<Rightarrow> bool" where
  \<comment> \<open>\<open>q\<close> holds exactly the pointers \<open>ps\<close>, oldest first; every other slot is nil.\<close>
  "ring q ps \<longleftrightarrow>
     qcount q = length ps \<and> length ps \<le> length (items q) \<and>
     (\<forall>p \<in> set ps. p < length (store q)) \<and> distinct ps \<and>
     (if items q = [] then head q = 0 \<and> tail q = 0
      else head q < length (items q) \<and> tail q = (head q + length ps) mod length (items q)) \<and>
     rotate (head q) (items q) = map Some ps @ replicate (length (items q) - length ps) None"

definition roomy :: "'e queue \<Rightarrow> bool" where
  \<comment> \<open>The ring is a power of two and at most four times what it holds.\<close>
  "roomy q \<longleftrightarrow> (items q = [] \<or> (\<exists>k>0. length (items q) = 2 ^ k)) \<and>
     (length (items q) < 4 \<or> length (items q) div 4 < qcount q)"

definition ptrs :: "'e queue \<Rightarrow> nat list" where
  "ptrs q = map the (take (qcount q) (rotate (head q) (items q)))"

definition line_of :: "'e queue \<Rightarrow> (nat \<times> 'e item) list" where
  "line_of q = map (\<lambda>p. (p, store q ! p)) (ptrs q)"

definition good_queue :: "'e queue \<Rightarrow> bool" where
  "good_queue q \<longleftrightarrow> ring q (ptrs q) \<and> roomy q \<and>
     (\<forall>it \<in> set (store q). skip it \<or> it_ev it \<noteq> None)"

subsection \<open>Every operation keeps the ring\<close>

lemma ring_new: "ring new_queue []" by (simp add: ring_def new_queue_def)

lemma ring_length: "ring q ps \<Longrightarrow> qcount q = length ps"
  by (simp add: ring_def)

lemma ring_resize:
  assumes r: "ring q ps" and n: "length ps \<le> n" "0 < n"
  shows "ring (resize n q) ps" and "length (items (resize n q)) = n"
proof -
  let ?xs = "items q" and ?h = "head q" and ?m = "length ps"
  have moved: "items (resize n q) = map Some ps @ replicate (n - ?m) None"
  proof (cases "ps = []")
    case True
    then show ?thesis using r by (simp add: ring_def resize_def Let_def)
  next
    case False
    with r have h: "?h < length ?xs" and m: "?m \<le> length ?xs" and ne: "?xs \<noteq> []"
      and c: "qcount q = ?m" and t: "tail q = (?h + ?m) mod length ?xs"
      and rot: "drop ?h ?xs @ take ?h ?xs = map Some ps @ replicate (length ?xs - ?m) None"
      by (auto simp: ring_def rotate_drop_take split: if_splits)
    have live: "take ?m (drop ?h ?xs @ take ?h ?xs) = map Some ps"
      by (simp add: rot)
    show ?thesis
    proof (cases "?h + ?m < length ?xs")
      case True
      with h t have t': "tail q = ?h + ?m" by simp
      from live True have "take ?m (drop ?h ?xs) = map Some ps" by simp
      with True False c t' n show ?thesis
        by (simp add: resize_def Let_def go_slice_def take_drop add.commute go_copy_fill)
    next
      case wrap: False
      have t': "tail q = ?h + ?m - length ?xs"
        using wrap h m t by (simp add: le_mod_geq)
      then have th: "tail q \<le> ?h" using m by simp
      from live wrap have "drop ?h ?xs @ take (tail q) ?xs = map Some ps"
        using h m th by (simp add: t' min_absorb1 add.commute)
      with go_copy_two [of "drop ?h ?xs" "take (tail q) ?xs" n None] show ?thesis
        using th False c n h m wrap t'
        by (simp add: resize_def Let_def min_def)
    qed
  qed
  then show len: "length (items (resize n q)) = n" using n by simp
  from moved n have "rotate 0 (items (resize n q)) = map Some ps @ replicate (n - length ps) None"
    by simp
  moreover have "head (resize n q) = 0" "tail (resize n q) = qcount q mod n"
    by (simp_all add: resize_def Let_def)
  moreover have "items (resize n q) \<noteq> []" using len n by auto
  ultimately show "ring (resize n q) ps"
    using len r n by (auto simp: ring_def)
qed

lemma ring_push:
  assumes r: "ring q ps"
  shows "ring (fst (push ev s q)) (ps @ [snd (push ev s q)])"
proof -
  define q1 where "q1 = (if qcount q = length (items q)
                then resize (max (length (items q) * 2) minRing) q else q)"
  have r1: "ring q1 ps" and room: "length ps < length (items q1)"
    using ring_resize [OF r, of "max (length (items q) * 2) minRing"] r
    by (auto simp: q1_def minRing_def ring_def)
  then have h: "head q1 < length (items q1)" and t: "tail q1 = (head q1 + length ps) mod length (items q1)"
    and rot: "rotate (head q1) (items q1) = map Some ps @ replicate (length (items q1) - length ps) None"
    and c: "qcount q1 = length ps" and b: "\<forall>p \<in> set ps. p < length (store q1)" and d: "distinct ps"
    by (auto simp: ring_def split: if_splits)
  let ?p = "length (store q1)"
  have "rotate (head q1) ((items q1)[tail q1 := Some ?p])
      = map Some (ps @ [?p]) @ replicate (length (items q1) - length (ps @ [?p])) None"
    unfolding t rotate_write [OF h room] rot using room
    by (simp add: list_update_append Suc_diff_Suc [symmetric])
  moreover have "(tail q1 + 1) mod length (items q1) = (head q1 + length (ps @ [?p])) mod length (items q1)"
    unfolding t by (simp add: mod_Suc_eq)
  moreover have "push ev s q = (q1\<lparr>items := (items q1)[tail q1 := Some ?p],
             tail := (tail q1 + 1) mod length (items q1),
             qcount := qcount q1 + 1,
             store := store q1 @ [\<lparr>it_ev = Some ev, settled = s, skip = False\<rparr>]\<rparr>, ?p)"
    by (simp add: push_def q1_def Let_def)
  ultimately show ?thesis
    using h c b d room by (auto simp: ring_def)
qed

lemma ring_front:
  assumes r: "ring q (p # ps)"
  shows "items q ! head q = Some p" and "ring (clear_front q) ps"
proof -
  have h: "head q < length (items q)" and m: "Suc (length ps) \<le> length (items q)"
    and t: "tail q = (head q + Suc (length ps)) mod length (items q)"
    and rot: "rotate (head q) (items q) = Some p # map Some ps @ replicate (length (items q) - Suc (length ps)) None"
    and c: "qcount q = Suc (length ps)" and b: "\<forall>p \<in> set ps. p < length (store q)" and d: "distinct ps"
    using r by (auto simp: ring_def split: if_splits)
  have "rotate (head q) (items q) ! 0 = items q ! head q"
    using h by (subst nth_rotate [OF le_less_trans [OF le0 h]]) simp
  then show "items q ! head q = Some p" by (simp add: rot)
  have "rotate ((head q + 1) mod length (items q)) ((items q)[head q := None])
      = map Some ps @ replicate (length (items q) - length ps) None"
    using rotate_Suc_write [OF h, of None] m
    by (simp add: rot replicate_append_same Suc_diff_le [symmetric] flip: replicate_Suc)
  moreover have "(head q + Suc (length ps)) mod length (items q)
      = ((head q + 1) mod length (items q) + length ps) mod length (items q)"
    by (simp add: mod_add_left_eq)
  moreover have "(head q + 1) mod length (items q) < length (items q)"
    by (rule mod_less_divisor [OF le_less_trans [OF le0 h]])
  ultimately show "ring (clear_front q) ps"
    using h m t c b d by (auto simp: ring_def clear_front_def)
qed

lemma ring_pop_front: "ring q (p # ps) \<Longrightarrow> ring (pop_front q) ps"
  using ring_front(2) [of q p ps] ring_resize(1) [of "clear_front q" ps "length (items (clear_front q)) div 2"]
    ring_length [of "clear_front q" ps]
  by (auto simp: pop_front_def Let_def minRing_def)

lemma ring_settle: "ring q ps \<Longrightarrow> ring (settle it ev q) ps"
  by (simp add: ring_def settle_def)

lemma ring_trash: "ring q ps \<Longrightarrow> ring (trash it q) ps"
  by (simp add: ring_def trash_def)

lemma take_line_ring:
  fixes all
  defines "go \<equiv> (\<lambda>q p. all \<or> settled (store q ! p))"
  assumes "ring q ps"
  shows "\<exists>q'. take_line all q =
           Some (q', map (\<lambda>p. it_ev (store q ! p))
                       (filter (\<lambda>p. \<not> skip (store q ! p)) (takeWhile (go q) ps)))
         \<and> ring q' (dropWhile (go q) ps) \<and> store q' = store q"
  using assms(2) unfolding go_def
proof (induction ps arbitrary: q)
  case Nil
  then show ?case by (simp add: take_line.simps [of all q] ring_length)
next
  case (Cons p ps)
  note front = ring_front(1) [OF Cons.prems] ring_pop_front [OF Cons.prems]
  have c: "0 < qcount q" using Cons.prems by (simp add: ring_length)
  show ?case
  proof (cases "all \<or> settled (store q ! p)")
    case True
    with Cons.IH [OF front(2)] c front(1) show ?thesis
      by (auto simp: take_line.simps [of all q] Let_def)
  next
    case False
    with c front(1) Cons.prems show ?thesis
      by (simp add: take_line.simps [of False q] Let_def)
  qed
qed

lemma ring_ptrs: "ring q ps \<Longrightarrow> ptrs q = ps"
  by (simp add: ring_def ptrs_def comp_def)

lemma roomy_push:
  assumes r: "ring q ps" and q: "roomy q"
  shows "roomy (fst (push ev s q))"
proof (cases "qcount q = length (items q)")
  case False
  with r q show ?thesis by (auto simp: roomy_def push_def Let_def)
next
  case full: True
  let ?n = "length (items q)"
  have len: "length (items (resize (max (?n * 2) minRing) q)) = max (?n * 2) minRing"
    using ring_resize(2) [OF r, of "max (?n * 2) minRing"] r
    by (auto simp: ring_def minRing_def)
  have pow: "\<exists>k>0. max (?n * 2) minRing = 2 ^ k"
  proof (cases "items q = []")
    case True
    then show ?thesis by (intro exI [of _ 1]) (simp add: minRing_def)
  next
    case False
    with q obtain k where k: "k > 0" "?n = 2 ^ k" by (auto simp: roomy_def)
    moreover have "(2::nat) \<le> 2 ^ k" using k(1) self_le_power [of 2 k] by simp
    ultimately have "max (?n * 2) minRing = 2 ^ Suc k" by (simp add: minRing_def)
    then show ?thesis by blast
  qed
  have "max (?n * 2) minRing div 4 < Suc ?n" by (simp add: minRing_def)
  with full len pow show ?thesis
    by (simp add: roomy_def push_def Let_def)
qed

lemma half_power: "(2::nat) ^ k div 2 = (if k = 0 then 0 else 2 ^ (k - 1))"
  by (cases k) simp_all

lemma eighth_less_quarter:
  assumes "4 \<le> (n::nat)"
  shows "n div 2 div 4 < n div 4"
proof -
  have "n div 2 div 4 = n div 4 div 2" by (simp flip: div_mult2_eq)
  moreover have "0 < n div 4" using assms by (simp add: div_greater_zero_iff)
  ultimately show ?thesis by simp
qed

lemma roomy_pop_front:
  assumes r: "ring q (p # ps)" and q: "roomy q"
  shows "roomy (pop_front q)"
proof -
  let ?n = "length (items q)"
  have c: "qcount q = Suc (length ps)" "Suc (length ps) \<le> ?n" using r by (auto simp: ring_def)
  with q obtain k where k: "0 < k" "?n = 2 ^ k" by (auto simp: roomy_def)
  have n1: "length (items (clear_front q)) = ?n" by (simp add: clear_front_def)
  have "length ps \<ge> ?n div 4" if "4 \<le> ?n" using q that c by (auto simp: roomy_def)
  show ?thesis
  proof (cases "minRing \<le> ?n div 2 \<and> length ps \<le> ?n div 2 div 2")
    case True
    then have k2: "2 \<le> k" using k by (cases k) (auto simp: minRing_def Suc_le_eq intro: ccontr)
    have "length (items (pop_front q)) = ?n div 2"
      using True n1 ring_resize(2) [OF ring_front(2) [OF r], of "?n div 2"] ring_length [OF ring_front(2) [OF r]]
      by (auto simp: pop_front_def Let_def minRing_def)
    moreover have "?n div 2 = 2 ^ (k - 1)" using k by (simp add: half_power)
    moreover have "?n div 4 \<le> length ps" using q c True by (auto simp: roomy_def minRing_def)
    moreover have "?n div 2 div 4 < ?n div 4"
      using True by (intro eighth_less_quarter) (simp add: minRing_def, linarith)
    ultimately show ?thesis
      using k2 c by (auto simp: roomy_def intro!: exI [of _ "k - 1"])
  next
    case False
    then have "length (items (pop_front q)) = ?n" "?n < 4 \<or> ?n div 4 < length ps"
      using c n1 ring_length [OF ring_front(2) [OF r]] by (auto simp: pop_front_def Let_def minRing_def)
    with k c show ?thesis by (auto simp: roomy_def)
  qed
qed
subsection \<open>The line as an interface\<close>

text \<open>
  What the enricher relies on: an abstract line of (pointer, item) pairs in
  arrival order, and what each operation does to it.
\<close>

definition fresh_item :: "'e \<Rightarrow> bool \<Rightarrow> 'e item" where
  "fresh_item ev s = \<lparr>it_ev = Some ev, settled = s, skip = False\<rparr>"

definition settled_item :: "'e \<Rightarrow> 'e item \<Rightarrow> 'e item" where
  "settled_item ev it = it\<lparr>it_ev := Some ev, settled := True\<rparr>"

definition trashed_item :: "'e item \<Rightarrow> 'e item" where
  "trashed_item it = it\<lparr>it_ev := None, settled := True, skip := True\<rparr>"

definition ready :: "bool \<Rightarrow> nat \<times> 'e item \<Rightarrow> bool" where
  "ready all x \<longleftrightarrow> all \<or> settled (snd x)"

definition outputs :: "(nat \<times> 'e item) list \<Rightarrow> 'e option list" where
  "outputs xs = map (\<lambda>x. it_ev (snd x)) (filter (\<lambda>x. \<not> skip (snd x)) xs)"

lemma ready_all: "takeWhile (ready True) xs = xs" "dropWhile (ready True) xs = []"
  by (simp_all add: ready_def takeWhile_eq_all_conv)

lemma outputs_append [simp]: "outputs (xs @ ys) = outputs xs @ outputs ys"
  by (simp add: outputs_def)

locale event_line =
  fixes push_op :: "'e \<Rightarrow> bool \<Rightarrow> 'q \<Rightarrow> 'q \<times> nat"
    and settle_op :: "nat \<Rightarrow> 'e \<Rightarrow> 'q \<Rightarrow> 'q"
    and trash_op :: "nat \<Rightarrow> 'q \<Rightarrow> 'q"
    and take_op :: "bool \<Rightarrow> 'q \<Rightarrow> ('q \<times> 'e option list) option"
    and line :: "'q \<Rightarrow> (nat \<times> 'e item) list"
    and good :: "'q \<Rightarrow> bool"
  assumes good_push: "good q \<Longrightarrow> good (fst (push_op e s q))"
    and line_push: "good q \<Longrightarrow>
      line (fst (push_op e s q)) = line q @ [(snd (push_op e s q), fresh_item e s)]"
    and push_fresh: "good q \<Longrightarrow> snd (push_op e s q) \<notin> fst ` set (line q)"
    and good_settle: "good q \<Longrightarrow> good (settle_op p e q)"
    and line_settle: "good q \<Longrightarrow>
      line (settle_op p e q) =
        map (\<lambda>(p', it). (p', if p' = p then settled_item e it else it)) (line q)"
    and good_trash: "good q \<Longrightarrow> good (trash_op p q)"
    and line_trash: "good q \<Longrightarrow>
      line (trash_op p q) =
        map (\<lambda>(p', it). (p', if p' = p then trashed_item it else it)) (line q)"
    and take_spec: "good q \<Longrightarrow>
      \<exists>q'. take_op all q = Some (q', outputs (takeWhile (ready all) (line q))) \<and> good q'
         \<and> line q' = dropWhile (ready all) (line q)"
    and distinct_line: "good q \<Longrightarrow> distinct (map fst (line q))"
begin

lemma take_conserves:
  assumes "good q"
  obtains q' out gone where "take_op all q = Some (q', out)" "good q'"
    "line q = gone @ line q'" "out = outputs gone"
proof -
  from take_spec [OF assms, of all] obtain q' where
    "take_op all q = Some (q', outputs (takeWhile (ready all) (line q)))" "good q'"
    "line q' = dropWhile (ready all) (line q)" by blast
  then show ?thesis
    by (intro that [of q' "outputs (takeWhile (ready all) (line q))" "takeWhile (ready all) (line q)"])
       simp_all
qed

lemma drain_takes_all:
  assumes "good q"
  shows "\<exists>q'. take_op True q = Some (q', outputs (line q)) \<and> good q' \<and> line q' = []"
  using take_spec [OF assms, of True] by (auto simp: ready_all)

lemma release_stops_at_unsettled:
  assumes "good q" "line q = (p, it) # rest" "\<not> settled it"
  shows "\<exists>q'. take_op False q = Some (q', []) \<and> line q' = line q"
  using take_spec [OF assms(1), of False] assms by (auto simp: ready_def outputs_def)

lemma settle_frees_the_front:
  assumes "good q" "line q = (p, it) # rest" "\<not> skip it"
  shows "\<exists>q' out. take_op False (settle_op p e q) = Some (q', Some e # out)"
proof -
  let ?set = "\<lambda>(p', it). (p', if p' = p then settled_item e it else it)"
  have "line (settle_op p e q) = (p, settled_item e it) # map ?set rest"
    using assms by (simp add: line_settle)
  with take_spec [OF good_settle [OF assms(1)], of False p e] assms(3) show ?thesis
    by (auto simp: ready_def outputs_def settled_item_def)
qed

end

lemma good_new: "good_queue new_queue"
  by (simp add: good_queue_def new_queue_def ring_def ptrs_def roomy_def)

lemma good_queue_push: "good_queue q \<Longrightarrow> good_queue (fst (push e s q))"
proof -
  assume g: "good_queue q"
  then have "ring (fst (push e s q)) (ptrs q @ [snd (push e s q)])" "roomy (fst (push e s q))"
    by (auto simp: good_queue_def intro: ring_push roomy_push)
  moreover have "store (fst (push e s q)) = store q @ [\<lparr>it_ev = Some e, settled = s, skip = False\<rparr>]"
    by (simp add: push_def Let_def)
  ultimately show ?thesis using g by (auto simp: good_queue_def ring_ptrs)
qed

lemma snd_push [simp]: "snd (push e s q) = length (store q)"
  by (simp add: push_def Let_def)

lemma store_push [simp]:
  "store (fst (push e s q)) = store q @ [\<lparr>it_ev = Some e, settled = s, skip = False\<rparr>]"
  by (simp add: push_def Let_def)

lemma good_ptrs: "good_queue q \<Longrightarrow> p \<in> set (ptrs q) \<Longrightarrow> p < length (store q)"
  by (simp add: good_queue_def ring_def)

lemma ptrs_push: "good_queue q \<Longrightarrow> ptrs (fst (push e s q)) = ptrs q @ [length (store q)]"
  using ring_ptrs [OF ring_push, of q "ptrs q" e s] by (simp add: good_queue_def)

lemma good_store_update:
  assumes "good_queue q" "skip it \<or> it_ev it \<noteq> None"
  shows "good_queue (q\<lparr>store := (store q)[p := it]\<rparr>)" and "ptrs (q\<lparr>store := (store q)[p := it]\<rparr>) = ptrs q"
proof -
  show p: "ptrs (q\<lparr>store := (store q)[p := it]\<rparr>) = ptrs q" by (simp add: ptrs_def)
  have "set ((store q)[p := it]) \<subseteq> insert it (set (store q))" by (rule set_update_subset_insert)
  with assms p show "good_queue (q\<lparr>store := (store q)[p := it]\<rparr>)"
    by (auto simp: good_queue_def ring_def roomy_def)
qed

lemma good_pop_all:
  assumes "ring q ps" "roomy q"
  shows "take_line all q = Some (q', out) \<Longrightarrow> roomy q'"
  using assms
proof (induction ps arbitrary: q out)
  case Nil
  then show ?case by (simp add: take_line.simps [of all q] ring_length)
next
  case (Cons p ps)
  note front = ring_front(1) [OF Cons.prems(2)] ring_pop_front [OF Cons.prems(2)]
    roomy_pop_front [OF Cons.prems(2,3)]
  show ?case
    using Cons.prems front Cons.IH [OF _ front(2,3)]
    by (auto simp: take_line.simps [of all q] Let_def ring_length split: if_splits option.splits)
qed

interpretation ring_line: event_line push settle trash take_line line_of good_queue
proof (unfold_locales, goal_cases)
  case (1 q e s) then show ?case by (rule good_queue_push)
next
  case (2 q e s)
  then show ?case
    by (auto simp: line_of_def ptrs_push nth_append fresh_item_def dest: good_ptrs)
next
  case (3 q e s) then show ?case by (auto simp: line_of_def dest: good_ptrs)
next
  case (4 q p e)
  then show ?case by (simp add: settle_def good_store_update)
next
  case (5 q p e)
  then show ?case
    by (auto simp: settle_def line_of_def good_store_update settled_item_def nth_list_update
        dest: good_ptrs)
next
  case (6 q p)
  then show ?case by (simp add: trash_def good_store_update)
next
  case (7 q p)
  then show ?case
    by (auto simp: trash_def line_of_def good_store_update trashed_item_def nth_list_update
        dest: good_ptrs)
next
  case (8 q all)
  then have r: "ring q (ptrs q)" and m: "roomy q" by (auto simp: good_queue_def)
  from take_line_ring [OF r, of all] obtain q' where
    t: "take_line all q = Some (q', map (\<lambda>p. it_ev (store q ! p))
          (filter (\<lambda>p. \<not> skip (store q ! p)) (takeWhile (\<lambda>p. all \<or> settled (store q ! p)) (ptrs q))))"
    and r': "ring q' (dropWhile (\<lambda>p. all \<or> settled (store q ! p)) (ptrs q))" and s: "store q' = store q"
    by blast
  have "good_queue q'" using 8 r' s good_pop_all [OF r m t] by (simp add: good_queue_def ring_ptrs)
  with t s ring_ptrs [OF r'] show ?case
    by (auto simp: line_of_def outputs_def ready_def takeWhile_map dropWhile_map filter_map comp_def)
next
  case (9 q) then show ?case by (simp add: line_of_def comp_def good_queue_def ring_def)
qed

subsection \<open>Runs of the queue\<close>

datatype 'e qop = QPush 'e bool | QSettle nat 'e | QTrash nat | QRelease | QDrain

fun qstep :: "'e qop \<Rightarrow> 'e queue \<Rightarrow> ('e queue \<times> 'e option list) option" where
  "qstep (QPush e s) q = Some (fst (push e s q), [])"
| "qstep (QSettle p e) q = Some (settle p e q, [])"
| "qstep (QTrash p) q = Some (trash p q, [])"
| "qstep QRelease q = release q"
| "qstep QDrain q = drain q"

fun qrun :: "'e qop list \<Rightarrow> 'e queue \<Rightarrow> ('e queue \<times> 'e option list) option" where
  "qrun [] q = Some (q, [])"
| "qrun (x # xs) q =
     (case qstep x q of
        None \<Rightarrow> None
      | Some (q1, out) \<Rightarrow>
          (case qrun xs q1 of None \<Rightarrow> None | Some (q2, out') \<Rightarrow> Some (q2, out @ out')))"

definition in_order :: "'e queue \<Rightarrow> bool" where
  "in_order q \<longleftrightarrow> good_queue q \<and> (\<exists>k. ptrs q = [k..<length (store q)])"

lemma dropWhile_upt: "\<exists>j. dropWhile P [k..<n] = [j..<n]"
  by (metis dropWhile_eq_drop drop_upt)

lemma upt_snoc: "\<exists>j. [k..<n] @ [n] = [j..<Suc n]"
  by (cases "k \<le> n") (auto intro: exI [of _ k] exI [of _ n])

lemma take_line_good:
  assumes "in_order q"
  shows "\<exists>q' out. take_line all q = Some (q', out) \<and> in_order q' \<and> None \<notin> set out"
proof -
  have g: "good_queue q" and r: "ring q (ptrs q)" using assms by (auto simp: in_order_def good_queue_def)
  from take_line_ring [OF r, of all] obtain q' out where
    t: "take_line all q = Some (q', out)" and
    o: "out = map (\<lambda>p. it_ev (store q ! p))
          (filter (\<lambda>p. \<not> skip (store q ! p)) (takeWhile (\<lambda>p. all \<or> settled (store q ! p)) (ptrs q)))"
    and r': "ring q' (dropWhile (\<lambda>p. all \<or> settled (store q ! p)) (ptrs q))" and s: "store q' = store q"
    by blast
  have "good_queue q'"
    using ring_line.take_spec [OF g, of all] t by auto
  moreover have "\<exists>k. ptrs q' = [k..<length (store q')]"
    using assms dropWhile_upt by (fastforce simp: in_order_def ring_ptrs [OF r'] s)
  moreover have "None \<notin> set out"
    using g by (fastforce simp: o good_queue_def dest: set_takeWhileD good_ptrs [OF g])
  ultimately show ?thesis using t by (auto simp: in_order_def)
qed

lemma qstep_good:
  assumes "in_order q"
  shows "\<exists>q' out. qstep x q = Some (q', out) \<and> in_order q' \<and> None \<notin> set out"
proof (cases x)
  case (QPush e s)
  with assms have "good_queue q" and "ptrs (fst (push e s q)) = ptrs q @ [length (store q)]"
    and "\<exists>k. ptrs q = [k..<length (store q)]"
    by (auto simp: in_order_def ptrs_push)
  moreover from this(2,3) have "\<exists>k. ptrs (fst (push e s q)) = [k..<Suc (length (store q))]"
    by (metis upt_snoc)
  ultimately show ?thesis
    using QPush good_queue_push [of q e s] by (simp add: in_order_def)
next
  case QRelease then show ?thesis using take_line_good [OF assms] by (simp add: release_def)
next
  case QDrain then show ?thesis using take_line_good [OF assms] by (simp add: drain_def)
qed (use assms in \<open>auto simp: in_order_def settle_def trash_def good_store_update\<close>)

lemma in_order_new: "in_order new_queue"
  using good_new by (auto simp: in_order_def) (simp add: new_queue_def ptrs_def)

lemma qrun_good:
  "in_order q \<Longrightarrow> \<exists>q' out. qrun xs q = Some (q', out) \<and> in_order q' \<and> None \<notin> set out"
proof (induction xs arbitrary: q)
  case (Cons x xs)
  from qstep_good [OF Cons.prems, of x] Cons.IH show ?case by fastforce
qed simp

text \<open>
  C15.  A release takes exactly the longest finished prefix of the line: what
  comes out are the events of its items that were not trashed, in arrival
  order, what stays is the rest of the line, and nothing behind an unfinished
  read overtakes it.  The nil dereference of an empty slot never happens.
\<close>

theorem release_takes_settled_prefix:
  assumes "good_queue q"
  shows "\<exists>q'. release q = Some (q', outputs (takeWhile (ready False) (line_of q)))
       \<and> line_of q' = dropWhile (ready False) (line_of q) \<and> good_queue q'"
  using ring_line.take_spec [OF assms, of False] by (auto simp: release_def)

theorem release_takes_settled_prefix_witness:
  "\<exists>q'. release (fst (push (7::nat) True new_queue)) = Some (q', [Some 7]) \<and> line_of q' = []"
proof -
  have g: "good_queue (fst (push (7::nat) True new_queue))" by (rule good_queue_push [OF good_new])
  have l: "line_of (fst (push (7::nat) True new_queue)) = [(0, fresh_item 7 True)]"
    using ring_line.line_push [OF good_new, of "7::nat" True]
    by (simp add: new_queue_def line_of_def ptrs_def)
  show ?thesis
    using release_takes_settled_prefix [OF g]
    by (auto simp: l ready_def outputs_def fresh_item_def)
qed

text \<open>
  C3.  However pushes, settles, trashes, releases and drains interleave from an
  empty queue, no operation panics, every event handed on is a real one, and
  the line is always the unbroken run of the latest arrivals: an item leaves
  only after every earlier arrival has left.
\<close>

theorem queue_never_overtakes:
  "\<exists>q out k. qrun xs new_queue = Some (q, out) \<and> None \<notin> set out
     \<and> ptrs q = [k..<length (store q)]"
  using qrun_good [OF in_order_new, of xs] by (auto simp: in_order_def)

text \<open>
  The ring never keeps more than four slots per held event once it has
  four slots, and its size is always a power of two, whatever sequence of
  operations built it.
\<close>

theorem ring_space_bound:
  "\<exists>q out. qrun xs new_queue = Some (q, out) \<and>
     (items q = [] \<or> (\<exists>k. length (items q) = 2 ^ k)) \<and>
     length (items q) \<le> 4 * qcount q + 3"
proof -
  obtain q out where q: "qrun xs new_queue = Some (q, out)" "in_order q"
    using qrun_good [OF in_order_new, of xs] by blast
  then have "roomy q" by (simp add: in_order_def good_queue_def)
  then have "items q = [] \<or> (\<exists>k. length (items q) = 2 ^ k)" "length (items q) \<le> 4 * qcount q + 3"
    by (auto simp: roomy_def)
  with q show ?thesis by blast
qed
end
