(* ===== verification/Event.thy ===== *)
theory Event
  imports Prelude
begin

unbundle bit_operations_syntax

text \<open>
  The vocabulary the event chain shares (\<open>ievent/iutil\<close>): errors with a
  sentinel, what one read of a project, a network or an instance amounts to, and
  the event itself with its derived copies and its two comparisons.  A nil
  pointer is \<open>None\<close>; a string-keyed map is an association list.
\<close>

subsection \<open>Maps compared the way the standard library compares them\<close>

definition maps_equal :: "('v \<Rightarrow> 'v \<Rightarrow> bool) \<Rightarrow> ('k \<times> 'v) list \<Rightarrow> ('k \<times> 'v) list \<Rightarrow> bool" where
  \<comment> \<open>\<open>maps.EqualFunc\<close>: equal lengths, and every key of the first is equal in the second.\<close>
  "maps_equal eq m1 m2 \<longleftrightarrow> length m1 = length m2 \<and>
     list_all (\<lambda>(k, v). case map_of m2 k of None \<Rightarrow> False | Some v' \<Rightarrow> eq v v') m1"

subsection \<open>Errors (iutil/error.go)\<close>

text \<open>
  \<open>SentinelErr\<close> is \<open>iutil.Error\<close>: the sentinel's text stands for its pointer.
  \<open>PlainErr\<close> is an \<open>errors.New\<close> value, told apart by identity, and
  \<open>WrapErr\<close> an \<open>fmt.Errorf\<close> with \<open>%w\<close>.
\<close>

datatype goerr =
    SentinelErr (sentinel: string) (err_by: string) (err_wrapped: "goerr option")
  | PlainErr nat
  | WrapErr nat goerr

definition NewError :: "string \<Rightarrow> goerr" where
  "NewError text = SentinelErr text [] None"

fun WithBy :: "goerr \<Rightarrow> string \<Rightarrow> goerr" where
  "WithBy (SentinelErr s b w) by' = SentinelErr s by' w"
| "WithBy e by' = e"

fun Wrap :: "goerr \<Rightarrow> goerr \<Rightarrow> goerr" where
  "Wrap (SentinelErr s b w) inner = SentinelErr s b (Some inner)"
| "Wrap e inner = e"

definition ErrFailed :: goerr where "ErrFailed = NewError ''Failed''"
definition ErrDropped :: goerr where "ErrDropped = NewError ''Dropped''"

fun err_matches :: "goerr \<Rightarrow> goerr \<Rightarrow> bool" where
  \<comment> \<open>Same pointer, or the \<open>Is\<close> method of \<open>iutil.Error\<close> says so.\<close>
  "err_matches (SentinelErr s _ _) (SentinelErr s' _ _) = (s = s')"
| "err_matches (PlainErr a) (PlainErr b) = (a = b)"
| "err_matches (WrapErr a _) (WrapErr b _) = (a = b)"
| "err_matches _ _ = False"

fun err_chain :: "goerr \<Rightarrow> goerr list" where
  \<comment> \<open>The error and everything \<open>errors.Unwrap\<close> reaches from it.\<close>
  "err_chain (SentinelErr s b None) = [SentinelErr s b None]"
| "err_chain (SentinelErr s b (Some e)) = SentinelErr s b (Some e) # err_chain e"
| "err_chain (PlainErr a) = [PlainErr a]"
| "err_chain (WrapErr a e) = WrapErr a e # err_chain e"

definition errors_Is :: "goerr option \<Rightarrow> goerr option \<Rightarrow> bool" where
  "errors_Is err target =
     (case (err, target) of
        (Some e, Some t) \<Rightarrow> list_ex (\<lambda>x. err_matches x t) (err_chain e)
      | (None, None) \<Rightarrow> True
      | _ \<Rightarrow> False)"

subsection \<open>Networks, interfaces, instances, projects\<close>

definition NetworkKey :: "string \<Rightarrow> string \<Rightarrow> string" where
  "NetworkKey project name = project @ ''/'' @ name"

record network =
  net_name :: string
  net_project :: string
  net_managed :: bool
  net_ipv4 :: string
  net_ipv6 :: string

definition NewNetwork :: "string \<Rightarrow> string \<Rightarrow> bool \<Rightarrow> string \<Rightarrow> string \<Rightarrow> network" where
  "NewNetwork n p m v4 v6 =
     \<lparr>net_name = n, net_project = p, net_managed = m, net_ipv4 = v4, net_ipv6 = v6\<rparr>"

definition network_equal :: "network option \<Rightarrow> network option \<Rightarrow> bool" where
  "network_equal n other =
     (case (n, other) of
        (Some a, Some b) \<Rightarrow>
          net_name a = net_name b \<and> net_project a = net_project b \<and> net_managed a = net_managed b
          \<and> net_ipv4 a = net_ipv4 b \<and> net_ipv6 a = net_ipv6 b
      | (None, None) \<Rightarrow> True
      | _ \<Rightarrow> False)"

record iface =
  if_project :: string
  if_network :: string
  if_managed :: bool
  if_ipv4 :: "string list"
  if_ipv6 :: "string list"

definition NewInstanceInterface ::
  "string \<Rightarrow> string \<Rightarrow> bool \<Rightarrow> string list \<Rightarrow> string list \<Rightarrow> iface" where
  "NewInstanceInterface p n m v4 v6 =
     \<lparr>if_project = p, if_network = n, if_managed = m, if_ipv4 = v4, if_ipv6 = v6\<rparr>"

definition iface_equal :: "iface \<Rightarrow> iface \<Rightarrow> bool" where
  "iface_equal a b \<longleftrightarrow>
     \<not> (if_project a \<noteq> if_project b \<or> if_network a \<noteq> if_network b \<or> if_managed a \<noteq> if_managed b
        \<or> if_ipv4 a \<noteq> if_ipv4 b \<or> if_ipv6 a \<noteq> if_ipv6 b)"

record inst =
  inst_running :: bool
  inst_config :: "(string \<times> string) list"
  inst_ifaces :: "iface list"
  inst_networks :: "(string \<times> network) list"

definition NewInstance ::
  "bool \<Rightarrow> (string \<times> string) list \<Rightarrow> iface list \<Rightarrow> (string \<times> network) list \<Rightarrow> inst" where
  "NewInstance r c is ns =
     \<lparr>inst_running = r, inst_config = c, inst_ifaces = is, inst_networks = ns\<rparr>"

definition Running :: "inst option \<Rightarrow> bool" where
  "Running i = (case i of None \<Rightarrow> False | Some x \<Rightarrow> inst_running x)"

definition ConfigValue :: "inst option \<Rightarrow> string \<Rightarrow> string option" where
  \<comment> \<open>\<open>None\<close> is the \<open>("", false)\<close> answer.\<close>
  "ConfigValue i k = (case i of None \<Rightarrow> None | Some x \<Rightarrow> map_of (inst_config x) k)"

definition Interfaces :: "inst option \<Rightarrow> iface list" where
  "Interfaces i = (case i of None \<Rightarrow> [] | Some x \<Rightarrow> inst_ifaces x)"

definition instance_equal_nonets :: "inst option \<Rightarrow> inst option \<Rightarrow> bool" where
  "instance_equal_nonets i other =
     (case (i, other) of
        (Some a, Some b) \<Rightarrow>
          inst_running a = inst_running b \<and> maps_equal (=) (inst_config a) (inst_config b)
      | (None, None) \<Rightarrow> True
      | _ \<Rightarrow> False)"

definition instance_equal :: "inst option \<Rightarrow> inst option \<Rightarrow> bool" where
  "instance_equal i other =
     (case (i, other) of
        (Some a, Some b) \<Rightarrow>
          inst_running a = inst_running b \<and> maps_equal (=) (inst_config a) (inst_config b)
          \<and> list_all2 iface_equal (inst_ifaces a) (inst_ifaces b)
          \<and> maps_equal (\<lambda>m n. network_equal (Some m) (Some n)) (inst_networks a) (inst_networks b)
      | (None, None) \<Rightarrow> True
      | _ \<Rightarrow> False)"

type_synonym config = "(string \<times> string) list"

definition project_equal :: "config option \<Rightarrow> config option \<Rightarrow> bool" where
  \<comment> \<open>A project read is its configuration.\<close>
  "project_equal p other =
     (case (p, other) of
        (Some a, Some b) \<Rightarrow> maps_equal (=) a b
      | (None, None) \<Rightarrow> True
      | _ \<Rightarrow> False)"

subsection \<open>Enrichment bits\<close>

type_synonym enrichment = "8 word"

definition EnrichedInstance :: enrichment where "EnrichedInstance = 1"
definition EnrichedInstanceWithInterfaces :: enrichment where "EnrichedInstanceWithInterfaces = 2"
definition EnrichedNetwork :: enrichment where "EnrichedNetwork = 4"
definition EnrichedProject :: enrichment where "EnrichedProject = 8"

lemmas enrichment_bits = EnrichedInstance_def EnrichedInstanceWithInterfaces_def
  EnrichedNetwork_def EnrichedProject_def

definition hex_digit :: "nat \<Rightarrow> string" where
  "hex_digit n = [''0123456789abcdef'' ! n]"

definition hex_byte :: "nat \<Rightarrow> string" where
  \<comment> \<open>\<open>%#x\<close> of a byte.\<close>
  "hex_byte n = ''0x'' @ (if n < 16 then hex_digit n else hex_digit (n div 16) @ hex_digit (n mod 16))"

fun go_join :: "string \<Rightarrow> string list \<Rightarrow> string" where
  \<comment> \<open>\<open>strings.Join\<close>.\<close>
  "go_join sep [] = []"
| "go_join sep [x] = x"
| "go_join sep (x # y # xs) = x @ sep @ go_join sep (y # xs)"

definition enrichment_names :: "(enrichment \<times> string) list" where
  "enrichment_names =
     [(EnrichedInstance, ''instance''),
      (EnrichedInstanceWithInterfaces, ''instance-with-interfaces''),
      (EnrichedNetwork, ''network''), (EnrichedProject, ''project'')]"

definition enrichment_String :: "enrichment \<Rightarrow> string" where
  "enrichment_String e =
     (let named = filter (\<lambda>(b, _). e AND b \<noteq> 0) enrichment_names;
          rest = fold (\<lambda>(b, _) r. r AND NOT b) named e;
          out = map snd named @ (if rest \<noteq> 0 then [hex_byte (unat rest)] else [])
      in if out = [] then ''none'' else go_join '','' out)"

subsection \<open>The event (iutil/event.go)\<close>

datatype chain_state = ChainUnset | ChainCold | ChainWarm

record event =
  ev_action :: string
  ev_name :: string
  ev_oldName :: string
  ev_project :: string
  ev_err :: "goerr option"
  ev_chain :: chain_state
  ev_received :: int
  ev_enriched :: enrichment
  ev_proj :: "config option"
  ev_net :: "network option"
  ev_inst :: "inst option"

definition NewEvent :: "int \<Rightarrow> string \<Rightarrow> string \<Rightarrow> string \<Rightarrow> string \<Rightarrow> event" where
  "NewEvent at act proj nm old =
     \<lparr>ev_action = act, ev_name = nm, ev_oldName = old, ev_project = proj, ev_err = None,
      ev_chain = ChainUnset, ev_received = at, ev_enriched = 0,
      ev_proj = None, ev_net = None, ev_inst = None\<rparr>"

definition WithChainState :: "chain_state \<Rightarrow> event \<Rightarrow> event" where
  "WithChainState c e = e\<lparr>ev_chain := c\<rparr>"

definition WithDropped :: "string \<Rightarrow> event \<Rightarrow> event" where
  "WithDropped who e = (if ev_err e \<noteq> None then e else e\<lparr>ev_err := Some (WithBy ErrDropped who)\<rparr>)"

definition WithFailed :: "goerr \<Rightarrow> event \<Rightarrow> event" where
  "WithFailed reason e =
     (if ev_err e \<noteq> None then e else e\<lparr>ev_err := Some (Wrap ErrFailed reason)\<rparr>)"

definition WithInstance :: "inst \<Rightarrow> bool \<Rightarrow> event \<Rightarrow> event" where
  "WithInstance i complete e =
     e\<lparr>ev_enriched :=
         (ev_enriched e OR EnrichedInstance)
           OR (if complete then EnrichedInstanceWithInterfaces else 0),
       ev_inst := Some i\<rparr>"

definition WithProject :: "config \<Rightarrow> event \<Rightarrow> event" where
  "WithProject p e = e\<lparr>ev_proj := Some p, ev_enriched := ev_enriched e OR EnrichedProject\<rparr>"

definition Enriched :: "enrichment \<Rightarrow> event \<Rightarrow> bool" where
  "Enriched want e \<longleftrightarrow> ev_enriched e AND want = want"

definition baseEqual :: "event \<Rightarrow> event \<Rightarrow> bool" where
  "baseEqual e other \<longleftrightarrow>
     ev_action e = ev_action other \<and> ev_name e = ev_name other \<and> ev_oldName e = ev_oldName other
     \<and> ev_project e = ev_project other \<and> errors_Is (ev_err e) (ev_err other)
     \<and> ev_enriched e = ev_enriched other \<and> project_equal (ev_proj e) (ev_proj other)
     \<and> network_equal (ev_net e) (ev_net other)"

definition event_Equal :: "event option \<Rightarrow> event option \<Rightarrow> bool" where
  "event_Equal e other =
     (case (e, other) of
        (Some a, Some b) \<Rightarrow> baseEqual a b \<and> instance_equal (ev_inst a) (ev_inst b)
      | (None, None) \<Rightarrow> True
      | _ \<Rightarrow> False)"

definition event_EqualWithoutNets :: "event option \<Rightarrow> event option \<Rightarrow> bool" where
  "event_EqualWithoutNets e other =
     (case (e, other) of
        (Some a, Some b) \<Rightarrow> baseEqual a b \<and> instance_equal_nonets (ev_inst a) (ev_inst b)
      | (None, None) \<Rightarrow> True
      | _ \<Rightarrow> False)"

subsection \<open>Lemmas\<close>

lemma maps_equal_iff:
  assumes d1: "distinct (map fst m1)" and d2: "distinct (map fst m2)"
  shows "maps_equal (=) m1 m2 \<longleftrightarrow> map_of m1 = map_of m2"
proof
  assume e: "maps_equal (=) m1 m2"
  then have l: "length m1 = length m2" and sub: "\<And>k v. (k, v) \<in> set m1 \<Longrightarrow> map_of m2 k = Some v"
    by (auto simp: maps_equal_def list_all_iff split: option.splits)
  have "set m1 \<subseteq> set m2" using sub by (auto dest: map_of_SomeD)
  moreover have "card (set m1) = card (set m2)"
    using l d1 d2 by (metis distinct_card distinct_map)
  ultimately have "set m1 = set m2" by (simp add: card_subset_eq)
  then show "map_of m1 = map_of m2" using d1 d2 by (rule map_of_inject_set [THEN iffD2, rotated 2])
next
  assume e: "map_of m1 = map_of m2"
  then have "set m1 = set m2" using d1 d2 by (simp add: map_of_inject_set)
  then have "length m1 = length m2" using d1 d2 by (metis distinct_card distinct_map)
  with e d1 show "maps_equal (=) m1 m2"
    by (auto simp: maps_equal_def list_all_iff map_of_eq_Some_iff split: option.splits)
       (metis e map_of_is_SomeI option.distinct(1) option.inject)+
qed

lemma maps_equal_refl:
  "distinct (map fst m) \<Longrightarrow> (\<And>v. eq v v) \<Longrightarrow> maps_equal eq m m"
  by (auto simp: maps_equal_def list_all_iff map_of_is_SomeI)

lemma network_equal_iff [simp]: "network_equal m n \<longleftrightarrow> m = n"
  by (cases m; cases n) (auto simp: network_equal_def)

lemma iface_equal_iff [simp]: "iface_equal a b \<longleftrightarrow> a = b"
  by (auto simp: iface_equal_def)

definition wf_inst :: "inst \<Rightarrow> bool" where
  "wf_inst i \<longleftrightarrow> distinct (map fst (inst_config i)) \<and> distinct (map fst (inst_networks i))"

definition wf_event :: "event \<Rightarrow> bool" where
  "wf_event e \<longleftrightarrow> (\<forall>i. ev_inst e = Some i \<longrightarrow> wf_inst i) \<and>
     (\<forall>p. ev_proj e = Some p \<longrightarrow> distinct (map fst p))"

definition inst_content where
  "inst_content i = (inst_running i, map_of (inst_config i), inst_ifaces i, map_of (inst_networks i))"

definition event_content where
  \<comment> \<open>What an event says about its subject: everything but when it came and the chain's state.\<close>
  "event_content e =
     (ev_action e, ev_name e, ev_oldName e, ev_project e, ev_enriched e,
      map_option map_of (ev_proj e), ev_net e, map_option inst_content (ev_inst e))"

lemma iface_equal_eq: "iface_equal = (=)"
  by (intro ext) simp

lemma network_equal_eq: "(\<lambda>m n. network_equal (Some m) (Some n)) = (=)"
  by (intro ext) simp

lemma instance_equal_iff:
  "wf_inst a \<Longrightarrow> wf_inst b \<Longrightarrow> instance_equal (Some a) (Some b) \<longleftrightarrow> inst_content a = inst_content b"
  by (simp add: instance_equal_def wf_inst_def inst_content_def maps_equal_iff list.rel_eq
      iface_equal_eq network_equal_eq)

lemma instance_equal_option:
  assumes "\<forall>i. x = Some i \<longrightarrow> wf_inst i" "\<forall>i. y = Some i \<longrightarrow> wf_inst i"
  shows "instance_equal x y \<longleftrightarrow> map_option inst_content x = map_option inst_content y"
  using assms by (cases x; cases y) (simp_all add: instance_equal_iff, simp_all add: instance_equal_def)

lemma project_equal_option:
  assumes "\<forall>p. x = Some p \<longrightarrow> distinct (map fst p)" "\<forall>p. y = Some p \<longrightarrow> distinct (map fst p)"
  shows "project_equal x y \<longleftrightarrow> map_option map_of x = map_option map_of y"
  using assms by (cases x; cases y) (simp_all add: project_equal_def maps_equal_iff)

lemma errors_Is_None [simp]: "errors_Is None None"
  by (simp add: errors_Is_def)

lemma err_chain_self: "e \<in> set (err_chain e)"
  by (cases e rule: err_chain.cases) simp_all

lemma err_matches_refl [simp]: "err_matches e e"
  by (cases e) simp_all

lemma errors_Is_refl [simp]: "errors_Is e e"
  using err_chain_self by (cases e) (auto simp: errors_Is_def list_ex_iff intro!: bexI)

lemma errors_Is_Wrap: "errors_Is (Some (Wrap (NewError s) r)) (Some (NewError s))"
  by (cases r) (simp_all add: errors_Is_def NewError_def)

lemma errors_Is_WithBy: "errors_Is (Some (WithBy (NewError s) r)) (Some (NewError s))"
  by (simp add: errors_Is_def NewError_def)

subsection \<open>Properties\<close>

text \<open>
  Two error-free events compare equal exactly when they say the same thing
  about the same subject: action, names, project, which reads landed and what
  each read found, with maps compared as maps whatever their order.  When the
  event came and the chain's state do not matter.
\<close>

theorem event_Equal_iff_content:
  assumes "wf_event a" "wf_event b" "ev_err a = None" "ev_err b = None"
  shows "event_Equal (Some a) (Some b) \<longleftrightarrow> event_content a = event_content b"
proof -
  have i: "instance_equal (ev_inst a) (ev_inst b)
      \<longleftrightarrow> map_option inst_content (ev_inst a) = map_option inst_content (ev_inst b)"
    using assms by (intro instance_equal_option) (auto simp: wf_event_def)
  have p: "project_equal (ev_proj a) (ev_proj b)
      \<longleftrightarrow> map_option map_of (ev_proj a) = map_option map_of (ev_proj b)"
    using assms by (intro project_equal_option) (auto simp: wf_event_def)
  show ?thesis
    using assms(3,4) by (auto simp: event_Equal_def baseEqual_def event_content_def i p)
qed

theorem event_Equal_iff_content_witness:
  "event_Equal (Some (NewEvent 1 ''instance-started'' ''p'' ''a'' []))
     (Some (WithChainState ChainWarm (NewEvent 2 ''instance-started'' ''p'' ''a'' [])))"
  using event_Equal_iff_content [of "NewEvent 1 ''instance-started'' ''p'' ''a'' []"
      "WithChainState ChainWarm (NewEvent 2 ''instance-started'' ''p'' ''a'' [])"]
  by (simp add: wf_event_def NewEvent_def WithChainState_def event_content_def)

text \<open>
  The first verdict on an event stands: once it is dropped or failed,
  neither mark changes it again, and while it carries no error each mark makes
  it carry the matching sentinel, whatever reason or name was given.
\<close>

theorem first_verdict_stands:
  "WithDropped w (WithFailed r e) = WithFailed r e
   \<and> WithFailed r (WithDropped w e) = WithDropped w e
   \<and> (ev_err e = None \<longrightarrow>
        errors_Is (ev_err (WithFailed r e)) (Some ErrFailed)
        \<and> errors_Is (ev_err (WithDropped w e)) (Some ErrDropped)
        \<and> \<not> errors_Is (ev_err (WithDropped w e)) (Some ErrFailed))"
proof (intro conjI impI)
  assume "ev_err e = None"
  then show "errors_Is (ev_err (WithFailed r e)) (Some ErrFailed)"
    and "errors_Is (ev_err (WithDropped w e)) (Some ErrDropped)"
    and "\<not> errors_Is (ev_err (WithDropped w e)) (Some ErrFailed)"
    by (simp_all add: WithFailed_def WithDropped_def ErrFailed_def ErrDropped_def
        errors_Is_Wrap errors_Is_WithBy) (simp add: NewError_def errors_Is_def)
qed (auto simp: WithDropped_def WithFailed_def)

theorem first_verdict_stands_witness:
  "ev_err (NewEvent 0 ''a'' ''p'' ''n'' []) = None \<and>
   errors_Is (ev_err (WithFailed (PlainErr 3) (NewEvent 0 ''a'' ''p'' ''n'' []))) (Some ErrFailed)"
  using first_verdict_stands [of "''x''" "PlainErr 3" "NewEvent 0 ''a'' ''p'' ''n'' []"]
  by (simp add: NewEvent_def)

lemma Enriched_WithInstance:
  "Enriched EnrichedInstance (WithInstance i c e)"
  "Enriched EnrichedInstanceWithInterfaces (WithInstance i True e)"
  by (auto simp: Enriched_def WithInstance_def bit_eq_iff bit_simps)

end
