(* ===== verification/Chain.thy ===== *)
theory Chain
  imports Event
begin

text \<open>
  The source of the chain (\<open>ievent/source\<close>): the union of what the plugins
  want, the chain wired backwards, one session of the event stream, the
  commands plugins raise, the reconnect backoff, and the drain.  Reading the
  stream itself is the connection's; a session here is the sequence of what its
  \<open>select\<close> picks.  \<open>raw_lc\<close> is the outcome of \<open>iclient.LifecycleEvent\<close> on the
  raw event, \<open>None\<close> where that reports an error.
\<close>

subsection \<open>Wants\<close>

record want =
  w_action :: string
  w_enrich :: enrichment
  w_debounce :: bool

type_synonym wants = "(string \<times> want) list"

definition zero_want :: want where
  "zero_want = \<lparr>w_action = [], w_enrich = 0, w_debounce = False\<rparr>"

definition wanted :: "wants \<Rightarrow> string \<Rightarrow> want" where
  \<comment> \<open>Indexing a Go map: a missing key reads as the zero value.\<close>
  "wanted ws a = (case map_of ws a of Some w \<Rightarrow> w | None \<Rightarrow> zero_want)"

definition add_want :: "want \<Rightarrow> wants \<Rightarrow> wants" where
  "add_want w ws =
     (case map_of ws (w_action w) of
        None \<Rightarrow> AList.update (w_action w) w ws
      | Some was \<Rightarrow> AList.update (w_action w)
          (was\<lparr>w_enrich := w_enrich was OR w_enrich w,
               w_debounce := w_debounce was \<and> w_debounce w\<rparr>) ws)"

subsection \<open>Wiring\<close>

record plugin =
  p_id :: nat
  p_name :: string
  p_wants :: "want list"
  p_runs :: bool
  p_setup :: "goerr option"

record plugged =
  pl_plugin :: plugin
  pl_next :: "nat option"
  pl_done :: bool

record source =
  src_wants :: wants
  src_chain :: chain_state
  src_plugins :: "plugged list"
  src_head :: "nat option"

datatype new_error = ListedTwice string | SetupFailed string goerr

fun gather_wants :: "plugin list \<Rightarrow> nat list \<Rightarrow> wants \<Rightarrow> new_error + wants" where
  "gather_wants [] seen ws = Inr ws"
| "gather_wants (p # ps) seen ws =
     (if p_id p \<in> set seen then Inl (ListedTwice (p_name p))
      else gather_wants ps (p_id p # seen) (fold add_want (p_wants p) ws))"

fun wire :: "plugin list \<Rightarrow> nat option \<Rightarrow> new_error + plugged list \<times> nat option" where
  \<comment> \<open>From the last plugin to the first: \<open>ps\<close> is the chain reversed, \<open>nxt\<close> the successor.\<close>
  "wire [] nxt = Inr ([], nxt)"
| "wire (p # ps) nxt =
     (case p_setup p of
        Some e \<Rightarrow> Inl (SetupFailed (p_name p) e)
      | None \<Rightarrow>
          (case wire ps (Some (p_id p)) of
             Inl e \<Rightarrow> Inl e
           | Inr (pls, h) \<Rightarrow>
               Inr (pls @ [\<lparr>pl_plugin = p, pl_next = nxt, pl_done = \<not> p_runs p\<rparr>], h)))"

definition New :: "plugin list \<Rightarrow> new_error + source" where
  "New ps =
     (case gather_wants ps [] [] of
        Inl e \<Rightarrow> Inl e
      | Inr ws \<Rightarrow>
          (case wire (rev ps) None of
             Inl e \<Rightarrow> Inl e
           | Inr (pls, h) \<Rightarrow>
               Inr \<lparr>src_wants = ws, src_chain = ChainCold, src_plugins = pls, src_head = h\<rparr>))"

subsection \<open>Events, commands, one session\<close>

definition ActionConnected :: string where "ActionConnected = ''source/connected''"
definition ActionDisconnected :: string where "ActionDisconnected = ''source/disconnected''"
definition ActionSweepEnd :: string where "ActionSweepEnd = ''enricher/sweep-end''"
definition CommandDrain :: string where "CommandDrain = ''source/drain''"

record command =
  cmd_action :: string
  cmd_chain :: chain_state

record lifecycle =
  lc_action :: string
  lc_name :: string
  lc_old :: string

record raw_event =
  raw_project :: string
  raw_lc :: "lifecycle option"

definition decodeLifecycle :: "int \<Rightarrow> raw_event \<Rightarrow> event option" where
  \<comment> \<open>\<open>None\<close> is an error, the ignored ones included: \<open>route\<close> treats them alike.\<close>
  "decodeLifecycle now raw =
     (case raw_lc raw of
        None \<Rightarrow> None
      | Some lc \<Rightarrow>
          if lc_action lc = [] then None
          else if raw_project raw = [] then None
          else Some (NewEvent now (lc_action lc) (raw_project raw) (lc_name lc) (lc_old lc)))"

definition hand :: "source \<Rightarrow> event \<Rightarrow> event" where
  \<comment> \<open>What the head of the chain is given.\<close>
  "hand s ev = WithChainState (src_chain s) ev"

definition route :: "int \<Rightarrow> raw_event \<Rightarrow> source \<Rightarrow> source \<times> event list" where
  "route now raw s =
     (case decodeLifecycle now raw of
        None \<Rightarrow> (s, [])
      | Some ev \<Rightarrow>
          if map_of (src_wants s) (ev_action ev) = None then (s, []) else (s, [hand s ev]))"

definition apply_cmd :: "int \<Rightarrow> command \<Rightarrow> source \<Rightarrow> source \<times> event list" where
  "apply_cmd now cmd s =
     (let s1 = (if cmd_chain cmd \<noteq> ChainUnset then s\<lparr>src_chain := cmd_chain cmd\<rparr> else s)
      in if cmd_action cmd = [] then (s1, [])
         else (s1, [hand s1 (NewEvent now (cmd_action cmd) [] [] [])]))"

datatype session_in = SCmd int command | SRaw int raw_event

fun session_step :: "session_in \<Rightarrow> source \<Rightarrow> source \<times> event list" where
  "session_step (SCmd now cmd) s = apply_cmd now cmd s"
| "session_step (SRaw now raw) s = route now raw s"

definition session :: "int \<Rightarrow> int \<Rightarrow> session_in list option \<Rightarrow> source \<Rightarrow> source \<times> event list \<times> bool" where
  \<comment> \<open>\<open>None\<close>: the listener did not open.  The deferred disconnect runs on every way out.\<close>
  "session t0 t1 ins s =
     (case ins of
        None \<Rightarrow> (s, [], False)
      | Some xs \<Rightarrow>
          (let (s1, out) = run_steps session_step xs s;
               s2 = s1\<lparr>src_chain := ChainCold\<rparr>
           in (s2, [hand s (NewEvent t0 ActionConnected [] [] [])] @ out
                   @ [hand s2 (NewEvent t1 ActionDisconnected [] [] [])], True)))"

subsection \<open>Reconnecting and draining\<close>

definition minBackoff :: int where "minBackoff = 1000000000"
definition maxBackoff :: int where "maxBackoff = 60 * 1000000000"

fun backoffs :: "bool list \<Rightarrow> int \<Rightarrow> int list" where
  \<comment> \<open>How long \<open>Run\<close> waits after each session, given whether each opened.\<close>
  "backoffs [] b = []"
| "backoffs (opened # rest) b =
     (let b1 = (if opened then minBackoff else b)
      in b1 # backoffs rest (if opened then b1 else min (b1 * 2) maxBackoff))"

datatype drain_ev = Raised command | PluginDone | CtxDone

fun drain_wait :: "drain_ev list \<Rightarrow> bool option" where
  \<comment> \<open>\<open>Some True\<close>: answered, \<open>Some False\<close>: given up, \<open>None\<close>: still waiting.\<close>
  "drain_wait [] = None"
| "drain_wait (Raised cmd # es) =
     (if cmd_action cmd = CommandDrain then Some True else drain_wait es)"
| "drain_wait (PluginDone # es) = Some True"
| "drain_wait (CtxDone # es) = Some False"

fun drain_plugins :: "plugged list \<Rightarrow> drain_ev list list \<Rightarrow> nat list" where
  \<comment> \<open>Who is asked to finish, in order; \<open>es\<close> is what is heard from each.\<close>
  "drain_plugins [] es = []"
| "drain_plugins (pl # pls) es =
     (if pl_done pl then drain_plugins pls es
      else p_id (pl_plugin pl) #
        (case es of
           [] \<Rightarrow> []
         | e # es' \<Rightarrow> (if drain_wait e = Some True then drain_plugins pls es' else [])))"

subsection \<open>The contract of a plugin\<close>

text \<open>
  A plugin is handed events, keeps some for a while and hands each on.  Its
  contract, per lane (a key, or one lane for everything): what its own goroutine
  hands on, followed by what it still has, is what it had followed by what came
  in, verdicts aside.  An event refused at the door is marked dropped and passed
  straight on, so it is not part of a lane.
\<close>

definition strip :: "event \<Rightarrow> event" where
  \<comment> \<open>An event with the mark of its verdict erased: what makes it the same event.\<close>
  "strip e = e\<lparr>ev_err := None\<rparr>"

lemma strip_marks [simp]: "strip (WithDropped n e) = strip e" "strip (WithFailed r e) = strip e"
  by (simp_all add: strip_def WithDropped_def WithFailed_def)

definition on_lane :: "(event \<Rightarrow> 'k) \<Rightarrow> 'k \<Rightarrow> event list \<Rightarrow> event list" where
  "on_lane lane k es = map strip (filter (\<lambda>e. lane e = k) es)"

lemma on_lane_simps [simp]:
  "on_lane lane k [] = []" "on_lane lane k (xs @ ys) = on_lane lane k xs @ on_lane lane k ys"
  "on_lane lane k (x # xs) = (if lane x = k then strip x # on_lane lane k xs else on_lane lane k xs)"
  by (simp_all add: on_lane_def)

locale lane_stage =
  fixes step :: "'i \<Rightarrow> 's \<Rightarrow> 's \<times> event list"
    and kept :: "'i \<Rightarrow> 's \<Rightarrow> event list"
    and own :: "'i \<Rightarrow> 's \<Rightarrow> event list"
    and inside :: "'k \<Rightarrow> 's \<Rightarrow> event list"
    and lane :: "event \<Rightarrow> 'k"
    and ok :: "'s \<Rightarrow> bool"
  assumes ok_step: "ok s \<Longrightarrow> ok (fst (step i s))"
    and step_lane: "ok s \<Longrightarrow>
      on_lane lane k (own i s) @ inside k (fst (step i s)) = inside k s @ on_lane lane k (kept i s)"
begin

definition traced :: "'i \<Rightarrow> 's \<Rightarrow> 's \<times> (event list \<times> event list) list" where
  \<comment> \<open>A step with what it took in and what it handed on.\<close>
  "traced i s = (fst (step i s), [(kept i s, own i s)])"

lemma run_lane:
  "ok s \<Longrightarrow>
     on_lane lane k (concat (map snd (snd (run_steps traced is s))))
       @ inside k (fst (run_steps traced is s))
   = inside k s @ on_lane lane k (concat (map fst (snd (run_steps traced is s))))"
proof (induction "is" arbitrary: s)
  case (Cons i "is")
  have t: "fst (traced i s) = fst (step i s)" "snd (traced i s) = [(kept i s, own i s)]"
    by (simp_all add: traced_def)
  let ?r = "run_steps traced is (fst (step i s))"
  have "on_lane lane k (own i s) @ on_lane lane k (concat (map snd (snd ?r))) @ inside k (fst ?r)
      = (on_lane lane k (own i s) @ inside k (fst (step i s))) @ on_lane lane k (concat (map fst (snd ?r)))"
    by (simp add: Cons.IH [OF ok_step [OF Cons.prems, of i]])
  also have "\<dots> = inside k s @ on_lane lane k (kept i s) @ on_lane lane k (concat (map fst (snd ?r)))"
    by (simp add: step_lane [OF Cons.prems])
  finally show ?case by (simp add: t del: run_steps.simps(2))
qed simp

end

subsection \<open>Properties\<close>

definition declared :: "plugin list \<Rightarrow> string \<Rightarrow> want list" where
  \<comment> \<open>Every want any plugin declares for an action.\<close>
  "declared ps a = filter (\<lambda>w. w_action w = a) (concat (map p_wants ps))"

definition all_enrich :: "want list \<Rightarrow> enrichment" where
  "all_enrich ws = fold (\<lambda>w e. e OR w_enrich w) ws 0"

lemma fold_or: "fold (\<lambda>w e. e OR w_enrich w) ws x = x OR all_enrich ws"
  unfolding all_enrich_def
  by (induction ws rule: rev_induct) (simp_all add: or.assoc)

lemma all_enrich_append: "all_enrich (xs @ ys) = all_enrich xs OR all_enrich ys"
proof -
  have "all_enrich (xs @ ys) = fold (\<lambda>w e. e OR w_enrich w) ys (all_enrich xs)"
    by (simp add: all_enrich_def)
  then show ?thesis by (simp add: fold_or)
qed

definition union_of :: "want list \<Rightarrow> want option \<Rightarrow> bool" where
  "union_of ds w \<longleftrightarrow>
     (case w of
        None \<Rightarrow> ds = []
      | Some x \<Rightarrow> ds \<noteq> [] \<and> w_enrich x = all_enrich ds \<and> (w_debounce x \<longleftrightarrow> (\<forall>d \<in> set ds. w_debounce d)))"

lemma add_want_union:
  assumes "\<And>a. union_of (filter (\<lambda>w. w_action w = a) ds) (map_of ws a)"
  shows "union_of (filter (\<lambda>w. w_action w = a) (ds @ [w])) (map_of (add_want w ws) a)"
proof (cases "w_action w = a")
  case True
  with assms [of a] show ?thesis
    by (cases "map_of ws a")
       (auto simp: union_of_def add_want_def update_conv' all_enrich_append, auto simp: all_enrich_def)
next
  case False
  with assms [of a] show ?thesis
    by (auto simp: add_want_def update_conv' split: option.splits)
qed

lemma fold_add_want_union:
  assumes "\<And>a. union_of (filter (\<lambda>w. w_action w = a) ds) (map_of ws a)"
  shows "union_of (filter (\<lambda>w. w_action w = a) (ds @ xs)) (map_of (fold add_want xs ws) a)"
  using assms
proof (induction xs arbitrary: ds ws)
  case (Cons x xs)
  from Cons.IH [OF add_want_union [OF Cons.prems], of x] show ?case by simp
qed simp

lemma gather_wants_union:
  assumes "\<And>a. union_of (filter (\<lambda>w. w_action w = a) ds) (map_of ws a)"
    "gather_wants ps seen ws = Inr ws'"
  shows "union_of (filter (\<lambda>w. w_action w = a) (ds @ concat (map p_wants ps))) (map_of ws' a)"
  using assms
proof (induction ps arbitrary: seen ds ws)
  case (Cons p ps)
  from Cons.IH [OF fold_add_want_union [OF Cons.prems(1), where xs = "p_wants p"]] Cons.prems(2)
  show ?case by (simp split: if_splits)
qed simp

lemma gather_wants_distinct:
  "gather_wants ps seen ws = Inr ws' \<Longrightarrow>
     distinct (map p_id ps) \<and> set (map p_id ps) \<inter> set seen = {}"
proof (induction ps arbitrary: seen ws)
  case (Cons p ps)
  then have "p_id p \<notin> set seen" and "gather_wants ps (p_id p # seen) (fold add_want (p_wants p) ws) = Inr ws'"
    by (auto split: if_splits)
  with Cons.IH [OF this(2)] show ?case by auto
qed simp

text \<open>
  What the source reads for an action is what every plugin together asked
  for: the enrichment is the union of all declarations, a burst may be collapsed
  only where every plugin that named the action can live with it, and an action
  nobody declared has no entry at all.
\<close>

theorem wants_are_the_union:
  assumes "New ps = Inr s"
  shows "case map_of (src_wants s) a of
           None \<Rightarrow> declared ps a = []
         | Some w \<Rightarrow> declared ps a \<noteq> [] \<and> w_enrich w = all_enrich (declared ps a)
             \<and> (w_debounce w \<longleftrightarrow> (\<forall>d \<in> set (declared ps a). w_debounce d))"
proof -
  from assms obtain ws where "gather_wants ps [] [] = Inr ws" "src_wants s = ws"
    by (auto simp: New_def split: sum.splits prod.splits)
  with gather_wants_union [of "[]" "[]" ps "[]" ws a]
  have "union_of (declared ps a) (map_of (src_wants s) a)"
    by (simp add: declared_def) (simp add: union_of_def)
  then show ?thesis by (simp add: union_of_def split: option.splits)
qed

definition demo_plugin :: "nat \<Rightarrow> want list \<Rightarrow> plugin" where
  "demo_plugin i ws = \<lparr>p_id = i, p_name = ''p'', p_wants = ws, p_runs = True, p_setup = None\<rparr>"

theorem wants_are_the_union_witness:
  "\<exists>s. New [demo_plugin 0 [\<lparr>w_action = ''x'', w_enrich = 1, w_debounce = True\<rparr>],
            demo_plugin 1 [\<lparr>w_action = ''x'', w_enrich = 8, w_debounce = False\<rparr>]] = Inr s
     \<and> map_option w_debounce (map_of (src_wants s) ''x'') = Some False"
proof -
  let ?ps = "[demo_plugin 0 [\<lparr>w_action = ''x'', w_enrich = 1, w_debounce = True\<rparr>],
            demo_plugin 1 [\<lparr>w_action = ''x'', w_enrich = 8, w_debounce = False\<rparr>]]"
  obtain s where s: "New ?ps = Inr s"
    by (simp add: New_def demo_plugin_def)
  from wants_are_the_union [OF s, of "''x''"] have "map_option w_debounce (map_of (src_wants s) ''x'') = Some False"
    by (auto simp: declared_def demo_plugin_def split: option.splits)
  with s show ?thesis by blast
qed

lemma wire_chain:
  "wire (rev ps) nxt = Inr (pls, h) \<Longrightarrow>
     map pl_plugin pls = ps \<and> map pl_next pls = tl (map (Some \<circ> p_id) ps @ [nxt])
     \<and> h = hd (map (Some \<circ> p_id) ps @ [nxt])"
proof (induction ps arbitrary: nxt pls h rule: rev_induct)
  case (snoc p ps)
  from snoc.prems obtain pls' where w: "wire (rev ps) (Some (p_id p)) = Inr (pls', h)"
    and p: "pls = pls' @ [\<lparr>pl_plugin = p, pl_next = nxt, pl_done = \<not> p_runs p\<rparr>]"
    by (auto split: option.splits sum.splits prod.splits)
  from snoc.IH [OF w] p show ?case by (cases ps) auto
qed simp

text \<open>
  The chain is wired in the order it was written: the source's head is the
  first plugin, each plugin's successor is the one written after it, the last
  has none, and no plugin sits in two positions.
\<close>

theorem chain_wired_in_order:
  assumes "New ps = Inr s"
  shows "map pl_plugin (src_plugins s) = ps
       \<and> src_head s # map pl_next (src_plugins s) = map (Some \<circ> p_id) ps @ [None]
       \<and> distinct (map p_id ps)"
proof -
  from assms obtain ws where g: "gather_wants ps [] [] = Inr ws"
    and w: "wire (rev ps) None = Inr (src_plugins s, src_head s)"
    by (auto simp: New_def split: sum.splits prod.splits)
  from gather_wants_distinct [OF g] wire_chain [OF w] show ?thesis by (cases ps) auto
qed

theorem chain_wired_in_order_witness:
  "\<exists>s. New [demo_plugin 4 [], demo_plugin 7 []] = Inr s \<and> src_head s = Some 4
     \<and> map pl_next (src_plugins s) = [Some 7, None]"
proof -
  obtain s where s: "New [demo_plugin 4 [], demo_plugin 7 []] = Inr s"
    by (simp add: New_def demo_plugin_def)
  from chain_wired_in_order [OF s] s show ?thesis by (auto simp: demo_plugin_def)
qed

lemma src_wants_step: "src_wants (fst (session_step i s)) = src_wants s"
  by (cases i) (auto simp: apply_cmd_def route_def Let_def split: option.splits)

definition justified :: "wants \<Rightarrow> session_in list \<Rightarrow> event \<Rightarrow> bool" where
  \<comment> \<open>A declared action of the stream, or one a plugin raised.\<close>
  "justified ws ins e \<longleftrightarrow> map_of ws (ev_action e) \<noteq> None \<or>
     (\<exists>t c. SCmd t c \<in> set ins \<and> ev_action e = cmd_action c)"

lemma session_steps_justified:
  "e \<in> set (snd (run_steps session_step ins s)) \<Longrightarrow> justified (src_wants s) ins e"
proof (induction ins arbitrary: s)
  case (Cons i ins)
  show ?case
  proof (cases "e \<in> set (snd (session_step i s))")
    case True
    then show ?thesis
      by (cases i) (auto simp: justified_def apply_cmd_def route_def hand_def Let_def
          WithChainState_def NewEvent_def split: option.splits if_splits)
  next
    case False
    with Cons.prems have "e \<in> set (snd (run_steps session_step ins (fst (session_step i s))))"
      by (auto simp: Let_def split: prod.splits)
    from Cons.IH [OF this] show ?thesis by (auto simp: justified_def src_wants_step)
  qed
qed simp

text \<open>
  C35.  Whatever a session hears, it leaves the chain cold and tells it so: the
  first event is the connect, the last is the disconnect stamped cold, and in
  between only actions some plugin declared, or raised itself, ever walk.
\<close>

theorem session_brackets_and_filters:
  assumes "session t0 t1 (Some ins) s = (s', out, opened)"
  shows "opened \<and> src_chain s' = ChainCold
    \<and> (\<exists>mid. out = [hand s (NewEvent t0 ActionConnected [] [] [])] @ mid
                  @ [WithChainState ChainCold (NewEvent t1 ActionDisconnected [] [] [])]
           \<and> (\<forall>e \<in> set mid. justified (src_wants s) ins e))"
  using assms session_steps_justified [of _ ins s]
  by (auto simp: session_def Let_def hand_def split: prod.splits)

theorem session_brackets_and_filters_witness:
  "\<exists>s' out. session 0 9 (Some [SCmd 1 \<lparr>cmd_action = [], cmd_chain = ChainWarm\<rparr>])
       \<lparr>src_wants = [], src_chain = ChainCold, src_plugins = [], src_head = None\<rparr> = (s', out, True)
     \<and> src_chain s' = ChainCold"
proof -
  let ?s = "\<lparr>src_wants = [], src_chain = ChainCold, src_plugins = [], src_head = None\<rparr>"
  obtain s' out op where e: "session 0 9 (Some [SCmd 1 \<lparr>cmd_action = [], cmd_chain = ChainWarm\<rparr>]) ?s = (s', out, op)"
    using prod_cases3 by blast
  with session_brackets_and_filters [OF e] show ?thesis by auto
qed

text \<open>
  The reconnect loop never waits less than a second nor more than a minute,
  and goes back to a second as soon as a listener has opened.
\<close>

theorem backoff_bounds:
  assumes "minBackoff \<le> b" "b \<le> maxBackoff"
  shows "\<forall>d \<in> set (backoffs opened b). minBackoff \<le> d \<and> d \<le> maxBackoff"
  using assms
proof (induction opened arbitrary: b)
  case (Cons o1 rest)
  have m: "minBackoff \<le> maxBackoff" by (simp add: minBackoff_def maxBackoff_def)
  have "minBackoff \<le> min (b * 2) maxBackoff"
    using Cons.prems m by (simp add: minBackoff_def)
  then have later: "\<forall>d \<in> set (backoffs rest (min (b * 2) maxBackoff)). minBackoff \<le> d \<and> d \<le> maxBackoff"
    by (rule Cons.IH) simp
  have reset: "\<forall>d \<in> set (backoffs rest minBackoff). minBackoff \<le> d \<and> d \<le> maxBackoff"
    by (rule Cons.IH) (use m in simp_all)
  have "set (backoffs (o1 # rest) b) =
      (if o1 then insert minBackoff (set (backoffs rest minBackoff))
       else insert b (set (backoffs rest (min (b * 2) maxBackoff))))"
    by simp
  with later reset Cons.prems m show ?case by (cases o1) auto
qed simp

theorem backoff_bounds_witness:
  "\<forall>d \<in> set (backoffs [False, False, True, False] minBackoff). d \<le> maxBackoff"
  using backoff_bounds [of minBackoff "[False, False, True, False]"]
  by (simp add: minBackoff_def maxBackoff_def)

end
