(* ===== verification/Debounce.thy ===== *)
theory Debounce
  imports Chain
begin

text \<open>
  The debounce plugin (\<open>ievent/debounce/debounce.go\<close>): one window per key,
  the leading event handed on at once, the last one once the key is quiet.
  The state has the inbox and the table of open windows; \<open>Run\<close> is the sequence
  of what its \<open>select\<close> picks, each with the time it reads off the clock.
\<close>

definition debounce_name :: string where "debounce_name = ''debounce''"

record burst =
  b_ev :: "event option"
  b_at :: int

type_synonym windows = "(string \<times> burst) list"

record debounce =
  d_window :: int
  d_wanted :: wants
  d_inbox :: "event list"
  d_cap :: nat
  d_open :: windows
  d_running :: bool

definition Handle :: "event \<Rightarrow> debounce \<Rightarrow> debounce \<times> event list" where
  "Handle ev p =
     (if length (d_inbox p) < d_cap p then (p\<lparr>d_inbox := d_inbox p @ [ev]\<rparr>, [])
      else (p, [WithDropped debounce_name ev]))"

definition ev_key :: "event \<Rightarrow> string" where
  "ev_key ev = ev_project ev @ ''/'' @ ev_name ev"

definition close_key :: "string \<Rightarrow> windows \<Rightarrow> windows \<times> event list" where
  "close_key key ws =
     (case map_of ws key of
        None \<Rightarrow> (ws, [])
      | Some b \<Rightarrow>
          (AList.delete key ws, (case b_ev b of None \<Rightarrow> [] | Some e \<Rightarrow> [e])))"

definition collapse :: "wants \<Rightarrow> event \<Rightarrow> bool" where
  "collapse ws ev \<longleftrightarrow> ev_err ev = None \<and> ev_chain ev = ChainWarm \<and> w_debounce (wanted ws (ev_action ev))"

definition accept :: "int \<Rightarrow> int \<Rightarrow> wants \<Rightarrow> event \<Rightarrow> windows \<Rightarrow> windows \<times> event list" where
  "accept now window wants ev ws =
     (if ev_name ev = [] then (ws, [ev])
      else let key = ev_key ev in
        if \<not> collapse wants ev then
          (let (ws1, out) = close_key key ws in (ws1, out @ [ev]))
        else case map_of ws key of
            None \<Rightarrow> (AList.update key \<lparr>b_ev = None, b_at = now + window\<rparr> ws, [ev])
          | Some b \<Rightarrow>
              (AList.update key \<lparr>b_ev = Some ev, b_at = now + window\<rparr> ws,
               (case b_ev b of None \<Rightarrow> [] | Some e \<Rightarrow> [WithDropped debounce_name e])))"

fun close_keys :: "string list \<Rightarrow> windows \<Rightarrow> windows \<times> event list" where
  "close_keys [] ws = (ws, [])"
| "close_keys (k # ks) ws =
     (let (ws1, out) = close_key k ws; (ws2, out') = close_keys ks ws1 in (ws2, out @ out'))"

definition closeExpired :: "int \<Rightarrow> windows \<Rightarrow> windows \<times> event list" where
  "closeExpired now ws = close_keys (map fst (filter (\<lambda>(k, b). \<not> now < b_at b) ws)) ws"

definition closeAll :: "windows \<Rightarrow> windows \<times> event list" where
  "closeAll ws = close_keys (map fst ws) ws"

definition earliest :: "windows \<Rightarrow> int option" where
  "earliest ws =
     fold (\<lambda>(k, b) out. case out of None \<Rightarrow> Some (b_at b)
                        | Some t \<Rightarrow> Some (if b_at b < t then b_at b else t)) ws None"

datatype debounce_in =
    Arrives event          \<comment> \<open>the previous plugin calls \<open>Handle\<close>\<close>
  | Takes int              \<comment> \<open>\<open>Run\<close> receives from the inbox\<close>
  | Due int                \<comment> \<open>the deadline fires\<close>
  | Finish int             \<comment> \<open>the source asks the plugin to finish\<close>

fun debounce_drain :: "int \<Rightarrow> int \<Rightarrow> wants \<Rightarrow> event list \<Rightarrow> windows \<Rightarrow> windows \<times> event list" where
  "debounce_drain now w wants [] ws = (ws, [])"
| "debounce_drain now w wants (e # es) ws =
     (let (ws1, out) = accept now w wants e ws;
          (ws2, out') = debounce_drain now w wants es ws1 in (ws2, out @ out'))"

fun debounce_step :: "debounce_in \<Rightarrow> debounce \<Rightarrow> debounce \<times> event list" where
  "debounce_step (Arrives ev) p = Handle ev p"
| "debounce_step (Takes now) p =
     (case d_inbox p of
        [] \<Rightarrow> (p, [])
      | ev # rest \<Rightarrow>
          if \<not> d_running p then (p, [])
          else (let (ws, out) = accept now (d_window p) (d_wanted p) ev (d_open p)
                in (p\<lparr>d_inbox := rest, d_open := ws\<rparr>, out)))"
| "debounce_step (Due now) p =
     (if \<not> d_running p then (p, [])
      else (let (ws, out) = closeExpired now (d_open p) in (p\<lparr>d_open := ws\<rparr>, out)))"
| "debounce_step (Finish now) p =
     (if \<not> d_running p then (p, [])
      else (let (ws1, out1) = debounce_drain now (d_window p) (d_wanted p) (d_inbox p) (d_open p);
                (ws2, out2) = closeAll ws1
            in (p\<lparr>d_inbox := [], d_open := ws2, d_running := False\<rparr>, out1 @ out2)))"

subsection \<open>What is held, key by key\<close>

definition held_of :: "windows \<Rightarrow> event list" where
  "held_of ws = List.map_filter (\<lambda>(k, b). b_ev b) ws"

definition held_at :: "windows \<Rightarrow> string \<Rightarrow> event list" where
  "held_at ws k = (case map_of ws k of None \<Rightarrow> []
     | Some b \<Rightarrow> (case b_ev b of None \<Rightarrow> [] | Some e \<Rightarrow> [e]))"

definition wf_windows :: "windows \<Rightarrow> bool" where
  "wf_windows ws \<longleftrightarrow> distinct (map fst ws) \<and>
     (\<forall>k b e. map_of ws k = Some b \<and> b_ev b = Some e \<longrightarrow> ev_key e = k \<and> ev_name e \<noteq> [])"

lemma ev_key_strip [simp]: "ev_key (WithDropped n e) = ev_key e" "ev_name (WithDropped n e) = ev_name e"
  by (simp_all add: ev_key_def WithDropped_def)

definition ev_lane :: "event \<Rightarrow> string option" where
  \<comment> \<open>What an event is keyed on: nothing where it names nothing.\<close>
  "ev_lane e = (if ev_name e = [] then None else Some (ev_key e))"

definition held_lane :: "windows \<Rightarrow> string option \<Rightarrow> event list" where
  "held_lane ws c = (case c of None \<Rightarrow> [] | Some k \<Rightarrow> map strip (held_at ws k))"

lemma ev_lane_dropped [simp]: "ev_lane (WithDropped n e) = ev_lane e"
  by (simp add: ev_lane_def)

lemma wf_close: "wf_windows ws \<Longrightarrow> wf_windows (fst (close_key k ws))"
  by (auto simp: wf_windows_def close_key_def delete_conv' split: option.splits if_splits)

lemma close_key_effect:
  assumes "wf_windows ws"
  shows "on_lane ev_lane k (snd (close_key k' ws)) @ held_lane (fst (close_key k' ws)) k
       = held_lane ws k"
  using assms
  by (auto simp: close_key_def held_lane_def held_at_def ev_lane_def delete_conv' wf_windows_def split: option.splits)

lemma wf_close_keys: "wf_windows ws \<Longrightarrow> wf_windows (fst (close_keys ks ws))"
  by (induction ks arbitrary: ws) (auto simp: split_beta Let_def wf_close)

lemma close_keys_effect:
  "wf_windows ws \<Longrightarrow>
     on_lane ev_lane k (snd (close_keys ks ws)) @ held_lane (fst (close_keys ks ws)) k
   = held_lane ws k"
proof (induction ks arbitrary: ws)
  case (Cons x ks)
  from Cons.IH [OF wf_close [OF Cons.prems], of x] close_key_effect [OF Cons.prems, of k x]
  show ?case by (simp add: split_beta Let_def)
qed simp

lemma wf_update:
  "wf_windows ws \<Longrightarrow> (\<And>e. b_ev b = Some e \<Longrightarrow> ev_key e = k \<and> ev_name e \<noteq> []) \<Longrightarrow>
     wf_windows (AList.update k b ws)"
  by (auto simp: wf_windows_def)

lemma wf_accept:
  assumes "wf_windows ws"
  shows "wf_windows (fst (accept now w wants ev ws))"
proof (cases "ev_name ev = [] \<or> \<not> collapse wants ev")
  case True
  then show ?thesis using assms wf_close [OF assms] by (auto simp: accept_def Let_def split_beta)
next
  case False
  then show ?thesis
    using assms by (auto simp: accept_def Let_def split: option.splits intro!: wf_update)
qed

lemma accept_effect:
  assumes "wf_windows ws"
  shows "on_lane ev_lane k (snd (accept now w wants ev ws)) @ held_lane (fst (accept now w wants ev ws)) k
       = held_lane ws k @ on_lane ev_lane k [ev]"
proof (cases "ev_name ev = []")
  case True
  then show ?thesis by (auto simp: accept_def ev_lane_def held_lane_def)
next
  case named: False
  show ?thesis
  proof (cases "collapse wants ev")
    case False
    let ?c = "close_key (ev_key ev) ws"
    have empty: "held_lane (fst ?c) (Some (ev_key ev)) = []"
      by (auto simp: close_key_def held_lane_def held_at_def split: option.splits)
    have l: "ev_lane ev = Some (ev_key ev)" using named by (simp add: ev_lane_def)
    from close_key_effect [OF assms, of k "ev_key ev"] named False l empty show ?thesis
      by (cases "k = Some (ev_key ev)") (auto simp: accept_def Let_def split_beta)
  next
    case True
    with named assms show ?thesis
      by (auto simp: accept_def Let_def held_lane_def held_at_def ev_lane_def update_conv' wf_windows_def split: option.splits)
  qed
qed

lemma accept_run:
  assumes "wf_windows ws"
  shows "wf_windows (fst (debounce_drain now w wants es ws))"
    and "on_lane ev_lane k (snd (debounce_drain now w wants es ws))
           @ held_lane (fst (debounce_drain now w wants es ws)) k
       = held_lane ws k @ on_lane ev_lane k es"
proof -
  show "wf_windows (fst (debounce_drain now w wants es ws))"
    using assms by (induction es arbitrary: ws) (simp_all add: split_beta Let_def wf_accept)
  show "on_lane ev_lane k (snd (debounce_drain now w wants es ws))
           @ held_lane (fst (debounce_drain now w wants es ws)) k
       = held_lane ws k @ on_lane ev_lane k es"
    using assms
  proof (induction es arbitrary: ws)
    case (Cons e es)
    from Cons.IH [OF wf_accept [OF Cons.prems], of now w wants e] accept_effect [OF Cons.prems, of k now w wants e]
    show ?case by (simp add: split_beta Let_def)
  qed simp
qed

text \<open>What is in the plugin for one key, oldest first: the window, then the inbox.\<close>

definition inside :: "string option \<Rightarrow> debounce \<Rightarrow> event list" where
  "inside k p = held_lane (d_open p) k @ on_lane ev_lane k (d_inbox p)"

definition kept_in :: "debounce_in \<Rightarrow> debounce \<Rightarrow> event list" where
  \<comment> \<open>What a step brings in and the inbox had room for.\<close>
  "kept_in i p = (case i of Arrives e \<Rightarrow> if length (d_inbox p) < d_cap p then [e] else [] | _ \<Rightarrow> [])"

lemma wf_debounce_step:
  assumes "wf_windows (d_open p)"
  shows "wf_windows (d_open (fst (debounce_step i p)))"
  using assms
  by (cases i) (auto simp: Handle_def closeExpired_def closeAll_def split_beta Let_def
      wf_accept wf_close_keys accept_run(1) split: list.splits)

lemma held_at_closeAll:
  "held_at (fst (closeAll ws)) k = []"
proof -
  have "map_of (fst (close_keys ks ws)) k = (if k \<in> set ks then None else map_of ws k)" for ks
    by (induction ks arbitrary: ws) (auto simp: split_beta Let_def close_key_def split: option.splits)
  then show ?thesis
    by (auto simp: closeAll_def held_lane_def held_at_def ev_lane_def map_of_eq_None_iff split: option.splits)
       (metis map_of_eq_None_iff option.distinct(1))
qed

definition own_out :: "debounce_in \<Rightarrow> debounce \<Rightarrow> event list" where
  \<comment> \<open>What the plugin's own goroutine hands on.\<close>
  "own_out i p = (case i of Arrives _ \<Rightarrow> [] | _ \<Rightarrow> snd (debounce_step i p))"

lemma debounce_step_effect:
  assumes "wf_windows (d_open p)"
  shows "on_lane ev_lane k (own_out i p) @ inside k (fst (debounce_step i p))
       = inside k p @ on_lane ev_lane k (kept_in i p)"
proof (cases i)
  case (Arrives e)
  then show ?thesis by (simp add: Handle_def inside_def kept_in_def own_out_def)
next
  case (Takes now)
  then show ?thesis
    using accept_effect [OF assms]
    by (auto simp: inside_def kept_in_def own_out_def split_beta Let_def split: list.splits)
next
  case (Due now)
  then show ?thesis
    using close_keys_effect [OF assms, of k "map fst (filter (\<lambda>(k, b). \<not> now < b_at b) (d_open p))"]
    by (auto simp: inside_def kept_in_def own_out_def closeExpired_def split_beta Let_def)
next
  case (Finish now)
  then show ?thesis
    using accept_run(2) [OF assms, of k now "d_window p" "d_wanted p" "d_inbox p"]
      close_keys_effect [OF accept_run(1) [OF assms]]
    by (auto simp: inside_def kept_in_def own_out_def closeAll_def split_beta Let_def)
qed

interpretation burst_stage: lane_stage debounce_step kept_in own_out inside ev_lane
    "\<lambda>p. wf_windows (d_open p)"
  by unfold_locales (rule wf_debounce_step, assumption, rule debounce_step_effect, assumption)

definition fresh_debounce :: "int \<Rightarrow> nat \<Rightarrow> wants \<Rightarrow> debounce" where
  "fresh_debounce w cap ws =
     \<lparr>d_window = w, d_wanted = ws, d_inbox = [], d_cap = cap, d_open = [], d_running = True\<rparr>"

lemma fresh_inside: "inside k (fresh_debounce w cap ws) = []" "wf_windows (d_open (fresh_debounce w cap ws))"
  by (auto simp: inside_def fresh_debounce_def held_lane_def held_at_def wf_windows_def split: option.splits)

subsection \<open>Properties\<close>

text \<open>
  C36.  Debouncing neither loses nor reorders: for every key, whatever arrivals,
  receives, deadlines and shutdown interleave, what the plugin has handed on
  followed by what it still holds is exactly the sequence of that key's events
  its inbox took in (a superseded one is handed on marked dropped, not swallowed).
\<close>

theorem debounce_keeps_every_lane:
  "on_lane ev_lane k (concat (map snd (snd (run_steps burst_stage.traced ins (fresh_debounce w cap ws)))))
     @ inside k (fst (run_steps burst_stage.traced ins (fresh_debounce w cap ws)))
   = on_lane ev_lane k (concat (map fst (snd (run_steps burst_stage.traced ins (fresh_debounce w cap ws)))))"
  using burst_stage.run_lane [OF fresh_inside(2), of k ins w cap ws] by (simp add: fresh_inside(1))

text \<open>
  Asked to finish, the plugin hands on everything it has: afterwards no key
  has an event in a window or on the inbox, and the call closes the plugin.
\<close>

theorem debounce_finish_empties:
  assumes "d_running p"
  shows "inside k (fst (debounce_step (Finish now) p)) = [] \<and> \<not> d_running (fst (debounce_step (Finish now) p))"
  using assms
  by (auto simp: inside_def held_lane_def held_at_closeAll split_beta Let_def split: option.splits)

theorem debounce_finish_empties_witness:
  "inside (Some ''p/a'') (fst (debounce_step (Finish 5) (fresh_debounce 250 8 []))) = []"
  using debounce_finish_empties [of "fresh_debounce 250 8 []" "Some ''p/a''" 5]
  by (simp add: fresh_debounce_def)

lemma collapsible_burst:
  assumes "\<forall>e \<in> set (x # es). ev_name e \<noteq> [] \<and> ev_key e = k \<and> collapse wants e"
    and "map_of ws k = Some b"
  shows "snd (close_key k (fst (debounce_drain now w wants (x # es) ws)))
         = [last (x # es)]
    \<and> snd (debounce_drain now w wants (x # es) ws)
       = map (WithDropped debounce_name)
           ((case b_ev b of None \<Rightarrow> [] | Some e \<Rightarrow> [e]) @ butlast (x # es))"
  using assms
proof (induction es arbitrary: x ws b)
  case Nil
  then show ?case by (auto simp: accept_def Let_def close_key_def split: option.splits)
next
  case (Cons y es)
  let ?b = "\<lparr>b_ev = Some x, b_at = now + w\<rparr>"
  have a: "fst (accept now w wants x ws) = AList.update k ?b ws"
    and o: "snd (accept now w wants x ws)
        = map (WithDropped debounce_name) (case b_ev b of None \<Rightarrow> [] | Some e \<Rightarrow> [e])"
    using Cons.prems by (auto simp: accept_def Let_def split: option.splits)
  have "\<forall>e \<in> set (y # es). ev_name e \<noteq> [] \<and> ev_key e = k \<and> collapse wants e"
    using Cons.prems(1) by simp
  from Cons.IH [OF this, of "AList.update k ?b ws" ?b]
  have "snd (close_key k (fst (debounce_drain now w wants (y # es) (AList.update k ?b ws)))) = [last (y # es)]"
    and "snd (debounce_drain now w wants (y # es) (AList.update k ?b ws))
       = map (WithDropped debounce_name) (x # butlast (y # es))"
    by simp_all
  then show ?case
    by (simp add: debounce_drain.simps(2) [of now w wants x] split_beta Let_def a o
        del: debounce_drain.simps(2))
qed

text \<open>
  A burst collapses to its two edges: of collapsible events on one key with
  no window open, the first is handed on at once, the last when the window
  closes, and everything between is handed on marked dropped, in order.
\<close>

theorem burst_collapses_to_edges:
  assumes "\<forall>e \<in> set (first # x # es). ev_name e \<noteq> [] \<and> ev_key e = k \<and> collapse wants e"
    and "map_of ws k = None"
  shows "snd (debounce_drain now w wants (first # x # es) ws)
           = first # map (WithDropped debounce_name) (butlast (x # es))
       \<and> snd (close_key k (fst (debounce_drain now w wants (first # x # es) ws))) = [last (x # es)]"
proof -
  let ?b = "\<lparr>b_ev = None, b_at = now + w\<rparr>"
  have a: "accept now w wants first ws = (AList.update k ?b ws, [first])"
    using assms by (simp add: accept_def Let_def)
  have "map_of (AList.update k ?b ws) k = Some ?b" by simp
  from collapsible_burst [OF _ this, of x es wants now w] assms(1)
  have "snd (close_key k (fst (debounce_drain now w wants (x # es) (AList.update k ?b ws)))) = [last (x # es)]"
    and "snd (debounce_drain now w wants (x # es) (AList.update k ?b ws))
       = map (WithDropped debounce_name) (butlast (x # es))"
    by auto
  then show ?thesis
    by (simp add: debounce_drain.simps(2) [of now w wants first] split_beta Let_def a
        del: debounce_drain.simps(2))
qed

definition demo_event :: "int \<Rightarrow> event" where
  "demo_event t = WithChainState ChainWarm (NewEvent t ''instance-updated'' ''p'' ''a'' [])"

definition demo_wants :: wants where
  "demo_wants = [(''instance-updated'', \<lparr>w_action = ''instance-updated'', w_enrich = 1, w_debounce = True\<rparr>)]"

theorem burst_collapses_to_edges_witness:
  "snd (debounce_drain 0 250 demo_wants [demo_event 1, demo_event 2, demo_event 3] [])
     = [demo_event 1, WithDropped debounce_name (demo_event 2)]"
  using burst_collapses_to_edges [of "demo_event 1" "demo_event 2" "[demo_event 3]" "''p/a''" demo_wants "[]" 0 250]
  by (simp add: demo_event_def demo_wants_def ev_key_def collapse_def wanted_def NewEvent_def WithChainState_def)

text \<open>
  An event that may not be collapsed, because it failed, the fleet is not
  read yet, or some plugin wants every one, goes on at once and unmarked, right
  behind whatever its key was holding, and leaves no window behind.
\<close>

theorem uncollapsible_goes_at_once:
  assumes "ev_name ev \<noteq> []" "\<not> collapse wants ev"
  shows "snd (accept now w wants ev ws) = held_at ws (ev_key ev) @ [ev]
       \<and> map_of (fst (accept now w wants ev ws)) (ev_key ev) = None"
  using assms by (auto simp: accept_def Let_def close_key_def held_at_def split: option.splits)

theorem uncollapsible_goes_at_once_witness:
  "snd (accept 0 250 [] (demo_event 7) [(''p/a'', \<lparr>b_ev = Some (demo_event 6), b_at = 9\<rparr>)])
     = [demo_event 6, demo_event 7]"
  using uncollapsible_goes_at_once [of "demo_event 7" "[]" 0 250 "[(''p/a'', \<lparr>b_ev = Some (demo_event 6), b_at = 9\<rparr>)]"]
  by (simp add: demo_event_def collapse_def wanted_def zero_want_def NewEvent_def WithChainState_def
      ev_key_def held_at_def)

end
