(* ===== verification/GoLib.thy ===== *)
theory GoLib
  imports Prelude
begin

text \<open>
  What the sources use of Go's standard library: 64-bit arithmetic, the
  \<open>strings\<close> helpers, \<open>strconv.ParseUint\<close>, \<open>time.ParseDuration\<close> (its fraction
  goes through \<open>float64\<close>, modelled as rationals rounded to 53 bits),
  \<open>json.Unmarshal\<close> into a slice of strings, and \<open>rand.N\<close>.
  Strings are byte strings, as in Go.
\<close>

subsection \<open>Machine integers\<close>

definition wrap64 :: "int \<Rightarrow> int" where
  \<comment> \<open>Two's complement on 64 bits, where \<open>time.Duration\<close> arithmetic lives.\<close>
  "wrap64 x = (x + 2 ^ 63) mod 2 ^ 64 - 2 ^ 63"

lemma wrap64_id: "- (2 ^ 63) \<le> x \<Longrightarrow> x < 2 ^ 63 \<Longrightarrow> wrap64 x = x"
  by (simp add: wrap64_def)

lemma wrap64_bounds: "- (2 ^ 63) \<le> wrap64 x" "wrap64 x < 2 ^ 63"
proof -
  have "0 \<le> (x + 2 ^ 63) mod 2 ^ 64" "(x + 2 ^ 63) mod 2 ^ 64 < 2 ^ 64"
    by (rule pos_mod_sign pos_mod_bound, simp)+
  then show "- (2 ^ 63) \<le> wrap64 x" "wrap64 x < 2 ^ 63" by (simp_all add: wrap64_def)
qed

subsection \<open>strings\<close>

definition code :: "char \<Rightarrow> nat" where "code c = of_char c"

definition is_digit :: "char \<Rightarrow> bool" where
  "is_digit c \<longleftrightarrow> 48 \<le> code c \<and> code c \<le> 57"

definition digit :: "char \<Rightarrow> nat" where "digit c = code c - 48"

definition is_space :: "char \<Rightarrow> bool" where
  "is_space c \<longleftrightarrow> code c \<in> {9, 10, 11, 12, 13, 32}"

definition trim_space :: "string \<Rightarrow> string" where
  \<comment> \<open>\<open>strings.TrimSpace\<close> on ASCII space.\<close>
  "trim_space s = rev (dropWhile is_space (rev (dropWhile is_space s)))"

definition has_prefix :: "string \<Rightarrow> string \<Rightarrow> bool" where
  "has_prefix s p \<longleftrightarrow> prefix p s"

definition has_suffix :: "string \<Rightarrow> string \<Rightarrow> bool" where
  "has_suffix s p \<longleftrightarrow> suffix p s"

definition trim_prefix :: "string \<Rightarrow> string \<Rightarrow> string" where
  "trim_prefix s p = (if has_prefix s p then drop (length p) s else s)"

fun index_byte :: "string \<Rightarrow> char \<Rightarrow> nat option" where
  "index_byte [] c = None"
| "index_byte (x # xs) c = (if x = c then Some 0 else map_option Suc (index_byte xs c))"

fun split_on :: "char \<Rightarrow> string \<Rightarrow> string list" where
  \<comment> \<open>\<open>strings.Split\<close> on a one-byte separator.\<close>
  "split_on c [] = [[]]"
| "split_on c (x # xs) =
     (if x = c then [] # split_on c xs
      else (case split_on c xs of [] \<Rightarrow> [[x]] | y # ys \<Rightarrow> (x # y) # ys))"

definition lower_char :: "char \<Rightarrow> char" where
  "lower_char c = (if 65 \<le> code c \<and> code c \<le> 90 then char_of (code c + 32) else c)"

definition to_lower :: "string \<Rightarrow> string" where
  \<comment> \<open>\<open>strings.ToLower\<close> on ASCII.\<close>
  "to_lower s = map lower_char s"

definition cfg_get :: "(string \<times> string) list \<Rightarrow> string \<Rightarrow> string" where
  \<comment> \<open>Indexing a string map: a missing key reads as the empty string.\<close>
  "cfg_get m k = (case map_of m k of Some v \<Rightarrow> v | None \<Rightarrow> [])"

subsection \<open>strconv\<close>

definition digits_value :: "string \<Rightarrow> nat" where
  "digits_value s = fold (\<lambda>c n. n * 10 + digit c) s 0"

definition parse_uint32 :: "string \<Rightarrow> nat option" where
  \<comment> \<open>\<open>strconv.ParseUint(s, 10, 32)\<close>.\<close>
  "parse_uint32 s =
     (if s = [] \<or> \<not> list_all is_digit s then None
      else if digits_value s < 2 ^ 32 then Some (digits_value s) else None)"

subsection \<open>time.ParseDuration\<close>

fun bits :: "nat \<Rightarrow> nat" where
  "bits n = (if n = 0 then 0 else Suc (bits (n div 2)))"

declare bits.simps [simp del]

definition rnd53 :: "nat \<times> nat \<Rightarrow> nat \<times> nat" where
  \<comment> \<open>\<open>p / q\<close> rounded to 53 significant bits, half to even, again as a fraction.\<close>
  "rnd53 pq =
     (let p = fst pq; q = snd pq in
      if p = 0 then (0, 1)
      else let e0 = int (bits p) - int (bits q) - 53;
               scaled = (\<lambda>e. (p * 2 ^ nat (- e), q * 2 ^ nat e));
               e = (if 2 ^ 53 * snd (scaled e0) \<le> fst (scaled e0) then e0 + 1 else e0);
               m = fst (scaled e) div snd (scaled e);
               r = fst (scaled e) mod snd (scaled e);
               m' = (if snd (scaled e) < 2 * r \<or> (snd (scaled e) = 2 * r \<and> odd m) then m + 1 else m)
           in (m' * 2 ^ nat e, 2 ^ nat (- e)))"

definition fraction_ns :: "nat \<Rightarrow> nat \<Rightarrow> nat \<Rightarrow> nat" where
  \<comment> \<open>\<open>uint64(float64(f) * (float64(unit) / scale))\<close> with \<open>scale = 10^k\<close>.\<close>
  "fraction_ns f k unit =
     (let a = rnd53 (f, 1); b = rnd53 (unit, 10 ^ k);
          c = rnd53 (fst a * fst b, snd a * snd b)
      in fst c div snd c)"

fun leading_int :: "nat \<Rightarrow> string \<Rightarrow> (nat \<times> string) option" where
  "leading_int x [] = Some (x, [])"
| "leading_int x (c # cs) =
     (if \<not> is_digit c then Some (x, c # cs)
      else if 2 ^ 63 div 10 < x then None
      else let y = x * 10 + digit c in if 2 ^ 63 < y then None else leading_int y cs)"

fun leading_fraction :: "nat \<Rightarrow> nat \<Rightarrow> bool \<Rightarrow> string \<Rightarrow> nat \<times> nat \<times> string" where
  "leading_fraction x k over [] = (x, k, [])"
| "leading_fraction x k over (c # cs) =
     (if \<not> is_digit c then (x, k, c # cs)
      else if over then leading_fraction x k over cs
      else if (2 ^ 63 - 1) div 10 < x then leading_fraction x k True cs
      else let y = x * 10 + digit c
           in if 2 ^ 63 < y then leading_fraction x k True cs else leading_fraction y (Suc k) False cs)"

definition unit_map :: "string \<Rightarrow> nat option" where
  "unit_map = map_of
     [(''ns'', 1), (''us'', 1000), ([CHR 0xC2, CHR 0xB5, CHR ''s''], 1000),
      ([CHR 0xCE, CHR 0xBC, CHR ''s''], 1000), (''ms'', 1000000), (''s'', 1000000000),
      (''m'', 60 * 1000000000), (''h'', 3600 * 1000000000)]"

lemma leading_int_length: "leading_int x s = Some (v, s') \<Longrightarrow> length s' \<le> length s"
  by (induction s arbitrary: x v) (auto simp: Let_def le_SucI split: if_splits)

lemma leading_fraction_length: "length (snd (snd (leading_fraction x k b s))) \<le> length s"
  by (induction s arbitrary: x k b) (auto simp: Let_def le_SucI)

definition duration_item :: "string \<Rightarrow> (nat \<times> string) option" where
  \<comment> \<open>One number and its unit: nanoseconds, and what follows.\<close>
  "duration_item s =
     (case s of
        [] \<Rightarrow> None
      | c # _ \<Rightarrow>
          if \<not> (c = CHR ''.'' \<or> is_digit c) then None
          else (case leading_int 0 s of
             None \<Rightarrow> None
           | Some (v, s1) \<Rightarrow>
               (let pre = length s1 \<noteq> length s;
                    dot = (s1 \<noteq> [] \<and> hd s1 = CHR ''.'');
                    (f, k, s2) = (if dot then leading_fraction 0 0 False (tl s1) else (0, 0, s1));
                    post = (dot \<and> length s2 \<noteq> length (tl s1));
                    u = takeWhile (\<lambda>c. \<not> (c = CHR ''.'' \<or> is_digit c)) s2
                in if \<not> pre \<and> \<not> post then None
                   else if u = [] then None
                   else (case unit_map u of
                      None \<Rightarrow> None
                    | Some unit \<Rightarrow>
                        if 2 ^ 63 div unit < v then None
                        else let n = v * unit + (if 0 < f then fraction_ns f k unit else 0)
                             in if 2 ^ 63 < n then None else Some (n, drop (length u) s2)))))"

lemma duration_item_length: "duration_item s = Some (n, s') \<Longrightarrow> length s' < length s"
proof -
  assume d: "duration_item s = Some (n, s')"
  then obtain c cs v s1 where s: "s = c # cs" and v: "leading_int 0 s = Some (v, s1)"
    by (auto simp: duration_item_def split: list.splits if_splits option.splits)
  define dot where "dot = (s1 \<noteq> [] \<and> hd s1 = CHR ''.'')"
  define r where "r = (if dot then leading_fraction 0 0 False (tl s1) else (0, 0, s1))"
  define u where "u = takeWhile (\<lambda>c. \<not> (c = CHR ''.'' \<or> is_digit c)) (snd (snd r))"
  have "u \<noteq> [] \<and> s' = drop (length u) (snd (snd r))"
    using d s v unfolding duration_item_def
    by (auto simp: Let_def split_beta u_def r_def dot_def split: if_splits option.splits)
  moreover have "length (snd (snd r)) \<le> length s"
    using leading_int_length [OF v] leading_fraction_length [of 0 0 False "tl s1"]
    by (auto simp: r_def)
  moreover have "length u \<le> length (snd (snd r))" by (simp add: u_def length_takeWhile_le)
  ultimately show ?thesis by (cases u) auto
qed

function duration_sum :: "nat \<Rightarrow> string \<Rightarrow> nat option" where
  "duration_sum d s =
     (if s = [] then Some d
      else (case duration_item s of
         None \<Rightarrow> None
       | Some (n, s') \<Rightarrow>
           let d' = (d + n) mod 2 ^ 64 in if 2 ^ 63 < d' then None else duration_sum d' s'))"
  by pat_completeness auto
termination
  by (relation "measure (\<lambda>(d, s). length s)") (auto dest: duration_item_length)

declare duration_sum.simps [simp del]

definition parse_duration :: "string \<Rightarrow> int option" where
  "parse_duration s0 =
     (let neg = (s0 \<noteq> [] \<and> hd s0 = CHR ''-'');
          s = (if s0 \<noteq> [] \<and> (hd s0 = CHR ''-'' \<or> hd s0 = CHR ''+'') then tl s0 else s0)
      in if s = ''0'' then Some 0
         else if s = [] then None
         else (case duration_sum 0 s of
            None \<Rightarrow> None
          | Some d \<Rightarrow> if neg then Some (wrap64 (- int d))
                      else if 2 ^ 63 - 1 < d then None else Some (int d)))"

subsection \<open>json.Unmarshal into a slice of strings\<close>

definition hex_value :: "char \<Rightarrow> nat option" where
  "hex_value c =
     (if is_digit c then Some (digit c)
      else if 97 \<le> code c \<and> code c \<le> 102 then Some (code c - 87)
      else if 65 \<le> code c \<and> code c \<le> 70 then Some (code c - 55) else None)"

definition get_u4 :: "string \<Rightarrow> nat option" where
  "get_u4 s =
     (case map hex_value (take 4 s) of
        [Some a, Some b, Some c, Some d] \<Rightarrow> Some (((a * 16 + b) * 16 + c) * 16 + d)
      | _ \<Rightarrow> None)"

definition utf8_encode :: "nat \<Rightarrow> string" where
  "utf8_encode r =
     (if r < 0x80 then [char_of r]
      else if r < 0x800 then [char_of (0xC0 + r div 64), char_of (0x80 + r mod 64)]
      else if r < 0x10000 then
        [char_of (0xE0 + r div 4096), char_of (0x80 + r div 64 mod 64), char_of (0x80 + r mod 64)]
      else [char_of (0xF0 + r div 262144), char_of (0x80 + r div 4096 mod 64),
            char_of (0x80 + r div 64 mod 64), char_of (0x80 + r mod 64)])"

definition utf8_width :: "string \<Rightarrow> nat" where
  \<comment> \<open>The width of the rune at the front, 0 where it is no valid UTF-8.\<close>
  "utf8_width s =
     (let b = (\<lambda>i. if i < length s then code (s ! i) else 0);
          cont = (\<lambda>i. 0x80 \<le> b i \<and> b i \<le> 0xBF)
      in if s = [] then 0
         else if b 0 < 0x80 then 1
         else if 0xC2 \<le> b 0 \<and> b 0 \<le> 0xDF \<and> cont 1 then 2
         else if 0xE0 \<le> b 0 \<and> b 0 \<le> 0xEF \<and> cont 1 \<and> cont 2
                 \<and> (b 0 = 0xE0 \<longrightarrow> 0xA0 \<le> b 1) \<and> (b 0 = 0xED \<longrightarrow> b 1 \<le> 0x9F) then 3
         else if 0xF0 \<le> b 0 \<and> b 0 \<le> 0xF4 \<and> cont 1 \<and> cont 2 \<and> cont 3
                 \<and> (b 0 = 0xF0 \<longrightarrow> 0x90 \<le> b 1) \<and> (b 0 = 0xF4 \<longrightarrow> b 1 \<le> 0x8F) then 4
         else 0)"

definition simple_escape :: "char \<Rightarrow> char option" where
  "simple_escape = map_of
     [(CHR 0x22, CHR 0x22), (CHR 0x5C, CHR 0x5C), (CHR ''/'', CHR ''/''),
      (CHR ''b'', CHR 0x08), (CHR ''f'', CHR 0x0C), (CHR ''n'', CHR 0x0A),
      (CHR ''r'', CHR 0x0D), (CHR ''t'', CHR 0x09)]"

definition unicode_escape :: "string \<Rightarrow> (string \<times> nat) option" where
  \<comment> \<open>What follows \<open>\u\<close>: the bytes it stands for, and how many input bytes it took.\<close>
  "unicode_escape s =
     (case get_u4 s of
        None \<Rightarrow> None
      | Some r \<Rightarrow>
          if 0xD800 \<le> r \<and> r < 0xE000 then
            (case (if take 2 (drop 4 s) = [CHR 0x5C, CHR ''u''] then get_u4 (drop 6 s) else None) of
               Some r2 \<Rightarrow>
                 if r < 0xDC00 \<and> 0xDC00 \<le> r2 \<and> r2 < 0xE000
                 then Some (utf8_encode ((r - 0xD800) * 1024 + (r2 - 0xDC00) + 0x10000), 10)
                 else Some (utf8_encode 0xFFFD, 4)
             | None \<Rightarrow> Some (utf8_encode 0xFFFD, 4))
          else Some (utf8_encode r, 4))"

function json_string :: "string \<Rightarrow> (string \<times> string) option" where
  \<comment> \<open>The rest of a string literal after its opening quote: its value, and what follows.\<close>
  "json_string [] = None"
| "json_string (c # cs) =
     (if c = CHR 0x22 then Some ([], cs)
      else if c = CHR 0x5C then
        (case cs of
           [] \<Rightarrow> None
         | e # es \<Rightarrow>
             if e = CHR ''u'' then
               (case unicode_escape es of
                  None \<Rightarrow> None
                | Some (v, n) \<Rightarrow> map_option (apfst (\<lambda>r. v @ r)) (json_string (drop n es)))
             else (case simple_escape e of
                  None \<Rightarrow> None
                | Some v \<Rightarrow> map_option (apfst (\<lambda>r. v # r)) (json_string es)))
      else if code c < 0x20 then None
      else (let w = utf8_width (c # cs) in
            if w = 0 then map_option (apfst (\<lambda>r. utf8_encode 0xFFFD @ r)) (json_string cs)
            else map_option (apfst (\<lambda>r. take w (c # cs) @ r)) (json_string (drop (w - 1) cs))))"
  by pat_completeness auto
termination
  by (relation "measure length") auto

definition json_space :: "char \<Rightarrow> bool" where
  "json_space c \<longleftrightarrow> code c \<in> {9, 10, 13, 32}"

abbreviation skip_ws :: "string \<Rightarrow> string" where
  "skip_ws \<equiv> dropWhile json_space"

definition json_element :: "string \<Rightarrow> (string \<times> string) option" where
  \<comment> \<open>A string, or \<open>null\<close>, which leaves the element empty; anything else is an error.\<close>
  "json_element s =
     (if take 1 s = [CHR 0x22] then json_string (drop 1 s)
      else if take 4 s = ''null'' then Some ([], drop 4 s) else None)"

fun json_elements :: "nat \<Rightarrow> string \<Rightarrow> string list option" where
  \<comment> \<open>Elements up to the closing bracket; \<open>fuel\<close> bounds how many there can be.\<close>
  "json_elements 0 s = None"
| "json_elements (Suc fuel) s =
     (case json_element (skip_ws s) of
        None \<Rightarrow> None
      | Some (v, r) \<Rightarrow>
          (case skip_ws r of
             [] \<Rightarrow> None
           | c # cs \<Rightarrow>
               if c = CHR '','' then map_option ((#) v) (json_elements fuel cs)
               else if c = CHR '']'' \<and> skip_ws cs = [] then Some [v] else None))"

definition json_strings :: "string \<Rightarrow> string list option" where
  \<comment> \<open>\<open>None\<close> is an error of any kind.  Each element takes a byte, so the length is fuel enough.\<close>
  "json_strings s =
     (let t = skip_ws s in
      if take 4 t = ''null'' \<and> skip_ws (drop 4 t) = [] then Some []
      else if take 1 t = ''['' then
        (let u = skip_ws (drop 1 t) in
         if take 1 u = '']'' then (if skip_ws (drop 1 u) = [] then Some [] else None)
         else json_elements (Suc (length u)) u)
      else None)"

subsection \<open>math/rand\<close>

definition rand_N :: "nat \<Rightarrow> int \<Rightarrow> int option" where
  \<comment> \<open>\<open>rand.N(n)\<close> for the random draw \<open>r\<close>: below \<open>n\<close>, and a panic unless \<open>n\<close> is positive.\<close>
  "rand_N r n = (if n \<le> 0 then None else Some (int r mod n))"

lemma rand_N_bounds: "rand_N r n = Some j \<Longrightarrow> 0 \<le> j \<and> j < n"
  by (auto simp: rand_N_def split: if_splits)

lemma rand_N_Some: "0 < n \<Longrightarrow> rand_N r n = Some (int r mod n)"
  by (simp add: rand_N_def)

lemmas go_eval = parse_duration_def duration_sum.simps duration_item_def is_digit_def code_def
  digit_def unit_map_def parse_uint32_def digits_value_def json_strings_def json_space_def
  cfg_get_def Let_def

end
