(* ===== verification/Netip.thy ===== *)
theory Netip
  imports GoLib
begin

text \<open>
  What the sources use of Go's \<open>net/netip\<close>: addresses at their width, parsing,
  printing, comparison, and prefixes.  A zone is the text after the percent sign
  of an IPv6 address, empty where there is none.
\<close>

unbundle bit_operations_syntax

datatype addr = A4 "32 word" | A6 "128 word" string

fun Is4 :: "addr \<Rightarrow> bool" where
  "Is4 (A4 _) = True"
| "Is4 (A6 _ _) = False"

definition Is6 :: "addr \<Rightarrow> bool" where "Is6 a \<longleftrightarrow> \<not> Is4 a"

definition mapped :: "128 word \<Rightarrow> bool" where
  \<comment> \<open>\<open>Is4In6\<close>: an IPv4 address in IPv6 clothes.\<close>
  "mapped w \<longleftrightarrow> drop_bit 32 w = 0xffff"

fun Unmap :: "addr \<Rightarrow> addr" where
  "Unmap (A4 w) = A4 w"
| "Unmap (A6 w z) = (if mapped w then A4 (ucast w) else A6 w z)"

subsection \<open>Parsing\<close>

definition parse_octet :: "string \<Rightarrow> nat option" where
  "parse_octet s =
     (if s = [] \<or> \<not> list_all is_digit s \<or> (1 < length s \<and> hd s = CHR ''0'') then None
      else if digits_value s \<le> 255 then Some (digits_value s) else None)"

definition parse_ipv4 :: "string \<Rightarrow> 32 word option" where
  "parse_ipv4 s =
     (case map parse_octet (split_on CHR ''.'' s) of
        [Some a, Some b, Some c, Some d] \<Rightarrow> Some (of_nat (((a * 256 + b) * 256 + c) * 256 + d))
      | _ \<Rightarrow> None)"

definition is_hex :: "char \<Rightarrow> bool" where "is_hex c \<longleftrightarrow> hex_value c \<noteq> None"

definition hex_nat :: "string \<Rightarrow> nat" where
  "hex_nat s = foldl (\<lambda>a c. a * 16 + the (hex_value c)) 0 s"

fun v6_groups :: "nat \<Rightarrow> nat list \<Rightarrow> nat option \<Rightarrow> string \<Rightarrow> (nat list \<times> nat option \<times> string) option" where
  \<comment> \<open>Groups still wanted, groups read, where the ellipsis stood, what is left.\<close>
  "v6_groups 0 gs ell s = Some (gs, ell, s)"
| "v6_groups (Suc n) gs ell s =
     (let hs = takeWhile is_hex s; rest = dropWhile is_hex s; gs1 = gs @ [hex_nat hs] in
      if hs = [] \<or> 4 < length hs then None
      else case rest of
        [] \<Rightarrow> Some (gs1, ell, [])
      | c # r \<Rightarrow>
          if c = CHR ''.'' then
            (if (ell = None \<and> length gs \<noteq> 6) \<or> 8 < length gs + 2 then None
             else case parse_ipv4 s of
               None \<Rightarrow> None
             | Some w \<Rightarrow> Some (gs @ [unat w div 65536, unat w mod 65536], ell, []))
          else if c \<noteq> CHR '':'' \<or> r = [] then None
          else if hd r = CHR '':'' then
            (if ell \<noteq> None then None
             else if tl r = [] then Some (gs1, Some (length gs1), [])
             else v6_groups n gs1 (Some (length gs1)) (tl r))
          else v6_groups n gs1 ell r)"

definition groups_word :: "nat list \<Rightarrow> 128 word" where
  "groups_word gs = of_nat (foldl (\<lambda>a g. a * 65536 + g) 0 gs)"

definition parse_ipv6 :: "string \<Rightarrow> addr option" where
  "parse_ipv6 whole =
     (let (s, zone, ok) = (case index_byte whole CHR ''%'' of
            None \<Rightarrow> (whole, [], True)
          | Some i \<Rightarrow> (take i whole, drop (Suc i) whole, drop (Suc i) whole \<noteq> []));
          (s1, ell) = (if has_prefix s ''::'' then (drop 2 s, Some 0) else (s, None))
      in if \<not> ok then None
         else if ell \<noteq> None \<and> s1 = [] then Some (A6 0 zone)
         else case v6_groups 8 [] ell s1 of
           None \<Rightarrow> None
         | Some (gs, e, rest) \<Rightarrow>
             if rest \<noteq> [] then None
             else if length gs < 8 then
               (case e of None \<Rightarrow> None
                | Some k \<Rightarrow> Some (A6 (groups_word (take k gs @ replicate (8 - length gs) 0 @ drop k gs)) zone))
             else if e \<noteq> None then None
             else Some (A6 (groups_word gs) zone))"

definition ParseAddr :: "string \<Rightarrow> addr option" where
  \<comment> \<open>The first dot, colon or percent sign decides which form it is.\<close>
  "ParseAddr s =
     (case dropWhile (\<lambda>c. c \<notin> set ''.:%'') s of
        [] \<Rightarrow> None
      | c # _ \<Rightarrow>
          if c = CHR ''.'' then map_option A4 (parse_ipv4 s)
          else if c = CHR '':'' then parse_ipv6 s
          else None)"

subsection \<open>Printing\<close>

fun nat_digits :: "nat \<Rightarrow> nat \<Rightarrow> nat \<Rightarrow> nat list" where
  \<comment> \<open>At most \<open>k\<close> digits of a number in a base, leading zeros dropped but for zero itself.\<close>
  "nat_digits b 0 n = []"
| "nat_digits b (Suc k) n = (if n < b then [n] else nat_digits b k (n div b) @ [n mod b])"

definition digit_char :: "nat \<Rightarrow> char" where "digit_char d = ''0123456789abcdef'' ! d"

definition show_dec :: "nat \<Rightarrow> string" where "show_dec n = map digit_char (nat_digits 10 20 n)"
definition show_hex :: "nat \<Rightarrow> string" where "show_hex n = map digit_char (nat_digits 16 4 n)"

definition octets :: "32 word \<Rightarrow> nat list" where
  "octets w = map (\<lambda>i. unat (drop_bit (8 * i) w AND 0xff)) [3, 2, 1, 0]"

definition show_ipv4 :: "32 word \<Rightarrow> string" where
  "show_ipv4 w = (case map show_dec (octets w) of
     [a, b, c, d] \<Rightarrow> a @ ''.'' @ b @ ''.'' @ c @ ''.'' @ d | _ \<Rightarrow> [])"

definition groups_of :: "128 word \<Rightarrow> nat list" where
  "groups_of w = map (\<lambda>i. unat (drop_bit (16 * i) w AND 0xffff)) [7, 6, 5, 4, 3, 2, 1, 0]"

definition zero_run :: "nat list \<Rightarrow> nat \<Rightarrow> nat" where
  "zero_run gs i = length (takeWhile (\<lambda>g. g = 0) (drop i gs))"

definition longest_zeros :: "nat list \<Rightarrow> (nat \<times> nat) option" where
  \<comment> \<open>The first of the longest runs of at least two zero groups: start and end.\<close>
  "longest_zeros gs =
     fold (\<lambda>i best. let l = zero_run gs i in
         if 2 \<le> l \<and> (case best of None \<Rightarrow> True | Some (s, e) \<Rightarrow> e - s < l) then Some (i, i + l) else best)
       [0..<length gs] None"

fun join_hex :: "nat list \<Rightarrow> string" where
  "join_hex [] = []"
| "join_hex [g] = show_hex g"
| "join_hex (g # gs) = show_hex g @ '':'' @ join_hex gs"

definition show_ipv6 :: "128 word \<Rightarrow> string" where
  "show_ipv6 w =
     (let gs = groups_of w in
      case longest_zeros gs of
        None \<Rightarrow> join_hex gs
      | Some (s, e) \<Rightarrow> join_hex (take s gs) @ ''::'' @ join_hex (drop e gs))"

fun addr_String :: "addr \<Rightarrow> string" where
  "addr_String (A4 w) = show_ipv4 w"
| "addr_String (A6 w z) =
     (if mapped w then ''::ffff:'' @ show_ipv4 (ucast w) else show_ipv6 w)
       @ (if z = [] then [] else ''%'' @ z)"

subsection \<open>Comparing\<close>

definition addr_less :: "addr \<Rightarrow> addr \<Rightarrow> bool" where
  \<comment> \<open>\<open>Compare\<close> below zero: the shorter family first, then the value, then the zone.\<close>
  "addr_less a b =
     (case (a, b) of
        (A4 x, A4 y) \<Rightarrow> x < y
      | (A4 _, A6 _ _) \<Rightarrow> True
      | (A6 _ _, A4 _) \<Rightarrow> False
      | (A6 x z, A6 y z') \<Rightarrow> x < y \<or> x = y \<and> z < z')"

subsection \<open>Prefixes\<close>

record prefix =
  px_addr :: addr
  px_bits :: nat

definition bit_len :: "addr \<Rightarrow> nat" where "bit_len a = (if Is4 a then 32 else 128)"

definition ParsePrefix :: "string \<Rightarrow> prefix option" where
  "ParsePrefix s =
     (case index_byte (rev s) CHR ''/'' of
        None \<Rightarrow> None
      | Some j \<Rightarrow>
          (let i = length s - Suc j; b = drop (Suc i) s in
           case ParseAddr (take i s) of
             None \<Rightarrow> None
           | Some a \<Rightarrow>
               if (case a of A4 _ \<Rightarrow> False | A6 _ z \<Rightarrow> z \<noteq> []) then None
               else if b = [] \<or> \<not> list_all is_digit b \<or> (1 < length b \<and> hd b = CHR ''0'') then None
               else if digits_value b \<le> bit_len a then Some \<lparr>px_addr = a, px_bits = digits_value b\<rparr>
               else None))"

fun mask_addr :: "nat \<Rightarrow> addr \<Rightarrow> addr" where
  "mask_addr n (A4 w) = A4 (push_bit (32 - n) (drop_bit (32 - n) w))"
| "mask_addr n (A6 w z) = A6 (push_bit (128 - n) (drop_bit (128 - n) w)) []"

definition Masked :: "prefix \<Rightarrow> prefix" where
  "Masked p = p\<lparr>px_addr := mask_addr (px_bits p) (px_addr p)\<rparr>"

definition Contains :: "prefix \<Rightarrow> addr \<Rightarrow> bool" where
  "Contains p a =
     (case (px_addr p, a) of
        (A4 x, A4 y) \<Rightarrow> drop_bit (32 - px_bits p) x = drop_bit (32 - px_bits p) y
      | (A6 x _, A6 y z) \<Rightarrow> z = [] \<and> drop_bit (128 - px_bits p) x = drop_bit (128 - px_bits p) y
      | _ \<Rightarrow> False)"

definition host_prefix :: "addr \<Rightarrow> prefix" where
  \<comment> \<open>\<open>PrefixFrom(addr, addr.BitLen())\<close>: the zone is stripped.\<close>
  "host_prefix a = \<lparr>px_addr = (case a of A4 w \<Rightarrow> A4 w | A6 w _ \<Rightarrow> A6 w []), px_bits = bit_len a\<rparr>"

end
