(* ===== verification/HealthConfig.thy ===== *)
theory HealthConfig
  imports GoLib
begin

text \<open>
  What an instance's configuration asks the health daemon for
  (\<open>cmd/ic-healthd/checker/instance.go\<close> \<open>parseInstanceConfig\<close>,
  \<open>shared/health.go\<close>, \<open>constants.go\<close>, \<open>errors.go\<close>), and the probe and
  restart actions a worker runs.  \<open>is_true\<close> is the Incus library's
  \<open>util.IsTrue\<close>, a parameter.  Durations are nanoseconds.
\<close>

subsection \<open>Constants\<close>

definition HealthStatusUnknown :: string where "HealthStatusUnknown = ''unknown''"
definition HealthStatusStarting :: string where "HealthStatusStarting = ''starting''"
definition HealthStatusHealthy :: string where "HealthStatusHealthy = ''healthy''"
definition HealthStatusUnhealthy :: string where "HealthStatusUnhealthy = ''unhealthy''"
definition HealthStatusStopped :: string where "HealthStatusStopped = ''stopped''"

lemmas health_statuses = HealthStatusUnknown_def HealthStatusStarting_def HealthStatusHealthy_def
  HealthStatusUnhealthy_def HealthStatusStopped_def

definition HealthKeyPrefix :: string where "HealthKeyPrefix = ''user.healthcheck.''"
definition HealthStatusKey :: string where "HealthStatusKey = HealthKeyPrefix @ ''status''"
definition HealthEnabledKey :: string where "HealthEnabledKey = HealthKeyPrefix @ ''enabled''"
definition HealthStoppedKey :: string where "HealthStoppedKey = HealthKeyPrefix @ ''stopped''"

definition RestartPolicies :: "string list" where
  "RestartPolicies = [''always'', ''on-failure'', ''unless-stopped'']"

definition second :: int where "second = 1000000000"
definition millisecond :: int where "millisecond = 1000000"
definition maxRestartDelay :: int where "maxRestartDelay = 5 * 60 * second"
definition restartTimeout :: int where "restartTimeout = 5 * 60 * second * 4"
definition poolRetryDelay :: int where "poolRetryDelay = 250 * millisecond"
definition defaultRestartDelay :: int where "defaultRestartDelay = 5 * second"
definition defaultInterval :: int where "defaultInterval = 30 * second"
definition defaultTimeout :: int where "defaultTimeout = 30 * second"
definition defaultRetries :: int where "defaultRetries = 3"
definition defaultRestartPeriod :: int where "defaultRestartPeriod = 0 * second"
definition defaultRestartInterval :: int where "defaultRestartInterval = 5 * second"

lemmas health_constants = second_def millisecond_def maxRestartDelay_def restartTimeout_def
  poolRetryDelay_def defaultRestartDelay_def defaultInterval_def defaultTimeout_def
  defaultRetries_def defaultRestartPeriod_def defaultRestartInterval_def

subsection \<open>The configuration\<close>

record icfg =
  test :: "string list"
  startPeriod :: int
  startInterval :: int
  interval :: int
  timeout :: int
  retries :: int
  cwd :: string
  uid :: nat
  gid :: nat
  restart :: string
  running :: bool

definition has_policy :: "icfg \<Rightarrow> bool" where
  "has_policy c \<longleftrightarrow> restart c \<in> set RestartPolicies"

datatype cfg_error =
    InstanceNotEnabled
  | InstanceNoHealthcheck
  | ParsingTest
  | ShellNeedsCommand
  | Parsing string
  | MustBePositive string

definition equals :: "icfg \<Rightarrow> icfg \<Rightarrow> bool" where
  "equals ic other \<longleftrightarrow>
     test ic = test other \<and> startPeriod ic = startPeriod other \<and>
     startInterval ic = startInterval other \<and> interval ic = interval other \<and>
     timeout ic = timeout other \<and> retries ic = retries other \<and> cwd ic = cwd other \<and>
     uid ic = uid other \<and> gid ic = gid other \<and> restart ic = restart other \<and>
     running ic = running other"

definition parse_period :: "string \<Rightarrow> bool \<Rightarrow> string \<Rightarrow> int \<Rightarrow> cfg_error + int" where
  \<comment> \<open>One duration key: absent keeps the default, \<open>pos\<close> demands more than zero.\<close>
  "parse_period key pos v dflt =
     (if v = [] then Inr dflt
      else (case parse_duration v of
         None \<Rightarrow> Inl (Parsing key)
       | Some d \<Rightarrow> if pos \<and> d \<le> 0 then Inl (MustBePositive key) else Inr d))"

definition parse_retries :: "string \<Rightarrow> cfg_error + int" where
  "parse_retries v =
     (if v = [] then Inr defaultRetries
      else (case parse_uint32 v of
         None \<Rightarrow> Inl (Parsing ''retries'')
       | Some n \<Rightarrow> if n = 0 then Inl (MustBePositive ''retries'') else Inr (int n)))"

definition parse_test :: "string \<Rightarrow> cfg_error + string list" where
  "parse_test raw =
     (case (if raw = [] then Some [] else json_strings raw) of
        None \<Rightarrow> Inl ParsingTest
      | Some t \<Rightarrow>
          if 0 < length t \<and> t ! 0 = ''CMD-SHELL'' \<and> length t < 2 then Inl ShellNeedsCommand else Inr t)"

definition wants_checking :: "(string \<times> string) list \<Rightarrow> bool" where
  "wants_checking cfg \<longleftrightarrow> cfg_get cfg (HealthKeyPrefix @ ''test'') \<noteq> []
     \<or> cfg_get cfg (HealthKeyPrefix @ ''restart'') \<in> set RestartPolicies"

definition parseInstanceConfig ::
  "(string \<Rightarrow> bool) \<Rightarrow> (string \<times> string) list \<Rightarrow> bool \<Rightarrow> cfg_error + icfg" where
  "parseInstanceConfig is_true cfg run =
     (let key = (\<lambda>k. cfg_get cfg (HealthKeyPrefix @ k)) in
      if \<not> is_true (cfg_get cfg HealthEnabledKey) then
        Inl (if wants_checking cfg then InstanceNotEnabled else InstanceNoHealthcheck)
      else if \<not> wants_checking cfg then Inl InstanceNoHealthcheck
      else
        let raw = (if key ''test'' = [] \<and> key ''restart'' \<in> set RestartPolicies
                   then ''['' @ [CHR 0x22] @ ''NONE'' @ [CHR 0x22] @ '']'' else key ''test'') in
        case parse_test raw of Inl e \<Rightarrow> Inl e | Inr t \<Rightarrow>
        case parse_period ''start_period'' False (key ''start_period'') defaultRestartPeriod of
          Inl e \<Rightarrow> Inl e | Inr sp \<Rightarrow>
        case parse_period ''start_interval'' True (key ''start_interval'') defaultRestartInterval of
          Inl e \<Rightarrow> Inl e | Inr si \<Rightarrow>
        case parse_period ''interval'' True (key ''interval'') defaultInterval of
          Inl e \<Rightarrow> Inl e | Inr iv \<Rightarrow>
        case parse_period ''timeout'' True (key ''timeout'') defaultTimeout of
          Inl e \<Rightarrow> Inl e | Inr tm \<Rightarrow>
        case parse_retries (key ''retries'') of Inl e \<Rightarrow> Inl e | Inr n \<Rightarrow>
          Inr \<lparr>test = t, startPeriod = sp, startInterval = si, interval = iv, timeout = tm,
               retries = n, cwd = cfg_get cfg ''oci.cwd'',
               uid = (case parse_uint32 (cfg_get cfg ''oci.uid'') of Some u \<Rightarrow> u | None \<Rightarrow> 0),
               gid = (case parse_uint32 (cfg_get cfg ''oci.gid'') of Some g \<Rightarrow> g | None \<Rightarrow> 0),
               restart = key ''restart'', running = run\<rparr>)"

definition baseRestartDelay :: "icfg \<Rightarrow> int" where
  "baseRestartDelay cfg =
     (if interval cfg \<le> 0 \<or> retries cfg \<le> 0 then defaultRestartDelay
      else max (min (wrap64 (interval cfg * retries cfg)) maxRestartDelay) defaultRestartDelay)"

subsection \<open>What a worker runs\<close>

datatype check_result =
    CheckOk
  | CheckNotRunning
  | CheckFailed
  | CheckPanic

record exec_command =
  x_cmd :: "string list"
  x_cwd :: string
  x_uid :: nat
  x_gid :: nat

definition probe_command :: "icfg \<Rightarrow> exec_command option option" where
  \<comment> \<open>\<open>None\<close> is an index out of range, \<open>Some None\<close> the probe that needs no exec.\<close>
  "probe_command cfg =
     (let run = (\<lambda>c. \<lparr>x_cmd = c, x_cwd = cwd cfg, x_uid = uid cfg, x_gid = gid cfg\<rparr>) in
      case test cfg of
        [] \<Rightarrow> None
      | t # ts \<Rightarrow>
          if t = ''CMD'' then Some (Some (run ts))
          else if t = ''CMD-SHELL'' then
            (case ts of [] \<Rightarrow> None | c # _ \<Rightarrow> Some (Some (run [''/bin/sh'', ''-c'', c])))
          else if t = ''NONE'' then Some None
          else Some (Some (run (test cfg))))"

definition instanceCheckAction ::
  "bool option \<Rightarrow> (exec_command \<Rightarrow> int option) \<Rightarrow> icfg \<Rightarrow> check_result" where
  \<comment> \<open>\<open>state\<close>: is it running, \<open>None\<close> for a failed read; \<open>exec\<close>: the exit code, \<open>None\<close> for an error.\<close>
  "instanceCheckAction state exec cfg =
     (case state of
        None \<Rightarrow> CheckFailed
      | Some False \<Rightarrow> CheckNotRunning
      | Some True \<Rightarrow>
          if test cfg = [] then CheckFailed
          else (case probe_command cfg of
             None \<Rightarrow> CheckPanic
           | Some None \<Rightarrow> CheckOk
           | Some (Some run) \<Rightarrow>
               (case exec run of
                  None \<Rightarrow> CheckFailed
                | Some ec \<Rightarrow> if ec \<noteq> 0 then CheckFailed else CheckOk)))"

datatype restart_result = RestartOk | RestartStopped | RestartFailed

datatype state_change = StopForce | StartInst

definition instanceRestartAction ::
  "(string \<Rightarrow> bool) \<Rightarrow> (string \<times> string) list option \<Rightarrow> bool option \<Rightarrow> (state_change \<Rightarrow> bool)
     \<Rightarrow> restart_result \<times> state_change list" where
  \<comment> \<open>The instance's own configuration, whether its state is Stopped, and which changes land.\<close>
  "instanceRestartAction is_true cfg stopped lands =
     (case cfg of
        None \<Rightarrow> (RestartFailed, [])
      | Some c \<Rightarrow>
          if is_true (cfg_get c HealthStoppedKey) then (RestartStopped, [])
          else (case stopped of
             None \<Rightarrow> (RestartFailed, [])
           | Some st \<Rightarrow>
               if \<not> st \<and> \<not> lands StopForce then (RestartFailed, [StopForce])
               else ((if lands StartInst then RestartOk else RestartFailed),
                     (if st then [] else [StopForce]) @ [StartInst])))"

subsection \<open>Lemmas and properties\<close>

definition sound_cfg :: "icfg \<Rightarrow> bool" where
  \<comment> \<open>What every configuration the daemon holds satisfies.\<close>
  "sound_cfg c \<longleftrightarrow> 0 < interval c \<and> interval c < 2 ^ 63 \<and> 0 < startInterval c \<and> startInterval c < 2 ^ 63
     \<and> 0 < timeout c \<and> timeout c < 2 ^ 63 \<and> 0 < retries c \<and> retries c < 2 ^ 32 \<and>
     (test c \<noteq> [] \<and> hd (test c) = ''CMD-SHELL'' \<longrightarrow> 2 \<le> length (test c))"

lemma parse_duration_bound: "parse_duration s = Some d \<Longrightarrow> d < 2 ^ 63"
  using wrap64_bounds(2)
  by (auto simp: parse_duration_def Let_def split: if_splits option.splits)

lemma parse_period_pos:
  "parse_period k True v dflt = Inr d \<Longrightarrow> 0 < dflt \<Longrightarrow> dflt < 2 ^ 63 \<Longrightarrow> 0 < d \<and> d < 2 ^ 63"
  by (auto simp: parse_period_def dest: parse_duration_bound split: if_splits option.splits)

lemma parse_retries_pos: "parse_retries v = Inr n \<Longrightarrow> 0 < n \<and> n < 2 ^ 32"
  by (auto simp: parse_retries_def defaultRetries_def parse_uint32_def split: if_splits option.splits)

lemma parse_test_shell:
  "parse_test raw = Inr t \<Longrightarrow> t \<noteq> [] \<Longrightarrow> hd t = ''CMD-SHELL'' \<Longrightarrow> 2 \<le> length t"
  by (cases t) (auto simp: parse_test_def Suc_le_eq split: if_splits option.splits)

lemma accepted_sound:
  assumes "parseInstanceConfig is_true cfg run = Inr c"
  shows "sound_cfg c \<and> is_true (cfg_get cfg HealthEnabledKey) \<and> wants_checking cfg
    \<and> running c = run \<and> (test c \<noteq> [] \<longrightarrow> probe_command c \<noteq> None)"
proof -
  let ?key = "\<lambda>k. cfg_get cfg (HealthKeyPrefix @ k)"
  have en: "is_true (cfg_get cfg HealthEnabledKey)" "wants_checking cfg"
    using assms by (auto simp: parseInstanceConfig_def Let_def split: if_split_asm)
  then obtain raw t sp si iv tm n u g where
    t: "parse_test raw = Inr t" and
    si: "parse_period ''start_interval'' True (?key ''start_interval'') defaultRestartInterval = Inr si" and
    iv: "parse_period ''interval'' True (?key ''interval'') defaultInterval = Inr iv" and
    tm: "parse_period ''timeout'' True (?key ''timeout'') defaultTimeout = Inr tm" and
    n: "parse_retries (?key ''retries'') = Inr n" and
    "c = \<lparr>test = t, startPeriod = sp, startInterval = si, interval = iv, timeout = tm,
          retries = n, cwd = cfg_get cfg ''oci.cwd'', uid = u, gid = g, restart = ?key ''restart'', running = run\<rparr>"
    using assms unfolding parseInstanceConfig_def Let_def
    by (simp only: bind_Inr_iff simp_thms if_False if_True not_not sum.inject) metis
  then have c: "test c = t" "startInterval c = si" "interval c = iv" "timeout c = tm" "retries c = n" "running c = run"
    by simp_all
  have "sound_cfg c"
    using parse_period_pos [OF si] parse_period_pos [OF iv] parse_period_pos [OF tm]
      parse_retries_pos [OF n] parse_test_shell [OF t]
    by (simp add: sound_cfg_def c health_constants)
  moreover have "test c \<noteq> [] \<longrightarrow> probe_command c \<noteq> None"
    using parse_test_shell [OF t] by (auto simp: probe_command_def Let_def c split: list.splits)
  ultimately show ?thesis using en c by blast
qed

text \<open>
  C25.  A configuration the daemon accepts was opted in and asks for something,
  and its numbers are in range: interval, start interval and timeout are between
  one nanosecond and the largest \<open>time.Duration\<close>, retries between one and the
  largest \<open>uint32\<close>; and a shell test has its command,
  so a probe never indexes past the end of its test.  (In range is not yet usable
  everywhere: an interval of one to three nanoseconds is accepted, a quarter of which is
  nothing the jitter could be drawn from.)
\<close>

theorem accepted_config_is_sound:
  assumes "parseInstanceConfig is_true cfg run = Inr c"
  shows "0 < interval c \<and> interval c < 2 ^ 63 \<and> 0 < startInterval c \<and> startInterval c < 2 ^ 63
    \<and> 0 < timeout c \<and> timeout c < 2 ^ 63 \<and> 0 < retries c \<and> retries c < 2 ^ 32
    \<and> is_true (cfg_get cfg HealthEnabledKey) \<and> wants_checking cfg
    \<and> running c = run \<and> (test c \<noteq> [] \<longrightarrow> probe_command c \<noteq> None)"
  using accepted_sound [OF assms] by (simp add: sound_cfg_def)

definition demo_true :: "string \<Rightarrow> bool" where "demo_true s \<longleftrightarrow> s = ''true''"

definition demo_health :: "(string \<times> string) list" where
  "demo_health = [(''user.healthcheck.enabled'', ''true''), (''user.healthcheck.restart'', ''always'')]"

lemma demo_health_parses:
  "parseInstanceConfig demo_true demo_health True =
     Inr \<lparr>test = [''NONE''], startPeriod = 0, startInterval = defaultRestartInterval,
          interval = defaultInterval, timeout = defaultTimeout, retries = 3, cwd = [], uid = 0, gid = 0,
          restart = ''always'', running = True\<rparr>"
  by (simp add: parseInstanceConfig_def go_eval demo_true_def demo_health_def HealthEnabledKey_def
      HealthKeyPrefix_def wants_checking_def RestartPolicies_def parse_test_def parse_period_def
      parse_retries_def health_constants json_element_def simple_escape_def utf8_width_def)

theorem accepted_config_is_sound_witness:
  "\<exists>c. parseInstanceConfig demo_true demo_health True = Inr c \<and> timeout c < 2 ^ 63 \<and> probe_command c \<noteq> None"
  using accepted_config_is_sound [OF demo_health_parses] demo_health_parses by force

text \<open>
  The first restart delay of an instance is always between five seconds and
  five minutes, whatever interval and retries its configuration names: also
  where their 64-bit product wraps around.
\<close>

theorem base_restart_delay_bounds:
  "defaultRestartDelay \<le> baseRestartDelay c \<and> baseRestartDelay c \<le> maxRestartDelay"
  by (auto simp: baseRestartDelay_def health_constants)

text \<open>
  The restart action never touches an instance its user stopped on purpose
  or whose state it could not read; otherwise it starts it exactly once, after a
  forced stop where it was not already stopped, and reports success only where
  every change landed.
\<close>

theorem restart_action_respects_the_user:
  "instanceRestartAction is_true cfg stopped lands = (r, calls) \<Longrightarrow>
     (r = RestartStopped \<longleftrightarrow> (\<exists>c. cfg = Some c \<and> is_true (cfg_get c HealthStoppedKey)))
   \<and> (r = RestartStopped \<longrightarrow> calls = [])
   \<and> (StartInst \<in> set calls \<longrightarrow>
        (\<exists>c. cfg = Some c \<and> \<not> is_true (cfg_get c HealthStoppedKey))
        \<and> (calls = [StartInst] \<and> stopped = Some True \<or> calls = [StopForce, StartInst] \<and> stopped = Some False))
   \<and> (r = RestartOk \<longleftrightarrow> StartInst \<in> set calls \<and> lands StartInst)"
  by (auto simp: instanceRestartAction_def split: option.splits if_splits)

theorem restart_action_respects_the_user_witness:
  "instanceRestartAction demo_true (Some []) (Some False) (\<lambda>_. True) = (RestartOk, [StopForce, StartInst])
   \<and> (RestartOk = RestartOk \<longleftrightarrow> StartInst \<in> set [StopForce, StartInst] \<and> True)"
proof -
  have e: "instanceRestartAction demo_true (Some []) (Some False) (\<lambda>_. True) = (RestartOk, [StopForce, StartInst])"
    by (simp add: instanceRestartAction_def cfg_get_def demo_true_def)
  from restart_action_respects_the_user [OF e] e show ?thesis by blast
qed

end
