(* ===== verification/Health.thy ===== *)
theory Health
  imports HealthConfig Event
begin

text \<open>
  The health checker's loop (\<open>cmd/ic-healthd/checker/instance.go\<close>,
  \<open>checker.go\<close>): the instances it holds, what each lifecycle event, each
  result and each timer pass does to them, and the actions it starts.  Contexts
  are numbered; a nil context or cancel function is \<open>None\<close>.  Starting a worker,
  cancelling a context and writing a status are effects; \<open>accepts\<close> says which
  submissions the non-blocking pool takes, and one clock reading stands for the
  readings one handler makes.  Three ways of stopping dead are values: calling a
  nil cancel function, \<open>rand.N\<close> on nothing, and sending to the full results
  channel, whose only reader is the sender.
\<close>

subsection \<open>State\<close>

datatype ist = Idle | Checking | Restarting | Parked
datatype iact = NoAction | ActCheck | ActRestart

record hinst =
  h_name :: string
  h_project :: string
  h_cfg :: icfg
  h_state :: ist
  h_due :: int
  h_action :: iact
  h_deadline :: "int option"
  h_ctx :: "nat option"
  h_cancel :: "nat option"
  h_inRestart :: bool
  h_restartDone :: int
  h_failures :: int
  h_status :: string
  h_delay :: int

datatype res_kind = RDiscovered | RRestarted | RChecked | RStatus
datatype res_err = NoErr | ENotRunning | EIntentionallyStopped | EConfig cfg_error | EOther

record hres =
  r_kind :: res_kind
  r_name :: string
  r_project :: string
  r_ctx :: "nat option"
  r_config :: "icfg option"
  r_status :: string
  r_err :: res_err

datatype effect =
    SetStatus string string string
  | Canceled nat
  | RunCheck string nat icfg
  | RunRestart string nat
  | Forward event

datatype halt = NilCall | RandPanic | SendBlocks

record checker =
  c_insts :: "(string \<times> hinst) list"
  c_results :: "hres list"
  c_nctx :: nat

definition resultsCap :: nat where "resultsCap = 32"

definition send_result :: "hres \<Rightarrow> checker \<Rightarrow> halt + checker" where
  "send_result r c =
     (if length (c_results c) < resultsCap then Inr (c\<lparr>c_results := c_results c @ [r]\<rparr>)
      else Inl SendBlocks)"

definition res_key :: "hres \<Rightarrow> string" where
  "res_key r = r_project r @ ''/'' @ r_name r"

definition instKey :: "event \<Rightarrow> string" where
  "instKey ev = ev_project ev @ ''/'' @ ev_name ev"

subsection \<open>Steps on one instance\<close>

definition instanceStarted :: "hinst \<Rightarrow> int \<Rightarrow> hinst" where
  "instanceStarted i now =
     (let i1 = i\<lparr>h_cfg := (h_cfg i)\<lparr>running := True\<rparr>, h_state := Idle, h_action := ActCheck,
                 h_failures := 0, h_due := now, h_inRestart := 0 < startPeriod (h_cfg i)\<rparr>
      in if h_inRestart i1 then i1\<lparr>h_restartDone := now + startPeriod (h_cfg i)\<rparr> else i1)"

definition widen :: "hinst \<Rightarrow> hinst" where
  "widen i = i\<lparr>h_delay := min (wrap64 (h_delay i * 2)) maxRestartDelay\<rparr>"

definition schedule_restart :: "int \<Rightarrow> hinst \<Rightarrow> hinst" where
  "schedule_restart now i = widen (i\<lparr>h_action := ActRestart, h_due := now + h_delay i\<rparr>)"

definition clear_action :: "hinst \<Rightarrow> hinst" where
  "clear_action i = i\<lparr>h_ctx := None, h_cancel := None, h_deadline := None\<rparr>"

definition reportStatus :: "string \<Rightarrow> string \<Rightarrow> hinst \<Rightarrow> hinst \<times> effect list" where
  "reportStatus project status i =
     (if status = h_status i then (i, [])
      else (i\<lparr>h_status := status\<rparr>, [SetStatus project (h_name i) status]))"

definition checkFailed :: "hinst \<Rightarrow> int \<Rightarrow> hinst \<times> string" where
  "checkFailed i now =
     (if h_inRestart i then (i, HealthStatusStarting)
      else let i1 = i\<lparr>h_failures := h_failures i + 1\<rparr> in
        if h_failures i1 < retries (h_cfg i1) then (i1, h_status i1)
        else ((if has_policy (h_cfg i1) then schedule_restart now (i1\<lparr>h_failures := 0\<rparr>) else i1),
              HealthStatusUnhealthy))"

subsection \<open>Events\<close>

definition new_inst :: "event \<Rightarrow> icfg \<Rightarrow> int \<Rightarrow> hinst" where
  "new_inst ev cfg now =
     (let i = \<lparr>h_name = ev_name ev, h_project = ev_project ev, h_cfg = cfg, h_state = Idle,
               h_due = now, h_action = ActCheck, h_deadline = None, h_ctx = None, h_cancel = None,
               h_inRestart = False, h_restartDone = 0, h_failures = 0, h_status = [],
               h_delay = baseRestartDelay cfg\<rparr>
      in if \<not> running cfg then i\<lparr>h_state := Parked, h_action := NoAction\<rparr>
         else if 0 < startPeriod cfg then i\<lparr>h_inRestart := True, h_restartDone := now + startPeriod cfg\<rparr>
         else i)"

definition event_config :: "event \<Rightarrow> config" where
  "event_config ev = (case ev_inst ev of None \<Rightarrow> [] | Some i \<Rightarrow> inst_config i)"

definition saveInstance ::
  "(string \<Rightarrow> bool) \<Rightarrow> int \<Rightarrow> event \<Rightarrow> (string \<times> hinst) list \<Rightarrow> (string \<times> hinst) list \<times> (res_err + hinst)" where
  "saveInstance is_true now ev insts =
     (if \<not> Enriched EnrichedInstance ev then (insts, Inl EOther)
      else case parseInstanceConfig is_true (event_config ev) (Running (ev_inst ev)) of
        Inl e \<Rightarrow> (AList.delete (instKey ev) insts, Inl (EConfig e))
      | Inr cfg \<Rightarrow>
          (let i = (case map_of insts (instKey ev) of
                      None \<Rightarrow> new_inst ev cfg now
                    | Some i \<Rightarrow>
                        if \<not> running cfg \<and> h_action i = ActCheck
                        then i\<lparr>h_state := Parked, h_action := NoAction\<rparr>
                        else if running cfg \<and> h_state i = Parked then instanceStarted i now
                        else i);
               i1 = i\<lparr>h_status := (case ConfigValue (ev_inst ev) HealthStatusKey of
                                      Some s \<Rightarrow> s | None \<Rightarrow> HealthStatusUnknown),
                      h_cfg := cfg\<rparr>
           in (AList.update (instKey ev) i1 insts, Inr i1)))"

definition discovered :: "event \<Rightarrow> res_err \<Rightarrow> hres" where
  "discovered ev e =
     \<lparr>r_kind = RDiscovered, r_name = ev_name ev, r_project = ev_project ev, r_ctx = None,
      r_config = None, r_status = [], r_err = e\<rparr>"

definition started_actions :: "string list" where
  "started_actions = [''instance-started'', ''instance-restarted'', ''instance-resumed'']"

definition stopped_actions :: "string list" where
  "stopped_actions = [''instance-stopped'', ''instance-shutdown'']"

definition cancel_effect :: "hinst \<Rightarrow> effect list" where
  \<comment> \<open>Cancelling guarded by a nil test.\<close>
  "cancel_effect i = (case h_cancel i of None \<Rightarrow> [] | Some n \<Rightarrow> [Canceled n])"

definition handleInstanceEvent ::
  "(string \<Rightarrow> bool) \<Rightarrow> int \<Rightarrow> event \<Rightarrow> checker \<Rightarrow> halt + checker \<times> effect list" where
  "handleInstanceEvent is_true now ev c =
     (let key = instKey ev;
          saved = saveInstance is_true now ev (c_insts c);
          c1 = c\<lparr>c_insts := fst saved\<rparr>;
          put = (\<lambda>i. c1\<lparr>c_insts := AList.update key i (fst saved)\<rparr>)
      in
      if ev_name ev = [] then Inr (c, [])
      else if ev_action ev \<in> set started_actions then
        (case snd saved of
           Inl e \<Rightarrow> (case send_result (discovered ev e) c1 of Inl h \<Rightarrow> Inl h | Inr c2 \<Rightarrow> Inr (c2, []))
         | Inr i \<Rightarrow>
             if h_state i = Checking \<or> h_state i = Restarting then Inr (c1, [])
             else Inr (put (instanceStarted i now), []))
      else if ev_action ev \<in> set stopped_actions then
        (case snd saved of
           Inl e \<Rightarrow> (case send_result (discovered ev e) c1 of Inl h \<Rightarrow> Inl h | Inr c2 \<Rightarrow> Inr (c2, []))
         | Inr i \<Rightarrow>
             (let (i1, eff) = reportStatus (ev_project ev) HealthStatusStopped i in
              if \<not> has_policy (h_cfg i1) then
                Inr (c1\<lparr>c_insts := AList.delete key (fst saved)\<rparr>, eff @ cancel_effect i1)
              else if h_action i1 = ActRestart then Inr (put (i1\<lparr>h_state := Idle\<rparr>), eff)
              else Inr (put (schedule_restart now (i1\<lparr>h_state := Idle\<rparr>)), eff)))
      else if ev_action ev = ''instance-updated'' then
        (case snd saved of
           Inl e \<Rightarrow> (case send_result (discovered ev e) c1 of Inl h \<Rightarrow> Inl h | Inr c2 \<Rightarrow> Inr (c2, []))
         | Inr i \<Rightarrow>
             if \<not> running (h_cfg i) then
               (let (i1, eff) = reportStatus (ev_project ev) HealthStatusStopped i in Inr (put i1, eff))
             else Inr (c1, []))
      else if ev_action ev = ''instance-deleted'' then
        Inr (c\<lparr>c_insts := AList.delete key (c_insts c)\<rparr>,
             (case map_of (c_insts c) key of None \<Rightarrow> [] | Some i \<Rightarrow> cancel_effect i))
      else Inr (c, []))"

definition checker_actions :: "string list" where
  \<comment> \<open>The actions \<open>Wants\<close> names.\<close>
  "checker_actions = started_actions @ stopped_actions @
     [''instance-updated'', ''instance-deleted'', ''instance-renamed'']"

definition serveable :: "(event \<Rightarrow> bool) option \<Rightarrow> event \<Rightarrow> bool" where
  "serveable cfg ev =
     (if ev_action ev = ''instance-deleted'' \<or> cfg = None then True
      else case cfg of None \<Rightarrow> True | Some f \<Rightarrow> f ev)"

definition fold_event ::
  "(string \<Rightarrow> bool) \<Rightarrow> (event \<Rightarrow> bool) option \<Rightarrow> int \<Rightarrow> event \<Rightarrow> checker \<Rightarrow> halt + checker \<times> effect list" where
  "fold_event is_true serve now ev c =
     (case (if ev_err ev = None \<and> ev_action ev \<in> set checker_actions then
              (if serveable serve ev then handleInstanceEvent is_true now ev c
               else Inr (c\<lparr>c_insts := AList.delete (instKey ev) (c_insts c)\<rparr>,
                         (case map_of (c_insts c) (instKey ev) of None \<Rightarrow> [] | Some i \<Rightarrow> cancel_effect i)))
            else Inr (c, [])) of
        Inl h \<Rightarrow> Inl h
      | Inr (c1, eff) \<Rightarrow> Inr (c1, eff @ [Forward ev]))"

subsection \<open>Timer passes\<close>

record pass_env =
  p_now :: int
  p_accepts :: "nat \<Rightarrow> bool"
  p_rand :: nat

definition defer_action :: "pass_env \<Rightarrow> hinst \<Rightarrow> hinst" where
  "defer_action env i = i\<lparr>h_due := p_now env + (poolRetryDelay + int (p_rand env) mod poolRetryDelay)\<rparr>"

definition watchdog :: "int \<Rightarrow> hinst \<Rightarrow> halt + hinst \<times> effect list" where
  \<comment> \<open>An action past its deadline is abandoned and counted as failed.\<close>
  "watchdog now i =
     (case h_cancel i of
        None \<Rightarrow> Inl NilCall
      | Some n \<Rightarrow>
          (let checking = (h_state i = Checking);
               i1 = clear_action (i\<lparr>h_state := Idle\<rparr>)
           in if checking then
                (let (i2, want) = checkFailed i1 now;
                     (i3, eff) = reportStatus (h_project i2) want i2
                 in Inr ((if h_action i3 \<noteq> ActRestart
                          then i3\<lparr>h_due := now + interval (h_cfg i3)\<rparr> else i3),
                         Canceled n # eff))
              else Inr (widen (i1\<lparr>h_due := now + h_delay i1\<rparr>), [Canceled n])))"

definition run_one ::
  "pass_env \<Rightarrow> string \<Rightarrow> hinst \<Rightarrow> nat \<Rightarrow> halt + hinst \<times> nat \<times> effect list \<times> int option" where
  \<comment> \<open>One instance of the pass: its new state, the context counter, the effects, and the time \<open>keep\<close> is told.\<close>
  "run_one env key i n =
     (let now = p_now env in
      if h_state i \<noteq> Idle then
        (if (case h_deadline i of None \<Rightarrow> False | Some d \<Rightarrow> d < now) then
           (case watchdog now i of Inl h \<Rightarrow> Inl h | Inr (i1, eff) \<Rightarrow> Inr (i1, n, eff, None))
         else Inr (i, n, [], None))
      else if now < h_due i then Inr (i, n, [], Some (h_due i))
      else case h_action i of
        NoAction \<Rightarrow> Inr (i, n, [], None)
      | ActRestart \<Rightarrow>
          if p_accepts env n then
            Inr (i\<lparr>h_state := Restarting, h_deadline := Some (now + restartTimeout),
                   h_ctx := Some n, h_cancel := Some n\<rparr>, Suc n, [RunRestart key n], None)
          else Inr (defer_action env i, Suc n, [Canceled n], Some (h_due (defer_action env i)))
      | ActCheck \<Rightarrow>
          if test (h_cfg i) = [] \<or> \<not> running (h_cfg i) then Inr (i, n, [], None)
          else if p_accepts env n then
            Inr (i\<lparr>h_state := Checking, h_deadline := Some (now + timeout (h_cfg i)),
                   h_ctx := Some n, h_cancel := Some n\<rparr>, Suc n, [RunCheck key n (h_cfg i)], None)
          else Inr (defer_action env i, Suc n, [Canceled n], Some (h_due (defer_action env i))))"

definition keep :: "int option \<Rightarrow> int option \<Rightarrow> int option" where
  "keep earliest due =
     (case due of None \<Rightarrow> earliest
      | Some d \<Rightarrow> (case earliest of None \<Rightarrow> Some d | Some e \<Rightarrow> if d < e then Some d else Some e))"

fun run_insts ::
  "pass_env \<Rightarrow> (string \<times> hinst) list \<Rightarrow> nat \<Rightarrow> int option
     \<Rightarrow> halt + (string \<times> hinst) list \<times> nat \<times> effect list \<times> int option" where
  "run_insts env [] n e = Inr ([], n, [], e)"
| "run_insts env ((k, i) # rest) n e =
     (case run_one env k i n of
        Inl h \<Rightarrow> Inl h
      | Inr (i1, n1, eff, due) \<Rightarrow>
          (case run_insts env rest n1 (keep e due) of
             Inl h \<Rightarrow> Inl h
           | Inr (rest1, n2, eff', e') \<Rightarrow> Inr ((k, i1) # rest1, n2, eff @ eff', e')))"

definition runInstanceActions :: "pass_env \<Rightarrow> checker \<Rightarrow> halt + checker \<times> effect list \<times> int option" where
  "runInstanceActions env c =
     (case run_insts env (c_insts c) (c_nctx c) None of
        Inl h \<Rightarrow> Inl h
      | Inr (insts, n, eff, e) \<Rightarrow> Inr (c\<lparr>c_insts := insts, c_nctx := n\<rparr>, eff, e))"

subsection \<open>Results\<close>

definition checked :: "int \<Rightarrow> nat \<Rightarrow> hres \<Rightarrow> hinst \<Rightarrow> halt + hinst \<times> effect list" where
  "checked now rnd res i =
     (if r_ctx res \<noteq> h_ctx i then Inr (i, [])
      else case h_cancel i of
        None \<Rightarrow> Inl NilCall
      | Some n \<Rightarrow>
          (let i1 = clear_action (i\<lparr>h_state := Idle\<rparr>);
               i2 = (if h_inRestart i1 \<and> h_restartDone i1 \<le> now then i1\<lparr>h_inRestart := False\<rparr> else i1);
               i3 = (case r_config res of
                       None \<Rightarrow> i2
                     | Some c \<Rightarrow> if equals (h_cfg i2) c then i2 else i2\<lparr>h_cfg := c\<rparr>)
           in if r_err res = ENotRunning then
                (let (i4, eff) = reportStatus (r_project res) HealthStatusStopped
                                   (i3\<lparr>h_cfg := (h_cfg i3)\<lparr>running := False\<rparr>\<rparr>)
                 in Inr ((if has_policy (h_cfg i4) then schedule_restart now i4 else i4), Canceled n # eff))
              else
                (let (i4, want) =
                       (if r_err res = NoErr then
                          (i3\<lparr>h_failures := 0, h_delay := baseRestartDelay (h_cfg i3), h_inRestart := False\<rparr>,
                           HealthStatusHealthy)
                        else checkFailed i3 now);
                     (i5, eff) = reportStatus (r_project res) want i4
                 in if h_action i5 = ActRestart then Inr (i5, Canceled n # eff)
                    else let iv = (if h_inRestart i5 then startInterval (h_cfg i5) else interval (h_cfg i5))
                      in (case rand_N rnd (iv div 4) of
                            None \<Rightarrow> Inl RandPanic
                          | Some j \<Rightarrow> Inr (i5\<lparr>h_due := now + wrap64 (iv + j)\<rparr>, Canceled n # eff)))))"

definition restarted :: "int \<Rightarrow> hres \<Rightarrow> hinst \<Rightarrow> halt + hinst \<times> effect list" where
  "restarted now res i =
     (if r_ctx res \<noteq> h_ctx i then Inr (i, [])
      else case h_cancel i of
        None \<Rightarrow> Inl NilCall
      | Some n \<Rightarrow>
          (let i1 = clear_action i in
           if r_err res = EIntentionallyStopped then Inr (i1\<lparr>h_state := Parked\<rparr>, [Canceled n])
           else if r_err res \<noteq> NoErr then
             Inr (schedule_restart now (i1\<lparr>h_state := Idle\<rparr>), [Canceled n])
           else Inr (instanceStarted i1 now, [Canceled n])))"

definition on_inst ::
  "string \<Rightarrow> (hinst \<Rightarrow> halt + hinst \<times> effect list) \<Rightarrow> checker \<Rightarrow> halt + checker \<times> effect list" where
  "on_inst key f c =
     (case map_of (c_insts c) key of
        None \<Rightarrow> Inr (c, [])
      | Some i \<Rightarrow>
          (case f i of
             Inl h \<Rightarrow> Inl h
           | Inr (i1, eff) \<Rightarrow> Inr (c\<lparr>c_insts := AList.update key i1 (c_insts c)\<rparr>, eff)))"

definition status_written :: "hres \<Rightarrow> hinst \<Rightarrow> halt + hinst \<times> effect list" where
  "status_written res i =
     Inr ((if r_err res \<noteq> NoErr \<and> h_status i = r_status res then i\<lparr>h_status := []\<rparr> else i), [])"

definition handleInstanceResult :: "int \<Rightarrow> nat \<Rightarrow> hres \<Rightarrow> checker \<Rightarrow> halt + checker \<times> effect list" where
  "handleInstanceResult now rnd res c =
     (case r_kind res of
        RDiscovered \<Rightarrow> Inr (c, [])
      | RChecked \<Rightarrow> on_inst (res_key res) (checked now rnd res) c
      | RRestarted \<Rightarrow> on_inst (res_key res) (restarted now res) c
      | RStatus \<Rightarrow> on_inst (res_key res) (status_written res) c)"

subsection \<open>The loop\<close>

datatype h_in =
    InPass pass_env          \<comment> \<open>a pass, at the head of the loop or on the timer\<close>
  | InEvent int event        \<comment> \<open>an event off the inbox\<close>
  | InResult int nat         \<comment> \<open>the oldest result\<close>
  | InDeliver hres           \<comment> \<open>a worker puts its result on the channel, where there is room\<close>

fun h_step ::
  "(string \<Rightarrow> bool) \<Rightarrow> (event \<Rightarrow> bool) option \<Rightarrow> h_in \<Rightarrow> checker \<Rightarrow> halt + checker \<times> effect list" where
  "h_step is_true serve (InPass env) c =
     (case runInstanceActions env c of Inl h \<Rightarrow> Inl h | Inr (c1, eff, _) \<Rightarrow> Inr (c1, eff))"
| "h_step is_true serve (InEvent now ev) c = fold_event is_true serve now ev c"
| "h_step is_true serve (InResult now rnd) c =
     (case c_results c of
        [] \<Rightarrow> Inr (c, [])
      | res # rest \<Rightarrow> handleInstanceResult now rnd res (c\<lparr>c_results := rest\<rparr>))"
| "h_step is_true serve (InDeliver res) c =
     (case send_result res c of Inl _ \<Rightarrow> Inr (c, []) | Inr c1 \<Rightarrow> Inr (c1, []))"

fun h_run ::
  "(string \<Rightarrow> bool) \<Rightarrow> (event \<Rightarrow> bool) option \<Rightarrow> h_in list \<Rightarrow> checker \<Rightarrow> halt + checker \<times> effect list" where
  "h_run is_true serve [] c = Inr (c, [])"
| "h_run is_true serve (x # xs) c =
     (case h_step is_true serve x c of
        Inl h \<Rightarrow> Inl h
      | Inr (c1, eff) \<Rightarrow>
          (case h_run is_true serve xs c1 of
             Inl h \<Rightarrow> Inl h
           | Inr (c2, eff') \<Rightarrow> Inr (c2, eff @ eff')))"

definition start_checker :: checker where
  "start_checker = \<lparr>c_insts = [], c_results = [], c_nctx = 0\<rparr>"

end
