(* ===== verification/HealthLoop.thy ===== *)
theory HealthLoop
  imports Health
begin

text \<open>
  What the health checker's loop keeps and promises: well-formed instances and
  results under every handler, the safety of its runs, the verdicts of probes,
  the passes of the timer, and the three ways in which a run can stop dead.
\<close>

subsection \<open>What the loop keeps\<close>

text \<open>
  An instance is well formed when its context and cancel function come and go
  together, an action in flight has both and a deadline, its configuration is
  one that parsed, and its restart delay is inside its bounds.
\<close>

definition delay_ok :: "int \<Rightarrow> bool" where
  "delay_ok d \<longleftrightarrow> defaultRestartDelay \<le> d \<and> d \<le> maxRestartDelay"

definition wf_inst :: "hinst \<Rightarrow> bool" where
  "wf_inst i \<longleftrightarrow> h_cancel i = h_ctx i \<and> (h_deadline i = None \<longleftrightarrow> h_ctx i = None)
     \<and> (h_state i = Checking \<or> h_state i = Restarting \<longrightarrow> h_ctx i \<noteq> None)
     \<and> sound_cfg (h_cfg i) \<and> delay_ok (h_delay i)"

definition wf_res :: "hres \<Rightarrow> bool" where
  \<comment> \<open>What a worker delivers: the context of its action, and no new configuration but a parsed one.\<close>
  "wf_res r \<longleftrightarrow> (r_kind r = RChecked \<or> r_kind r = RRestarted \<longrightarrow> r_ctx r \<noteq> None)
     \<and> (\<forall>c. r_config r = Some c \<longrightarrow> sound_cfg c)"

definition wf_checker :: "checker \<Rightarrow> bool" where
  "wf_checker c \<longleftrightarrow> all_vals wf_inst (c_insts c) \<and> (\<forall>r \<in> set (c_results c). wf_res r)"

named_theorems wf_intro

lemma delay_ok_base [simp]: "delay_ok (baseRestartDelay c)"
  using base_restart_delay_bounds by (simp add: delay_ok_def)

lemma delay_ok_widen [simp]: "delay_ok d \<Longrightarrow> delay_ok (min (wrap64 (d * 2)) maxRestartDelay)"
  by (auto simp: delay_ok_def health_constants wrap64_id)

lemma sound_cfg_running [simp]: "sound_cfg (c\<lparr>running := b\<rparr>) = sound_cfg c"
  by (simp add: sound_cfg_def)

lemma wf_widen [wf_intro]: "wf_inst i \<Longrightarrow> wf_inst (widen i)"
  by (simp add: wf_inst_def widen_def)

lemma wf_schedule [wf_intro]: "wf_inst i \<Longrightarrow> wf_inst (schedule_restart now i)"
  by (simp add: wf_inst_def schedule_restart_def widen_def)

lemma wf_started [wf_intro]: "wf_inst i \<Longrightarrow> wf_inst (instanceStarted i now)"
  by (simp add: wf_inst_def instanceStarted_def Let_def)

lemma wf_cleared [wf_intro]: "wf_inst i \<Longrightarrow> wf_inst (clear_action (i\<lparr>h_state := Idle\<rparr>))"
  by (simp add: wf_inst_def clear_action_def)

lemma wf_report [wf_intro]: "wf_inst i \<Longrightarrow> wf_inst (fst (reportStatus p s i))"
  by (simp add: wf_inst_def reportStatus_def)

lemma wf_failed [wf_intro]: "wf_inst i \<Longrightarrow> wf_inst (fst (checkFailed i now))"
  by (auto simp: wf_inst_def checkFailed_def schedule_restart_def widen_def Let_def)

lemma wf_fields [wf_intro]:
  "wf_inst i \<Longrightarrow> wf_inst (i\<lparr>h_due := d\<rparr>)"
  "wf_inst i \<Longrightarrow> wf_inst (i\<lparr>h_status := s\<rparr>)"
  "wf_inst i \<Longrightarrow> wf_inst (i\<lparr>h_state := Idle\<rparr>)"
  "wf_inst i \<Longrightarrow> wf_inst (i\<lparr>h_state := Parked\<rparr>)"
  "wf_inst i \<Longrightarrow> wf_inst (i\<lparr>h_action := a\<rparr>)"
  "wf_inst i \<Longrightarrow> wf_inst (i\<lparr>h_inRestart := b\<rparr>)"
  "wf_inst i \<Longrightarrow> wf_inst (i\<lparr>h_failures := n\<rparr>)"
  "wf_inst i \<Longrightarrow> sound_cfg c \<Longrightarrow> wf_inst (i\<lparr>h_cfg := c\<rparr>)"
  "wf_inst i \<Longrightarrow> wf_inst (i\<lparr>h_cfg := (h_cfg i)\<lparr>running := b\<rparr>\<rparr>)"
  "wf_inst i \<Longrightarrow> wf_inst (i\<lparr>h_delay := baseRestartDelay c\<rparr>)"
  by (simp_all add: wf_inst_def)

lemma wf_in_flight [wf_intro]:
  "wf_inst i \<Longrightarrow> wf_inst (i\<lparr>h_state := s, h_deadline := Some d, h_ctx := Some n, h_cancel := Some n\<rparr>)"
  by (simp add: wf_inst_def)

lemma wf_new [wf_intro]: "sound_cfg cfg \<Longrightarrow> wf_inst (new_inst ev cfg now)"
  by (simp add: wf_inst_def new_inst_def Let_def)

lemma wf_clear_only [wf_intro]:
  "wf_inst i \<Longrightarrow> wf_inst ((clear_action i)\<lparr>h_state := Parked\<rparr>)"
  "wf_inst i \<Longrightarrow> wf_inst (instanceStarted (clear_action i) now)"
  "wf_inst i \<Longrightarrow> wf_inst (schedule_restart now ((clear_action i)\<lparr>h_state := Idle\<rparr>))"
  by (simp_all add: wf_inst_def clear_action_def instanceStarted_def schedule_restart_def widen_def Let_def)

subsection \<open>Every handler keeps it\<close>

lemma wf_saveInstance:
  assumes "saveInstance t now ev m = (m', r)" "all_vals wf_inst m"
  shows "all_vals wf_inst m' \<and> (\<forall>i. r = Inr i \<longrightarrow> wf_inst i)"
proof (cases "Enriched EnrichedInstance ev")
  case True
  show ?thesis
  proof (cases "parseInstanceConfig t (event_config ev) (Running (ev_inst ev))")
    case (Inr cfg)
    have cfg: "sound_cfg cfg" using accepted_sound [OF Inr] by simp
    have old: "\<And>i. map_of m (instKey ev) = Some i \<Longrightarrow> wf_inst i"
      using assms(2) by (rule all_vals_lookup)
    from cfg show ?thesis
      using assms True Inr
      by (auto simp: saveInstance_def Let_def intro!: all_vals_update wf_intro intro: old split: option.splits if_splits)
  qed (use assms True in \<open>auto simp: saveInstance_def\<close>)
qed (use assms in \<open>auto simp: saveInstance_def\<close>)

lemma wf_send:
  "send_result r c = Inr c' \<Longrightarrow> wf_checker c \<Longrightarrow> wf_res r \<Longrightarrow> wf_checker c'"
  by (auto simp: send_result_def wf_checker_def split: if_splits)

lemma wf_discovered [simp]: "wf_res (discovered ev e)"
  by (simp add: wf_res_def discovered_def)

lemma wf_event:
  assumes "handleInstanceEvent t now ev c = Inr (c', eff)" "wf_checker c"
  shows "wf_checker c'"
proof -
  obtain m r where s: "saveInstance t now ev (c_insts c) = (m, r)" by fastforce
  have m: "all_vals wf_inst m" "\<And>i. r = Inr i \<Longrightarrow> wf_inst i"
    using wf_saveInstance [OF s] assms(2) by (simp_all add: wf_checker_def)
  have c1: "wf_checker (c\<lparr>c_insts := m\<rparr>)" using assms(2) m by (simp add: wf_checker_def)
  have r: "\<And>i p st. r = Inr i \<Longrightarrow> wf_inst (fst (reportStatus p st i))" using m(2) wf_report by blast
  show ?thesis
    using assms m c1 r
    by (auto simp: handleInstanceEvent_def Let_def s wf_checker_def split_beta split: if_splits sum.splits
        intro!: all_vals_update all_vals_delete wf_intro dest!: wf_send [OF _ c1])
qed

lemma wf_fold: "fold_event t serve now ev c = Inr (c', eff) \<Longrightarrow> wf_checker c \<Longrightarrow> wf_checker c'"
  by (auto simp: fold_event_def split: if_splits sum.splits dest: wf_event)
     (auto simp: wf_checker_def)

subsection \<open>Safety of results and passes\<close>

lemma wf_cancel: "wf_inst i \<Longrightarrow> h_cancel i = None \<longleftrightarrow> h_ctx i = None"
  by (simp add: wf_inst_def)

lemma wf_sound: "wf_inst i \<Longrightarrow> sound_cfg (h_cfg i)"
  by (simp add: wf_inst_def)

lemma clear_action_simps [simp]:
  "h_cfg (clear_action i) = h_cfg i" "h_ctx (clear_action i) = None" "h_cancel (clear_action i) = None"
  "h_deadline (clear_action i) = None" "h_action (clear_action i) = h_action i"
  "h_state (clear_action i) = h_state i" "h_delay (clear_action i) = h_delay i" "h_due (clear_action i) = h_due i"
  "h_failures (clear_action i) = h_failures i" "h_inRestart (clear_action i) = h_inRestart i"
  "h_status (clear_action i) = h_status i" "h_restartDone (clear_action i) = h_restartDone i"
  "h_name (clear_action i) = h_name i" "h_project (clear_action i) = h_project i"
  by (simp_all add: clear_action_def)

lemma wf_restarted:
  assumes "wf_inst i" "r_ctx r \<noteq> None"
  shows "restarted now r i \<noteq> Inl NilCall \<and> (\<forall>i' eff. restarted now r i = Inr (i', eff) \<longrightarrow> wf_inst i')"
  using assms wf_cancel [OF assms(1)]
  by (auto simp: restarted_def Let_def split: option.splits if_splits intro: wf_intro)

definition checked_base :: "int \<Rightarrow> hres \<Rightarrow> hinst \<Rightarrow> hinst" where
  \<comment> \<open>The instance once its check has ended, before the verdict is looked at.\<close>
  "checked_base now res i =
     (let i1 = clear_action (i\<lparr>h_state := Idle\<rparr>);
          i2 = (if h_inRestart i1 \<and> h_restartDone i1 \<le> now then i1\<lparr>h_inRestart := False\<rparr> else i1)
      in case r_config res of
           None \<Rightarrow> i2
         | Some c \<Rightarrow> if equals (h_cfg i2) c then i2 else i2\<lparr>h_cfg := c\<rparr>)"

definition verdict :: "int \<Rightarrow> res_err \<Rightarrow> hinst \<Rightarrow> hinst \<times> string" where
  \<comment> \<open>What a probe that ran says of the instance.\<close>
  "verdict now e i =
     (if e = NoErr then
        (i\<lparr>h_failures := 0, h_delay := baseRestartDelay (h_cfg i), h_inRestart := False\<rparr>, HealthStatusHealthy)
      else checkFailed i now)"

definition not_running :: "hinst \<Rightarrow> hinst" where
  "not_running i = i\<lparr>h_cfg := (h_cfg i)\<lparr>running := False\<rparr>\<rparr>"

lemma checked_parts:
  "checked now rnd res i =
     (if r_ctx res \<noteq> h_ctx i then Inr (i, [])
      else case h_cancel i of
        None \<Rightarrow> Inl NilCall
      | Some n \<Rightarrow>
          (if r_err res = ENotRunning then
             (let (i4, eff) = reportStatus (r_project res) HealthStatusStopped (not_running (checked_base now res i))
              in Inr ((if has_policy (h_cfg i4) then schedule_restart now i4 else i4), Canceled n # eff))
           else
             (let (i4, want) = verdict now (r_err res) (checked_base now res i);
                  (i5, eff) = reportStatus (r_project res) want i4
              in if h_action i5 = ActRestart then Inr (i5, Canceled n # eff)
                 else let iv = (if h_inRestart i5 then startInterval (h_cfg i5) else interval (h_cfg i5))
                   in (case rand_N rnd (iv div 4) of
                         None \<Rightarrow> Inl RandPanic
                       | Some j \<Rightarrow> Inr (i5\<lparr>h_due := now + wrap64 (iv + j)\<rparr>, Canceled n # eff)))))"
  by (simp only: checked_def checked_base_def verdict_def not_running_def Let_def)

lemma wf_checked_base:
  "wf_inst i \<Longrightarrow> wf_res r \<Longrightarrow> wf_inst (checked_base now r i)"
  by (auto simp: checked_base_def Let_def wf_inst_def wf_res_def split: option.splits)

lemma wf_verdict [wf_intro]: "wf_inst i \<Longrightarrow> wf_inst (fst (verdict now e i))"
  using wf_failed by (auto simp: verdict_def wf_inst_def)

lemma wf_not_running [wf_intro]: "wf_inst i \<Longrightarrow> wf_inst (not_running i)"
  by (simp add: wf_inst_def not_running_def)

lemma checked_halts_only_on_rand:
  assumes "wf_inst i" "r_ctx r \<noteq> None" "checked now n r i = Inl h"
  shows "h = RandPanic"
  using assms wf_cancel [OF assms(1)]
  by (auto simp: checked_parts Let_def split_beta split: option.splits if_splits)

lemma wf_checked:
  assumes "wf_inst i" "checked now n r i = Inr (i', eff)" "wf_res r"
  shows "wf_inst i'"
  using assms wf_checked_base [OF assms(1,3), of now]
  by (auto simp: checked_parts Let_def split_beta split: option.splits if_splits intro!: wf_intro)

lemma wf_watchdog:
  assumes "wf_inst i"
  shows "watchdog now i = Inl NilCall \<Longrightarrow> h_ctx i = None"
    and "watchdog now i = Inr (i', eff) \<Longrightarrow> wf_inst i'"
  using assms wf_cancel [OF assms(1)]
  by (auto simp: watchdog_def Let_def split_beta split: option.splits if_splits intro!: wf_intro)

lemma watchdog_total:
  assumes "wf_inst i" "h_deadline i \<noteq> None"
  shows "\<exists>i' eff. watchdog now i = Inr (i', eff) \<and> wf_inst i'"
proof -
  have "h_cancel i \<noteq> None" using assms by (simp add: wf_inst_def)
  then have "\<exists>p. watchdog now i = Inr p"
    by (cases "h_state i = Checking") (auto simp: watchdog_def Let_def split_beta)
  then obtain p where "watchdog now i = Inr p" by blast
  then show ?thesis using wf_watchdog(2) [OF assms(1)] by (metis surj_pair)
qed

lemma wf_defer [wf_intro]: "wf_inst i \<Longrightarrow> wf_inst (defer_action env i)"
  by (auto simp: defer_action_def intro: wf_intro)

lemma run_one_split:
  "h_state i \<noteq> Idle \<Longrightarrow> run_one env k i n =
     (if (\<exists>d. h_deadline i = Some d \<and> d < p_now env) then
        (case watchdog (p_now env) i of Inl h \<Rightarrow> Inl h | Inr (i1, eff) \<Rightarrow> Inr (i1, n, eff, None))
      else Inr (i, n, [], None))"
  "h_state i = Idle \<Longrightarrow> p_now env < h_due i \<Longrightarrow> run_one env k i n = Inr (i, n, [], Some (h_due i))"
  by (auto simp: run_one_def Let_def split: option.splits)

lemma run_one_due:
  assumes "h_state i = Idle" "h_due i \<le> p_now env"
  shows "run_one env k i n =
     (let start = (\<lambda>st d. Inr (i\<lparr>h_state := st, h_deadline := Some (p_now env + d), h_ctx := Some n,
                              h_cancel := Some n\<rparr>, Suc n,
                            [if st = Checking then RunCheck k n (h_cfg i) else RunRestart k n], None));
          refuse = Inr (defer_action env i, Suc n, [Canceled n], Some (h_due (defer_action env i)))
      in if h_action i = ActRestart then (if p_accepts env n then start Restarting restartTimeout else refuse)
         else if h_action i = ActCheck \<and> test (h_cfg i) \<noteq> [] \<and> running (h_cfg i) then
           (if p_accepts env n then start Checking (timeout (h_cfg i)) else refuse)
         else Inr (i, n, [], None))"
  using assms by (cases "h_action i") (simp_all add: run_one_def Let_def)

lemma run_one_total:
  assumes "wf_inst i"
  shows "\<exists>i' n' eff due. run_one env k i n = Inr (i', n', eff, due) \<and> wf_inst i'"
proof (cases "h_state i = Idle")
  case True
  then show ?thesis
    using assms by (cases "p_now env < h_due i") (auto simp: run_one_split run_one_due Let_def intro!: wf_intro)
next
  case False
  then show ?thesis
    using assms watchdog_total [OF assms, of "p_now env"] by (auto simp: run_one_split)
qed

lemma run_insts_total:
  "all_vals wf_inst m \<Longrightarrow>
     \<exists>m' n' eff e'. run_insts env m n e = Inr (m', n', eff, e') \<and> all_vals wf_inst m' \<and> map fst m' = map fst m"
proof (induction env m n e rule: run_insts.induct)
  case (2 env k i rest n e)
  then have i: "wf_inst i" and r: "all_vals wf_inst rest" by simp_all
  obtain i' n' eff due where o: "run_one env k i n = Inr (i', n', eff, due)" "wf_inst i'"
    using run_one_total [OF i] by blast
  show ?case using "2.IH" [OF o(1) refl refl refl r] o by fastforce
qed simp

text \<open>
  A pass of the timer always completes: it never calls a nil cancel function
  and never blocks, it keeps every instance well formed and adds or forgets none.
\<close>

theorem pass_always_completes:
  assumes "wf_checker c"
  shows "\<exists>c' eff e. runInstanceActions env c = Inr (c', eff, e) \<and> wf_checker c'
    \<and> map fst (c_insts c') = map fst (c_insts c) \<and> c_results c' = c_results c"
proof -
  have "all_vals wf_inst (c_insts c)" using assms by (simp add: wf_checker_def)
  from run_insts_total [OF this, of env "c_nctx c" None] assms show ?thesis
    by (auto simp: runInstanceActions_def wf_checker_def)
qed

lemma on_inst_cases:
  assumes "on_inst k f c = r" "wf_checker c"
  obtains "map_of (c_insts c) k = None" "r = Inr (c, [])"
  | i h where "wf_inst i" "f i = Inl h" "r = Inl h"
  | i i' eff where "wf_inst i" "f i = Inr (i', eff)"
      "r = Inr (c\<lparr>c_insts := AList.update k i' (c_insts c)\<rparr>, eff)"
proof (cases "map_of (c_insts c) k")
  case (Some i)
  then have "wf_inst i" using assms(2) by (auto simp: wf_checker_def intro: all_vals_lookup)
  then show ?thesis using that(2,3) Some assms(1) by (cases "f i") (auto simp: on_inst_def)
qed (use that(1) assms in \<open>simp add: on_inst_def\<close>)

lemma wf_put: "wf_checker c \<Longrightarrow> wf_inst i \<Longrightarrow> wf_checker (c\<lparr>c_insts := AList.update k i (c_insts c)\<rparr>)"
  by (auto simp: wf_checker_def)

lemma restarted_halts: "restarted now r i = Inl h \<Longrightarrow> h = NilCall"
  by (auto simp: restarted_def Let_def split: option.splits if_splits)

lemma result_ok:
  assumes "wf_checker c" "wf_res r"
  shows "(\<forall>c' eff. handleInstanceResult now n r c = Inr (c', eff) \<longrightarrow> wf_checker c')
    \<and> (\<forall>h. handleInstanceResult now n r c = Inl h \<longrightarrow> h = RandPanic)"
proof -
  have k: "(\<forall>c' eff. on_inst k f c = Inr (c', eff) \<longrightarrow> wf_checker c') \<and> (\<forall>h. on_inst k f c = Inl h \<longrightarrow> h = RandPanic)"
    if "\<And>i i' e. wf_inst i \<Longrightarrow> f i = Inr (i', e) \<Longrightarrow> wf_inst i'" "\<And>i h. wf_inst i \<Longrightarrow> f i = Inl h \<Longrightarrow> h = RandPanic"
    for k f
    by (rule on_inst_cases [OF refl assms(1), of k f]) (use that assms(1) wf_put in auto)
  show ?thesis
  proof (cases "r_kind r")
    case RChecked
    then have c: "r_ctx r \<noteq> None" using assms(2) by (simp add: wf_res_def)
    show ?thesis
      using k [of "checked now n r" "res_key r"] RChecked wf_checked [OF _ _ assms(2)]
        checked_halts_only_on_rand [OF _ c]
      by (simp add: handleInstanceResult_def)
  next
    case RRestarted
    then have c: "r_ctx r \<noteq> None" using assms(2) by (simp add: wf_res_def)
    have "wf_inst i \<Longrightarrow> restarted now r i = Inl h \<Longrightarrow> h = RandPanic" for i h
      using wf_restarted [OF _ c, of i now] restarted_halts by blast
    then show ?thesis
      using k [of "restarted now r" "res_key r"] RRestarted wf_restarted [OF _ c]
      by (simp add: handleInstanceResult_def)
  next
    case RStatus
    have "wf_inst i \<Longrightarrow> status_written r i = Inr (i', e) \<Longrightarrow> wf_inst i'" for i i' e
      by (auto simp: status_written_def intro: wf_intro split: if_splits)
    moreover have "status_written r i \<noteq> Inl h" for i h by (simp add: status_written_def)
    ultimately show ?thesis
      using k [of "status_written r" "res_key r"] RStatus by (simp add: handleInstanceResult_def)
  qed (use assms in \<open>simp add: handleInstanceResult_def\<close>)
qed

subsection \<open>Safety of runs\<close>

lemma event_halts: "handleInstanceEvent t now ev c = Inl h \<Longrightarrow> h = SendBlocks"
  by (auto simp: handleInstanceEvent_def send_result_def Let_def split_beta split: if_splits sum.splits)

lemma fold_halts: "fold_event t serve now ev c = Inl h \<Longrightarrow> h = SendBlocks"
  by (auto simp: fold_event_def split: if_splits sum.splits dest: event_halts)

fun wf_in :: "h_in \<Rightarrow> bool" where
  "wf_in (InDeliver r) = wf_res r"
| "wf_in x = True"

lemma pass_total: "wf_checker c \<Longrightarrow> \<exists>c' eff e. runInstanceActions env c = Inr (c', eff, e) \<and> wf_checker c'"
  using run_insts_total [of "c_insts c" env "c_nctx c" None]
  by (auto simp: runInstanceActions_def wf_checker_def)

lemma step_ok:
  assumes "wf_checker c" "wf_in x"
  shows "(\<forall>c' eff. h_step t serve x c = Inr (c', eff) \<longrightarrow> wf_checker c')
    \<and> h_step t serve x c \<noteq> Inl NilCall"
proof (cases x)
  case (InPass env)
  then show ?thesis using pass_total [OF assms(1), of env] by auto
next
  case (InEvent now ev)
  then show ?thesis using wf_fold [OF _ assms(1)] by (auto dest: fold_halts)
next
  case (InResult now n)
  show ?thesis
  proof (cases "c_results c")
    case (Cons r rest)
    then have "wf_checker (c\<lparr>c_results := rest\<rparr>)" "wf_res r"
      using assms(1) by (auto simp: wf_checker_def)
    from result_ok [OF this, of now n] InResult Cons show ?thesis by auto
  qed (use InResult assms in simp)
next
  case (InDeliver r)
  then show ?thesis using assms wf_send by (auto split: sum.splits)
qed

text \<open>
  C4.  However events, results, worker deliveries and timer passes are
  interleaved, the loop never calls a nil cancel function, and at every point
  every instance it holds is well formed: its restart delay lies between five
  seconds and five minutes, its numbers are usable, and an action in flight has
  its context, its cancel function and its deadline.
\<close>

theorem checker_run_safe:
  assumes "list_all wf_in xs" "wf_checker c"
  shows "h_run t serve xs c \<noteq> Inl NilCall \<and> (\<forall>c' eff. h_run t serve xs c = Inr (c', eff) \<longrightarrow> wf_checker c')"
  using assms
proof (induction xs arbitrary: c)
  case (Cons x xs)
  have s: "\<And>c' eff. h_step t serve x c = Inr (c', eff) \<Longrightarrow> wf_checker c'" "h_step t serve x c \<noteq> Inl NilCall"
    using step_ok [OF Cons.prems(2), of x t serve] Cons.prems(1) by auto
  show ?case
  proof (cases "h_step t serve x c")
    case (Inr p)
    obtain c1 eff where p: "p = (c1, eff)" by fastforce
    have "wf_checker c1" using s(1) Inr p by simp
    then have "h_run t serve xs c1 \<noteq> Inl NilCall \<and> (\<forall>c' eff. h_run t serve xs c1 = Inr (c', eff) \<longrightarrow> wf_checker c')"
      using Cons.IH Cons.prems(1) by simp
    then show ?thesis by (cases "h_run t serve xs c1") (auto simp: Inr p)
  next
    case (Inl h)
    then show ?thesis using s(2) by simp
  qed
qed simp

definition demo_event :: "string \<Rightarrow> bool \<Rightarrow> config \<Rightarrow> event" where
  "demo_event act up cfg = WithInstance (NewInstance up cfg [] []) False (NewEvent 0 act ''p'' ''a'' [])"

lemma demo_event_simps [simp]:
  "ev_action (demo_event act up cfg) = act" "ev_name (demo_event act up cfg) = ''a''"
  "ev_project (demo_event act up cfg) = ''p''" "ev_err (demo_event act up cfg) = None"
  "event_config (demo_event act up cfg) = cfg" "Running (ev_inst (demo_event act up cfg)) = up"
  "Enriched EnrichedInstance (demo_event act up cfg)" "instKey (demo_event act up cfg) = ''p/a''"
  "ConfigValue (ev_inst (demo_event act up cfg)) k = map_of cfg k"
  by (simp_all add: demo_event_def NewEvent_def event_config_def instKey_def Enriched_WithInstance)
     (simp_all add: WithInstance_def NewInstance_def Running_def ConfigValue_def)

definition always :: "int \<Rightarrow> icfg" where
  \<comment> \<open>\<open>demo_health\<close> with another interval.\<close>
  "always iv = \<lparr>test = [''NONE''], startPeriod = 0, startInterval = defaultRestartInterval,
          interval = iv, timeout = defaultTimeout, retries = 3, cwd = [], uid = 0, gid = 0,
          restart = ''always'', running = True\<rparr>"

definition tiny_health :: config where
  "tiny_health = demo_health @ [(''user.healthcheck.interval'', ''3ns'')]"

lemma tiny_health_parses: "parseInstanceConfig demo_true tiny_health True = Inr (always 3)"
  by (simp add: parseInstanceConfig_def go_eval demo_true_def demo_health_def HealthEnabledKey_def
      HealthKeyPrefix_def wants_checking_def RestartPolicies_def parse_test_def parse_period_def
      parse_retries_def health_constants json_element_def simple_escape_def utf8_width_def
      tiny_health_def always_def fraction_ns_def rnd53_def wrap64_def unit_map_def)

lemma demo_no_status [simp]:
  "map_of tiny_health HealthStatusKey = None" "map_of demo_health HealthStatusKey = None"
  by (simp_all add: tiny_health_def demo_health_def HealthStatusKey_def HealthKeyPrefix_def)

lemma always_simps [simp]:
  "test (always iv) = [''NONE'']" "startPeriod (always iv) = 0" "interval (always iv) = iv"
  "running (always iv)" "has_policy (always iv)" "retries (always iv) = 3" "timeout (always iv) = defaultTimeout"
  "(always iv)\<lparr>running := True\<rparr> = always iv"
  by (simp_all add: always_def has_policy_def RestartPolicies_def)

lemmas loop_eval = start_checker_def fold_event_def checker_actions_def started_actions_def
  stopped_actions_def serveable_def handleInstanceEvent_def saveInstance_def new_inst_def
  instanceStarted_def runInstanceActions_def run_one_def send_result_def resultsCap_def
  handleInstanceResult_def on_inst_def res_key_def checked_def clear_action_def reportStatus_def
  schedule_restart_def widen_def Let_def

definition demo_pass :: "int \<Rightarrow> h_in" where
  "demo_pass now = InPass \<lparr>p_now = now, p_accepts = (\<lambda>_. True), p_rand = 0\<rparr>"

definition demo_result :: "res_kind \<Rightarrow> nat \<Rightarrow> res_err \<Rightarrow> h_in" where
  "demo_result k n e =
     InDeliver \<lparr>r_kind = k, r_name = ''a'', r_project = ''p'', r_ctx = Some n, r_config = None,
               r_status = [], r_err = e\<rparr>"

definition tiny_run :: "h_in list" where
  "tiny_run = [InEvent 10 (demo_event ''instance-started'' True tiny_health), demo_pass 10,
               demo_result RChecked 0 NoErr, InResult 20 7]"

lemma tiny_run_panics: "h_run demo_true None tiny_run start_checker = Inl RandPanic"
  by (simp add: tiny_run_def demo_pass_def demo_result_def loop_eval tiny_health_parses rand_N_def)

definition demo_run :: "h_in list" where
  "demo_run = [InEvent 10 (demo_event ''instance-started'' True demo_health), demo_pass 10,
               demo_result RChecked 0 NoErr, InResult 20 7]"

lemma demo_parses: "parseInstanceConfig demo_true demo_health True = Inr (always defaultInterval)"
  using demo_health_parses by (simp add: always_def)

lemma demo_run_ok:
  "\<exists>c'. h_run demo_true None demo_run start_checker =
     Inr (c', [Forward (demo_event ''instance-started'' True demo_health),
               RunCheck ''p/a'' 0 (always defaultInterval), Canceled 0, SetStatus ''p'' ''a'' ''healthy''])"
  by (simp add: demo_run_def demo_pass_def demo_result_def loop_eval demo_parses rand_N_def health_statuses
      health_constants)

lemma wf_start [simp]: "wf_checker start_checker"
  by (simp add: wf_checker_def start_checker_def)

theorem checker_run_safe_witness:
  "list_all wf_in demo_run \<and> wf_checker start_checker \<and> h_run demo_true None demo_run start_checker \<noteq> Inl NilCall"
proof -
  have d: "list_all wf_in demo_run"
    by (simp add: demo_run_def demo_pass_def demo_result_def wf_res_def)
  show ?thesis using checker_run_safe [OF d wf_start, of demo_true None] d by simp
qed

theorem pass_always_completes_witness:
  "wf_checker start_checker \<and> (\<exists>c' eff e. runInstanceActions \<lparr>p_now = 0, p_accepts = (\<lambda>_. True), p_rand = 0\<rparr>
     start_checker = Inr (c', eff, e))"
  using pass_always_completes [OF wf_start] wf_start by blast

subsection \<open>Ways to stop dead\<close>

text \<open>
  Handling a result of a worker halts the daemon in one situation only: the
  jitter is drawn from nothing because the interval in force is below four
  nanoseconds.
\<close>

theorem result_halts_only_on_tiny_interval:
  assumes "wf_checker c" "wf_res r" "r_config r = None" "handleInstanceResult now n r c = Inl h"
  shows "h = RandPanic \<and> (\<exists>i. map_of (c_insts c) (res_key r) = Some i
           \<and> (interval (h_cfg i) < 4 \<or> startInterval (h_cfg i) < 4))"
proof -
  have h: "h = RandPanic" using result_ok [OF assms(1,2)] assms(4) by blast
  have cf: "h_cfg (fst (checkFailed i now)) = h_cfg i" for i
    by (simp add: checkFailed_def schedule_restart_def widen_def Let_def)
  have rs: "h_cfg (fst (reportStatus p s i)) = h_cfg i" for p s i by (simp add: reportStatus_def)
  have k: "handleInstanceResult now n r c = Inl RandPanic \<Longrightarrow> r_kind r = RChecked"
    by (auto simp: handleInstanceResult_def on_inst_def status_written_def
        split: res_kind.splits option.splits sum.splits dest: restarted_halts)
  then obtain i where i: "map_of (c_insts c) (res_key r) = Some i" "checked now n r i = Inl RandPanic"
    using assms(4) h by (auto simp: handleInstanceResult_def on_inst_def split: option.splits sum.splits)
  have "h_cfg (fst (verdict now e j)) = h_cfg j" for e j
    using cf [of j] by (simp add: verdict_def)
  moreover have "h_cfg (checked_base now r i) = h_cfg i"
    using assms(3) by (simp add: checked_base_def Let_def)
  moreover have "rand_N n (d div 4) = None \<Longrightarrow> d < 4" for d :: int by (auto simp: rand_N_def split: if_splits)
  ultimately have "interval (h_cfg i) < 4 \<or> startInterval (h_cfg i) < 4"
    using i(2) rs by (auto simp: checked_parts Let_def split_beta split: option.splits if_splits)
  then show ?thesis using h i(1) by blast
qed

theorem result_halts_only_on_tiny_interval_witness:
  "\<exists>c r i. handleInstanceResult 20 7 r c = Inl RandPanic \<and> map_of (c_insts c) (res_key r) = Some i
     \<and> interval (h_cfg i) = 3"
proof -
  define i where "i = (new_inst (demo_event ''instance-started'' True tiny_health) (always 3) 10)
    \<lparr>h_state := Checking, h_deadline := Some 100, h_ctx := Some 0, h_cancel := Some 0\<rparr>"
  define c where "c = \<lparr>c_insts = [(''p/a'', i)], c_results = [], c_nctx = 1\<rparr>"
  define r where "r = \<lparr>r_kind = RChecked, r_name = ''a'', r_project = ''p'', r_ctx = Some 0, r_config = None,
               r_status = [], r_err = NoErr\<rparr>"
  have "wf_inst i"
    by (simp add: i_def wf_inst_def new_inst_def always_def sound_cfg_def health_constants Let_def)
  then have c: "wf_checker c" by (simp add: wf_checker_def c_def)
  have r: "wf_res r" "r_config r = None" by (simp_all add: wf_res_def r_def)
  have i: "map_of (c_insts c) (res_key r) = Some i" by (simp add: c_def r_def res_key_def)
  have h: "handleInstanceResult 20 7 r c = Inl RandPanic"
    by (simp add: c_def r_def i_def loop_eval rand_N_def)
  have "interval (h_cfg i) = 3" by (simp add: i_def new_inst_def Let_def)
  with result_halts_only_on_tiny_interval [OF c r h] h i show ?thesis by blast
qed

definition refused :: "(string \<Rightarrow> bool) \<Rightarrow> event \<Rightarrow> bool" where
  \<comment> \<open>An event of an instance the daemon does not watch.\<close>
  "refused t ev \<longleftrightarrow> ev_err ev = None \<and> ev_name ev \<noteq> [] \<and> Enriched EnrichedInstance ev
     \<and> ev_action ev \<in> set (started_actions @ stopped_actions @ [''instance-updated''])
     \<and> (\<exists>e. parseInstanceConfig t (event_config ev) (Running (ev_inst ev)) = Inl e)"

lemma refused_event:
  assumes "refused t ev"
  shows "\<exists>e m. fold_event t None now ev c =
     (case send_result (discovered ev e) (c\<lparr>c_insts := m\<rparr>) of Inl h \<Rightarrow> Inl h | Inr c' \<Rightarrow> Inr (c', [Forward ev]))"
proof -
  obtain e where e: "saveInstance t now ev (c_insts c) = (AList.delete (instKey ev) (c_insts c), Inl (EConfig e))"
    using assms by (auto simp: refused_def saveInstance_def)
  have ev: "ev_err ev = None" "ev_name ev \<noteq> []" using assms by (simp_all add: refused_def)
  from assms consider (a) "ev_action ev \<in> set started_actions" | (b) "ev_action ev \<in> set stopped_actions"
    | (c) "ev_action ev = ''instance-updated''"
    by (auto simp: refused_def)
  then have "handleInstanceEvent t now ev c =
     (case send_result (discovered ev (EConfig e)) (c\<lparr>c_insts := AList.delete (instKey ev) (c_insts c)\<rparr>) of
        Inl h \<Rightarrow> Inl h | Inr c' \<Rightarrow> Inr (c', []))"
    by cases (auto simp: handleInstanceEvent_def Let_def e ev started_actions_def stopped_actions_def)
  moreover have "ev_action ev \<in> set checker_actions" using assms by (auto simp: refused_def checker_actions_def)
  ultimately have "fold_event t None now ev c =
     (case send_result (discovered ev (EConfig e)) (c\<lparr>c_insts := AList.delete (instKey ev) (c_insts c)\<rparr>) of
        Inl h \<Rightarrow> Inl h | Inr c' \<Rightarrow> Inr (c', [Forward ev]))"
    using ev by (auto simp: fold_event_def serveable_def split: sum.splits)
  then show ?thesis by blast
qed

lemma refused_step:
  assumes "refused t ev"
  shows "length (c_results c) < resultsCap \<Longrightarrow>
           \<exists>c' eff. fold_event t None now ev c = Inr (c', eff) \<and> length (c_results c') = Suc (length (c_results c))"
    and "\<not> length (c_results c) < resultsCap \<Longrightarrow> fold_event t None now ev c = Inl SendBlocks"
  using refused_event [OF assms, of now c] by (auto simp: send_result_def)

text \<open>
  C24.  Draining a backlog of events of unwatched instances stops dead: every
  refusal is put on the results channel by its only reader, so once more of them
  are pending than the channel has room, the loop waits for itself.
\<close>

theorem unwatched_backlog_blocks_drain:
  assumes "list_all (refused t) evs" "resultsCap < length (c_results c) + length evs"
    "length (c_results c) \<le> resultsCap"
  shows "h_run t None (map (InEvent now) evs) c = Inl SendBlocks"
  using assms
proof (induction evs arbitrary: c)
  case (Cons ev evs)
  show ?case
  proof (cases "length (c_results c) < resultsCap")
    case True
    obtain c' eff where s: "fold_event t None now ev c = Inr (c', eff)"
      "length (c_results c') = Suc (length (c_results c))"
      using refused_step(1) [OF _ True] Cons.prems(1) by fastforce
    then show ?thesis using Cons.IH [of c'] Cons.prems True by simp
  next
    case False
    then show ?thesis using refused_step(2) [OF _ False] Cons.prems(1) by simp
  qed
qed simp

theorem unwatched_backlog_blocks_drain_witness:
  "h_run demo_true None (map (InEvent 0) (replicate 33 (demo_event ''instance-updated'' True []))) start_checker
     = Inl SendBlocks"
proof -
  have "refused demo_true (demo_event ''instance-updated'' True [])"
    by (simp add: refused_def parseInstanceConfig_def cfg_get_def demo_true_def wants_checking_def RestartPolicies_def Let_def)
  then show ?thesis
    using unwatched_backlog_blocks_drain [of demo_true "replicate 33 (demo_event ''instance-updated'' True [])"
        start_checker 0]
    by (simp add: resultsCap_def start_checker_def list_all_iff)
qed

subsection \<open>Verdicts and backoff\<close>

fun failed_checks :: "nat \<Rightarrow> int \<Rightarrow> hinst \<Rightarrow> hinst \<times> string" where
  \<comment> \<open>\<open>n\<close> failed probes in a row, and the last status they ask for.\<close>
  "failed_checks 0 now i = (i, h_status i)"
| "failed_checks (Suc n) now i = checkFailed (fst (failed_checks n now i)) now"

lemma failed_below:
  assumes "\<not> h_inRestart i" "h_failures i = 0" "int n < retries (h_cfg i)"
  shows "failed_checks n now i = (i\<lparr>h_failures := int n\<rparr>, h_status i)"
  using assms(3) by (induction n) (use assms(1,2) in \<open>simp_all add: checkFailed_def Let_def\<close>)

text \<open>
  The verdict on failing probes.  Inside the start period no failure counts
  and the instance stays starting; outside it, the status is left alone until
  the failures in a row reach the retries, and exactly then the instance is
  unhealthy: with a restart policy a restart is queued after the current delay
  and the count starts afresh, without one the count stays.
\<close>

theorem unhealthy_after_retries:
  "(h_inRestart i \<longrightarrow> failed_checks (Suc n) now i = (i, HealthStatusStarting))
   \<and> (\<not> h_inRestart i \<and> h_failures i = 0 \<and> int (Suc n) < retries (h_cfg i) \<longrightarrow>
        failed_checks (Suc n) now i = (i\<lparr>h_failures := int (Suc n)\<rparr>, h_status i))
   \<and> (\<not> h_inRestart i \<and> h_failures i = 0 \<and> int (Suc n) = retries (h_cfg i) \<longrightarrow>
        snd (failed_checks (Suc n) now i) = HealthStatusUnhealthy \<and>
        (let j = fst (failed_checks (Suc n) now i) in
           if has_policy (h_cfg i) then
             h_action j = ActRestart \<and> h_due j = now + h_delay i \<and> h_failures j = 0
             \<and> h_delay j = min (wrap64 (h_delay i * 2)) maxRestartDelay
           else j = i\<lparr>h_failures := int (Suc n)\<rparr>))"
proof -
  have s: "h_inRestart i \<Longrightarrow> fst (failed_checks k now i) = i" for k
    by (induction k) (simp_all add: checkFailed_def)
  have "h_inRestart i \<longrightarrow> failed_checks (Suc n) now i = (i, HealthStatusStarting)"
    using s [of n] by (simp add: checkFailed_def)
  moreover have "\<not> h_inRestart i \<and> h_failures i = 0 \<and> int (Suc n) < retries (h_cfg i) \<longrightarrow>
      failed_checks (Suc n) now i = (i\<lparr>h_failures := int (Suc n)\<rparr>, h_status i)"
    using failed_below by blast
  ultimately show ?thesis
    using failed_below [of i n now]
    by (auto simp: checkFailed_def schedule_restart_def widen_def Let_def)
qed

definition demo_inst :: hinst where
  "demo_inst = new_inst (demo_event ''instance-started'' True demo_health) (always defaultInterval) 10"

lemma demo_inst_wf: "wf_inst demo_inst"
  by (simp add: demo_inst_def wf_inst_def new_inst_def always_def sound_cfg_def health_constants Let_def)

lemma demo_inst_simps [simp]:
  "h_cfg demo_inst = always defaultInterval" "\<not> h_inRestart demo_inst" "h_failures demo_inst = 0"
  "h_delay demo_inst = 90000000000" "h_status demo_inst = []" "h_state demo_inst = Idle" "h_due demo_inst = 10"
  "h_action demo_inst = ActCheck" "h_ctx demo_inst = None" "h_cancel demo_inst = None" "h_deadline demo_inst = None"
  by (simp_all add: demo_inst_def new_inst_def always_def baseRestartDelay_def health_constants wrap64_id Let_def)

theorem unhealthy_after_retries_witness:
  "failed_checks 2 50 demo_inst = (demo_inst\<lparr>h_failures := 2\<rparr>, []) \<and>
   snd (failed_checks 3 50 demo_inst) = ''unhealthy'' \<and> h_due (fst (failed_checks 3 50 demo_inst)) = 90000000050"
  using unhealthy_after_retries [of demo_inst 1 50] unhealthy_after_retries [of demo_inst 2 50]
  by (simp add: Let_def health_statuses numeral_2_eq_2 numeral_3_eq_3)

lemma schedule_delay: "h_delay (schedule_restart now i) = min (wrap64 (h_delay i * 2)) maxRestartDelay"
  by (simp add: schedule_restart_def widen_def)

text \<open>
  A crash loop backs off: after \<open>k\<close> restarts in a row without a healthy check
  in between, the next one waits \<open>2 ^ k\<close> times the first delay, and never more
  than five minutes; the 64-bit doubling never wraps.
\<close>

theorem crash_loop_backs_off:
  assumes "wf_inst i"
  shows "h_delay ((schedule_restart now ^^ k) i) = min (2 ^ k * h_delay i) maxRestartDelay"
proof (induction k)
  case 0
  show ?case using assms by (simp add: wf_inst_def delay_ok_def)
next
  case (Suc k)
  have "0 < h_delay i" "h_delay i \<le> maxRestartDelay" using assms by (auto simp: wf_inst_def delay_ok_def health_constants)
  then have d: "0 < 2 ^ k * h_delay i" by simp
  define D where "D = 2 ^ k * h_delay i"
  have e: "2 ^ Suc k * h_delay i = 2 * D" by (simp add: D_def)
  have D: "h_delay ((schedule_restart now ^^ k) i) = min D maxRestartDelay" "0 < D"
    using Suc d by (simp_all add: D_def)
  show ?case unfolding e using D by (auto simp: schedule_delay health_constants wrap64_id min_def)
qed

theorem crash_loop_backs_off_witness:
  "h_delay ((schedule_restart 0 ^^ 1) demo_inst) = 180000000000 \<and>
   h_delay ((schedule_restart 0 ^^ 5) demo_inst) = maxRestartDelay"
  using crash_loop_backs_off [OF demo_inst_wf, of 1 0] crash_loop_backs_off [OF demo_inst_wf, of 5 0]
  by (simp add: health_constants del: funpow.simps)

subsection \<open>Stale results, transitions and passes\<close>

text \<open>
  C23.  A result of an action the instance no longer waits for changes nothing,
  starts nothing and writes nothing, whatever it says; and no result touches an
  instance of another key or adds one.
\<close>

theorem stale_results_change_nothing:
  assumes "handleInstanceResult now n r c = Inr (c', eff)"
  shows "c_results c' = c_results c \<and> c_nctx c' = c_nctx c
    \<and> dom (map_of (c_insts c')) = dom (map_of (c_insts c))
    \<and> (\<forall>k. k \<noteq> res_key r \<longrightarrow> map_of (c_insts c') k = map_of (c_insts c) k)
    \<and> ((r_kind r = RChecked \<or> r_kind r = RRestarted)
        \<and> (\<forall>i. map_of (c_insts c) (res_key r) = Some i \<longrightarrow> r_ctx r \<noteq> h_ctx i)
        \<longrightarrow> map_of (c_insts c') = map_of (c_insts c) \<and> eff = [])"
proof -
  have "on_inst k f c = Inr (c', eff) \<Longrightarrow> c_results c' = c_results c \<and> c_nctx c' = c_nctx c
    \<and> dom (map_of (c_insts c')) = dom (map_of (c_insts c))
    \<and> (\<forall>k'. k' \<noteq> k \<longrightarrow> map_of (c_insts c') k' = map_of (c_insts c) k')" for k f
    by (auto simp: on_inst_def split: option.splits sum.splits if_splits)
  moreover have "on_inst (res_key r) f c = Inr (c', eff) \<Longrightarrow>
      (\<forall>i. map_of (c_insts c) (res_key r) = Some i \<longrightarrow> f i = Inr (i, [])) \<Longrightarrow>
      map_of (c_insts c') = map_of (c_insts c) \<and> eff = []" for f
    by (auto simp: on_inst_def fun_eq_iff split: option.splits sum.splits)
  ultimately show ?thesis
    using assms by (auto simp: handleInstanceResult_def checked_def restarted_def split: res_kind.splits)
qed

theorem stale_results_change_nothing_witness:
  "\<exists>r c c' eff. handleInstanceResult 5 0 r c = Inr (c', eff) \<and> r_ctx r = Some 4 \<and> c_insts c = [(''p/a'', demo_inst)]
     \<and> map_of (c_insts c') = map_of (c_insts c) \<and> eff = []"
proof -
  define r where "r = \<lparr>r_kind = RChecked, r_name = ''a'', r_project = ''p'', r_ctx = Some 4, r_config = None,
               r_status = [], r_err = EOther\<rparr>"
  define c where "c = \<lparr>c_insts = [(''p/a'', demo_inst)], c_results = [], c_nctx = 5\<rparr>"
  have "handleInstanceResult 5 0 r c = Inr (c, [])"
    by (simp add: r_def c_def handleInstanceResult_def on_inst_def res_key_def checked_def)
  from this stale_results_change_nothing [OF this] show ?thesis
    by (intro exI [of _ r] exI [of _ c] exI [of _ c] exI [of _ "[]"]) (simp add: r_def c_def res_key_def)
qed

definition may_check :: "int \<Rightarrow> hinst \<Rightarrow> bool" where
  "may_check now i \<longleftrightarrow> h_state i = Idle \<and> h_due i \<le> now \<and> h_action i = ActCheck \<and> test (h_cfg i) \<noteq> []
     \<and> running (h_cfg i)"

definition may_restart :: "int \<Rightarrow> hinst \<Rightarrow> bool" where
  "may_restart now i \<longleftrightarrow> h_state i = Idle \<and> h_due i \<le> now \<and> h_action i = ActRestart"

definition justified_by :: "int \<Rightarrow> (string \<times> hinst) list \<Rightarrow> effect \<Rightarrow> bool" where
  "justified_by now m f \<longleftrightarrow> (case f of
       RunCheck k n c \<Rightarrow> \<exists>i. (k, i) \<in> set m \<and> may_check now i \<and> c = h_cfg i
     | RunRestart k n \<Rightarrow> \<exists>i. (k, i) \<in> set m \<and> may_restart now i
     | SetStatus p nm s \<Rightarrow> \<exists>k i. (k, i) \<in> set m \<and> h_state i = Checking \<and> s \<noteq> h_status i
         \<and> (\<exists>d. h_deadline i = Some d \<and> d < now)
     | Canceled n \<Rightarrow> True
     | Forward e \<Rightarrow> False)"

lemma checkFailed_status: "h_status (fst (checkFailed i now)) = h_status i"
  by (simp add: checkFailed_def schedule_restart_def widen_def Let_def)

lemma watchdog_effects:
  assumes "watchdog now i = Inr (i', eff)" "f \<in> set eff"
  shows "(\<exists>n. f = Canceled n) \<or> (\<exists>p nm s. f = SetStatus p nm s \<and> h_state i = Checking \<and> s \<noteq> h_status i)"
  using assms checkFailed_status [of "clear_action (i\<lparr>h_state := Idle\<rparr>)" now]
  by (auto simp: watchdog_def reportStatus_def Let_def split_beta split: option.splits if_splits)

lemma run_one_justified:
  assumes "run_one env k i n = Inr (i', n', eff, due)" "f \<in> set eff"
  shows "justified_by (p_now env) [(k, i)] f"
proof (cases "h_state i = Idle")
  case True
  then show ?thesis
    using assms by (cases "p_now env < h_due i")
      (auto simp: run_one_split run_one_due justified_by_def may_check_def may_restart_def Let_def split: if_splits)
next
  case False
  then show ?thesis
    using assms by (auto simp: run_one_split justified_by_def split: if_splits sum.splits
        dest!: watchdog_effects)
qed

lemma justified_mono: "justified_by now m f \<Longrightarrow> set m \<subseteq> set m' \<Longrightarrow> justified_by now m' f"
  unfolding justified_by_def by (cases f) (simp_all, blast+)

lemma run_insts_justified:
  "run_insts env m n e = Inr (m', n', eff, e') \<Longrightarrow> f \<in> set eff \<Longrightarrow> justified_by (p_now env) m f"
proof (induction env m n e arbitrary: m' n' eff e' rule: run_insts.induct)
  case (2 env k i rest n e)
  obtain i1 n1 eff1 due r1 n2 eff2 e2 where
    s: "run_one env k i n = Inr (i1, n1, eff1, due)" "run_insts env rest n1 (keep e due) = Inr (r1, n2, eff2, e2)"
      "eff = eff1 @ eff2"
    using "2.prems"(1) by (auto split: sum.splits prod.splits)
  consider "f \<in> set eff1" | "f \<in> set eff2" using "2.prems"(2) s(3) by auto
  then show ?case
  proof cases
    case 1
    show ?thesis by (rule justified_mono [OF run_one_justified [OF s(1) 1]]) simp
  next
    case 2
    have "justified_by (p_now env) rest f" using "2.IH" [OF s(1) refl refl refl s(2) 2] .
    then show ?thesis by (rule justified_mono) auto
  qed
qed simp

text \<open>
  A pass of the timer acts only where something is due: it runs a check only
  for an idle instance that is running, has a test and whose check has come due,
  a restart only for an idle instance whose restart has come due, and it writes a
  status only where a probe overran its deadline and the status changes.
\<close>

theorem pass_acts_only_on_what_is_due:
  assumes "runInstanceActions env c = Inr (c', eff, e)" "f \<in> set eff"
  shows "justified_by (p_now env) (c_insts c) f"
  using assms run_insts_justified
  by (fastforce simp: runInstanceActions_def split: sum.splits)

theorem pass_acts_only_on_what_is_due_witness:
  "\<exists>c'. runInstanceActions \<lparr>p_now = 10, p_accepts = (\<lambda>_. True), p_rand = 0\<rparr>
      \<lparr>c_insts = [(''p/a'', demo_inst)], c_results = [], c_nctx = 5\<rparr>
      = Inr (c', [RunCheck ''p/a'' 5 (always defaultInterval)], None)
    \<and> justified_by 10 [(''p/a'', demo_inst)] (RunCheck ''p/a'' 5 (always defaultInterval))"
proof -
  let ?env = "\<lparr>p_now = 10, p_accepts = (\<lambda>_. True), p_rand = 0\<rparr>"
  let ?c = "\<lparr>c_insts = [(''p/a'', demo_inst)], c_results = [], c_nctx = 5\<rparr>"
  obtain c' where r: "runInstanceActions ?env ?c = Inr (c', [RunCheck ''p/a'' 5 (always defaultInterval)], None)"
    by (simp add: runInstanceActions_def run_one_def keep_def Let_def)
  from pass_acts_only_on_what_is_due [OF r] r show ?thesis by auto
qed

text \<open>
  A restart in flight does not protect its instance from a second one.  The
  stop event that the restart's own forced stop raises makes the instance idle
  with its restart still queued and long due, without cancelling the action in
  flight, so the next pass starts another restart beside it.
\<close>

theorem stop_during_restart_starts_another:
  assumes "map_of (c_insts c) (instKey ev) = Some i" "h_state i = Restarting" "h_action i = ActRestart"
    and "h_due i \<le> p_now env" "p_accepts env n"
    and "ev_action ev \<in> set stopped_actions" "ev_name ev \<noteq> []" "Enriched EnrichedInstance ev"
    and "parseInstanceConfig t (event_config ev) (Running (ev_inst ev)) = Inr cfg" "has_policy cfg"
  shows "\<exists>c' eff j j'. handleInstanceEvent t now ev c = Inr (c', eff) \<and> (\<forall>m. Canceled m \<notin> set eff)
    \<and> map_of (c_insts c') (instKey ev) = Some j \<and> h_ctx j = h_ctx i
    \<and> run_one env (instKey ev) j n = Inr (j', Suc n, [RunRestart (instKey ev) n], None)"
proof -
  have a: "ev_action ev \<notin> set started_actions"
    using assms(6) by (auto simp: started_actions_def stopped_actions_def)
  show ?thesis
    using assms by (auto simp: handleInstanceEvent_def a saveInstance_def reportStatus_def run_one_due Let_def)
qed

theorem stop_during_restart_starts_another_witness:
  "\<exists>c' eff j j'. handleInstanceEvent demo_true 30 (demo_event ''instance-stopped'' True demo_health)
       \<lparr>c_insts = [(''p/a'', demo_inst\<lparr>h_state := Restarting, h_action := ActRestart, h_deadline := Some 99,
          h_ctx := Some 4, h_cancel := Some 4\<rparr>)], c_results = [], c_nctx = 5\<rparr> = Inr (c', eff)
    \<and> map_of (c_insts c') ''p/a'' = Some j \<and> h_ctx j = Some 4
    \<and> run_one \<lparr>p_now = 30, p_accepts = (\<lambda>_. True), p_rand = 0\<rparr> ''p/a'' j 5
        = Inr (j', 6, [RunRestart ''p/a'' 5], None)"
proof -
  let ?i = "demo_inst\<lparr>h_state := Restarting, h_action := ActRestart, h_deadline := Some 99,
          h_ctx := Some 4, h_cancel := Some 4\<rparr>"
  let ?c = "\<lparr>c_insts = [(''p/a'', ?i)], c_results = [], c_nctx = 5\<rparr>"
  let ?ev = "demo_event ''instance-stopped'' True demo_health"
  have p: "parseInstanceConfig demo_true (event_config ?ev) (Running (ev_inst ?ev)) = Inr (always defaultInterval)"
    by (simp add: demo_parses)
  show ?thesis
    using stop_during_restart_starts_another [of ?c ?ev ?i
        "\<lparr>p_now = 30, p_accepts = (\<lambda>_. True), p_rand = 0\<rparr>" 5 demo_true "always defaultInterval" 30, OF _ _ _ _ _ _ _ _ p]
    by (auto simp: stopped_actions_def)
qed

subsection \<open>The timer\<close>

definition waits :: "int \<Rightarrow> hinst \<Rightarrow> bool" where
  \<comment> \<open>After a pass: something to start, but later.\<close>
  "waits now i \<longleftrightarrow> h_state i = Idle \<and> now < h_due i"

lemma keep_le:
  "keep e d = r \<Longrightarrow> (\<forall>x. e = Some x \<or> d = Some x \<longrightarrow> (\<exists>y. r = Some y \<and> y \<le> x)) \<and> (r = e \<or> r = d)"
  by (auto simp: keep_def split: option.splits)

lemma run_one_keeps_due:
  assumes "run_one env k i n = Inr (i', n', eff, due)" "h_state i = Idle" "waits (p_now env) i'"
  shows "due = Some (h_due i')"
  using assms by (cases "p_now env < h_due i")
    (auto simp: run_one_split run_one_due waits_def Let_def defer_action_def split: if_splits)

lemma run_insts_earliest:
  "run_insts env m n e = Inr (m', n', eff, e') \<Longrightarrow>
     (\<forall>x. e = Some x \<longrightarrow> (\<exists>y. e' = Some y \<and> y \<le> x))
   \<and> list_all2 (\<lambda>(k, i) (k', i'). k' = k \<and> (h_state i = Idle \<and> waits (p_now env) i' \<longrightarrow>
        (\<exists>y. e' = Some y \<and> y \<le> h_due i'))) m m'"
proof (induction env m n e arbitrary: m' n' eff e' rule: run_insts.induct)
  case (2 env k i rest n e)
  obtain i1 n1 eff1 due r1 n2 eff2 where
    s: "run_one env k i n = Inr (i1, n1, eff1, due)" "run_insts env rest n1 (keep e due) = Inr (r1, n2, eff2, e')"
      "m' = (k, i1) # r1"
    using "2.prems"(1) by (auto split: sum.splits prod.splits)
  note ih = "2.IH" [OF s(1) refl refl refl s(2)]
  have "x = Some v \<Longrightarrow> x = e \<or> x = due \<Longrightarrow> \<exists>y. e' = Some y \<and> y \<le> v" for x v
    using ih keep_le [OF refl, of e due] by (metis order_trans)
  then show ?case
    using ih s(3) run_one_keeps_due [OF s(1)] by auto
qed simp

text \<open>
  The timer is set in time for what waits: after a pass, every instance that
  was idle and waits for something later is due no earlier than the time the pass
  returns.
\<close>

theorem timer_covers_what_waits:
  assumes "runInstanceActions env c = Inr (c', eff, e)"
  shows "list_all2 (\<lambda>(k, i) (k', i'). k' = k \<and> (h_state i = Idle \<and> waits (p_now env) i' \<longrightarrow>
        (\<exists>y. e = Some y \<and> y \<le> h_due i'))) (c_insts c) (c_insts c')"
  using assms run_insts_earliest
  by (fastforce simp: runInstanceActions_def split: sum.splits)

definition demo_env :: "int \<Rightarrow> pass_env" where
  "demo_env now = \<lparr>p_now = now, p_accepts = (\<lambda>_. True), p_rand = 0\<rparr>"

theorem timer_covers_what_waits_witness:
  "\<exists>c'. runInstanceActions (demo_env 4) \<lparr>c_insts = [(''p/a'', demo_inst)], c_results = [], c_nctx = 5\<rparr>
      = Inr (c', [], Some 10) \<and> list_all2 (\<lambda>(k, i) (k', i'). waits 4 i' \<longrightarrow> 10 \<le> h_due i')
        [(''p/a'', demo_inst)] (c_insts c')"
proof -
  let ?c = "\<lparr>c_insts = [(''p/a'', demo_inst)], c_results = [], c_nctx = 5\<rparr>"
  obtain c' where r: "runInstanceActions (demo_env 4) ?c = Inr (c', [], Some 10)"
    by (simp add: runInstanceActions_def run_one_def keep_def demo_env_def Let_def)
  from timer_covers_what_waits [OF r] r show ?thesis
    by (auto simp: demo_env_def list_all2_Cons1)
qed

text \<open>
  A deadline sets no timer: while every instance has an action in flight
  that is not overdue yet, a pass returns no time at all, so the loop sleeps its
  idle hour however close the deadlines are, and a hung probe is noticed only
  when something else wakes it.
\<close>

theorem deadlines_set_no_timer:
  assumes "list_all (\<lambda>(k, i). h_state i \<noteq> Idle \<and> (\<exists>d. h_deadline i = Some d \<and> p_now env \<le> d)) (c_insts c)"
  shows "runInstanceActions env c = Inr (c, [], None)"
proof -
  have "list_all (\<lambda>(k, i). h_state i \<noteq> Idle \<and> (\<exists>d. h_deadline i = Some d \<and> p_now env \<le> d)) m \<Longrightarrow>
      run_insts env m n None = Inr (m, n, [], None)" for m n
    by (induction m arbitrary: n) (auto simp: run_one_split keep_def)
  then show ?thesis using assms by (simp add: runInstanceActions_def)
qed

theorem deadlines_set_no_timer_witness:
  "runInstanceActions (demo_env 10) \<lparr>c_insts = [(''p/a'', demo_inst\<lparr>h_state := Checking, h_deadline := Some 11,
     h_ctx := Some 0, h_cancel := Some 0\<rparr>)], c_results = [], c_nctx = 1\<rparr> =
   Inr (\<lparr>c_insts = [(''p/a'', demo_inst\<lparr>h_state := Checking, h_deadline := Some 11,
     h_ctx := Some 0, h_cancel := Some 0\<rparr>)], c_results = [], c_nctx = 1\<rparr>, [], None)"
  by (rule deadlines_set_no_timer) (simp add: demo_env_def)

end
