(* ===== verification/Fleet.thy ===== *)
theory Fleet
  imports Event Netip
begin

text \<open>
  The fleet as the enricher last saw it (\<open>ievent/enricher/state.go\<close>,
  \<open>archive.go\<close>): projects, each with its configuration, its instances and its
  networks, and how one instance read is cut down to where the instance sits.
  Maps the API answers with are association lists too, in the order one run
  enumerates them.
\<close>

subsection \<open>What the API answers\<close>

record api_network =
  an_name :: string
  an_project :: string
  an_managed :: bool
  an_config :: config

record api_address =
  aa_address :: string
  aa_scope :: string

record api_nic =
  nic_type :: string
  nic_hwaddr :: string
  nic_addresses :: "api_address list"

type_synonym devices = "(string \<times> config) list"

record api_instance =
  ai_name :: string
  ai_project :: string
  ai_running :: bool
  ai_config :: config
  ai_expandedConfig :: config
  ai_devices :: devices
  ai_expandedDevices :: devices

type_synonym api_state = "(string \<times> api_nic) list"   \<comment> \<open>the state's network map\<close>

subsection \<open>State\<close>

record project =
  p_config :: "config option"   \<comment> \<open>nil until a read fills it\<close>
  p_instances :: "(string \<times> inst) list"
  p_networks :: "(string \<times> network) list"

record fleet =
  f_projects :: "(string \<times> project) list"
  f_dirty :: bool

definition newProject :: project where
  "newProject = \<lparr>p_config = None, p_instances = [], p_networks = []\<rparr>"

definition newState :: fleet where
  "newState = \<lparr>f_projects = [], f_dirty = False\<rparr>"

definition DefaultProject :: string where "DefaultProject = ''default''"

definition clone :: "fleet \<Rightarrow> fleet" where
  "clone s = \<lparr>f_projects = map (\<lambda>(n, p). (n, \<lparr>p_config = p_config p, p_instances = p_instances p,
                                              p_networks = p_networks p\<rparr>)) (f_projects s),
             f_dirty = False\<rparr>"

definition resourceKey :: "string \<Rightarrow> string \<Rightarrow> string \<Rightarrow> string" where
  "resourceKey kind project name = kind @ ''/'' @ project @ ''/'' @ name"

definition kindInstance :: string where "kindInstance = ''ins''"
definition kindNetwork :: string where "kindNetwork = ''net''"
definition kindProject :: string where "kindProject = ''prj''"

lemmas kinds = kindInstance_def kindNetwork_def kindProject_def

definition subnet :: "string \<Rightarrow> string" where
  "subnet address = (if address = ''none'' \<or> address = ''auto'' then [] else address)"

definition newNetwork :: "api_network \<Rightarrow> network" where
  "newNetwork n =
     (if \<not> an_managed n then NewNetwork (an_name n) (an_project n) False [] []
      else NewNetwork (an_name n) (an_project n) True
             (subnet (cfg_get (an_config n) ''ipv4.address''))
             (subnet (cfg_get (an_config n) ''ipv6.address'')))"

definition get_project :: "string \<Rightarrow> fleet \<Rightarrow> project" where
  \<comment> \<open>The project, as it will be once created.\<close>
  "get_project n s = (case map_of (f_projects s) n of Some p \<Rightarrow> p | None \<Rightarrow> newProject)"

definition on_project :: "string \<Rightarrow> (project \<Rightarrow> project) \<Rightarrow> fleet \<Rightarrow> fleet" where
  \<comment> \<open>A write through \<open>project(n)\<close>, which creates it.\<close>
  "on_project n f s = s\<lparr>f_projects := AList.update n (f (get_project n s)) (f_projects s)\<rparr>"

definition in_project :: "string \<Rightarrow> (project \<Rightarrow> project) \<Rightarrow> fleet \<Rightarrow> fleet" where
  \<comment> \<open>A write that leaves an unknown project unknown.\<close>
  "in_project n f s =
     (case map_of (f_projects s) n of
        None \<Rightarrow> s
      | Some p \<Rightarrow> s\<lparr>f_projects := AList.update n (f p) (f_projects s)\<rparr>)"

definition touch :: "fleet \<Rightarrow> fleet" where "touch s = s\<lparr>f_dirty := True\<rparr>"

definition setNetwork :: "api_network \<Rightarrow> fleet \<Rightarrow> fleet" where
  "setNetwork n s = on_project (an_project n)
     (\<lambda>p. p\<lparr>p_networks := AList.update (an_name n) (newNetwork n) (p_networks p)\<rparr>) (touch s)"

definition deleteNetwork :: "string \<Rightarrow> string \<Rightarrow> fleet \<Rightarrow> fleet" where
  "deleteNetwork project name s =
     in_project project (\<lambda>p. p\<lparr>p_networks := AList.delete name (p_networks p)\<rparr>) (touch s)"

definition network_in :: "string \<Rightarrow> string \<Rightarrow> fleet \<Rightarrow> network option" where
  "network_in project name s =
     (case map_of (f_projects s) project of None \<Rightarrow> None | Some p \<Rightarrow> map_of (p_networks p) name)"

definition find_network :: "string \<Rightarrow> string \<Rightarrow> fleet \<Rightarrow> (network \<times> string) option" where
  \<comment> \<open>\<open>state.network\<close>: the instance's own project first, the default project second.\<close>
  "find_network project name s =
     (case network_in project name s of
        Some w \<Rightarrow> Some (w, project)
      | None \<Rightarrow> (case network_in DefaultProject name s of
                   Some w \<Rightarrow> Some (w, DefaultProject)
                 | None \<Rightarrow> None))"

definition setProject :: "string \<Rightarrow> config option \<Rightarrow> fleet \<Rightarrow> fleet" where
  \<comment> \<open>A nil configuration is one nothing has read, also where a read answered it.\<close>
  "setProject name config s = on_project name (\<lambda>p. p\<lparr>p_config := config\<rparr>) (touch s)"

definition projectConfig :: "string \<Rightarrow> fleet \<Rightarrow> config option" where
  "projectConfig name s = (case map_of (f_projects s) name of None \<Rightarrow> None | Some p \<Rightarrow> p_config p)"

definition deleteProject :: "string \<Rightarrow> fleet \<Rightarrow> fleet" where
  "deleteProject name s = (touch s)\<lparr>f_projects := AList.delete name (f_projects s)\<rparr>"

subsection \<open>Where an instance sits\<close>

definition addresses :: "api_nic \<Rightarrow> (addr \<Rightarrow> bool) \<Rightarrow> string list" where
  "addresses nic family =
     sort (map aa_address (filter (\<lambda>a. aa_scope a = ''global'' \<and>
             (case ParseAddr (aa_address a) of None \<Rightarrow> False | Some ip \<Rightarrow> family ip)) (nic_addresses nic)))"

definition parseIP :: "string \<Rightarrow> (addr \<Rightarrow> bool) \<Rightarrow> string list" where
  "parseIP raw family =
     (if raw = [] then []
      else case ParseAddr raw of
        Some a \<Rightarrow> if family a then [addr_String a] else []
      | None \<Rightarrow> (case ParsePrefix raw of
          None \<Rightarrow> []
        | Some p \<Rightarrow> if family (px_addr p) then [addr_String (px_addr p)] else []))"

definition volatile_key :: "string \<Rightarrow> string \<Rightarrow> string" where
  "volatile_key key field = ''volatile.'' @ key @ field"

definition nicIndex_step ::
  "config \<Rightarrow> string \<times> config \<Rightarrow> (string \<times> string) list \<times> (string \<times> string) list
     \<Rightarrow> (string \<times> string) list \<times> (string \<times> string) list" where
  "nicIndex_step config kd idx =
     (let key = fst kd; device = snd kd; t = cfg_get device ''type'';
          put = (\<lambda>hw m. if hw = [] then m else AList.update (to_lower hw) key m);
          hwaddrs = put (cfg_get device ''hwaddr'')
                     (put (cfg_get config (volatile_key key ''.hwaddr'')) (fst idx));
          name0 = cfg_get device ''name'';
          name1 = (if name0 = [] then cfg_get config (volatile_key key ''.name'') else name0);
          name = (if name1 = [] then key else name1)
      in if t \<noteq> [] \<and> t \<noteq> ''nic'' then idx
         else (hwaddrs, AList.update name key (snd idx)))"

definition nicIndex :: "api_instance \<Rightarrow> devices \<Rightarrow> (string \<times> string) list \<times> (string \<times> string) list" where
  "nicIndex inst devs =
     (let config = (if ai_expandedConfig inst = [] then ai_config inst else ai_expandedConfig inst)
      in fold (nicIndex_step config) devs ([], []))"

definition nicDevice ::
  "string \<Rightarrow> api_nic \<Rightarrow> (string \<times> string) list \<Rightarrow> (string \<times> string) list \<Rightarrow> string" where
  "nicDevice ifname nic byHwaddr byName =
     (case map_of byHwaddr (to_lower (nic_hwaddr nic)) of
        Some device \<Rightarrow>
          if nic_hwaddr nic \<noteq> [] then device
          else (case map_of byName ifname of Some d \<Rightarrow> d | None \<Rightarrow> ifname)
      | None \<Rightarrow> (case map_of byName ifname of Some d \<Rightarrow> d | None \<Rightarrow> ifname))"

definition device_get :: "devices \<Rightarrow> string \<Rightarrow> string \<Rightarrow> string" where
  \<comment> \<open>\<open>devices[device][key]\<close>: a nil map reads as empty.\<close>
  "device_get devs device key = (case map_of devs device of None \<Rightarrow> [] | Some d \<Rightarrow> cfg_get d key)"

datatype nic_answer = Skip | Missing string | Placed iface network

definition place_nic ::
  "fleet \<Rightarrow> string \<Rightarrow> devices \<Rightarrow> (string \<times> string) list \<times> (string \<times> string) list \<Rightarrow> string \<times> api_nic \<Rightarrow> nic_answer" where
  \<comment> \<open>The body of the loop over the state's interfaces.\<close>
  "place_nic s project devs idx e =
     (let ifname = fst e; nic = snd e;
          device = nicDevice ifname nic (fst idx) (snd idx);
          net0 = device_get devs device ''network'';
          net = (if net0 = [] then device_get devs device ''parent'' else net0);
          family = (\<lambda>f key. if addresses nic f = [] then parseIP (device_get devs device key) f
                             else addresses nic f)
      in if nic_type nic = ''loopback'' then Skip
         else if net = [] then Skip
         else case find_network project net s of
           None \<Rightarrow> Missing net
         | Some (w, owner) \<Rightarrow>
             Placed (NewInstanceInterface owner (net_name w) (net_managed w)
                       (family Is4 ''ipv4.address'') (family Is6 ''ipv6.address'')) w)"

definition iface_key :: "iface \<Rightarrow> string" where
  "iface_key i = NetworkKey (if_project i) (if_network i)"

fun place_all ::
  "(string \<times> api_nic \<Rightarrow> nic_answer) \<Rightarrow> api_state \<Rightarrow> iface list \<Rightarrow> (string \<times> network) list
     \<Rightarrow> string + iface list \<times> (string \<times> network) list" where
  "place_all f [] found nets = Inr (found, nets)"
| "place_all f (e # es) found nets =
     (case f e of
        Skip \<Rightarrow> place_all f es found nets
      | Missing n \<Rightarrow> Inl n
      | Placed i w \<Rightarrow> place_all f es (found @ [i]) (AList.update (iface_key i) w nets))"

definition interfaces ::
  "fleet \<Rightarrow> api_instance \<Rightarrow> api_state option \<Rightarrow> string + iface list \<times> (string \<times> network) list" where
  \<comment> \<open>\<open>Inl\<close> the missing network.  Ties of the sort keep the enumeration order.\<close>
  "interfaces s inst st =
     (case st of
        None \<Rightarrow> Inr ([], [])
      | Some nics \<Rightarrow>
          (let devs = (if ai_expandedDevices inst = [] then ai_devices inst else ai_expandedDevices inst)
           in case place_all (place_nic s (ai_project inst) devs (nicIndex inst devs)) nics [] [] of
                Inl n \<Rightarrow> Inl n
              | Inr (found, nets) \<Rightarrow> Inr (sort_key iface_key found, nets)))"

definition setInstance :: "api_instance \<Rightarrow> api_state option \<Rightarrow> fleet \<Rightarrow> fleet \<times> (string + inst)" where
  "setInstance inst st s =
     (case interfaces (touch s) inst st of
        Inl missing \<Rightarrow> (touch s, Inl missing)
      | Inr (ifaces, nets) \<Rightarrow>
          (let config = (if ai_expandedConfig inst \<noteq> [] then ai_expandedConfig inst else ai_config inst);
               held = filter (\<lambda>(k, v). \<not> has_prefix k ''volatile.'') config;
               i = NewInstance (ai_running inst) held ifaces nets
           in (on_project (ai_project inst)
                 (\<lambda>p. p\<lparr>p_instances := AList.update (ai_name inst) i (p_instances p)\<rparr>) (touch s), Inr i)))"

subsection \<open>Removing, counting and listing\<close>

definition deleteInstance :: "string \<Rightarrow> string \<Rightarrow> fleet \<Rightarrow> fleet" where
  "deleteInstance project name s =
     in_project project (\<lambda>p. p\<lparr>p_instances := AList.delete name (p_instances p)\<rparr>) (touch s)"

definition projectCount :: "fleet \<Rightarrow> nat" where "projectCount s = length (f_projects s)"

definition instanceCount :: "fleet \<Rightarrow> nat" where
  "instanceCount s = sum_list (map (\<lambda>(_, p). length (p_instances p)) (f_projects s))"

definition held_instance :: "string \<Rightarrow> string \<Rightarrow> fleet \<Rightarrow> inst option" where
  \<comment> \<open>\<open>state.instance\<close>.\<close>
  "held_instance project name s =
     (case map_of (f_projects s) project of None \<Rightarrow> None | Some p \<Rightarrow> map_of (p_instances p) name)"

definition missing :: "(string \<times> 'a) list \<Rightarrow> string list \<Rightarrow> string list" where
  "missing held listed = sort (filter (\<lambda>n. n \<notin> set listed) (map fst held))"

type_synonym subject = "string \<times> string"   \<comment> \<open>project and instance\<close>

definition missingInstances :: "string \<Rightarrow> string list \<Rightarrow> fleet \<Rightarrow> subject list" where
  "missingInstances project listed s =
     (case map_of (f_projects s) project of
        None \<Rightarrow> []
      | Some p \<Rightarrow> map (Pair project) (missing (p_instances p) listed))"

definition pruneNetworks :: "string \<Rightarrow> string list \<Rightarrow> fleet \<Rightarrow> fleet" where
  "pruneNetworks project listed s =
     in_project project
       (\<lambda>p. p\<lparr>p_networks := fold AList.delete (missing (p_networks p) listed) (p_networks p)\<rparr>) (touch s)"

definition pruneProjects :: "string list \<Rightarrow> fleet \<Rightarrow> fleet" where
  "pruneProjects listed s =
     (touch s)\<lparr>f_projects := fold AList.delete (missing (f_projects s) listed) (f_projects s)\<rparr>"

definition on :: "inst \<Rightarrow> string \<Rightarrow> string \<Rightarrow> bool" where
  "on i project name = list_ex (\<lambda>f. if_project f = project \<and> if_network f = name) (inst_ifaces i)"

definition addressed :: "inst \<Rightarrow> bool" where
  "addressed i = list_ex (\<lambda>f. if_ipv4 f \<noteq> [] \<or> if_ipv6 f \<noteq> []) (inst_ifaces i)"

definition networkInstances :: "string \<Rightarrow> string \<Rightarrow> fleet \<Rightarrow> subject list" where
  "networkInstances project name s =
     concat (map (\<lambda>(pn, p). map (\<lambda>(n, _). (pn, n)) (filter (\<lambda>(_, i). on i project name) (p_instances p)))
               (f_projects s))"

definition projectInstances :: "string \<Rightarrow> fleet \<Rightarrow> subject list" where
  "projectInstances project s =
     (case map_of (f_projects s) project of
        None \<Rightarrow> []
      | Some p \<Rightarrow> map (\<lambda>(n, _). (project, n)) (p_instances p))"

subsection \<open>The archive of what was last said (archive.go)\<close>

type_synonym archive = "(string \<times> event) list"

definition changed :: "event \<Rightarrow> archive \<Rightarrow> archive \<times> bool" where
  "changed ev a =
     (let key = resourceKey kindInstance (ev_project ev) (ev_name ev)
      in (AList.update key ev a, \<not> event_Equal (Some ev) (map_of a key)))"

definition forget :: "string \<Rightarrow> string \<Rightarrow> archive \<Rightarrow> archive" where
  "forget project name a = AList.delete (resourceKey kindInstance project name) a"

subsection \<open>Lemmas and properties\<close>

lemma map_of_fold_delete: "map_of (fold AList.delete ks m) = (map_of m) |` (- set ks)"
  by (induction ks arbitrary: m) (auto simp: restrict_map_def fun_eq_iff)

lemma touch_simps [simp]: "f_projects (touch s) = f_projects s" "f_dirty (touch s)"
  by (simp_all add: touch_def)

lemma network_in_touch [simp]: "network_in p n (touch s) = network_in p n s"
  by (simp add: network_in_def)

lemma find_network_touch [simp]: "find_network p n (touch s) = find_network p n s"
  by (simp add: find_network_def cong: option.case_cong)

lemma place_nic_touch [simp]: "place_nic (touch s) = place_nic s"
  by (simp add: place_nic_def fun_eq_iff Let_def)

lemma place_all_Inl: "place_all f es found nets = Inl n \<Longrightarrow> \<exists>e \<in> set es. f e = Missing n"
  by (induction f es found nets rule: place_all.induct) (auto split: nic_answer.splits)

definition placed :: "(string \<times> api_nic \<Rightarrow> nic_answer) \<Rightarrow> api_state \<Rightarrow> (iface \<times> network) list" where
  "placed f es = concat (map (\<lambda>e. case f e of Placed i w \<Rightarrow> [(i, w)] | _ \<Rightarrow> []) es)"

lemma place_all_Inr:
  "place_all f es found nets = Inr (found', nets') \<Longrightarrow>
     found' = found @ map fst (placed f es)
   \<and> nets' = fold (\<lambda>(i, w). AList.update (iface_key i) w) (placed f es) nets"
  by (induction f es found nets rule: place_all.induct) (auto simp: placed_def split: nic_answer.splits)

lemma place_all_ok: "(\<exists>r. place_all f es found nets = Inr r) \<longleftrightarrow> (\<forall>e \<in> set es. \<forall>n. f e \<noteq> Missing n)"
  by (induction f es found nets rule: place_all.induct) (auto split: nic_answer.splits)

lemma fold_update_covers:
  "(\<exists>w. (i, w) \<in> set ps) \<or> map_of m (iface_key i) \<noteq> None \<Longrightarrow>
     \<exists>w. map_of (fold (\<lambda>(i, w). AList.update (iface_key i) w) ps m) (iface_key i) = Some w"
  by (induction ps arbitrary: m) auto

lemma map_of_filter_key: "map_of (filter (\<lambda>(k, v). P k) m) k = (if P k then map_of m k else None)"
  by (induction m) auto

lemma setInstance_held:
  assumes "setInstance a st s = (s', Inr i)"
  shows "held_instance p n s' = (if p = ai_project a \<and> n = ai_name a then Some i else held_instance p n s)"
proof -
  have "s' = on_project (ai_project a) (\<lambda>p. p\<lparr>p_instances := AList.update (ai_name a) i (p_instances p)\<rparr>) (touch s)"
    using assms by (auto simp: setInstance_def Let_def split: sum.splits)
  then show ?thesis
    by (auto simp: held_instance_def on_project_def get_project_def newProject_def split: option.splits)
qed

text \<open>
  An instance the fleet takes in is placed whole: every interface it sits on
  names a network that travels with it, the interfaces are sorted by that name,
  its configuration carries nothing volatile, and it is held under its own name
  while every other instance and every network stays as it was.
\<close>

theorem instance_is_placed_whole:
  assumes "setInstance a st s = (s', Inr i)"
  shows "list_all (\<lambda>f. \<exists>w. map_of (inst_networks i) (iface_key f) = Some w) (inst_ifaces i)
    \<and> sorted (map iface_key (inst_ifaces i))
    \<and> (st = None \<longrightarrow> inst_ifaces i = [])
    \<and> list_all (\<lambda>(k, v). \<not> has_prefix k ''volatile.'') (inst_config i)
    \<and> inst_running i = ai_running a
    \<and> (\<forall>p n. held_instance p n s' = (if p = ai_project a \<and> n = ai_name a then Some i else held_instance p n s))
    \<and> (\<forall>p n. network_in p n s' = network_in p n s) \<and> f_dirty s'"
proof -
  obtain ifs nets where n: "interfaces (touch s) a st = Inr (ifs, nets)"
    using assms by (auto simp: setInstance_def split: sum.splits)
  have i: "inst_ifaces i = ifs" "inst_networks i = nets" "inst_running i = ai_running a"
    "list_all (\<lambda>(k, v). \<not> has_prefix k ''volatile.'') (inst_config i)"
    and s': "s' = on_project (ai_project a) (\<lambda>p. p\<lparr>p_instances := AList.update (ai_name a) i (p_instances p)\<rparr>) (touch s)"
    using assms n by (auto simp: setInstance_def NewInstance_def list_all_iff Let_def)
  have "sorted (map iface_key ifs) \<and> (st = None \<longrightarrow> ifs = [])
      \<and> list_all (\<lambda>f. \<exists>w. map_of nets (iface_key f) = Some w) ifs"
  proof (cases st)
    case (Some nics)
    let ?devs = "if ai_expandedDevices a = [] then ai_devices a else ai_expandedDevices a"
    let ?f = "place_nic s (ai_project a) ?devs (nicIndex a ?devs)"
    obtain found where p: "place_all ?f nics [] [] = Inr (found, nets)" "ifs = sort_key iface_key found"
      using n Some by (auto simp: interfaces_def Let_def split: sum.splits)
    have "list_all (\<lambda>f. \<exists>w. map_of nets (iface_key f) = Some w) ifs"
      using place_all_Inr [OF p(1)] p(2) by (fastforce simp: list_all_iff intro: fold_update_covers)
    then show ?thesis using Some p(2) by simp
  qed (use n in \<open>simp add: interfaces_def\<close>)
  moreover have "\<forall>p n. held_instance p n s' = (if p = ai_project a \<and> n = ai_name a then Some i else held_instance p n s)"
    by (simp add: setInstance_held [OF assms])
  moreover have "\<forall>p n. network_in p n s' = network_in p n s"
    by (auto simp: s' network_in_def on_project_def get_project_def newProject_def split: option.splits)
  ultimately show ?thesis using i s' by (auto simp: on_project_def)
qed

text \<open>
  An incomplete read is no read: where a NIC names a network nothing has
  read, nothing is stored, and the answer is the name of a network that really is
  unknown to the instance's project and to the default one.
\<close>

theorem incomplete_read_stores_nothing:
  assumes "setInstance a st s = (s', Inl n)"
  shows "f_projects s' = f_projects s \<and> n \<noteq> [] \<and> network_in (ai_project a) n s = None
    \<and> network_in DefaultProject n s = None"
proof -
  obtain nics where st: "st = Some nics" and i: "interfaces (touch s) a st = Inl n" and "s' = touch s"
    using assms by (cases st) (auto simp: setInstance_def interfaces_def Let_def split: sum.splits)
  let ?devs = "if ai_expandedDevices a = [] then ai_devices a else ai_expandedDevices a"
  have "place_all (place_nic s (ai_project a) ?devs (nicIndex a ?devs)) nics [] [] = Inl n"
    using i st by (auto simp: interfaces_def Let_def split: sum.splits)
  from place_all_Inl [OF this] obtain e where "place_nic s (ai_project a) ?devs (nicIndex a ?devs) e = Missing n" by blast
  then have "n \<noteq> [] \<and> find_network (ai_project a) n s = None"
    by (auto simp: place_nic_def Let_def split: if_splits option.splits)
  then show ?thesis using \<open>s' = touch s\<close> by (auto simp: find_network_def split: option.splits)
qed

definition net_entries :: "(iface \<times> network) list \<Rightarrow> (string \<times> network) list" where
  "net_entries ps = map (\<lambda>(i, w). (iface_key i, w)) ps"

lemma map_of_fold_update:
  "distinct (map fst (net_entries ps)) \<Longrightarrow>
     map_of (fold (\<lambda>(i, w). AList.update (iface_key i) w) ps m) = map_of m ++ map_of (net_entries ps)"
  by (induction ps arbitrary: m)
     (auto simp: net_entries_def map_add_upd_left dom_map_of_conv_image_fst image_image split_beta)

lemma sort_key_perm:
  fixes f :: "'a \<Rightarrow> 'k::linorder"
  assumes "mset xs = mset ys" "distinct (map f xs)"
  shows "sort_key f xs = sort_key f ys"
proof (rule map_sorted_distinct_set_unique [of f])
  have "mset (map f xs) = mset (map f ys)" unfolding mset_map by (simp only: assms(1))
  then have "distinct (map f ys)" using assms(2) mset_eq_imp_distinct_iff by blast
  then show "distinct (map f (sort_key f ys))" "distinct (map f (sort_key f xs))"
    using assms(2) unfolding distinct_map by simp_all
  show "set (sort_key f xs) = set (sort_key f ys)" 
    unfolding set_sort using mset_eq_setD [OF assms(1)] .
  then show "inj_on f (set (sort_key f xs) \<union> set (sort_key f ys))"
    using assms(2) unfolding distinct_map by simp
qed simp_all

lemma mset_placed: "mset es = mset es' \<Longrightarrow> mset (placed f es) = mset (placed f es')"
proof -
  have "mset (placed f xs) = \<Sum>\<^sub># (image_mset (\<lambda>e. mset (case f e of Placed i w \<Rightarrow> [(i, w)] | _ \<Rightarrow> [])) (mset xs))" for xs
    by (induction xs) (simp_all add: placed_def)
  then show "mset es = mset es' \<Longrightarrow> ?thesis" by simp
qed

text \<open>
  Where an instance sits on each network once, its placement does not depend
  on the order in which the daemon happened to list its NICs: any enumeration of
  the same state gives the same interfaces and the same networks.
\<close>

theorem placement_ignores_listing_order:
  assumes "mset nics = mset nics'" "interfaces s a (Some nics) = Inr (ifs, nets)" "distinct (map iface_key ifs)"
  shows "\<exists>nets'. interfaces s a (Some nics') = Inr (ifs, nets') \<and> map_of nets' = map_of nets"
proof -
  let ?devs = "if ai_expandedDevices a = [] then ai_devices a else ai_expandedDevices a"
  let ?f = "place_nic s (ai_project a) ?devs (nicIndex a ?devs)"
  obtain found where p: "place_all ?f nics [] [] = Inr (found, nets)" "ifs = sort_key iface_key found"
    using assms(2) by (auto simp: interfaces_def Let_def split: sum.splits)
  have "\<forall>e \<in> set nics'. \<forall>n. ?f e \<noteq> Missing n"
    using p(1) place_all_ok [of ?f nics "[]" "[]"] assms(1) by (metis mset_eq_setD)
  then obtain found' nets' where p': "place_all ?f nics' [] [] = Inr (found', nets')"
    using place_all_ok [of ?f nics' "[]" "[]"] by (metis surj_pair)
  let ?ps = "placed ?f nics" and ?qs = "placed ?f nics'"
  have m: "mset ?ps = mset ?qs" by (rule mset_placed [OF assms(1)])
  have fd: "found = map fst ?ps" "nets = fold (\<lambda>(i, w). AList.update (iface_key i) w) ?ps []"
    "found' = map fst ?qs" "nets' = fold (\<lambda>(i, w). AList.update (iface_key i) w) ?qs []"
    using place_all_Inr [OF p(1)] place_all_Inr [OF p'] by simp_all
  have "mset (map iface_key ifs) = mset (map iface_key found)" using p(2) by simp
  then have d: "distinct (map iface_key found)" using assms(3) mset_eq_imp_distinct_iff by blast
  have e: "map fst (net_entries qs) = map iface_key (map fst qs)" for qs
    by (simp add: net_entries_def split_beta)
  have dp: "distinct (map fst (net_entries ?ps))" using d by (simp only: e fd(1))
  have mf: "mset (map fst (net_entries ?ps)) = mset (map fst (net_entries ?qs))"
    using m by (simp add: net_entries_def)
  then have dq: "distinct (map fst (net_entries ?qs))" using dp mset_eq_imp_distinct_iff by blast
  have "mset found = mset found'" using m by (simp add: fd)
  then have "ifs = sort_key iface_key found'" using sort_key_perm [OF _ d] p(2) by metis
  moreover have "map_of nets' = map_of nets"
  proof -
    have "set (net_entries ?ps) = set (net_entries ?qs)"
      using mset_eq_setD [OF m] by (simp add: net_entries_def)
    then have "map_of (net_entries ?ps) = map_of (net_entries ?qs)"
      using map_of_inject_set [OF dp dq] by blast
    then show ?thesis using map_of_fold_update [OF dp, of "[]"] map_of_fold_update [OF dq, of "[]"] by (simp add: fd)
  qed
  ultimately show ?thesis using p' by (auto simp: interfaces_def Let_def)
qed

lemmas netip_eval = ParseAddr_def parse_ipv4_def parse_octet_def is_digit_def code_def digits_value_def digit_def

definition demo_net :: api_network where
  "demo_net = \<lparr>an_name = ''br0'', an_project = ''default'', an_managed = True,
               an_config = [(''ipv4.address'', ''10.0.0.1/24''), (''ipv6.address'', ''none'')]\<rparr>"

definition demo_nic :: "string \<Rightarrow> api_nic" where
  "demo_nic a = \<lparr>nic_type = ''broadcast'', nic_hwaddr = [], nic_addresses = [\<lparr>aa_address = a, aa_scope = ''global''\<rparr>]\<rparr>"

definition demo_api :: api_instance where
  "demo_api = \<lparr>ai_name = ''web'', ai_project = ''p'', ai_running = True,
     ai_config = [(''volatile.eth0.name'', ''eth0''), (''user.x'', ''1'')], ai_expandedConfig = [],
     ai_devices = [(''eth0'', [(''network'', ''br0'')]), (''eth1'', [(''network'', ''br0'')])], ai_expandedDevices = []\<rparr>"

definition demo_fleet :: fleet where "demo_fleet = setNetwork demo_net newState"

definition nic_a :: "string \<times> api_nic" where "nic_a = (''eth0'', demo_nic ''10.0.0.5'')"
definition nic_b :: "string \<times> api_nic" where "nic_b = (''eth1'', demo_nic ''10.0.0.6'')"

definition demo_if :: "string \<Rightarrow> iface" where
  "demo_if a = NewInstanceInterface ''default'' ''br0'' True [a] []"

lemma demo_parse: "ParseAddr ''10.0.0.5'' = Some (A4 0x0A000005)" "ParseAddr ''10.0.0.6'' = Some (A4 0x0A000006)"
  by (simp_all add: netip_eval)

lemma demo_index: "nicIndex demo_api (ai_devices demo_api) = ([], [(''eth0'', ''eth0''), (''eth1'', ''eth1'')])"
  by (simp add: nicIndex_def nicIndex_step_def demo_api_def cfg_get_def volatile_key_def Let_def)

lemma demo_networks: "find_network ''p'' ''br0'' demo_fleet = Some (NewNetwork ''br0'' ''default'' True ''10.0.0.1/24'' [], ''default'')"
  by (simp add: find_network_def network_in_def demo_fleet_def setNetwork_def on_project_def get_project_def
      newState_def newProject_def demo_net_def newNetwork_def subnet_def cfg_get_def DefaultProject_def touch_def)

lemma demo_place:
  "place_nic demo_fleet ''p'' (ai_devices demo_api) (nicIndex demo_api (ai_devices demo_api)) nic_a =
     Placed (demo_if ''10.0.0.5'') (NewNetwork ''br0'' ''default'' True ''10.0.0.1/24'' [])"
  "place_nic demo_fleet ''p'' (ai_devices demo_api) (nicIndex demo_api (ai_devices demo_api)) nic_b =
     Placed (demo_if ''10.0.0.6'') (NewNetwork ''br0'' ''default'' True ''10.0.0.1/24'' [])"
  by (simp_all add: demo_index)
     (simp_all add: place_nic_def demo_api_def nicDevice_def device_get_def cfg_get_def demo_networks
      NewNetwork_def nic_a_def nic_b_def demo_nic_def addresses_def demo_parse Is6_def parseIP_def demo_if_def Let_def)

lemma demo_key [simp]: "iface_key (demo_if a) = ''default/br0''"
  by (simp add: iface_key_def NetworkKey_def demo_if_def NewInstanceInterface_def)

lemma demo_interfaces:
  "interfaces demo_fleet demo_api (Some [nic_a, nic_b]) =
     Inr ([demo_if ''10.0.0.5'', demo_if ''10.0.0.6''], [(''default/br0'', NewNetwork ''br0'' ''default'' True ''10.0.0.1/24'' [])])"
  "interfaces demo_fleet demo_api (Some [nic_b, nic_a]) =
     Inr ([demo_if ''10.0.0.6'', demo_if ''10.0.0.5''], [(''default/br0'', NewNetwork ''br0'' ''default'' True ''10.0.0.1/24'' [])])"
  "interfaces demo_fleet demo_api (Some [nic_a]) =
     Inr ([demo_if ''10.0.0.5''], [(''default/br0'', NewNetwork ''br0'' ''default'' True ''10.0.0.1/24'' [])])"
proof -
  have e: "ai_expandedDevices demo_api = []" "ai_project demo_api = ''p''" by (simp_all add: demo_api_def)
  show "interfaces demo_fleet demo_api (Some [nic_a, nic_b]) =
     Inr ([demo_if ''10.0.0.5'', demo_if ''10.0.0.6''], [(''default/br0'', NewNetwork ''br0'' ''default'' True ''10.0.0.1/24'' [])])"
  "interfaces demo_fleet demo_api (Some [nic_b, nic_a]) =
     Inr ([demo_if ''10.0.0.6'', demo_if ''10.0.0.5''], [(''default/br0'', NewNetwork ''br0'' ''default'' True ''10.0.0.1/24'' [])])"
  "interfaces demo_fleet demo_api (Some [nic_a]) =
     Inr ([demo_if ''10.0.0.5''], [(''default/br0'', NewNetwork ''br0'' ''default'' True ''10.0.0.1/24'' [])])"
    by (simp_all add: interfaces_def e demo_place Let_def)
qed

lemma interfaces_touch [simp]: "interfaces (touch s) a st = interfaces s a st"
  by (cases st) (simp_all add: interfaces_def Let_def)

lemma demo_set:
  "\<exists>s'. setInstance demo_api (Some nics) demo_fleet =
     (case interfaces demo_fleet demo_api (Some nics) of Inl m \<Rightarrow> (s', Inl m)
      | Inr (ifs, nets) \<Rightarrow> (s', Inr (NewInstance True [(''user.x'', ''1'')] ifs nets)))"
  by (auto simp: setInstance_def demo_api_def has_prefix_def Let_def split: sum.splits)

theorem instance_is_placed_whole_witness:
  "\<exists>s' i. setInstance demo_api (Some [nic_a]) demo_fleet = (s', Inr i) \<and> held_instance ''p'' ''web'' s' = Some i"
proof -
  obtain s' i where r: "setInstance demo_api (Some [nic_a]) demo_fleet = (s', Inr i)"
    using demo_set [of "[nic_a]"] demo_interfaces(3) by auto
  have "ai_project demo_api = ''p'' \<and> ai_name demo_api = ''web''" by (simp add: demo_api_def)
  with instance_is_placed_whole [OF r] r show ?thesis by auto
qed

theorem incomplete_read_stores_nothing_witness:
  "\<exists>s'. setInstance demo_api (Some [nic_a]) newState = (s', Inl ''br0'') \<and> f_projects s' = []"
proof -
  obtain s' where r: "setInstance demo_api (Some [nic_a]) newState = (s', Inl ''br0'')"
    by (simp add: setInstance_def interfaces_def place_nic_def nic_a_def demo_nic_def nicDevice_def demo_index
        find_network_def network_in_def newState_def demo_api_def device_get_def cfg_get_def nicIndex_def
        nicIndex_step_def volatile_key_def Let_def)
  from incomplete_read_stores_nothing [OF r] r show ?thesis by (auto simp: newState_def)
qed

theorem placement_ignores_listing_order_witness:
  "\<exists>nets'. interfaces demo_fleet demo_api (Some [nic_a]) = Inr ([demo_if ''10.0.0.5''], nets')"
  using placement_ignores_listing_order [OF refl demo_interfaces(3)] by auto

text \<open>
  Two NICs on one network tie in the sort, so their order is the map's: two reads
  of an instance that did not change compare as different.
\<close>

theorem two_nics_on_one_network_flap:
  "\<exists>i i' s1 s2. mset [nic_a, nic_b] = mset [nic_b, nic_a]
    \<and> setInstance demo_api (Some [nic_a, nic_b]) demo_fleet = (s1, Inr i)
    \<and> setInstance demo_api (Some [nic_b, nic_a]) demo_fleet = (s2, Inr i')
    \<and> \<not> instance_equal (Some i) (Some i')"
  using demo_set [of "[nic_a, nic_b]"] demo_set [of "[nic_b, nic_a]"] demo_interfaces
  by (auto simp: instance_equal_def NewInstance_def iface_equal_def demo_if_def NewInstanceInterface_def)

lemma set_missing: "set (missing m listed) = dom (map_of m) - set listed"
  by (auto simp: missing_def dom_map_of_conv_image_fst)

lemma distinct_named:
  "distinct (map fst ps) \<Longrightarrow> distinct (map (\<lambda>(n, _). (q, n)) (filter P ps))"
  by (induction ps) force+

text \<open>
  A listing is the whole of its scope: pruning the projects, or the networks
  of one project, keeps exactly what the listing names, touches nothing else, and
  the instances it reports missing are exactly the held ones it left out, sorted.
\<close>

theorem listing_is_the_whole_of_its_scope:
  "map_of (f_projects (pruneProjects listed s)) = map_of (f_projects s) |` set listed
   \<and> (\<forall>n. network_in p n (pruneNetworks p listed s) = (if n \<in> set listed then network_in p n s else None))
   \<and> (\<forall>q n. q \<noteq> p \<longrightarrow> network_in q n (pruneNetworks p listed s) = network_in q n s)
   \<and> (\<forall>q n. held_instance q n (pruneNetworks p listed s) = held_instance q n s)
   \<and> set (missingInstances p listed s) = {(p, n) | n. held_instance p n s \<noteq> None \<and> n \<notin> set listed}
   \<and> sorted (map snd (missingInstances p listed s))"
proof -
  have m: "map_of (fold AList.delete (missing m listed) m) = map_of m |` set listed" for m :: "(string \<times> 'v) list"
    by (auto simp: map_of_fold_delete missing_def restrict_map_def fun_eq_iff map_of_eq_None_iff)
  have "set (missingInstances p listed s) = {(p, n) | n. held_instance p n s \<noteq> None \<and> n \<notin> set listed}"
    by (cases "map_of (f_projects s) p") (auto simp: missingInstances_def held_instance_def set_missing)
  moreover have "sorted (map snd (missingInstances p listed s))"
    by (simp add: missingInstances_def missing_def comp_def split: option.splits)
  moreover have "\<forall>n. network_in p n (pruneNetworks p listed s) = (if n \<in> set listed then network_in p n s else None)"
    "\<forall>q n. q \<noteq> p \<longrightarrow> network_in q n (pruneNetworks p listed s) = network_in q n s"
    "\<forall>q n. held_instance q n (pruneNetworks p listed s) = held_instance q n s"
    by (auto simp: network_in_def held_instance_def pruneNetworks_def in_project_def m split: option.splits)
  moreover have "map_of (f_projects (pruneProjects listed s)) = map_of (f_projects s) |` set listed"
    by (simp add: pruneProjects_def m)
  ultimately show ?thesis by blast
qed

lemma distinct_tagged:
  assumes "distinct (map fst ps)" "\<And>a. a \<in> set ps \<Longrightarrow> distinct (g a) \<and> (\<forall>x \<in> set (g a). fst x = fst a)"
  shows "distinct (concat (map g ps))"
  using assms
proof (induction ps)
  case (Cons a ps)
  have "set (g a) \<inter> set (concat (map g ps)) = {}"
  proof (rule ccontr)
    assume "set (g a) \<inter> set (concat (map g ps)) \<noteq> {}"
    then obtain x b where "x \<in> set (g a)" "b \<in> set ps" "x \<in> set (g b)" by auto
    then have "fst b = fst a" using Cons.prems(2) [of a] Cons.prems(2) [of b] by auto
    then show False using Cons.prems(1) \<open>b \<in> set ps\<close> by (metis distinct.simps(2) image_eqI list.simps(9) set_map)
  qed
  moreover have "distinct (concat (map g ps))"
    by (rule Cons.IH) (use Cons.prems in auto)
  ultimately show ?case using Cons.prems(2) [of a] by simp
qed simp

definition wf_fleet :: "fleet \<Rightarrow> bool" where
  \<comment> \<open>The maps are maps.\<close>
  "wf_fleet s \<longleftrightarrow> distinct (map fst (f_projects s))
     \<and> all_vals (\<lambda>p. distinct (map fst (p_instances p)) \<and> distinct (map fst (p_networks p))) (f_projects s)"

text \<open>
  C33.  A network change fans out over exactly the instances that sit on that
  network, both halves of its name compared, each once; a project's fan-out is
  exactly the instances it holds.
\<close>

theorem fan_out_is_exact:
  assumes "wf_fleet s"
  shows "set (networkInstances p n s) = {(q, i). \<exists>x. held_instance q i s = Some x \<and> on x p n}
    \<and> distinct (networkInstances p n s)
    \<and> set (projectInstances p s) = {(p, i) | i. held_instance p i s \<noteq> None}
    \<and> distinct (projectInstances p s)"
proof -
  have d: "distinct (map fst (f_projects s))" "\<And>q pr. (q, pr) \<in> set (f_projects s) \<Longrightarrow> distinct (map fst (p_instances pr))"
    using assms by (auto simp: wf_fleet_def all_vals_def list_all_iff)
  have h: "held_instance q i s = Some x \<longleftrightarrow> (\<exists>pr. (q, pr) \<in> set (f_projects s) \<and> (i, x) \<in> set (p_instances pr))" for q i x
  proof -
    have "(q, pr) \<in> set (f_projects s) \<longleftrightarrow> map_of (f_projects s) q = Some pr" for pr
      by (rule set_map_of [OF d(1)])
    moreover have "(q, pr) \<in> set (f_projects s) \<Longrightarrow>
        (i, x) \<in> set (p_instances pr) \<longleftrightarrow> map_of (p_instances pr) i = Some x" for pr
      by (rule set_map_of [OF d(2)])
    ultimately show ?thesis by (cases "map_of (f_projects s) q") (auto simp: held_instance_def)
  qed
  have "set (networkInstances p n s) = {(q, i). \<exists>x. held_instance q i s = Some x \<and> on x p n}"
    by (fastforce simp: networkInstances_def h)
  moreover have "distinct (networkInstances p n s)"
    unfolding networkInstances_def
  proof (rule distinct_tagged [OF d(1)])
    fix a assume a: "a \<in> set (f_projects s)"
    obtain q pr where e: "a = (q, pr)" by fastforce
    have "distinct (map fst (p_instances pr))" using d(2) a e by blast
    from distinct_named [OF this]
    show "distinct ((\<lambda>(pn, p'). map (\<lambda>(m, _). (pn, m)) (filter (\<lambda>(_, i). on i p n) (p_instances p'))) a) \<and>
        (\<forall>x \<in> set ((\<lambda>(pn, p'). map (\<lambda>(m, _). (pn, m)) (filter (\<lambda>(_, i). on i p n) (p_instances p'))) a). fst x = fst a)"
      unfolding e by auto
  qed
  moreover have "set (projectInstances p s) = {(p, i) | i. held_instance p i s \<noteq> None} \<and> distinct (projectInstances p s)"
  proof (cases "map_of (f_projects s) p")
    case (Some pr)
    then have "(p, pr) \<in> set (f_projects s)" by (rule map_of_SomeD)
    then have k: "distinct (map fst (p_instances pr))" using d(2) by blast
    have "set (projectInstances p s) = Pair p ` dom (map_of (p_instances pr))"
      by (force simp: projectInstances_def Some dom_map_of_conv_image_fst)
    moreover have "distinct (projectInstances p s)"
      using distinct_named [OF k, of p "\<lambda>_. True"] by (simp add: projectInstances_def Some)
    ultimately show ?thesis by (auto simp: held_instance_def Some)
  qed (simp add: projectInstances_def held_instance_def)
  ultimately show ?thesis by blast
qed

theorem fan_out_is_exact_witness:
  "\<exists>s i. setInstance demo_api (Some [nic_a]) demo_fleet = (s, Inr i) \<and> (''p'', ''web'') \<in> set (networkInstances ''default'' ''br0'' s)"
proof -
  let ?i = "NewInstance True [(''user.x'', ''1'')] [demo_if ''10.0.0.5''] [(''default/br0'', NewNetwork ''br0'' ''default'' True ''10.0.0.1/24'' [])]"
  have r: "setInstance demo_api (Some [nic_a]) demo_fleet =
      (on_project ''p'' (\<lambda>p. p\<lparr>p_instances := AList.update ''web'' ?i (p_instances p)\<rparr>) (touch demo_fleet), Inr ?i)"
    unfolding setInstance_def interfaces_touch demo_interfaces(3)
    by (simp add: demo_api_def has_prefix_def Let_def)
  let ?s = "on_project ''p'' (\<lambda>p. p\<lparr>p_instances := AList.update ''web'' ?i (p_instances p)\<rparr>) (touch demo_fleet)"
  have w: "wf_fleet ?s"
    by (simp add: wf_fleet_def on_project_def get_project_def demo_fleet_def setNetwork_def newState_def newProject_def
        demo_net_def touch_def)
  have "held_instance ''p'' ''web'' ?s = Some ?i"
    by (simp add: held_instance_def on_project_def)
  moreover have "on ?i ''default'' ''br0''" by (simp add: on_def NewInstance_def demo_if_def NewInstanceInterface_def)
  ultimately have "(''p'', ''web'') \<in> set (networkInstances ''default'' ''br0'' ?s)"
    using fan_out_is_exact [OF w, of "''default''" "''br0''"] by auto
  with r show ?thesis by blast
qed

theorem listing_is_the_whole_of_its_scope_witness:
  "network_in ''default'' ''br0'' (pruneNetworks ''default'' [''br0''] demo_fleet) \<noteq> None
   \<and> network_in ''default'' ''br0'' (pruneNetworks ''default'' [] demo_fleet) = None"
  using listing_is_the_whole_of_its_scope [of "[''br0'']" demo_fleet "''default''"]
    listing_is_the_whole_of_its_scope [of "[]" demo_fleet "''default''"]
  by (simp add: network_in_def demo_fleet_def setNetwork_def on_project_def get_project_def newState_def
      newProject_def demo_net_def touch_def)

end
