(* ===== verification/Retries.thy ===== *)
theory Retries
  imports Fleet
begin

text \<open>
  The schedule of re-reads (\<open>ievent/enricher/retries.go\<close>): every key due
  another read with when, what each key has already spent, and the timer.  Times
  are nanoseconds; \<open>r_timer\<close> is when the timer fires, \<open>None\<close> where it is stopped
  or has fired.
\<close>

definition retryDelay :: int where "retryDelay = 1000000000"
definition retryTries :: int where "retryTries = 3"
definition slowRetryDelay :: int where "slowRetryDelay = 5 * 1000000000"

record retries =
  r_due :: "(subject \<times> int) list"
  r_tries :: "(string \<times> int) list"
  r_timer :: "int option"

definition newRetries :: retries where
  "newRetries = \<lparr>r_due = [], r_tries = [], r_timer = None\<rparr>"

definition retries_done :: "subject \<Rightarrow> retries \<Rightarrow> retries" where
  "retries_done s r =
     r\<lparr>r_tries := AList.delete (resourceKey kindInstance (fst s) (snd s)) (r_tries r)\<rparr>"

definition retries_at :: "int \<Rightarrow> subject \<Rightarrow> int \<Rightarrow> retries \<Rightarrow> retries" where
  \<comment> \<open>The index moves down from the end over everything due later.\<close>
  "retries_at now s d r =
     (let at = now + d;
          later = takeWhile (\<lambda>e. at < snd e) (rev (r_due r));
          i = length (r_due r) - length later
      in r\<lparr>r_due := take i (r_due r) @ [(s, at)] @ drop i (r_due r),
           r_timer := (if i = 0 then Some at else r_timer r)\<rparr>)"

definition spent :: "subject \<Rightarrow> retries \<Rightarrow> int" where
  "spent s r = (case map_of (r_tries r) (resourceKey kindInstance (fst s) (snd s)) of Some n \<Rightarrow> n | None \<Rightarrow> 0)"

definition soon :: "int \<Rightarrow> subject \<Rightarrow> retries \<Rightarrow> retries" where
  "soon now s r =
     (let delay = (if retryTries \<le> spent s r then slowRetryDelay else retryDelay)
      in retries_at now s delay
           (r\<lparr>r_tries := AList.update (resourceKey kindInstance (fst s) (snd s)) (spent s r + 1) (r_tries r)\<rparr>))"

definition retries_take :: "int \<Rightarrow> retries \<Rightarrow> retries \<times> subject list" where
  "retries_take now r =
     (let fallen = takeWhile (\<lambda>e. snd e \<le> now) (r_due r);
          left = dropWhile (\<lambda>e. snd e \<le> now) (r_due r)
      in (r\<lparr>r_due := left, r_timer := (case left of [] \<Rightarrow> None | e # _ \<Rightarrow> Some (snd e))\<rparr>, map fst fallen))"

subsection \<open>Lemmas and properties\<close>

datatype retry_op = At int subject int | Soon int subject | Take int | Settled subject

fun retry_step :: "retry_op \<Rightarrow> retries \<Rightarrow> retries \<times> subject list" where
  "retry_step (At now s d) r = (retries_at now s d r, [])"
| "retry_step (Soon now s) r = (soon now s r, [])"
| "retry_step (Take now) r = retries_take now r"
| "retry_step (Settled s) r = (retries_done s r, [])"

definition good_retries :: "retries \<Rightarrow> bool" where
  "good_retries r \<longleftrightarrow> sorted (map snd (r_due r))
     \<and> r_timer r = (case r_due r of [] \<Rightarrow> None | e # _ \<Rightarrow> Some (snd e))"

lemma good_newRetries [simp]: "good_retries newRetries"
  by (simp add: good_retries_def newRetries_def)

lemma split_at_later:
  fixes t :: int
  assumes "sorted (map snd xs)"
  shows "\<exists>ys zs. xs = ys @ zs \<and> length ys = length xs - length (takeWhile (\<lambda>e. t < snd e) (rev xs))
    \<and> (\<forall>e \<in> set ys. snd e \<le> t) \<and> (\<forall>e \<in> set zs. t < snd e)"
proof -
  let ?tw = "takeWhile (\<lambda>e. t < snd e) (rev xs)" and ?dw = "dropWhile (\<lambda>e. t < snd e) (rev xs)"
  have x: "xs = rev ?dw @ rev ?tw" by (metis rev_append rev_rev_ident takeWhile_dropWhile_id)
  have l: "length (rev ?dw) = length xs - length ?tw" by (subst (2) x) simp
  have s: "sorted_wrt (\<lambda>a b. snd b \<le> snd a) (rev xs)"
    using assms by (simp add: sorted_wrt_rev sorted_map)
  have "sorted_wrt (\<lambda>a b. snd b \<le> snd a) ?dw"
    using s by (metis sorted_wrt_append takeWhile_dropWhile_id)
  moreover have "?dw \<noteq> [] \<Longrightarrow> \<not> t < snd (hd ?dw)" by (rule hd_dropWhile)
  ultimately have "\<forall>e \<in> set ?dw. snd e \<le> t"
    by (cases ?dw) (simp_all only: list.set sorted_wrt.simps list.sel, auto)
  moreover have "\<forall>e \<in> set ?tw. t < snd e" by (auto dest: set_takeWhileD)
  ultimately show ?thesis using x l by (metis set_rev)
qed

lemma retries_at_split:
  assumes "sorted (map snd (r_due r))"
  obtains ys zs where "r_due r = ys @ zs" "r_due (retries_at now s d r) = ys @ [(s, now + d)] @ zs"
    "\<forall>e \<in> set ys. snd e \<le> now + d" "\<forall>e \<in> set zs. now + d < snd e"
    "r_timer (retries_at now s d r) = (if ys = [] then Some (now + d) else r_timer r)"
    "r_tries (retries_at now s d r) = r_tries r"
proof -
  obtain ys zs where s: "r_due r = ys @ zs"
    "length ys = length (r_due r) - length (takeWhile (\<lambda>e. now + d < snd e) (rev (r_due r)))"
    "\<forall>e \<in> set ys. snd e \<le> now + d" "\<forall>e \<in> set zs. now + d < snd e"
    using split_at_later [OF assms, of "now + d"] by blast
  have t: "take (length ys) (r_due r) = ys" "drop (length ys) (r_due r) = zs" using s(1) by simp_all
  show ?thesis
    by (rule that [OF s(1) _ s(3,4)])
       (simp_all add: retries_at_def Let_def s(2) [symmetric] t del: diff_is_0_eq diff_is_0_eq')
qed

lemma good_at:
  assumes "good_retries r"
  shows "good_retries (retries_at now s d r)"
proof -
  have s: "sorted (map snd (r_due r))" using assms by (simp add: good_retries_def)
  obtain ys zs where "r_due r = ys @ zs" "r_due (retries_at now s d r) = ys @ [(s, now + d)] @ zs"
    "\<forall>e \<in> set ys. snd e \<le> now + d" "\<forall>e \<in> set zs. now + d < snd e"
    "r_timer (retries_at now s d r) = (if ys = [] then Some (now + d) else r_timer r)"
    by (rule retries_at_split [OF s])
  with assms show ?thesis
    by (cases ys) (auto simp: good_retries_def sorted_append intro: order_trans less_imp_le)
qed

lemma good_retry_step: "good_retries r \<Longrightarrow> good_retries (fst (retry_step x r))"
proof (cases x)
  case (Soon now s)
  have "good_retries r \<Longrightarrow> good_retries (r\<lparr>r_tries := m\<rparr>)" for m by (simp add: good_retries_def)
  then show "good_retries r \<Longrightarrow> ?thesis" by (simp add: Soon soon_def good_at Let_def)
next
  case (Take now)
  show "good_retries r \<Longrightarrow> ?thesis"
    using sorted_dropWhile [of "map snd (r_due r)" "\<lambda>t. t \<le> now"]
    by (simp add: Take good_retries_def retries_take_def Let_def dropWhile_map comp_def)
qed (auto simp: good_at, simp add: good_retries_def retries_done_def)

text \<open>
  Whatever is scheduled, taken and settled, the schedule stays ordered by
  when each key falls due and the timer is armed for exactly its head, stopped
  only when nothing is due.
\<close>

theorem timer_is_armed_for_the_head:
  "good_retries (fst (run_steps retry_step ops newRetries))"
  by (rule run_steps_invariant [where I = good_retries]) (simp_all add: good_retry_step)

lemma mset_at: "mset (r_due (retries_at now s d r)) = add_mset (s, now + d) (mset (r_due r))"
proof -
  have "mset (take i xs) + mset (drop i xs) = mset xs" for i and xs :: "(subject \<times> int) list"
    by (metis append_take_drop_id mset_append)
  then show ?thesis by (simp add: retries_at_def Let_def)
qed

text \<open>
  Another read of a key is always scheduled, in one second while it has
  spent fewer than three and in five afterwards, and it is one more entry also
  where that key is already due; settling the key starts its count again and
  unschedules nothing.
\<close>

theorem every_soon_schedules_one_more:
  "mset (r_due (soon now s r)) =
     add_mset (s, now + (if spent s r < retryTries then retryDelay else slowRetryDelay)) (mset (r_due r))
   \<and> spent s (soon now s r) = spent s r + 1
   \<and> spent s (retries_done s r) = 0 \<and> r_due (retries_done s r) = r_due r"
  by (simp add: soon_def mset_at Let_def) (simp add: spent_def retries_done_def retries_at_def Let_def)

end
