(* ===== verification/Reads.thy ===== *)
theory Reads
  imports Retries
begin

text \<open>
  The table of reads the enricher has sent and not answered yet
  (\<open>ievent/enricher/reads.go\<close>): the call in flight per key, what the pool refused,
  what is held back until the fleet's networks are known, and what waits for its
  project.  Calls are pointers into a store that only grows, since a call in the
  table is joined in place.  \<open>acc\<close> says which of the submissions, counted from
  the start, the non-blocking pool takes.
\<close>

record call =
  c_key :: string
  c_project :: string
  c_name :: string
  c_kind :: string
  c_items :: "nat list"          \<comment> \<open>places in the line\<close>
  c_ev :: "event option"
  c_wantInterfaces :: bool
  c_waitForRunning :: bool

record reads =
  d_store :: "call list"
  d_calls :: "(string \<times> nat) list"
  d_cancels :: "(string \<times> nat) list"       \<comment> \<open>whose cancel function is held\<close>
  d_pending :: "(string \<times> string list) list"
  d_warm :: bool
  d_asked :: bool
  d_owed :: int
  d_cold :: "string list"
  d_waiting :: "nat list"
  d_armed :: bool                \<comment> \<open>the timer of the refused\<close>
  d_subs :: nat                  \<comment> \<open>submissions made\<close>

datatype rout =
    Read nat string string string bool bool   \<comment> \<open>a task the pool took: kind, project, name, what it asks\<close>
  | CancelRead nat

definition newDeferred :: reads where
  "newDeferred = \<lparr>d_store = [], d_calls = [], d_cancels = [], d_pending = [], d_warm = False,
     d_asked = False, d_owed = 0, d_cold = [], d_waiting = [], d_armed = False, d_subs = 0\<rparr>"

definition call_at :: "nat \<Rightarrow> reads \<Rightarrow> call" where "call_at p d = d_store d ! p"

definition new_call :: "call \<Rightarrow> reads \<Rightarrow> reads \<times> nat" where
  "new_call c d = (d\<lparr>d_store := d_store d @ [c]\<rparr>, length (d_store d))"

definition join :: "nat \<Rightarrow> nat \<Rightarrow> reads \<Rightarrow> reads" where
  "join p q d =
     (let c = call_at p d; other = call_at q d
      in d\<lparr>d_store := (d_store d)[p := c\<lparr>c_items := c_items c @ c_items other,
             c_ev := (if c_ev c = None then c_ev other else c_ev c),
             c_wantInterfaces := c_wantInterfaces c \<or> c_wantInterfaces other,
             c_waitForRunning := c_waitForRunning c \<or> c_waitForRunning other\<rparr>]\<rparr>)"

definition current :: "nat \<Rightarrow> reads \<Rightarrow> bool" where
  "current p d \<longleftrightarrow> map_of (d_calls d) (c_key (call_at p d)) = Some p"

definition pending_of :: "string \<Rightarrow> reads \<Rightarrow> string list" where
  "pending_of project d = (case map_of (d_pending d) project of Some ks \<Rightarrow> ks | None \<Rightarrow> [])"

definition submit :: "(nat \<Rightarrow> bool) \<Rightarrow> nat \<Rightarrow> reads \<Rightarrow> reads \<times> rout list \<times> bool" where
  \<comment> \<open>The last answer: was it taken.\<close>
  "submit acc p d =
     (let c = call_at p d; d1 = d\<lparr>d_subs := Suc (d_subs d)\<rparr> in
      if acc (d_subs d) then
        (d1\<lparr>d_cancels := AList.update (c_key c) p (d_cancels d)\<rparr>,
         [Read p (c_kind c) (c_project c) (c_name c) (c_wantInterfaces c) (c_waitForRunning c)], True)
      else (d1\<lparr>d_cancels := AList.delete (c_key c) (d_cancels d)\<rparr>, [], False))"

definition submit_or_wait :: "(nat \<Rightarrow> bool) \<Rightarrow> nat \<Rightarrow> reads \<Rightarrow> reads \<times> rout list" where
  "submit_or_wait acc p d =
     (let (d1, out, ok) = submit acc p d
      in (if ok then d1 else d1\<lparr>d_waiting := d_waiting d1 @ [p], d_armed := True\<rparr>, out))"

definition cancel :: "string \<Rightarrow> reads \<Rightarrow> reads \<times> rout list \<times> nat option" where
  "cancel key d =
     (let out = (case map_of (d_cancels d) key of Some p \<Rightarrow> [CancelRead p] | None \<Rightarrow> []);
          d1 = d\<lparr>d_cancels := AList.delete key (d_cancels d)\<rparr>
      in case map_of (d_calls d1) key of
           None \<Rightarrow> (d1, out, None)
         | Some p \<Rightarrow>
             (let c = call_at p d1;
                  d2 = d1\<lparr>d_calls := AList.delete key (d_calls d1),
                          d_waiting := filter (\<lambda>w. c_key (call_at w d1) \<noteq> key) (d_waiting d1),
                          d_cold := filter (\<lambda>k. k \<noteq> key) (d_cold d1)\<rparr>;
                  d3 = (if c_kind c = kindInstance then
                          d2\<lparr>d_pending := AList.update (c_project c)
                               (filter (\<lambda>k. k \<noteq> key) (pending_of (c_project c) d2)) (d_pending d2)\<rparr>
                        else d2)
              in (d3, out, Some p)))"

definition supersede :: "nat \<Rightarrow> nat \<Rightarrow> reads \<Rightarrow> reads" where
  \<comment> \<open>The new call takes over what waited on the canceled one.\<close>
  "supersede p prev d =
     (let c = call_at p d; old = call_at prev d
      in d\<lparr>d_store := (d_store d)[p := c\<lparr>c_items := c_items old @ c_items c,
             c_ev := (if c_ev c = None then c_ev old else c_ev c),
             c_wantInterfaces := c_wantInterfaces c \<or> c_wantInterfaces old\<rparr>]\<rparr>)"

definition place :: "(nat \<Rightarrow> bool) \<Rightarrow> nat \<Rightarrow> reads \<Rightarrow> reads \<times> rout list" where
  \<comment> \<open>\<open>send\<close> from where the call enters the table.\<close>
  "place acc p d =
     (let c = call_at p d;
          d1 = d\<lparr>d_calls := AList.update (c_key c) p (d_calls d)\<rparr>;
          d2 = (if c_kind c = kindProject then d1\<lparr>d_owed := d_owed d1 + 1\<rparr> else d1)
      in if \<not> d_warm d2 \<and> c_kind c = kindInstance then (d2\<lparr>d_cold := d_cold d2 @ [c_key c]\<rparr>, [])
         else if c_kind c = kindInstance
                 \<and> map_of (d_calls d2) (resourceKey kindProject (c_project c) []) \<noteq> None then
           (d2\<lparr>d_pending := AList.update (c_project c) (pending_of (c_project c) d2 @ [c_key c]) (d_pending d2)\<rparr>, [])
         else submit_or_wait acc p d2)"

definition send :: "(nat \<Rightarrow> bool) \<Rightarrow> nat \<Rightarrow> reads \<Rightarrow> reads \<times> rout list" where
  "send acc p d =
     (let c = call_at p d in
      case map_of (d_calls d) (c_key c) of
        None \<Rightarrow> place acc p d
      | Some out \<Rightarrow>
          if c_kind c = kindInstance \<and> c_waitForRunning c \<and> \<not> c_waitForRunning (call_at out d) then
            (let (d1, o1, prev) = cancel (c_key c) d;
                 d2 = (case prev of None \<Rightarrow> d1 | Some q \<Rightarrow> supersede p q d1);
                 (d3, o2) = place acc p d2
             in (d3, o1 @ o2))
          else (join out p d, []))"

definition flush_one :: "(nat \<Rightarrow> bool) \<Rightarrow> string \<Rightarrow> reads \<Rightarrow> reads \<times> rout list" where
  "flush_one acc key d =
     (case map_of (d_calls d) key of
        None \<Rightarrow> (d, [])
      | Some p \<Rightarrow> send acc p (d\<lparr>d_calls := AList.delete key (d_calls d)\<rparr>))"

definition flush :: "(nat \<Rightarrow> bool) \<Rightarrow> reads \<Rightarrow> reads \<times> rout list" where
  "flush acc d =
     (let d1 = d\<lparr>d_asked := True\<rparr> in
      if d_warm d1 \<or> 0 < d_owed d1 then (d1, [])
      else run_steps (flush_one acc) (d_cold d1) (d1\<lparr>d_cold := [], d_warm := True\<rparr>))"

fun offer :: "(nat \<Rightarrow> bool) \<Rightarrow> nat list \<Rightarrow> reads \<Rightarrow> reads \<times> rout list" where
  \<comment> \<open>The loop of \<open>retry\<close> over what waits.\<close>
  "offer acc [] d = (d\<lparr>d_waiting := []\<rparr>, [])"
| "offer acc (p # ps) d =
     (let (d1, out, ok) = submit acc p d in
      if ok then (let (d2, out') = offer acc ps d1 in (d2, out @ out'))
      else (d1\<lparr>d_waiting := p # ps\<rparr>, out))"

definition retry :: "(nat \<Rightarrow> bool) \<Rightarrow> reads \<Rightarrow> reads \<times> rout list" where
  "retry acc d =
     (let (d1, out) = offer acc (d_waiting d) (d\<lparr>d_armed := False\<rparr>)
      in (if d_waiting d1 \<noteq> [] then d1\<lparr>d_armed := True\<rparr> else d1, out))"

definition release_one :: "(nat \<Rightarrow> bool) \<Rightarrow> string \<Rightarrow> reads \<Rightarrow> reads \<times> rout list" where
  "release_one acc key d =
     (case map_of (d_calls d) key of None \<Rightarrow> (d, []) | Some p \<Rightarrow> submit_or_wait acc p d)"

definition reads_done :: "(nat \<Rightarrow> bool) \<Rightarrow> nat \<Rightarrow> reads \<Rightarrow> reads \<times> rout list" where
  "reads_done acc p d =
     (let c = call_at p d;
          d1 = d\<lparr>d_calls := AList.delete (c_key c) (d_calls d), d_cancels := AList.delete (c_key c) (d_cancels d)\<rparr>
      in if c_kind c \<noteq> kindProject then (d1, [])
         else (let d2 = d1\<lparr>d_owed := d_owed d1 - 1\<rparr>;
                   (d3, o1) = (if d_asked d2 then flush acc d2 else (d2, []));
                   pending = pending_of (c_project c) d3;
                   (d4, o2) = run_steps (release_one acc) pending
                                (d3\<lparr>d_pending := AList.delete (c_project c) (d_pending d3)\<rparr>)
               in (d4, o1 @ o2)))"

subsection \<open>What the table keeps\<close>

definition wf_call :: "call \<Rightarrow> bool" where
  "wf_call c \<longleftrightarrow> c_key c = resourceKey (c_kind c) (c_project c) (c_name c)
     \<and> c_kind c \<in> {kindInstance, kindNetwork, kindProject} \<and> (c_kind c = kindProject \<longrightarrow> c_name c = [])"

definition is_project :: "reads \<Rightarrow> string \<times> nat \<Rightarrow> bool" where
  "is_project d e \<longleftrightarrow> c_kind (call_at (snd e) d) = kindProject"

definition table_ok :: "reads \<Rightarrow> bool" where
  "table_ok d \<longleftrightarrow> distinct (map fst (d_calls d))
     \<and> (\<forall>k p. map_of (d_calls d) k = Some p \<longrightarrow>
          p < length (d_store d) \<and> c_key (call_at p d) = k \<and> wf_call (call_at p d))
     \<and> d_owed d = int (length (filter (is_project d) (d_calls d)))"

definition lists_ok :: "string set \<Rightarrow> reads \<Rightarrow> bool" where
  \<comment> \<open>\<open>X\<close>: projects whose own read has just landed.\<close>
  "lists_ok X d \<longleftrightarrow> (d_warm d \<longrightarrow> d_cold d = []) \<and> (\<not> d_warm d \<longrightarrow> (\<forall>pr. pending_of pr d = []))
     \<and> distinct (d_cold d) \<and> distinct (d_waiting d) \<and> (\<forall>pr. distinct (pending_of pr d))
     \<and> (\<forall>k \<in> set (d_cold d). \<exists>p. map_of (d_calls d) k = Some p \<and> c_kind (call_at p d) = kindInstance)
     \<and> (\<forall>p \<in> set (d_waiting d). map_of (d_calls d) (c_key (call_at p d)) = Some p)
     \<and> (\<forall>pr. \<forall>k \<in> set (pending_of pr d). (\<exists>p. map_of (d_calls d) k = Some p
            \<and> c_kind (call_at p d) = kindInstance \<and> c_project (call_at p d) = pr)
          \<and> (pr \<notin> X \<longrightarrow> map_of (d_calls d) (resourceKey kindProject pr []) \<noteq> None))
     \<and> (\<forall>k p. map_of (d_cancels d) k = Some p \<longrightarrow> map_of (d_calls d) k = Some p)
     \<and> (d_waiting d \<noteq> [] \<longrightarrow> d_armed d)"

definition places :: "reads \<Rightarrow> string \<Rightarrow> nat \<Rightarrow> nat" where
  "places d k p = of_bool (k \<in> set (d_cold d)) + of_bool (p \<in> set (d_waiting d))
     + of_bool (k \<in> set (pending_of (c_project (call_at p d)) d)) + of_bool (map_of (d_cancels d) k = Some p)"

definition fine :: "string set \<Rightarrow> string set \<Rightarrow> reads \<Rightarrow> bool" where
  \<comment> \<open>Every call of the table is in exactly one place, but those of \<open>S\<close>, which are in none.\<close>
  "fine S X d \<longleftrightarrow> table_ok d \<and> lists_ok X d
     \<and> (\<forall>k p. map_of (d_calls d) k = Some p \<longrightarrow> places d k p = of_bool (k \<notin> S))"

lemma fine_new: "fine {} {} newDeferred"
  by (simp add: fine_def table_ok_def lists_ok_def newDeferred_def pending_of_def)

lemma submit_or_wait_parts:
  "d_calls (fst (submit_or_wait acc p d)) = d_calls d" "d_store (fst (submit_or_wait acc p d)) = d_store d"
  "d_cold (fst (submit_or_wait acc p d)) = d_cold d" "d_pending (fst (submit_or_wait acc p d)) = d_pending d"
  "d_warm (fst (submit_or_wait acc p d)) = d_warm d" "d_owed (fst (submit_or_wait acc p d)) = d_owed d"
  "d_asked (fst (submit_or_wait acc p d)) = d_asked d"
  by (simp_all add: submit_or_wait_def submit_def Let_def)

lemma submit_or_wait_lists:
  "d_waiting (fst (submit_or_wait acc p d)) = (if acc (d_subs d) then d_waiting d else d_waiting d @ [p])"
  "d_cancels (fst (submit_or_wait acc p d)) = (if acc (d_subs d)
     then AList.update (c_key (call_at p d)) p (d_cancels d) else AList.delete (c_key (call_at p d)) (d_cancels d))"
  "d_armed (fst (submit_or_wait acc p d)) = (if acc (d_subs d) then d_armed d else True)"
  by (simp_all add: submit_or_wait_def submit_def Let_def)

lemma call_at_cong: "d_store d' = d_store d \<Longrightarrow> call_at p d' = call_at p d"
  by (simp add: call_at_def)

lemma pending_of_cong: "d_pending d' = d_pending d \<Longrightarrow> pending_of pr d' = pending_of pr d"
  by (simp add: pending_of_def)

lemma fine_submit:
  assumes f: "fine S X d" and k: "map_of (d_calls d) k = Some p" "k \<in> S"
  shows "fine (S - {k}) X (fst (submit_or_wait acc p d))"
proof -
  let ?d = "fst (submit_or_wait acc p d)"
  note P = submit_or_wait_parts [of acc p d]
  have c: "call_at q ?d = call_at q d" "pending_of pr ?d = pending_of pr d" for q pr
    by (simp_all add: call_at_cong [OF P(2)] pending_of_cong [OF P(4)])
  have key: "c_key (call_at p d) = k" using f k by (auto simp: fine_def table_ok_def)
  have "places d k p = 0" using f k by (simp add: fine_def)
  then have pl: "k \<notin> set (d_cold d)" "p \<notin> set (d_waiting d)" "k \<notin> set (pending_of (c_project (call_at p d)) d)"
    "map_of (d_cancels d) k \<noteq> Some p"
    by (simp_all add: places_def)
  have t: "table_ok ?d" using f by (simp add: fine_def table_ok_def P c is_project_def [abs_def])
  have l: "lists_ok X ?d"
    using f k key pl unfolding fine_def lists_ok_def P c submit_or_wait_lists
    by auto
  have "places ?d k' q = of_bool (k' \<notin> S - {k})" if m: "map_of (d_calls d) k' = Some q" for k' q
  proof (cases "k' = k")
    case True
    then have q: "q = p" using m k by simp
    show ?thesis using pl key k unfolding True q places_def P c submit_or_wait_lists by simp
  next
    case False
    then have "q \<noteq> p" using f m key by (auto simp: fine_def table_ok_def)
    then have "places ?d k' q = places d k' q"
      using False by (simp add: places_def P c submit_or_wait_lists key)
    then show ?thesis using f m False by (simp add: fine_def)
  qed
  then show ?thesis using t l by (simp add: fine_def P)
qed

lemma resourceKey_kind:
  "resourceKey k p n = resourceKey k' p' n' \<Longrightarrow> k \<in> {kindInstance, kindNetwork, kindProject} \<Longrightarrow>
     k' \<in> {kindInstance, kindNetwork, kindProject} \<Longrightarrow> k = k'"
  by (auto simp: resourceKey_def kinds)

lemma resourceKey_project: "resourceKey kindProject p [] = resourceKey kindProject p' [] \<longleftrightarrow> p = p'"
  by (simp add: resourceKey_def)

lemma project_key: "wf_call c \<Longrightarrow> c_kind c = kindProject \<Longrightarrow> c_key c = resourceKey kindProject (c_project c) []"
  by (simp add: wf_call_def)

lemma filter_update_new:
  "k \<notin> set (map fst m) \<Longrightarrow> filter P (AList.update k v m) = filter P m @ (if P (k, v) then [(k, v)] else [])"
  by (induction m) auto

lemma fineD:
  assumes "fine S X d"
  shows "k \<in> set (d_cold d) \<Longrightarrow> \<exists>p. map_of (d_calls d) k = Some p \<and> c_kind (call_at p d) = kindInstance"
    and "p \<in> set (d_waiting d) \<Longrightarrow> map_of (d_calls d) (c_key (call_at p d)) = Some p"
    and "k \<in> set (pending_of pr d) \<Longrightarrow> \<exists>p. map_of (d_calls d) k = Some p
            \<and> c_kind (call_at p d) = kindInstance \<and> c_project (call_at p d) = pr"
    and "map_of (d_cancels d) k = Some p \<Longrightarrow> map_of (d_calls d) k = Some p"
    and "map_of (d_calls d) k = Some p \<Longrightarrow> p < length (d_store d) \<and> c_key (call_at p d) = k \<and> wf_call (call_at p d)"
    and "map_of (d_calls d) k = Some p \<Longrightarrow> places d k p = of_bool (k \<notin> S)"
    and "d_warm d \<Longrightarrow> d_cold d = []" and "\<not> d_warm d \<Longrightarrow> pending_of pr d = []"
    and "distinct (d_cold d)" and "distinct (d_waiting d)" and "distinct (pending_of pr d)"
  using assms unfolding fine_def lists_ok_def table_ok_def by blast+

lemma lists_okI:
  assumes "d_warm d \<Longrightarrow> d_cold d = []" and "\<And>pr. \<not> d_warm d \<Longrightarrow> pending_of pr d = []"
    and "distinct (d_cold d)" and "distinct (d_waiting d)" and "\<And>pr. distinct (pending_of pr d)"
    and "\<And>k. k \<in> set (d_cold d) \<Longrightarrow> \<exists>p. map_of (d_calls d) k = Some p \<and> c_kind (call_at p d) = kindInstance"
    and "\<And>p. p \<in> set (d_waiting d) \<Longrightarrow> map_of (d_calls d) (c_key (call_at p d)) = Some p"
    and "\<And>pr k. k \<in> set (pending_of pr d) \<Longrightarrow> \<exists>p. map_of (d_calls d) k = Some p
            \<and> c_kind (call_at p d) = kindInstance \<and> c_project (call_at p d) = pr"
    and "\<And>pr k. k \<in> set (pending_of pr d) \<Longrightarrow> pr \<notin> X \<Longrightarrow> map_of (d_calls d) (resourceKey kindProject pr []) \<noteq> None"
    and "\<And>k p. map_of (d_cancels d) k = Some p \<Longrightarrow> map_of (d_calls d) k = Some p"
    and "d_waiting d \<noteq> [] \<Longrightarrow> d_armed d"
  shows "lists_ok X d"
  unfolding lists_ok_def using assms(1-5,11)
  by (intro conjI ballI allI impI) (rule assms(6-10); assumption | simp)+

lemma fineD2:
  assumes "fine S X d"
  shows "k \<in> set (pending_of pr d) \<Longrightarrow> pr \<notin> X \<Longrightarrow> map_of (d_calls d) (resourceKey kindProject pr []) \<noteq> None"
    and "d_waiting d \<noteq> [] \<Longrightarrow> d_armed d"
    and "distinct (map fst (d_calls d))"
    and "d_owed d = int (length (filter (is_project d) (d_calls d)))"
  using assms unfolding fine_def lists_ok_def table_ok_def by blast+

lemma fineI:
  assumes "table_ok d" "lists_ok X d"
    and "\<And>k p. map_of (d_calls d) k = Some p \<Longrightarrow> places d k p = of_bool (k \<notin> S)"
  shows "fine S X d"
  using assms by (simp add: fine_def)

lemma fine_not_called:
  assumes "fine S X d" "map_of (d_calls d) k = None"
  shows "k \<notin> set (d_cold d)" and "k \<notin> set (pending_of pr d)" and "map_of (d_cancels d) k = None"
    and "c_key (call_at p d) = k \<Longrightarrow> p \<notin> set (d_waiting d)"
proof -
  show "k \<notin> set (d_cold d)" using fineD(1) [OF assms(1), of k] assms(2) by auto
  show "k \<notin> set (pending_of pr d)" using fineD(3) [OF assms(1), of k pr] assms(2) by auto
  show "map_of (d_cancels d) k = None"
    using fineD(4) [OF assms(1), of k] assms(2) by (cases "map_of (d_cancels d) k") auto
  show "c_key (call_at p d) = k \<Longrightarrow> p \<notin> set (d_waiting d)" using fineD(2) [OF assms(1), of p] assms(2) by auto
qed

lemma fine_enter:
  \<comment> \<open>A call enters the table and is nowhere yet.\<close>
  assumes f: "fine S X d" and p: "p < length (d_store d)" "wf_call (call_at p d)"
    and k: "map_of (d_calls d) (c_key (call_at p d)) = None"
  defines "c \<equiv> call_at p d"
  defines "d2 \<equiv> (let d1 = d\<lparr>d_calls := AList.update (c_key c) p (d_calls d)\<rparr>
                 in if c_kind c = kindProject then d1\<lparr>d_owed := d_owed d1 + 1\<rparr> else d1)"
  shows "fine (insert (c_key c) S) X d2"
proof -
  have e: "d_calls d2 = AList.update (c_key c) p (d_calls d)" "d_store d2 = d_store d" "d_cold d2 = d_cold d"
    "d_pending d2 = d_pending d" "d_warm d2 = d_warm d" "d_waiting d2 = d_waiting d" "d_cancels d2 = d_cancels d"
    "d_armed d2 = d_armed d" "d_owed d2 = d_owed d + (if c_kind c = kindProject then 1 else 0)"
    by (simp_all add: d2_def Let_def)
  have s: "call_at q d2 = call_at q d" "pending_of pr d2 = pending_of pr d" for q pr
    by (rule call_at_cong [OF e(2)], rule pending_of_cong [OF e(4)])
  have n: "c_key c \<notin> set (map fst (d_calls d))"
    using k by (simp add: c_def map_of_eq_None_iff)
  note nc = fine_not_called [OF f k [folded c_def]]
  have isp: "is_project d2 = is_project d" by (simp add: fun_eq_iff is_project_def s)
  have t: "table_ok d2"
    unfolding table_ok_def
  proof (intro conjI allI impI)
    show "distinct (map fst (d_calls d2))" using f by (simp add: e fine_def table_ok_def)
    show "d_owed d2 = int (length (filter (is_project d2) (d_calls d2)))"
      using f unfolding e isp filter_update_new [OF n] by (simp add: fine_def table_ok_def is_project_def c_def)
    fix k' q assume m: "map_of (d_calls d2) k' = Some q"
    show "q < length (d_store d2)" "c_key (call_at q d2) = k'" "wf_call (call_at q d2)"
      using m p fineD(5) [OF f, of k' q] by (auto simp: e s c_def split: if_splits)
  qed
  have old: "map_of (d_calls d) k' = Some q \<Longrightarrow> map_of (d_calls d2) k' = Some q" for k' q
    using k by (auto simp: e c_def)
  have l: "lists_ok X d2"
  proof (rule lists_okI, unfold e(3-8) s)
    fix k' assume "k' \<in> set (d_cold d)"
    then show "\<exists>p. map_of (d_calls d2) k' = Some p \<and> c_kind (call_at p d) = kindInstance"
      using fineD(1) [OF f] old by blast
  next
    fix q assume "q \<in> set (d_waiting d)"
    then show "map_of (d_calls d2) (c_key (call_at q d)) = Some q" using fineD(2) [OF f] old by blast
  next
    fix pr k' assume m: "k' \<in> set (pending_of pr d)"
    then show "\<exists>p. map_of (d_calls d2) k' = Some p \<and> c_kind (call_at p d) = kindInstance \<and> c_project (call_at p d) = pr"
      using fineD(3) [OF f] old by blast
    assume "pr \<notin> X"
    then show "map_of (d_calls d2) (resourceKey kindProject pr []) \<noteq> None"
      using fineD2(1) [OF f m] old by (metis not_None_eq)
  next
    fix k' q assume "map_of (d_cancels d) k' = Some q"
    then show "map_of (d_calls d2) k' = Some q" using fineD(4) [OF f] old by blast
  qed (use fineD(7-11) [OF f] fineD2(2) [OF f] in blast)+
  have "places d2 k' q = of_bool (k' \<notin> insert (c_key c) S)" if m: "map_of (d_calls d2) k' = Some q" for k' q
  proof (cases "k' = c_key c")
    case True
    then have q: "q = p" using m by (simp add: e)
    show ?thesis using nc(1-3) nc(4) [of p] unfolding True q places_def e s by (simp add: c_def)
  next
    case False
    then show ?thesis using m f by (simp add: e fine_def places_def s)
  qed
  then show ?thesis using t l by (simp add: fine_def)
qed

lemma call_at_simps [simp]:
  "call_at q (d\<lparr>d_calls := x0\<rparr>) = call_at q d"
  "call_at q (d\<lparr>d_cancels := x1\<rparr>) = call_at q d"
  "call_at q (d\<lparr>d_pending := x2\<rparr>) = call_at q d"
  "call_at q (d\<lparr>d_warm := x3\<rparr>) = call_at q d"
  "call_at q (d\<lparr>d_asked := x4\<rparr>) = call_at q d"
  "call_at q (d\<lparr>d_owed := x5\<rparr>) = call_at q d"
  "call_at q (d\<lparr>d_cold := x6\<rparr>) = call_at q d"
  "call_at q (d\<lparr>d_waiting := x7\<rparr>) = call_at q d"
  "call_at q (d\<lparr>d_armed := x8\<rparr>) = call_at q d"
  "call_at q (d\<lparr>d_subs := x9\<rparr>) = call_at q d"
  by (simp_all add: call_at_def)

lemma pending_of_simps [simp]:
  "pending_of pr (d\<lparr>d_calls := x0\<rparr>) = pending_of pr d"
  "pending_of pr (d\<lparr>d_cancels := x1\<rparr>) = pending_of pr d"
  "pending_of pr (d\<lparr>d_warm := x3\<rparr>) = pending_of pr d"
  "pending_of pr (d\<lparr>d_asked := x4\<rparr>) = pending_of pr d"
  "pending_of pr (d\<lparr>d_owed := x5\<rparr>) = pending_of pr d"
  "pending_of pr (d\<lparr>d_cold := x6\<rparr>) = pending_of pr d"
  "pending_of pr (d\<lparr>d_waiting := x7\<rparr>) = pending_of pr d"
  "pending_of pr (d\<lparr>d_armed := x8\<rparr>) = pending_of pr d"
  "pending_of pr (d\<lparr>d_subs := x9\<rparr>) = pending_of pr d"
  "pending_of pr (d\<lparr>d_store := x10\<rparr>) = pending_of pr d"
  by (simp_all add: pending_of_def)

lemma is_project_simps [simp]:
  "is_project (d\<lparr>d_calls := x0\<rparr>) = is_project d"
  "is_project (d\<lparr>d_cancels := x1\<rparr>) = is_project d"
  "is_project (d\<lparr>d_pending := x2\<rparr>) = is_project d"
  "is_project (d\<lparr>d_warm := x3\<rparr>) = is_project d"
  "is_project (d\<lparr>d_asked := x4\<rparr>) = is_project d"
  "is_project (d\<lparr>d_owed := x5\<rparr>) = is_project d"
  "is_project (d\<lparr>d_cold := x6\<rparr>) = is_project d"
  "is_project (d\<lparr>d_waiting := x7\<rparr>) = is_project d"
  "is_project (d\<lparr>d_armed := x8\<rparr>) = is_project d"
  "is_project (d\<lparr>d_subs := x9\<rparr>) = is_project d"
  by (simp_all add: fun_eq_iff is_project_def)

lemma fine_to_cold:
  assumes f: "fine S X d" and k: "map_of (d_calls d) k = Some p" "k \<in> S" "\<not> d_warm d"
    and i: "c_kind (call_at p d) = kindInstance"
  shows "fine (S - {k}) X (d\<lparr>d_cold := d_cold d @ [k]\<rparr>)"
proof -
  let ?d = "d\<lparr>d_cold := d_cold d @ [k]\<rparr>"
  have "places d k p = 0" using fineD(6) [OF f k(1)] k(2) by simp
  then have n: "k \<notin> set (d_cold d)" by (simp add: places_def)
  show ?thesis
  proof (rule fineI)
    show "table_ok ?d" using f by (simp add: fine_def table_ok_def )
    show "lists_ok X ?d"
    proof (rule lists_okI)
      fix k' assume "k' \<in> set (d_cold ?d)"
      then show "\<exists>p. map_of (d_calls ?d) k' = Some p \<and> c_kind (call_at p ?d) = kindInstance"
        using fineD(1) [OF f, of k'] k(1) i by auto
    qed (simp_all add: fineD(2-4,7-11) [OF f] fineD2(1,2) [OF f] n k(3))
    fix k' q assume m: "map_of (d_calls ?d) k' = Some q"
    have "k' \<noteq> k \<Longrightarrow> places ?d k' q = places d k' q" by (simp add: places_def)
    then show "places ?d k' q = of_bool (k' \<notin> S - {k})"
      using fineD(6) [OF f, of k' q] m k(1,2) \<open>places d k p = 0\<close> by (cases "k' = k") (simp_all add: places_def)
  qed
qed

lemma pending_of_update:
  "pending_of pr (d\<lparr>d_pending := AList.update pr' ks (d_pending d)\<rparr>) = (if pr = pr' then ks else pending_of pr d)"
  by (simp add: pending_of_def)

lemma fine_to_pending:
  assumes f: "fine S X d" and k: "map_of (d_calls d) k = Some p" "k \<in> S" "d_warm d"
    and i: "c_kind (call_at p d) = kindInstance" "pr = c_project (call_at p d)"
    and pc: "map_of (d_calls d) (resourceKey kindProject pr []) \<noteq> None"
  shows "fine (S - {k}) X (d\<lparr>d_pending := AList.update pr (pending_of pr d @ [k]) (d_pending d)\<rparr>)"
proof -
  let ?d = "d\<lparr>d_pending := AList.update pr (pending_of pr d @ [k]) (d_pending d)\<rparr>"
  have "places d k p = 0" using fineD(6) [OF f k(1)] k(2) by simp
  then have n: "k \<notin> set (pending_of pr d)" by (simp add: places_def i(2))
  show ?thesis
  proof (rule fineI)
    show "table_ok ?d" using f by (simp add: fine_def table_ok_def )
    show "lists_ok X ?d"
    proof (rule lists_okI, unfold pending_of_update call_at_simps)
      fix pr' k' assume "k' \<in> set (if pr' = pr then pending_of pr d @ [k] else pending_of pr' d)"
      then consider "k' \<in> set (pending_of pr' d)" | "pr' = pr" "k' = k" by (auto split: if_splits)
      then show "\<exists>p. map_of (d_calls ?d) k' = Some p \<and> c_kind (call_at p d) = kindInstance \<and> c_project (call_at p d) = pr'"
        using fineD(3) [OF f, of k' pr'] k(1) i by cases auto
    next
      fix pr' k' assume "k' \<in> set (if pr' = pr then pending_of pr d @ [k] else pending_of pr' d)" "pr' \<notin> X"
      then consider "k' \<in> set (pending_of pr' d)" | "pr' = pr" by (auto split: if_splits)
      then show "map_of (d_calls ?d) (resourceKey kindProject pr' []) \<noteq> None"
        using fineD2(1) [OF f, of k' pr'] pc \<open>pr' \<notin> X\<close> by cases auto
    qed (simp_all add: fineD(2-4,7-11) [OF f] fineD2(1,2) [OF f] n k(3) pending_of_update)
    fix k' q assume m: "map_of (d_calls ?d) k' = Some q"
    have kq: "c_key (call_at q d) = k'" using fineD(5) [OF f, of k' q] m by simp
    have "k' = k \<Longrightarrow> q = p" using k(1) m by simp
    moreover have "k' \<noteq> k \<Longrightarrow> places ?d k' q = places d k' q"
      unfolding places_def pending_of_update call_at_simps by (simp split: if_splits)
    ultimately show "places ?d k' q = of_bool (k' \<notin> S - {k})"
      using fineD(6) [OF f, of k' q] m k(2) \<open>places d k p = 0\<close>
      by (cases "k' = k") (auto simp: places_def pending_of_update i(2))
  qed
qed

lemma fine_place:
  assumes f: "fine S X d" and p: "p < length (d_store d)" "wf_call (call_at p d)"
    and k: "map_of (d_calls d) (c_key (call_at p d)) = None"
  shows "fine (S - {c_key (call_at p d)}) X (fst (place acc p d))"
proof -
  let ?c = "call_at p d"
  define d2 where "d2 = (let d1 = d\<lparr>d_calls := AList.update (c_key ?c) p (d_calls d)\<rparr>
                 in if c_kind ?c = kindProject then d1\<lparr>d_owed := d_owed d1 + 1\<rparr> else d1)"
  have f2: "fine (insert (c_key ?c) S) X d2" unfolding d2_def by (rule fine_enter [OF f p k])
  have m: "map_of (d_calls d2) (c_key ?c) = Some p" "call_at p d2 = ?c"
    by (simp_all add: d2_def Let_def call_at_def)
  have pl: "place acc p d =
      (if \<not> d_warm d2 \<and> c_kind ?c = kindInstance then (d2\<lparr>d_cold := d_cold d2 @ [c_key ?c]\<rparr>, [])
         else if c_kind ?c = kindInstance
                 \<and> map_of (d_calls d2) (resourceKey kindProject (c_project ?c) []) \<noteq> None then
           (d2\<lparr>d_pending := AList.update (c_project ?c) (pending_of (c_project ?c) d2 @ [c_key ?c]) (d_pending d2)\<rparr>, [])
         else submit_or_wait acc p d2)"
    unfolding place_def d2_def Let_def ..
  have e: "insert (c_key ?c) S - {c_key ?c} = S - {c_key ?c}" by blast
  show ?thesis
    using fine_to_cold [OF f2 m(1)] fine_to_pending [OF f2 m(1) _ _ _ refl] fine_submit [OF f2 m(1)] m(2)
    unfolding pl e by auto
qed

subsection \<open>Every operation keeps it\<close>

definition call_head :: "call \<Rightarrow> string \<times> string \<times> string \<times> string" where
  "call_head c = (c_key c, c_project c, c_name c, c_kind c)"

lemma call_head_eq: "call_head c = call_head c' \<Longrightarrow>
    c_key c = c_key c' \<and> c_project c = c_project c' \<and> c_kind c = c_kind c' \<and> wf_call c = wf_call c'"
  by (simp add: call_head_def wf_call_def)

lemma fine_store:
  assumes f: "fine S X d" and l: "length (d_store d) \<le> length st"
    and h: "\<And>q. q < length (d_store d) \<Longrightarrow> call_head (st ! q) = call_head (d_store d ! q)"
  shows "fine S X (d\<lparr>d_store := st\<rparr>)"
proof -
  let ?d = "d\<lparr>d_store := st\<rparr>"
  have same: "c_key (call_at q ?d) = c_key (call_at q d)" "c_project (call_at q ?d) = c_project (call_at q d)"
    "c_kind (call_at q ?d) = c_kind (call_at q d)" "wf_call (call_at q ?d) = wf_call (call_at q d)"
    if "q < length (d_store d)" for q
    using call_head_eq [OF h [OF that]] by (simp_all add: call_at_def)
  have called: "map_of (d_calls d) k = Some q \<Longrightarrow> q < length (d_store d)" for k q using fineD(5) [OF f] by blast
  have wait: "q \<in> set (d_waiting d) \<Longrightarrow> q < length (d_store d)" for q using fineD(2) [OF f] called by blast
  have "\<forall>x \<in> set (d_calls d). is_project ?d x = is_project d x"
  proof
    fix x assume "x \<in> set (d_calls d)"
    then have "map_of (d_calls d) (fst x) = Some (snd x)" using fineD2(3) [OF f] by (simp add: map_of_is_SomeI)
    then show "is_project ?d x = is_project d x" using same(3) [OF called] by (simp add: is_project_def)
  qed
  then have flt: "filter (is_project ?d) (d_calls d) = filter (is_project d) (d_calls d)" by (simp cong: filter_cong)
  show ?thesis
  proof (rule fineI)
    show "table_ok ?d"
      unfolding table_ok_def
    proof (intro conjI allI impI)
      fix k p assume "map_of (d_calls ?d) k = Some p"
      then have p: "map_of (d_calls d) k = Some p" by simp
      show "p < length (d_store ?d)" using called [OF p] l by simp
      show "c_key (call_at p ?d) = k" "wf_call (call_at p ?d)"
        using same [OF called [OF p]] fineD(5) [OF f p] by simp_all
    qed (use fineD2(3,4) [OF f] in \<open>simp_all add: flt\<close>)
    show "lists_ok X ?d"
    proof (rule lists_okI)
      fix k assume "k \<in> set (d_cold ?d)"
      then obtain p where "map_of (d_calls d) k = Some p" "c_kind (call_at p d) = kindInstance" using fineD(1) [OF f, of k] by auto
      then show "\<exists>p. map_of (d_calls ?d) k = Some p \<and> c_kind (call_at p ?d) = kindInstance"
        using same(3) [OF called] by auto
    next
      fix p assume "p \<in> set (d_waiting ?d)"
      then show "map_of (d_calls ?d) (c_key (call_at p ?d)) = Some p"
        using fineD(2) [OF f, of p] same(1) [OF wait] by simp
    next
      fix pr k assume "k \<in> set (pending_of pr ?d)"
      then obtain p where "map_of (d_calls d) k = Some p" "c_kind (call_at p d) = kindInstance" "c_project (call_at p d) = pr"
        using fineD(3) [OF f, of k pr] by auto
      then show "\<exists>p. map_of (d_calls ?d) k = Some p \<and> c_kind (call_at p ?d) = kindInstance \<and> c_project (call_at p ?d) = pr"
        using same(2,3) [OF called] by auto
    qed (simp_all add: fineD(4,7-11) [OF f] fineD2(1,2) [OF f])
    fix k p assume "map_of (d_calls ?d) k = Some p"
    then show "places ?d k p = of_bool (k \<notin> S)"
      using fineD(6) [OF f, of k p] same(2) [OF called] by (simp add: places_def)
  qed
qed

lemma fine_new_call: "fine S X d \<Longrightarrow> fine S X (fst (new_call c d))"
  by (auto simp: new_call_def nth_append intro!: fine_store)

lemma call_at_new [simp]: "call_at (snd (new_call c d)) (fst (new_call c d)) = c"
  by (simp add: new_call_def call_at_def)

lemma call_head_update:
  "call_head c = call_head (xs ! p) \<Longrightarrow> call_head (xs[p := c] ! q) = call_head (xs ! q)"
  by (cases "p < length xs") (auto simp: nth_list_update not_less list_update_beyond)

lemma call_head_fields [simp]:
  "call_head (c\<lparr>c_items := i, c_ev := e, c_wantInterfaces := w\<rparr>) = call_head c"
  "call_head (c\<lparr>c_items := i, c_ev := e, c_wantInterfaces := w, c_waitForRunning := r\<rparr>) = call_head c"
  by (simp_all add: call_head_def)

lemma fine_join: "fine S X d \<Longrightarrow> fine S X (join p q d)"
  unfolding join_def Let_def
  by (rule fine_store) (simp_all add: call_head_update call_at_def)

lemma fine_supersede: "fine S X d \<Longrightarrow> fine S X (supersede p q d)"
  unfolding supersede_def Let_def
  by (rule fine_store) (simp_all add: call_head_update call_at_def)

lemma filter_delete:
  "distinct (map fst m) \<Longrightarrow> map_of m k = Some v \<Longrightarrow>
     length (filter P m) = length (filter P (AList.delete k m)) + (if P (k, v) then 1 else 0)"
proof (induction m)
  case (Cons a m)
  obtain k' v' where a: "a = (k', v')" by fastforce
  show ?case
  proof (cases "k' = k")
    case True
    then have "k \<notin> fst ` set m" using Cons.prems a by auto
    then have "AList.delete k m = m" by simp
    then show ?thesis using True Cons.prems a by (simp add: delete_simps)
  next
    case False
    then show ?thesis using Cons a by (simp add: delete_simps)
  qed
qed simp

lemma fine_unplace:
  assumes f: "fine S X d" and k: "map_of (d_calls d) k = Some p"
  defines "d' \<equiv> d\<lparr>d_cancels := AList.delete k (d_cancels d),
      d_waiting := filter (\<lambda>w. c_key (call_at w d) \<noteq> k) (d_waiting d),
      d_cold := filter (\<lambda>x. x \<noteq> k) (d_cold d),
      d_pending := AList.update (c_project (call_at p d))
        (filter (\<lambda>x. x \<noteq> k) (pending_of (c_project (call_at p d)) d)) (d_pending d)\<rparr>"
  shows "fine (insert k S) X d'"
proof -
  let ?pr = "c_project (call_at p d)"
  have e: "d_calls d' = d_calls d" "d_store d' = d_store d" "d_warm d' = d_warm d" "d_owed d' = d_owed d"
    "d_armed d' = d_armed d" "d_waiting d' = filter (\<lambda>w. c_key (call_at w d) \<noteq> k) (d_waiting d)"
    "d_cold d' = filter (\<lambda>x. x \<noteq> k) (d_cold d)" "d_cancels d' = AList.delete k (d_cancels d)"
    by (simp_all add: d'_def)
  have ca: "call_at q d' = call_at q d" "is_project d' = is_project d" for q
    by (simp_all add: d'_def)
  have pe: "pending_of pr d' = (if pr = ?pr then filter (\<lambda>x. x \<noteq> k) (pending_of pr d) else pending_of pr d)" for pr
    by (simp add: d'_def pending_of_def)
  have sub: "x \<in> set (pending_of pr d') \<Longrightarrow> x \<in> set (pending_of pr d)" for x pr by (auto simp: pe split: if_splits)
  show ?thesis
  proof (rule fineI)
    show "table_ok d'" using f by (simp add: fine_def table_ok_def e ca)
    show "lists_ok X d'"
    proof (rule lists_okI, unfold e ca)
      fix x assume "x \<in> set (filter (\<lambda>x. x \<noteq> k) (d_cold d))"
      then show "\<exists>p. map_of (d_calls d) x = Some p \<and> c_kind (call_at p d) = kindInstance"
        using fineD(1) [OF f, of x] by auto
    next
      fix x pr assume x: "x \<in> set (pending_of pr d')"
      show "\<exists>p. map_of (d_calls d) x = Some p \<and> c_kind (call_at p d) = kindInstance \<and> c_project (call_at p d) = pr"
        using fineD(3) [OF f sub [OF x]] .
      show "pr \<notin> X \<Longrightarrow> map_of (d_calls d) (resourceKey kindProject pr []) \<noteq> None"
        using fineD2(1) [OF f sub [OF x]] .
    next
      fix pr show "distinct (pending_of pr d')" using fineD(11) [OF f, of pr] by (auto simp: pe)
      show "\<not> d_warm d \<Longrightarrow> pending_of pr d' = []" using fineD(8) [OF f, of pr] by (auto simp: pe)
    next
      fix x q assume "map_of (AList.delete k (d_cancels d)) x = Some q"
      then show "map_of (d_calls d) x = Some q" using fineD(4) [OF f, of x q] by (simp split: if_splits)
    next
      show "filter (\<lambda>w. c_key (call_at w d) \<noteq> k) (d_waiting d) \<noteq> [] \<Longrightarrow> d_armed d"
        using fineD2(2) [OF f] by (cases "d_waiting d") auto
    qed (use fineD(2,7,9,10) [OF f] in auto)
    fix x q assume m: "map_of (d_calls d') x = Some q"
    then have q: "map_of (d_calls d) x = Some q" "c_key (call_at q d) = x" using fineD(5) [OF f] by (auto simp: e)
    show "places d' x q = of_bool (x \<notin> insert k S)"
    proof (cases "x = k")
      case True
      then have "q = p" using q k by simp
      then show ?thesis using True q(2) by (simp add: places_def e ca pe)
    next
      case False
      then have "places d' x q = places d x q" using q(2) by (simp add: places_def e ca pe)
      then show ?thesis using fineD(6) [OF f q(1)] False by simp
    qed
  qed
qed

lemma fine_drop:
  assumes f: "fine S X d" and k: "map_of (d_calls d) k = Some p"
    and n: "k \<notin> set (d_cold d)" "p \<notin> set (d_waiting d)" "k \<notin> set (pending_of (c_project (call_at p d)) d)"
  defines "proj \<equiv> c_kind (call_at p d) = kindProject"
  defines "d' \<equiv> d\<lparr>d_calls := AList.delete k (d_calls d), d_cancels := AList.delete k (d_cancels d),
      d_owed := d_owed d - (if proj then 1 else 0)\<rparr>"
  shows "fine (S - {k}) (if proj then insert (c_project (call_at p d)) X else X) d'"
proof -
  have e: "d_calls d' = AList.delete k (d_calls d)" "d_store d' = d_store d" "d_warm d' = d_warm d"
    "d_owed d' = d_owed d - (if proj then 1 else 0)" "d_armed d' = d_armed d" "d_waiting d' = d_waiting d"
    "d_cold d' = d_cold d" "d_cancels d' = AList.delete k (d_cancels d)"
    by (simp_all add: d'_def)
  have ca: "call_at q d' = call_at q d" "is_project d' = is_project d" "pending_of pr d' = pending_of pr d" for q pr
    by (simp_all add: d'_def)
  have pk: "c_key (call_at p d) = k" "wf_call (call_at p d)" using fineD(5) [OF f k] by simp_all
  show ?thesis
  proof (rule fineI)
    show "table_ok d'"
      unfolding table_ok_def
    proof (intro conjI allI impI)
      show "d_owed d' = int (length (filter (is_project d') (d_calls d')))"
        using filter_delete [OF fineD2(3) [OF f] k, of "is_project d"] fineD2(4) [OF f]
        by (simp add: e ca is_project_def proj_def)
    qed (use fineD(5) [OF f] fineD2(3) [OF f] in \<open>auto simp: e ca split: if_splits\<close>)
    show "lists_ok (if proj then insert (c_project (call_at p d)) X else X) d'"
    proof (rule lists_okI, unfold e ca)
      fix x assume "x \<in> set (d_cold d)"
      then show "\<exists>p. map_of (AList.delete k (d_calls d)) x = Some p \<and> c_kind (call_at p d) = kindInstance"
        using fineD(1) [OF f, of x] n(1) by auto
    next
      fix q assume q: "q \<in> set (d_waiting d)"
      have "c_key (call_at q d) \<noteq> k" using fineD(2) [OF f q] k n(2) q by auto
      then show "map_of (AList.delete k (d_calls d)) (c_key (call_at q d)) = Some q"
        using fineD(2) [OF f q] by simp
    next
      fix x pr assume x: "x \<in> set (pending_of pr d)"
      obtain q where q: "map_of (d_calls d) x = Some q" "c_kind (call_at q d) = kindInstance" "c_project (call_at q d) = pr"
        using fineD(3) [OF f x] by blast
      have "x \<noteq> k" using q k n(3) x by auto
      then show "\<exists>p. map_of (AList.delete k (d_calls d)) x = Some p \<and> c_kind (call_at p d) = kindInstance \<and> c_project (call_at p d) = pr"
        using q by simp
      assume X: "pr \<notin> (if proj then insert (c_project (call_at p d)) X else X)"
      then have "map_of (d_calls d) (resourceKey kindProject pr []) \<noteq> None"
        using fineD2(1) [OF f x] by (auto split: if_splits)
      moreover have "resourceKey kindProject pr [] \<noteq> k"
      proof
        assume r: "resourceKey kindProject pr [] = k"
        then have "c_kind (call_at p d) = kindProject"
          using pk resourceKey_kind [of kindProject pr "[]" "c_kind (call_at p d)" "c_project (call_at p d)" "c_name (call_at p d)"]
          by (simp add: wf_call_def)
        then show False using X r pk project_key resourceKey_project by (auto simp: proj_def)
      qed
      ultimately show "map_of (AList.delete k (d_calls d)) (resourceKey kindProject pr []) \<noteq> None" by simp
    next
      fix x q assume "map_of (AList.delete k (d_cancels d)) x = Some q"
      then show "map_of (AList.delete k (d_calls d)) x = Some q"
        using fineD(4) [OF f, of x q] by (simp split: if_splits)
    qed (use fineD(7-11) [OF f] fineD2(2) [OF f] in \<open>simp_all\<close>)
    fix x q assume m: "map_of (d_calls d') x = Some q"
    then have q: "map_of (d_calls d) x = Some q" "x \<noteq> k" by (auto simp: e split: if_splits)
    then have "places d' x q = places d x q" by (simp add: places_def e ca)
    then show "places d' x q = of_bool (x \<notin> S - {k})" using fineD(6) [OF f q(1)] q(2) by simp
  qed
qed

lemma place_store [simp]: "d_store (fst (place acc p d)) = d_store d"
  by (simp add: place_def Let_def submit_or_wait_parts)

lemma cancel_shape:
  assumes "map_of (d_calls d) k = Some p"
  shows "snd (snd (cancel k d)) = Some p" "d_store (fst (cancel k d)) = d_store d"
    "map_of (d_calls (fst (cancel k d))) = (map_of (d_calls d))(k := None)"
  using assms by (simp_all add: cancel_def Let_def)

lemma fine_cancel:
  assumes f: "fine S X d" and k: "map_of (d_calls d) k = Some p" "c_kind (call_at p d) = kindInstance" "k \<notin> S"
  shows "fine S X (fst (cancel k d))"
proof -
  let ?d1 = "d\<lparr>d_cancels := AList.delete k (d_cancels d),
      d_waiting := filter (\<lambda>w. c_key (call_at w d) \<noteq> k) (d_waiting d),
      d_cold := filter (\<lambda>x. x \<noteq> k) (d_cold d),
      d_pending := AList.update (c_project (call_at p d))
        (filter (\<lambda>x. x \<noteq> k) (pending_of (c_project (call_at p d)) d)) (d_pending d)\<rparr>"
  have f1: "fine (insert k S) X ?d1" by (rule fine_unplace [OF f k(1)])
  have k1: "map_of (d_calls ?d1) k = Some p" using k(1) by simp
  have "places ?d1 k p = 0" using fineD(6) [OF f1 k1] by simp
  then have n: "k \<notin> set (d_cold ?d1)" "p \<notin> set (d_waiting ?d1)" "k \<notin> set (pending_of (c_project (call_at p ?d1)) ?d1)"
    by (simp_all add: places_def)
  have ki: "kindInstance \<noteq> kindProject" by (simp add: kinds)
  have "fst (cancel k d) = ?d1\<lparr>d_calls := AList.delete k (d_calls ?d1), d_cancels := AList.delete k (d_cancels ?d1),
      d_owed := d_owed ?d1 - (if c_kind (call_at p ?d1) = kindProject then 1 else 0)\<rparr>"
    using k ki by (simp add: cancel_def Let_def AList.delete_idem)
  moreover have "insert k S - {k} = S" using k(3) by blast
  ultimately show ?thesis using fine_drop [OF f1 k1 n] k ki by simp
qed

lemma fine_send:
  assumes f: "fine S X d" and p: "p < length (d_store d)" "wf_call (call_at p d)" "c_key (call_at p d) \<notin> S"
  shows "fine S X (fst (send acc p d))"
proof -
  let ?c = "call_at p d" let ?k = "c_key (call_at p d)"
  have S: "S - {?k} = S" using p(3) by blast
  show ?thesis
  proof (cases "map_of (d_calls d) ?k")
    case None
    then show ?thesis using fine_place [OF f p(1,2) None, of acc] by (simp add: send_def S)
  next
    case (Some out)
    show ?thesis
    proof (cases "c_kind ?c = kindInstance \<and> c_waitForRunning ?c \<and> \<not> c_waitForRunning (call_at out d)")
      case False
      then show ?thesis using fine_join [OF f] Some by (auto simp: send_def)
    next
      case True
      have "c_key (call_at out d) = ?k" "wf_call (call_at out d)" using fineD(5) [OF f Some] by auto
      then have "c_kind (call_at out d) = kindInstance"
        using p(2) True resourceKey_kind unfolding wf_call_def by metis
      then have f1: "fine S X (fst (cancel ?k d))" by (rule fine_cancel [OF f Some _ p(3)])
      define d2 where "d2 = supersede p out (fst (cancel ?k d))"
      have f2: "fine S X d2" unfolding d2_def by (rule fine_supersede [OF f1])
      have st: "d_store (fst (cancel ?k d)) = d_store d" by (rule cancel_shape(2) [OF Some])
      have h: "call_head (call_at p d2) = call_head ?c"
        by (simp add: d2_def supersede_def Let_def call_at_def st [unfolded call_at_def] call_head_update)
      have h2: "c_key (call_at p d2) = ?k" "wf_call (call_at p d2)" using call_head_eq [OF h] p(2) by simp_all
      have "map_of (d_calls d2) ?k = None"
        using cancel_shape(3) [OF Some] by (simp add: d2_def supersede_def Let_def)
      moreover have "p < length (d_store d2)" using p(1) by (simp add: d2_def supersede_def Let_def st)
      ultimately have "fine (S - {?k}) X (fst (place acc p d2))"
        using fine_place [OF f2, of p acc] h2 by simp
      moreover have "fst (send acc p d) = fst (place acc p d2)"
        using Some True cancel_shape(1) [OF Some]
        by (simp add: send_def Let_def split_beta d2_def)
      ultimately show ?thesis by (simp add: S)
    qed
  qed
qed

lemma send_store:
  "length (d_store (fst (send acc p d))) = length (d_store d)"
  "call_head (d_store (fst (send acc p d)) ! q) = call_head (d_store d ! q)"
proof -
  have "d_store (fst (cancel k d')) = d_store d'" for k d'
    by (simp add: cancel_def Let_def split: option.splits)
  then show "length (d_store (fst (send acc p d))) = length (d_store d)"
    "call_head (d_store (fst (send acc p d)) ! q) = call_head (d_store d ! q)"
    by (simp_all add: send_def join_def supersede_def Let_def split_beta call_head_update call_at_def split: option.splits)
qed

lemma fine_flush_one:
  assumes f: "fine S X d" and k: "k \<in> S" "\<exists>p. map_of (d_calls d) k = Some p \<and> c_kind (call_at p d) = kindInstance"
  shows "fine (S - {k}) X (fst (flush_one acc k d))"
proof -
  obtain p where p: "map_of (d_calls d) k = Some p" "c_kind (call_at p d) = kindInstance" using k(2) by blast
  have "places d k p = 0" using fineD(6) [OF f p(1)] k(1) by simp
  then have n: "k \<notin> set (d_cold d)" "p \<notin> set (d_waiting d)" "k \<notin> set (pending_of (c_project (call_at p d)) d)"
    "map_of (d_cancels d) k \<noteq> Some p"
    by (simp_all add: places_def)
  have "map_of (d_cancels d) k = None" using fineD(4) [OF f, of k] n(4) p(1) by (cases "map_of (d_cancels d) k") auto
  then have c: "AList.delete k (d_cancels d) = d_cancels d" by (simp add: map_of_eq_None_iff)
  have ki: "kindInstance \<noteq> kindProject" by (simp add: kinds)
  let ?d = "d\<lparr>d_calls := AList.delete k (d_calls d)\<rparr>"
  have f1: "fine (S - {k}) X ?d" using fine_drop [OF f p(1) n(1-3)] p(2) ki by (simp add: c)
  have pk: "p < length (d_store d)" "c_key (call_at p d) = k" "wf_call (call_at p d)" using fineD(5) [OF f p(1)] by simp_all
  have "fine (S - {k}) X (fst (send acc p ?d))" by (rule fine_send [OF f1]) (use pk in simp_all)
  then show ?thesis using p(1) by (simp add: flush_one_def)
qed

lemma place_calls_mono:
  "map_of (d_calls d) k = Some q \<Longrightarrow> k \<noteq> c_key (call_at p d) \<Longrightarrow> map_of (d_calls (fst (place acc p d))) k = Some q"
  by (simp add: place_def Let_def submit_or_wait_parts)

lemma flush_one_others:
  assumes f: "fine S X d" and k: "map_of (d_calls d) k' = Some q" "k' \<noteq> k"
  shows "map_of (d_calls (fst (flush_one acc k d))) k' = Some q
    \<and> call_head (call_at q (fst (flush_one acc k d))) = call_head (call_at q d)"
proof (cases "map_of (d_calls d) k")
  case (Some p)
  have pk: "c_key (call_at p d) = k" using fineD(5) [OF f Some] by simp
  let ?d = "d\<lparr>d_calls := AList.delete k (d_calls d)\<rparr>"
  have "map_of (d_calls ?d) k = None" by simp
  then have "send acc p ?d = place acc p ?d" by (simp add: send_def pk)
  then show ?thesis
    using Some k place_calls_mono [of ?d k' q p acc] pk place_store [of acc p ?d] by (simp add: flush_one_def call_at_def)
qed (use k in \<open>simp add: flush_one_def\<close>)

lemma fine_flush_all:
  assumes "fine (set ks) X d" "distinct ks"
    and "\<And>k. k \<in> set ks \<Longrightarrow> \<exists>p. map_of (d_calls d) k = Some p \<and> c_kind (call_at p d) = kindInstance"
  shows "fine {} X (fst (run_steps (flush_one acc) ks d))"
  using assms
proof (induction ks arbitrary: d)
  case (Cons k ks)
  have s: "set (k # ks) - {k} = set ks" using Cons.prems(2) by auto
  let ?d = "fst (flush_one acc k d)"
  have f: "fine (set ks) X ?d"
    using fine_flush_one [OF Cons.prems(1) _ Cons.prems(3), of k acc] s by simp
  have "\<exists>p. map_of (d_calls ?d) k' = Some p \<and> c_kind (call_at p ?d) = kindInstance" if m: "k' \<in> set ks" for k'
  proof -
    obtain p where p: "map_of (d_calls d) k' = Some p" "c_kind (call_at p d) = kindInstance"
      using Cons.prems(3) [of k'] m by auto
    have "k' \<noteq> k" using m Cons.prems(2) by auto
    from flush_one_others [OF Cons.prems(1) p(1) this, of acc] p(2) show ?thesis
      by (auto dest: call_head_eq)
  qed
  then show ?case using Cons.IH [OF f] Cons.prems(2) by (simp del: run_steps.simps(2))
qed simp

lemma lists_ok_mono: "lists_ok X d \<Longrightarrow> X \<subseteq> Y \<Longrightarrow> lists_ok Y d"
  unfolding lists_ok_def by (elim conjE, intro conjI) (assumption | blast)+

lemma fine_mono: "fine S X d \<Longrightarrow> X \<subseteq> Y \<Longrightarrow> fine S Y d"
  using lists_ok_mono by (auto simp: fine_def)

lemma fine_asked: "fine S X (d\<lparr>d_asked := b\<rparr>) = fine S X d"
  by (simp add: fine_def table_ok_def lists_ok_def places_def)

lemma fine_flush:
  assumes f: "fine {} X d"
  shows "fine {} X (fst (flush acc d))"
proof (cases "d_warm d \<or> 0 < d_owed d")
  case True
  then show ?thesis using f by (simp add: flush_def fine_asked)
next
  case False
  let ?d = "d\<lparr>d_asked := True, d_cold := [], d_warm := True\<rparr>"
  have cold: "\<And>k. k \<in> set (d_cold d) \<Longrightarrow> \<exists>p. map_of (d_calls d) k = Some p \<and> c_kind (call_at p d) = kindInstance"
    using fineD(1) [OF f] .
  have w: "pending_of pr d = []" for pr using fineD(8) [OF f] False by blast
  have "fine (set (d_cold d)) X ?d"
  proof (rule fineI)
    show "table_ok ?d" using f by (simp add: fine_def table_ok_def)
    show "lists_ok X ?d"
      by (rule lists_okI) (use fineD(2,4,10) [OF f] fineD2(2) [OF f] w in auto)
    fix k p assume m: "map_of (d_calls ?d) k = Some p"
    then have "places d k p = 1" using fineD(6) [OF f, of k p] by simp
    then show "places ?d k p = of_bool (k \<notin> set (d_cold d))"
      by (cases "k \<in> set (d_cold d)") (simp_all add: places_def)
  qed
  then have "fine {} X (fst (run_steps (flush_one acc) (d_cold d) ?d))"
    by (rule fine_flush_all) (use fineD(9) [OF f] cold in auto)
  then show ?thesis using False by (simp add: flush_def Let_def)
qed

lemma fine_subs:
  "fine S X (d\<lparr>d_subs := n, d_waiting := w, d_armed := a\<rparr>) = fine S X (d\<lparr>d_waiting := w, d_armed := a\<rparr>)"
  by (simp add: fine_def table_ok_def lists_ok_def places_def)

lemma key_member:
  assumes "\<And>p. p \<in> set qs \<Longrightarrow> map_of m (f p) = Some p" "map_of m k = Some p" "f p = k"
  shows "p \<in> set qs \<longleftrightarrow> k \<in> set (map f qs)"
proof
  assume "k \<in> set (map f qs)"
  then obtain q where q: "q \<in> set qs" "f q = k" by auto
  have "map_of m (f q) = Some q" by (rule assms(1) [OF q(1)])
  then show "p \<in> set qs" using q assms(2) by simp
qed (use assms(3) in auto)

lemma fine_wait:
  assumes f: "fine (set (map (\<lambda>p. c_key (call_at p d)) qs)) X d" and w: "d_waiting d = []" and q: "distinct qs"
    and c: "\<And>p. p \<in> set qs \<Longrightarrow> map_of (d_calls d) (c_key (call_at p d)) = Some p"
  shows "fine {} X (d\<lparr>d_waiting := qs, d_armed := qs \<noteq> []\<rparr>)"
proof (rule fineI)
  let ?d = "d\<lparr>d_waiting := qs, d_armed := qs \<noteq> []\<rparr>"
  show "table_ok ?d" using f by (simp add: fine_def table_ok_def)
  show "lists_ok X ?d"
    by (rule lists_okI) (use fineD(1,3,4,7-11) [OF f] fineD2(1) [OF f] q c in simp_all)
  fix k p assume m: "map_of (d_calls ?d) k = Some p"
  then have k: "c_key (call_at p d) = k" "places d k p = of_bool (k \<notin> set (map (\<lambda>p. c_key (call_at p d)) qs))"
    using fineD(5,6) [OF f, of k p] by simp_all
  have "p \<in> set qs \<longleftrightarrow> k \<in> set (map (\<lambda>p. c_key (call_at p d)) qs)"
    by (rule key_member [where m = "d_calls d", OF c]) (use m k(1) in simp_all)
  then show "places ?d k p = of_bool (k \<notin> {})"
    using k(2) w by (cases "p \<in> set qs") (simp_all add: places_def)
qed

lemma submit_taken:
  "acc (d_subs d) \<Longrightarrow> submit acc p d = (fst (submit_or_wait acc p d), snd (submit_or_wait acc p d), True)"
  by (simp add: submit_or_wait_def submit_def Let_def)

lemma submit_refused:
  "\<not> acc (d_subs d) \<Longrightarrow> submit acc p d =
     (d\<lparr>d_subs := Suc (d_subs d), d_cancels := AList.delete (c_key (call_at p d)) (d_cancels d)\<rparr>, [], False)"
  by (simp add: submit_def Let_def)

lemma fine_offer:
  assumes "fine (set (map (\<lambda>p. c_key (call_at p d)) ps)) X (d\<lparr>d_waiting := []\<rparr>)" "distinct ps"
    and "\<And>p. p \<in> set ps \<Longrightarrow> map_of (d_calls d) (c_key (call_at p d)) = Some p"
  shows "fine {} X ((fst (offer acc ps d))\<lparr>d_armed := d_waiting (fst (offer acc ps d)) \<noteq> []\<rparr>)"
  using assms
proof (induction ps arbitrary: d)
  case Nil
  then show ?case using fine_wait [of "d\<lparr>d_waiting := []\<rparr>" "[]" X] by simp
next
  case (Cons p ps)
  let ?k = "c_key (call_at p d)"
  have k: "map_of (d_calls d) ?k = Some p" using Cons.prems(3) by simp
  have nk: "?k \<notin> set (map (\<lambda>p. c_key (call_at p d)) ps)"
  proof
    assume "?k \<in> set (map (\<lambda>p. c_key (call_at p d)) ps)"
    then obtain q where q: "q \<in> set ps" "c_key (call_at q d) = ?k" by auto
    have "map_of (d_calls d) (c_key (call_at q d)) = Some q" by (rule Cons.prems(3)) (use q in simp)
    then have "q = p" unfolding q(2) using k by simp
    then show False using q(1) Cons.prems(2) by simp
  qed
  show ?case
  proof (cases "acc (d_subs d)")
    case True
    define d1 where "d1 = fst (submit_or_wait acc p d)"
    note P = submit_or_wait_parts [of acc p d, folded d1_def]
    have ca: "call_at q d1 = call_at q d" for q by (rule call_at_cong [OF P(2)])
    have "fst (submit_or_wait acc p (d\<lparr>d_waiting := []\<rparr>)) = d1\<lparr>d_waiting := []\<rparr>"
      using True by (simp add: d1_def submit_or_wait_def submit_def Let_def)
    then have "fine (set (map (\<lambda>p. c_key (call_at p d)) (p # ps)) - {?k}) X (d1\<lparr>d_waiting := []\<rparr>)"
      using fine_submit [OF Cons.prems(1), of ?k p acc] k by simp
    then have "fine (set (map (\<lambda>p. c_key (call_at p d1)) ps)) X (d1\<lparr>d_waiting := []\<rparr>)"
      using nk by (simp add: ca)
    from Cons.IH [OF this] have "fine {} X ((fst (offer acc ps d1))\<lparr>d_armed := d_waiting (fst (offer acc ps d1)) \<noteq> []\<rparr>)"
      using Cons.prems(2,3) by (simp add: ca P)
    moreover have "fst (offer acc (p # ps) d) = fst (offer acc ps d1)"
      by (simp add: submit_taken [of acc, OF True] d1_def split_beta Let_def)
    ultimately show ?thesis by simp
  next
    case False
    have "map_of (d_cancels d) ?k \<noteq> Some p"
      using fineD(6) [OF Cons.prems(1), of ?k p] k by (simp add: places_def)
    then have "map_of (d_cancels d) ?k = None"
      using fineD(4) [OF Cons.prems(1), of ?k] k by (cases "map_of (d_cancels d) ?k") auto
    then have "AList.delete ?k (d_cancels d) = d_cancels d" by (simp add: map_of_eq_None_iff)
    then have o: "fst (offer acc (p # ps) d) = d\<lparr>d_subs := Suc (d_subs d), d_waiting := p # ps\<rparr>"
      by (simp add: submit_refused [of acc, OF False] Let_def)
    have "fine {} X (d\<lparr>d_waiting := p # ps, d_armed := True\<rparr>)"
      using fine_wait [of "d\<lparr>d_waiting := []\<rparr>" "p # ps" X] Cons.prems by simp
    then show ?thesis unfolding o by (simp add: fine_subs)
  qed
qed

lemma fine_retry:
  assumes f: "fine {} X d"
  shows "fine {} X (fst (retry acc d))"
proof -
  let ?d = "d\<lparr>d_armed := False\<rparr>"
  have c: "p \<in> set (d_waiting d) \<Longrightarrow> map_of (d_calls d) (c_key (call_at p d)) = Some p" for p
    using fineD(2) [OF f] .
  have "fine (set (map (\<lambda>p. c_key (call_at p d)) (d_waiting d))) X (?d\<lparr>d_waiting := []\<rparr>)"
  proof (rule fineI)
    show "table_ok (?d\<lparr>d_waiting := []\<rparr>)" using f by (simp add: fine_def table_ok_def)
    show "lists_ok X (?d\<lparr>d_waiting := []\<rparr>)"
      by (rule lists_okI) (use fineD(1,3,4,7-11) [OF f] fineD2(1) [OF f] in simp_all)
    fix k p assume m: "map_of (d_calls (?d\<lparr>d_waiting := []\<rparr>)) k = Some p"
    then have k: "c_key (call_at p d) = k" "places d k p = 1" using fineD(5,6) [OF f, of k p] by simp_all
    have "p \<in> set (d_waiting d) \<longleftrightarrow> k \<in> set (map (\<lambda>p. c_key (call_at p d)) (d_waiting d))"
      by (rule key_member [where m = "d_calls d", OF c]) (use m k(1) in simp_all)
    then show "places (?d\<lparr>d_waiting := []\<rparr>) k p = of_bool (k \<notin> set (map (\<lambda>p. c_key (call_at p d)) (d_waiting d)))"
      using k(2) by (cases "p \<in> set (d_waiting d)") (simp_all add: places_def)
  qed
  then have f1: "fine {} X ((fst (offer acc (d_waiting d) ?d))\<lparr>d_armed := d_waiting (fst (offer acc (d_waiting d) ?d)) \<noteq> []\<rparr>)"
    using fine_offer [of ?d "d_waiting d" X acc] fineD(10) [OF f] c by simp
  have ar: "d_armed (fst (offer acc ps e)) = d_armed e" for ps e
    by (induction ps arbitrary: e) (simp_all add: submit_def split_beta Let_def)
  have "fst (retry acc d) = (fst (offer acc (d_waiting d) ?d))\<lparr>d_armed := d_waiting (fst (offer acc (d_waiting d) ?d)) \<noteq> []\<rparr>"
    using ar [of "d_waiting d" ?d] by (simp add: retry_def split_beta Let_def)
  then show ?thesis using f1 by simp
qed

lemma fine_release_all:
  assumes "fine (set ks) X d" "distinct ks" "\<And>k. k \<in> set ks \<Longrightarrow> map_of (d_calls d) k \<noteq> None"
  shows "fine {} X (fst (run_steps (release_one acc) ks d))"
  using assms
proof (induction ks arbitrary: d)
  case (Cons k ks)
  obtain p where p: "map_of (d_calls d) k = Some p" using Cons.prems(3) [of k] by auto
  have s: "set (k # ks) - {k} = set ks" using Cons.prems(2) by auto
  have r: "fst (release_one acc k d) = fst (submit_or_wait acc p d)" by (simp add: release_one_def p)
  have "fine (set ks) X (fst (release_one acc k d))"
    using fine_submit [OF Cons.prems(1) p, of acc] s unfolding r by simp
  from Cons.IH [OF this] show ?case
    using Cons.prems(2,3) by (simp add: r submit_or_wait_parts del: run_steps.simps(2))
qed simp

lemma fine_done:
  assumes f: "fine {} {} d" and p: "map_of (d_calls d) (c_key (call_at p d)) = Some p"
    and fl: "map_of (d_cancels d) (c_key (call_at p d)) = Some p"
  shows "fine {} {} (fst (reads_done acc p d))"
proof -
  let ?c = "call_at p d" let ?k = "c_key (call_at p d)" let ?pr = "c_project (call_at p d)"
  have "places d ?k p = 1" using fineD(6) [OF f p] by simp
  then have n: "?k \<notin> set (d_cold d)" "p \<notin> set (d_waiting d)" "?k \<notin> set (pending_of ?pr d)"
    using fl by (auto simp: places_def)
  note dr = fine_drop [OF f p n]
  show ?thesis
  proof (cases "c_kind ?c = kindProject")
    case False
    then show ?thesis using dr by (simp add: reads_done_def Let_def)
  next
    case True
    define d2 where "d2 = d\<lparr>d_calls := AList.delete ?k (d_calls d), d_cancels := AList.delete ?k (d_cancels d),
        d_owed := d_owed d - 1\<rparr>"
    define d3 where "d3 = (if d_asked d2 then fst (flush acc d2) else d2)"
    have f2: "fine {} {?pr} d2" using dr True by (simp add: d2_def)
    have f3: "fine {} {?pr} d3" using fine_flush [OF f2] f2 by (simp add: d3_def)
    define d4 where "d4 = d3\<lparr>d_pending := AList.delete ?pr (d_pending d3)\<rparr>"
    have pe: "pending_of pr d4 = (if pr = ?pr then [] else pending_of pr d3)" for pr
      by (simp add: d4_def pending_of_def)
    have e: "d_calls d4 = d_calls d3" "d_cold d4 = d_cold d3" "d_waiting d4 = d_waiting d3" "d_cancels d4 = d_cancels d3"
      "d_warm d4 = d_warm d3" "d_armed d4 = d_armed d3" "call_at q d4 = call_at q d3" for q by (simp_all add: d4_def)
    have "fine (set (pending_of ?pr d3)) {} d4"
    proof (rule fineI)
      show "table_ok d4" using f3 by (simp add: d4_def fine_def table_ok_def)
      show "lists_ok {} d4"
      proof (rule lists_okI, unfold e pe)
        fix pr k assume "k \<in> set (if pr = ?pr then [] else pending_of pr d3)"
        then have k: "k \<in> set (pending_of pr d3)" "pr \<noteq> ?pr" by (auto split: if_splits)
        show "\<exists>p. map_of (d_calls d3) k = Some p \<and> c_kind (call_at p d3) = kindInstance \<and> c_project (call_at p d3) = pr"
          using fineD(3) [OF f3 k(1)] .
        show "map_of (d_calls d3) (resourceKey kindProject pr []) \<noteq> None"
          using fineD2(1) [OF f3 k(1)] k(2) by simp
      qed (use fineD(1,2,4,7-11) [OF f3] fineD2(2) [OF f3] in auto)
      fix k q assume m: "map_of (d_calls d4) k = Some q"
      then have m3: "map_of (d_calls d3) k = Some q" by (simp add: e)
      have pl: "places d3 k q = 1" using fineD(6) [OF f3 m3] by simp
      show "places d4 k q = of_bool (k \<notin> set (pending_of ?pr d3))"
      proof (cases "k \<in> set (pending_of ?pr d3)")
        case True
        then have "c_project (call_at q d3) = ?pr" using fineD(3) [OF f3 True] m3 by auto
        then show ?thesis using pl True by (simp add: places_def e pe)
      next
        case False
        then have "k \<in> set (pending_of (c_project (call_at q d3)) d4) \<longleftrightarrow> k \<in> set (pending_of (c_project (call_at q d3)) d3)"
          by (auto simp: pe)
        then have "places d4 k q = places d3 k q" by (simp add: places_def e)
        then show ?thesis using pl False by simp
      qed
    qed
    moreover have "k \<in> set (pending_of ?pr d3) \<Longrightarrow> map_of (d_calls d4) k \<noteq> None" for k
      using fineD(3) [OF f3, of k ?pr] by (auto simp: e)
    ultimately have "fine {} {} (fst (run_steps (release_one acc) (pending_of ?pr d3) d4))"
      using fine_release_all fineD(11) [OF f3] by blast
    moreover have "fst (reads_done acc p d) = fst (run_steps (release_one acc) (pending_of ?pr d3) d4)"
      using True by (simp add: reads_done_def Let_def split_beta d2_def [symmetric] d3_def d4_def)
    ultimately show ?thesis by simp
  qed
qed

end
