(* ===== verification/ReadsRun.thy ===== *)
theory ReadsRun
  imports Reads
begin

text \<open>
  The table of reads as a transition system: what the loop may do to it, in any
  order, and what holds in every state it can reach.
\<close>

inductive reads_step :: "(nat \<Rightarrow> bool) \<Rightarrow> reads \<Rightarrow> reads \<Rightarrow> bool" for acc where
  sends: "wf_call c \<Longrightarrow> reads_step acc d (fst (send acc (snd (new_call c d)) (fst (new_call c d))))"
| lands: \<comment> \<open>the answer of the submission whose cancel function is held\<close>
    "map_of (d_cancels d) (c_key (call_at p d)) = Some p \<Longrightarrow> current p d \<Longrightarrow>
       reads_step acc d (fst (reads_done acc p d))"
| flushes: "reads_step acc d (fst (flush acc d))"
| retries: "d_armed d \<Longrightarrow> reads_step acc d (fst (retry acc d))"

inductive reads_reach :: "(nat \<Rightarrow> bool) \<Rightarrow> reads \<Rightarrow> bool" for acc where
  starts: "reads_reach acc newDeferred"
| steps: "reads_reach acc d \<Longrightarrow> reads_step acc d d' \<Longrightarrow> reads_reach acc d'"

definition patient :: "reads \<Rightarrow> bool" where
  \<comment> \<open>Once the networks were asked for, only project reads hold the cold back.\<close>
  "patient d \<longleftrightarrow> d_asked d \<longrightarrow> d_warm d \<or> 0 < d_owed d"

lemma place_flags:
  "d_asked (fst (place acc p d)) = d_asked d" "d_warm (fst (place acc p d)) = d_warm d"
  "d_owed d \<le> d_owed (fst (place acc p d))"
  by (simp_all add: place_def Let_def submit_or_wait_parts)

lemma cancel_flags:
  "d_asked (fst (cancel k d)) = d_asked d" "d_warm (fst (cancel k d)) = d_warm d"
  "d_owed (fst (cancel k d)) = d_owed d"
  by (simp_all add: cancel_def Let_def split: option.splits)

lemma send_flags:
  "d_asked (fst (send acc p d)) = d_asked d \<and> d_warm (fst (send acc p d)) = d_warm d
     \<and> d_owed d \<le> d_owed (fst (send acc p d))"
proof (cases "map_of (d_calls d) (c_key (call_at p d))")
  case None
  then show ?thesis by (simp add: send_def place_flags)
next
  case (Some out)
  let ?d1 = "fst (cancel (c_key (call_at p d)) d)"
  let ?d2 = "case snd (snd (cancel (c_key (call_at p d)) d)) of None \<Rightarrow> ?d1 | Some q \<Rightarrow> supersede p q ?d1"
  have "d_asked ?d2 = d_asked d \<and> d_warm ?d2 = d_warm d \<and> d_owed ?d2 = d_owed d"
    by (simp add: supersede_def Let_def cancel_flags split: option.splits)
  then have "d_asked (fst (place acc p ?d2)) = d_asked d \<and> d_warm (fst (place acc p ?d2)) = d_warm d
     \<and> d_owed d \<le> d_owed (fst (place acc p ?d2))"
    using place_flags [where acc = acc and p = p and d = ?d2] by simp
  then show ?thesis using Some by (simp add: send_def join_def Let_def split_beta)
qed

lemma flush_one_warm: "d_warm d \<Longrightarrow> d_warm (fst (flush_one acc k d))"
  using send_flags by (auto simp: flush_one_def split: option.splits)

lemma flush_patient: "patient (fst (flush acc d))"
proof -
  have "d_warm d' \<Longrightarrow> d_warm (fst (run_steps (flush_one acc) ks d'))" for ks d'
    by (rule run_steps_invariant [where I = d_warm]) (simp_all add: flush_one_warm)
  then show ?thesis by (simp add: patient_def flush_def Let_def)
qed

lemma release_flags:
  "d_warm (fst (run_steps (release_one acc) ks d)) = d_warm d
   \<and> d_owed (fst (run_steps (release_one acc) ks d)) = d_owed d
   \<and> d_asked (fst (run_steps (release_one acc) ks d)) = d_asked d"
  by (rule run_steps_invariant [where I = "\<lambda>e. d_warm e = d_warm d \<and> d_owed e = d_owed d \<and> d_asked e = d_asked d"])
     (auto simp: release_one_def submit_or_wait_parts split: option.splits)

lemma done_patient: "patient d \<Longrightarrow> patient (fst (reads_done acc p d))"
proof -
  assume d: "patient d"
  have r: "patient (fst (run_steps (release_one acc) ks (e\<lparr>d_pending := x\<rparr>))) = patient e" for ks e x
    by (simp add: patient_def release_flags)
  show ?thesis
    using d by (simp add: reads_done_def Let_def split_beta r flush_patient) (simp add: patient_def)
qed

lemma offer_flags:
  "d_warm (fst (offer acc ps d)) = d_warm d \<and> d_owed (fst (offer acc ps d)) = d_owed d
   \<and> d_asked (fst (offer acc ps d)) = d_asked d"
  by (induction ps arbitrary: d) (simp_all add: submit_def split_beta Let_def)

lemma retry_patient: "patient d \<Longrightarrow> patient (fst (retry acc d))"
  using offer_flags [of acc "d_waiting d" "d\<lparr>d_armed := False\<rparr>"]
  by (simp add: retry_def patient_def split_beta Let_def)

lemma reads_step_keeps:
  assumes "reads_step acc d d'" "fine {} {} d" "patient d"
  shows "fine {} {} d' \<and> patient d'"
  using assms(1)
proof cases
  case (sends c)
  have len: "snd (new_call c d) < length (d_store (fst (new_call c d)))" by (simp add: new_call_def)
  have "fine {} {} d'"
    unfolding sends(1) by (rule fine_send [OF fine_new_call [OF assms(2)] len]) (use sends(2) in simp_all)
  moreover have "patient (fst (new_call c d))" using assms(3) by (simp add: patient_def new_call_def)
  ultimately show ?thesis
    using send_flags [of acc "snd (new_call c d)" "fst (new_call c d)"] by (auto simp: sends(1) patient_def)
next
  case (lands p)
  then show ?thesis using fine_done [OF assms(2)] done_patient [OF assms(3)] by (simp add: current_def)
next
  case flushes
  then show ?thesis using fine_flush [OF assms(2)] flush_patient by simp
next
  case retries
  then show ?thesis using fine_retry [OF assms(2)] retry_patient [OF assms(3)] by simp
qed

lemma reach_fine: "reads_reach acc d \<Longrightarrow> fine {} {} d \<and> patient d"
proof (induction rule: reads_reach.induct)
  case starts
  show ?case using fine_new by (auto simp: patient_def) (simp add: newDeferred_def)
next
  case (steps d d')
  then show ?case using reads_step_keeps by blast
qed

text \<open>
  C2.  No read is ever lost, and none is sent twice.  Whatever is sent, refused,
  canceled, answered, flushed and retried, in any order: there is one call per
  key, and each is in exactly one place: held cold, held for its project, waiting
  for a worker, or in flight.  Each place is left: the cold is held only until
  the networks were asked for and every project read the table counts has landed,
  a call held for its project has that project's read in the table, and while
  anything waits for a worker the timer that offers it again is armed.
\<close>

theorem no_read_is_lost:
  assumes "reads_reach acc d"
  shows "distinct (map fst (d_calls d))
    \<and> (\<forall>k p. map_of (d_calls d) k = Some p \<longrightarrow>
         of_bool (k \<in> set (d_cold d)) + of_bool (k \<in> set (pending_of (c_project (call_at p d)) d))
         + of_bool (p \<in> set (d_waiting d)) + of_bool (map_of (d_cancels d) k = Some p) = (1::nat))
    \<and> d_owed d = int (length (filter (\<lambda>(k, p). c_kind (call_at p d) = kindProject) (d_calls d)))
    \<and> (d_cold d \<noteq> [] \<longrightarrow> \<not> d_asked d \<or> 0 < d_owed d)
    \<and> (\<forall>pr. pending_of pr d \<noteq> [] \<longrightarrow> map_of (d_calls d) (resourceKey kindProject pr []) \<noteq> None)
    \<and> (d_waiting d \<noteq> [] \<longrightarrow> d_armed d)"
proof -
  have f: "fine {} {} d" and p: "patient d" using reach_fine [OF assms] by simp_all
  have "is_project d = (\<lambda>(k, p). c_kind (call_at p d) = kindProject)" by (auto simp: fun_eq_iff is_project_def)
  moreover have "d_cold d \<noteq> [] \<longrightarrow> \<not> d_asked d \<or> 0 < d_owed d"
    using p fineD(7) [OF f] by (auto simp: patient_def)
  moreover have "pending_of pr d \<noteq> [] \<longrightarrow> map_of (d_calls d) (resourceKey kindProject pr []) \<noteq> None" for pr
    using fineD2(1) [OF f, of "hd (pending_of pr d)" pr] by auto
  moreover have "map_of (d_calls d) k = Some q \<longrightarrow> places d k q = 1" for k q using fineD(6) [OF f, of k q] by simp
  ultimately show ?thesis
    using fineD2(2-4) [OF f] by (simp add: places_def ac_simps)
qed

definition demo_call :: call where
  "demo_call = \<lparr>c_key = ''ins/p/web'', c_project = ''p'', c_name = ''web'', c_kind = kindInstance, c_items = [0],
     c_ev = None, c_wantInterfaces = True, c_waitForRunning = False\<rparr>"

theorem no_read_is_lost_witness:
  "\<exists>d. reads_reach (\<lambda>_. True) d \<and> d_cold d = [''ins/p/web''] \<and> (\<not> d_asked d \<or> 0 < d_owed d)"
proof -
  let ?d = "fst (send (\<lambda>_. True) (snd (new_call demo_call newDeferred)) (fst (new_call demo_call newDeferred)))"
  have "wf_call demo_call" by (simp add: wf_call_def demo_call_def resourceKey_def kinds)
  then have r: "reads_reach (\<lambda>_. True) ?d" by (intro reads_reach.steps [OF reads_reach.starts] reads_step.sends)
  have "d_cold ?d = [''ins/p/web'']"
    by (simp add: new_call_def send_def place_def call_at_def newDeferred_def demo_call_def kinds Let_def)
  with no_read_is_lost [OF r] r show ?thesis by auto
qed

end
