(* ===== verification/ReadsHeld.thy ===== *)
theory ReadsHeld
  imports ReadsRun
begin

text \<open>
  What waits on the reads: the places in the line the calls of the table carry
  between them, and that no operation of the table drops one.
\<close>

definition share :: "(string \<Rightarrow> bool) \<Rightarrow> call \<Rightarrow> nat multiset" where
  "share P c = (if P (c_key c) then mset (c_items c) else {#})"

definition held_by :: "(string \<Rightarrow> bool) \<Rightarrow> reads \<Rightarrow> nat multiset" where
  \<comment> \<open>What the calls of the keys in \<open>P\<close> carry.\<close>
  "held_by P d = total (map_of (d_calls d)) (\<lambda>p. share P (call_at p d))"

definition keyed :: "reads \<Rightarrow> bool" where
  "keyed d \<longleftrightarrow> (\<forall>k p. map_of (d_calls d) k = Some p \<longrightarrow> p < length (d_store d) \<and> c_key (call_at p d) = k)"

abbreviation held :: "reads \<Rightarrow> nat multiset" where
  "held d \<equiv> held_by (\<lambda>_. True) d"

lemma share_all [simp]: "share (\<lambda>_. True) c = mset (c_items c)"
  by (simp add: share_def)

lemma keyedD: "keyed d \<Longrightarrow> map_of (d_calls d) k = Some p \<Longrightarrow> p < length (d_store d) \<and> c_key (call_at p d) = k"
  by (simp add: keyed_def)

lemma fine_keyed: "fine S X d \<Longrightarrow> keyed d"
  by (simp add: fine_def table_ok_def keyed_def)

lemma held_cong:
  fixes P
  shows "d_calls d' = d_calls d \<Longrightarrow> d_store d' = d_store d \<Longrightarrow> held_by P d' = held_by P d"
  "d_calls d' = d_calls d \<Longrightarrow> d_store d' = d_store d \<Longrightarrow> keyed d' = keyed d"
  by (simp_all add: held_by_def keyed_def call_at_def)

lemma place_calls: "map_of (d_calls (fst (place acc p d))) = (map_of (d_calls d))(c_key (call_at p d) \<mapsto> p)"
  by (simp add: place_def Let_def submit_or_wait_parts)

lemma place_held:
  assumes "map_of (d_calls d) (c_key (call_at p d)) = None"
  shows "held_by P (fst (place acc p d)) = held_by P d + share P (call_at p d)"
  by (simp add: held_by_def place_calls call_at_def total_enter assms finite_dom_map_of
      del: fun_upd_apply) (simp add: assms [unfolded call_at_def] total_enter finite_dom_map_of)

lemma place_keyed: "keyed d \<Longrightarrow> p < length (d_store d) \<Longrightarrow> keyed (fst (place acc p d))"
  by (simp add: keyed_def place_calls call_at_def)

lemma call_at_join:
  "call_at x (join p q d) = (if x = p \<and> p < length (d_store d)
     then (call_at p d)\<lparr>c_items := c_items (call_at p d) @ c_items (call_at q d),
             c_ev := (if c_ev (call_at p d) = None then c_ev (call_at q d) else c_ev (call_at p d)),
             c_wantInterfaces := c_wantInterfaces (call_at p d) \<or> c_wantInterfaces (call_at q d),
             c_waitForRunning := c_waitForRunning (call_at p d) \<or> c_waitForRunning (call_at q d)\<rparr>
     else call_at x d)"
  by (auto simp: join_def call_at_def Let_def nth_update_if)

lemma calls_join [simp]: "d_calls (join p q d) = d_calls d" "length (d_store (join p q d)) = length (d_store d)"
  by (simp_all add: join_def Let_def)

lemma join_held:
  assumes "keyed d" "map_of (d_calls d) k = Some p" "c_key (call_at q d) = k"
  shows "held_by P (join p q d) = held_by P d + share P (call_at q d)"
  unfolding held_by_def calls_join
  by (rule total_bump [where k = k and v = p])
     (use assms in \<open>auto simp: finite_dom_map_of call_at_join share_def dest: keyedD\<close>)

lemma join_keyed: "keyed d \<Longrightarrow> keyed (join p q d)"
  by (auto simp: keyed_def call_at_join)

lemma call_at_supersede:
  "call_at x (supersede p q d) = (if x = p \<and> p < length (d_store d)
     then (call_at p d)\<lparr>c_items := c_items (call_at q d) @ c_items (call_at p d),
             c_ev := (if c_ev (call_at p d) = None then c_ev (call_at q d) else c_ev (call_at p d)),
             c_wantInterfaces := c_wantInterfaces (call_at p d) \<or> c_wantInterfaces (call_at q d)\<rparr>
     else call_at x d)"
  by (auto simp: supersede_def call_at_def Let_def nth_update_if)

lemma calls_supersede [simp]:
  "d_calls (supersede p q d) = d_calls d" "length (d_store (supersede p q d)) = length (d_store d)"
  by (simp_all add: supersede_def Let_def)

lemma send_held:
  assumes k: "keyed d" and p: "p < length (d_store d)" "map_of (d_calls d) (c_key (call_at p d)) \<noteq> Some p"
  shows "held_by P (fst (send acc p d)) = held_by P d + share P (call_at p d) \<and> keyed (fst (send acc p d))"
proof (cases "map_of (d_calls d) (c_key (call_at p d))")
  case None
  then show ?thesis using place_held place_keyed [OF k p(1)] by (simp add: send_def)
next
  case (Some q)
  let ?c = "call_at p d" and ?d1 = "fst (cancel (c_key (call_at p d)) d)"
  let ?d2 = "supersede p q ?d1"
  note shape = cancel_shape [OF Some]
  have c1: "call_at x ?d1 = call_at x d" for x using shape(2) by (simp add: call_at_def)
  have h1: "held_by P d = held_by P ?d1 + share P (call_at q d)"
    unfolding held_by_def shape(3) c1 by (rule total_leave) (use Some in \<open>simp_all add: finite_dom_map_of\<close>)
  have none: "map_of (d_calls ?d2) (c_key (call_at p ?d2)) = None"
    using shape(3) p(1) shape(2) by (simp add: call_at_supersede c1)
  have "held_by P ?d2 = held_by P ?d1"
    unfolding held_by_def calls_supersede
    by (rule total_cong) (use p k shape(3) in \<open>auto simp: call_at_supersede c1 dest: keyedD split: if_splits\<close>)
  moreover have "share P (call_at p ?d2) = share P (call_at q d) + share P ?c"
    using p(1) shape(2) keyedD [OF k Some] by (simp add: call_at_supersede c1 share_def)
  ultimately have placed: "held_by P (fst (place acc p ?d2)) = held_by P d + share P ?c"
    using place_held [OF none] h1 by (simp add: add_ac)
  have "keyed ?d2"
    using k shape(2,3) by (auto simp: keyed_def call_at_supersede c1 split: if_splits)
  then have "keyed (fst (place acc p ?d2))" using place_keyed p(1) shape(2) by simp
  with placed show ?thesis
    using Some shape(1) join_held [OF k Some refl] join_keyed [OF k] by (simp add: send_def Let_def split_beta)
qed

lemma new_call_held:
  assumes "keyed d"
  shows "held_by P (fst (new_call c d)) = held_by P d" "keyed (fst (new_call c d))"
    "map_of (d_calls (fst (new_call c d))) k \<noteq> Some (snd (new_call c d))"
proof -
  have s: "x < length (d_store d) \<Longrightarrow> call_at x (fst (new_call c d)) = call_at x d" for x
    by (simp add: call_at_def new_call_def nth_append)
  have c: "d_calls (fst (new_call c d)) = d_calls d" by (simp add: new_call_def)
  show "held_by P (fst (new_call c d)) = held_by P d"
    unfolding held_by_def c by (rule total_cong) (use assms s in \<open>auto dest: keyedD\<close>)
  show "keyed (fst (new_call c d))"
    unfolding keyed_def c using assms s by (auto simp: new_call_def dest: keyedD)
  show "map_of (d_calls (fst (new_call c d))) k \<noteq> Some (snd (new_call c d))"
    using assms by (auto simp: c new_call_def dest: keyedD)
qed

lemma send_new_held:
  assumes "keyed d"
  shows "held_by P (fst (send acc (snd (new_call c d)) (fst (new_call c d)))) = held_by P d + share P c"
  using send_held [OF new_call_held(2) _ new_call_held(3), OF assms _ assms, where c1 = c and acc = acc] new_call_held(1) [OF assms]
  by (simp add: new_call_def) (simp add: call_at_def new_call_def)

lemma flush_one_held:
  assumes "keyed d"
  shows "held_by P (fst (flush_one acc k d)) = held_by P d \<and> keyed (fst (flush_one acc k d))"
proof (cases "map_of (d_calls d) k")
  case None
  then show ?thesis using assms by (simp add: flush_one_def)
next
  case (Some p)
  let ?d = "d\<lparr>d_calls := AList.delete k (d_calls d)\<rparr>"
  have kp: "p < length (d_store ?d)" "c_key (call_at p ?d) = k" using keyedD [OF assms Some] by simp_all
  have "keyed ?d" using assms by (auto simp: keyed_def split: if_splits)
  from send_held [OF this kp(1)] kp(2)
  have "held_by P (fst (send acc p ?d)) = held_by P ?d + share P (call_at p d) \<and> keyed (fst (send acc p ?d))" by simp
  moreover have "held_by P d = held_by P ?d + share P (call_at p d)"
    using total_leave [OF finite_dom_map_of Some] by (simp add: held_by_def)
  ultimately show ?thesis using Some by (simp add: flush_one_def)
qed

lemma flush_held: "keyed d \<Longrightarrow> held_by P (fst (flush acc d)) = held_by P d \<and> keyed (fst (flush acc d))"
proof -
  assume k: "keyed d"
  let ?d = "d\<lparr>d_asked := True, d_cold := [], d_warm := True\<rparr>"
  have "held_by P ?d = held_by P d" "keyed ?d" using k held_cong [of ?d d] by simp_all
  then have "held_by P (fst (run_steps (flush_one acc) ks ?d)) = held_by P d \<and> keyed (fst (run_steps (flush_one acc) ks ?d))" for ks
    by (intro run_steps_invariant [where I = "\<lambda>x. held_by P x = held_by P d \<and> keyed x"]) (simp_all add: flush_one_held)
  moreover have "held_by P (d\<lparr>d_asked := True\<rparr>) = held_by P d" "keyed (d\<lparr>d_asked := True\<rparr>)"
    using k held_cong [of "d\<lparr>d_asked := True\<rparr>" d] by simp_all
  ultimately show ?thesis by (simp add: flush_def Let_def)
qed

lemma offer_same: "d_calls (fst (offer acc ps d)) = d_calls d \<and> d_store (fst (offer acc ps d)) = d_store d"
  by (induction ps arbitrary: d) (simp_all add: submit_def split_beta Let_def)

lemma retry_held: "held_by P (fst (retry acc d)) = held_by P d \<and> keyed (fst (retry acc d)) = keyed d"
  using offer_same [of acc "d_waiting d" "d\<lparr>d_armed := False\<rparr>"] held_cong [of "fst (retry acc d)" d]
  by (simp add: retry_def split_beta Let_def)

lemma release_all_held:
  "keyed d \<Longrightarrow> held_by P (fst (run_steps (release_one acc) ks d)) = held_by P d \<and> keyed (fst (run_steps (release_one acc) ks d))"
proof -
  have "held_by P (fst (release_one acc k x)) = held_by P x \<and> keyed (fst (release_one acc k x)) = keyed x" for k x
    using held_cong [of "fst (release_one acc k x)" x]
    by (simp add: release_one_def submit_or_wait_parts split: option.splits)
  then show "keyed d \<Longrightarrow> ?thesis"
    by (intro run_steps_invariant [where I = "\<lambda>x. held_by P x = held_by P d \<and> keyed x"]) simp_all
qed

lemma done_held:
  assumes k: "keyed d" and p: "current p d"
  shows "held_by P d = held_by P (fst (reads_done acc p d)) + share P (call_at p d)"
proof -
  let ?k = "c_key (call_at p d)"
  let ?e = "d\<lparr>d_calls := AList.delete ?k (d_calls d), d_cancels := AList.delete ?k (d_cancels d)\<rparr>"
  have h: "held_by P d = held_by P ?e + share P (call_at p d)"
    using p total_leave [OF finite_dom_map_of, of "d_calls d" ?k p] by (simp add: held_by_def current_def)
  have ke: "keyed ?e" using k by (auto simp: keyed_def split: if_splits)
  have own: "held_by P (x\<lparr>d_owed := o'\<rparr>) = held_by P x" "keyed (x\<lparr>d_owed := o'\<rparr>) = keyed x" for x o'
    using held_cong [of "x\<lparr>d_owed := o'\<rparr>" x] by simp_all
  have pend: "held_by P (x\<lparr>d_pending := o'\<rparr>) = held_by P x" "keyed (x\<lparr>d_pending := o'\<rparr>) = keyed x" for x o'
    using held_cong [of "x\<lparr>d_pending := o'\<rparr>" x] by simp_all
  have "held_by P (fst (reads_done acc p d)) = held_by P ?e"
    using ke flush_held [where d = "?e\<lparr>d_owed := d_owed d - 1\<rparr>" and acc = acc]
    by (simp add: reads_done_def Let_def split_beta own pend release_all_held)
  with h show ?thesis by simp
qed

end
