(* ===== verification/Enricher.thy ===== *)
theory Enricher
  imports Reads Chain Queue
begin

text \<open>
  The enricher's loop (\<open>ievent/enricher/enricher.go\<close>, \<open>enricher_network.go\<close>,
  \<open>enricher_sweep.go\<close>, the reader of \<open>reads.go\<close>, \<open>store.go\<close>): one step per case of
  its \<open>select\<close>, over the line of events, the fleet, the table of reads, the
  schedule of re-reads and the archive.  What a worker answers is an input;
  what leaves the loop (reads, events for the next plugin, commands, a restarted
  sweep) is its output.  A step that would dereference nil is \<open>None\<close>.
\<close>

subsection \<open>One instance read\<close>

datatype incus_status = StRunning | StStarting | StStarted | StOther int

record full_instance =
  fi_api :: api_instance
  fi_type :: string
  fi_status :: incus_status

record live =
  lv_status :: incus_status
  lv_processes :: int
  lv_network :: api_state

definition hasNICDevices :: "full_instance option \<Rightarrow> bool" where
  "hasNICDevices inst =
     (case inst of
        None \<Rightarrow> False
      | Some i \<Rightarrow>
          (let devs = (if ai_expandedDevices (fi_api i) = [] then ai_devices (fi_api i)
                       else ai_expandedDevices (fi_api i))
           in list_ex (\<lambda>(_, dev). cfg_get dev ''type'' = ''nic'') devs))"

definition hasAddresses :: "live option \<Rightarrow> bool" where
  "hasAddresses st =
     (case st of
        None \<Rightarrow> False
      | Some s \<Rightarrow>
          list_ex (\<lambda>(_, nic). nic_type nic \<noteq> ''loopback'' \<and>
            list_ex (\<lambda>a. aa_scope a = ''global'' \<and> aa_address a \<noteq> [] \<and>
              (case ParseAddr (aa_address a) of None \<Rightarrow> False | Some ip \<Rightarrow> Is4 ip)) (nic_addresses nic))
            (lv_network s))"

definition isVMWithoutAgent :: "full_instance option \<Rightarrow> live option \<Rightarrow> bool" where
  "isVMWithoutAgent inst st =
     (case inst of
        None \<Rightarrow> False
      | Some i \<Rightarrow>
          if fi_type i \<noteq> ''virtual-machine'' then False
          else if (case st of None \<Rightarrow> False | Some s \<Rightarrow> 0 < lv_processes s) then False
          else if cfg_get (ai_config (fi_api i)) ''volatile.last_state.agent'' = ''STARTED'' then False
          else if cfg_get (ai_expandedConfig (fi_api i)) ''volatile.last_state.agent'' = ''STARTED'' then False
          else True)"

datatype poll =
    PollTimeout                                  \<comment> \<open>the poll's own context ends\<close>
  | PollFailed bool                              \<comment> \<open>a failed state read, and whether the context has ended\<close>
  | PollState live "full_instance option"        \<comment> \<open>a state, and what reading the instance again answers\<close>

fun poll_loop :: "bool \<Rightarrow> poll list \<Rightarrow> full_instance \<Rightarrow> live \<Rightarrow> (full_instance \<times> live) option" where
  \<comment> \<open>\<open>None\<close>: still polling when what is listed has happened.\<close>
  "poll_loop waitForRunning [] inst st = None"
| "poll_loop waitForRunning (PollTimeout # ps) inst st = Some (inst, st)"
| "poll_loop waitForRunning (PollFailed ended # ps) inst st =
     (if ended then Some (inst, st) else poll_loop waitForRunning ps inst st)"
| "poll_loop waitForRunning (PollState st' again # ps) inst st =
     (if waitForRunning then
        (if lv_status st' = StRunning then
           (if \<not> hasNICDevices (Some inst) \<or> hasAddresses (Some st') then
              Some (if fi_status inst \<noteq> StRunning then (case again of Some i \<Rightarrow> i | None \<Rightarrow> inst) else inst, st')
            else poll_loop waitForRunning ps inst st')
         else if lv_status st' \<noteq> StStarting \<and> lv_status st' \<noteq> StStarted then Some (inst, st')
         else poll_loop waitForRunning ps inst st')
      else if lv_status st' \<noteq> StRunning \<or> hasAddresses (Some st') then Some (inst, st')
      else poll_loop waitForRunning ps inst st')"

datatype answer =
    ReadFailed
  | NotFound
  | InstanceRead "full_instance option" "live option"
  | NetworkRead api_network
  | ProjectRead "config option"

definition incusReader ::
  "(full_instance \<Rightarrow> bool) option \<Rightarrow> bool \<Rightarrow> bool \<Rightarrow> bool + full_instance option \<Rightarrow> live option \<Rightarrow> poll list
     \<Rightarrow> answer option" where
  \<comment> \<open>The instance read fails (was it not found?) or answers; the state read may fail; then the polls.\<close>
  "incusReader serves wantInterfaces waitForRunning got gotState polls =
     (case got of
        Inl gone \<Rightarrow> Some (if gone then NotFound else ReadFailed)
      | Inr None \<Rightarrow> Some (InstanceRead None None)
      | Inr (Some inst) \<Rightarrow>
          if (case serves of None \<Rightarrow> False | Some f \<Rightarrow> \<not> f inst) then Some (InstanceRead (Some inst) None)
          else (case gotState of
             None \<Rightarrow> Some ReadFailed
           | Some st \<Rightarrow>
               if (if \<not> waitForRunning then
                     \<not> wantInterfaces \<or> fi_status inst \<noteq> StRunning \<or> lv_status st \<noteq> StRunning
                     \<or> \<not> hasNICDevices (Some inst) \<or> hasAddresses (Some st) \<or> isVMWithoutAgent (Some inst) (Some st)
                   else lv_status st = StRunning \<and> (\<not> hasNICDevices (Some inst) \<or> hasAddresses (Some st)))
               then Some (InstanceRead (Some inst) (Some st))
               else (case poll_loop waitForRunning polls inst st of
                       None \<Rightarrow> None
                     | Some (i, s) \<Rightarrow> Some (InstanceRead (Some i) (Some s)))))"

subsection \<open>State, environment, output\<close>

record enricher =
  e_q :: "event queue"
  e_st :: fleet
  e_reads :: reads
  e_retries :: retries
  e_archive :: archive
  e_chain :: chain_state
  e_ending :: bool                \<comment> \<open>\<open>sweepEnding\<close>\<close>
  e_slot :: "fleet option"        \<comment> \<open>the one slot of the store's channel\<close>

record enr_env =
  en_wants :: wants
  en_serves :: "(full_instance \<Rightarrow> bool) option"
  en_ttl :: int
  en_store :: bool
  en_acc :: "nat \<Rightarrow> bool"

datatype eout =
    Do rout                       \<comment> \<open>a read for the pool, or a canceled one\<close>
  | Next event
  | Raise command
  | RestartSweep

definition new_enricher :: enricher where
  "new_enricher = \<lparr>e_q = new_queue, e_st = newState, e_reads = newDeferred, e_retries = newRetries,
     e_archive = [], e_chain = ChainUnset, e_ending = False, e_slot = None\<rparr>"

subsection \<open>Asking for reads\<close>

definition send_call :: "enr_env \<Rightarrow> call \<Rightarrow> enricher \<Rightarrow> enricher \<times> eout list" where
  "send_call env c e =
     (let (d, p) = new_call c (e_reads e); (d', out) = send (en_acc env) p d
      in (e\<lparr>e_reads := d'\<rparr>, map Do out))"

definition project_call :: "string \<Rightarrow> call" where
  "project_call project =
     \<lparr>c_key = resourceKey kindProject project [], c_project = project, c_name = [], c_kind = kindProject,
      c_items = [], c_ev = None, c_wantInterfaces = False, c_waitForRunning = False\<rparr>"

definition network_call :: "string \<Rightarrow> string \<Rightarrow> call" where
  "network_call project name =
     \<lparr>c_key = resourceKey kindNetwork project name, c_project = project, c_name = name, c_kind = kindNetwork,
      c_items = [], c_ev = None, c_wantInterfaces = False, c_waitForRunning = False\<rparr>"

definition withProject :: "enr_env \<Rightarrow> enricher \<Rightarrow> event \<Rightarrow> event" where
  "withProject env e ev =
     (if w_enrich (wanted (en_wants env) (ev_action ev)) AND EnrichedProject = 0 then ev
      else (case projectConfig (ev_project ev) (e_st e) of
              None \<Rightarrow> ev
            | Some c \<Rightarrow> WithProject c ev))"

definition readProject :: "enr_env \<Rightarrow> event \<Rightarrow> enricher \<Rightarrow> enricher \<times> eout list" where
  "readProject env ev e =
     (if w_enrich (wanted (en_wants env) (ev_action ev)) AND EnrichedProject = 0 then (e, [])
      else if ev_project ev = [] \<or> projectConfig (ev_project ev) (e_st e) \<noteq> None then (e, [])
      else send_call env (project_call (ev_project ev)) e)"

definition readNetwork :: "enr_env \<Rightarrow> string \<Rightarrow> string \<Rightarrow> enricher \<Rightarrow> enricher \<times> eout list" where
  "readNetwork env project name e = (if name = [] then (e, []) else send_call env (network_call project name) e)"

definition fan_call :: "enr_env \<Rightarrow> int \<Rightarrow> enricher \<Rightarrow> subject \<Rightarrow> call" where
  "fan_call env now e s =
     \<lparr>c_key = resourceKey kindInstance (fst s) (snd s), c_project = fst s, c_name = snd s,
      c_kind = kindInstance, c_items = [],
      c_ev = Some (WithChainState (e_chain e) (NewEvent now ''instance-updated'' (fst s) (snd s) [])),
      c_wantInterfaces = (w_enrich (wanted (en_wants env) ''instance-updated'')
                            AND EnrichedInstanceWithInterfaces \<noteq> 0),
      c_waitForRunning = False\<rparr>"

definition fanOut :: "enr_env \<Rightarrow> int \<Rightarrow> subject list \<Rightarrow> enricher \<Rightarrow> enricher \<times> eout list" where
  "fanOut env now subjects e = run_steps (\<lambda>s e. send_call env (fan_call env now e s) e) subjects e"

subsection \<open>Patching the state from one read\<close>

definition errRead :: goerr where
  \<comment> \<open>A sentinel of its own.\<close>
  "errRead = PlainErr 0"

definition forget_instance :: "string \<Rightarrow> string \<Rightarrow> enricher \<Rightarrow> enricher" where
  "forget_instance project name e =
     e\<lparr>e_st := deleteInstance project name (e_st e), e_archive := forget project name (e_archive e)\<rparr>"

definition settled_for_now :: "enr_env \<Rightarrow> int \<Rightarrow> subject \<Rightarrow> retries \<Rightarrow> retries" where
  "settled_for_now env now s r =
     (let r1 = retries_done s r in if 0 < en_ttl env then retries_at now s (en_ttl env) r1 else r1)"

definition patchState ::
  "enr_env \<Rightarrow> int \<Rightarrow> string \<Rightarrow> string \<Rightarrow> answer \<Rightarrow> enricher
     \<Rightarrow> (enricher \<times> eout list \<times> inst option \<times> bool) option" where
  \<comment> \<open>The instance and whether the read landed; \<open>None\<close> where a nil instance is dereferenced.\<close>
  "patchState env now project name ans e =
     (let s = (project, name);
          gone = (forget_instance project name e)\<lparr>e_retries := retries_done s (e_retries e)\<rparr> in
      case ans of
        NotFound \<Rightarrow> Some (gone, [], None, True)
      | InstanceRead inst st \<Rightarrow>
          (case inst of
             None \<Rightarrow> None
           | Some f \<Rightarrow>
               if (case en_serves env of None \<Rightarrow> False | Some serves \<Rightarrow> \<not> serves f) then Some (gone, [], None, True)
               else (case setInstance (fi_api f) (map_option lv_network st) (e_st e) of
                  (fl, Inl unknown) \<Rightarrow>
                    (let (e1, out) = readNetwork env project unknown (e\<lparr>e_st := fl\<rparr>)
                     in Some (e1\<lparr>e_retries := soon now s (e_retries e1)\<rparr>, out, None, False))
                | (fl, Inr i) \<Rightarrow>
                    Some (e\<lparr>e_st := fl,
                      e_retries :=
                        (if inst_running i \<and> \<not> addressed i \<and> \<not> isVMWithoutAgent inst st then soon now s (e_retries e)
                         else settled_for_now env now s (e_retries e))\<rparr>, [], Some i, True)))
      | _ \<Rightarrow> Some (e\<lparr>e_retries := soon now s (e_retries e)\<rparr>, [], None, False))"

definition settle_item ::
  "enr_env \<Rightarrow> bool \<Rightarrow> bool \<Rightarrow> inst option \<Rightarrow> nat \<Rightarrow> enricher \<Rightarrow> enricher option" where
  \<comment> \<open>What becomes of one event that waited on the read: the body of the loop of \<open>settleRead\<close>.\<close>
  "settle_item env landed unseen inst it e =
     (case it_ev (store (e_q e) ! it) of
        None \<Rightarrow> None
      | Some ev0 \<Rightarrow>
          if \<not> landed then Some (e\<lparr>e_q := settle it (WithFailed errRead ev0) (e_q e)\<rparr>)
          else if unseen then Some (e\<lparr>e_q := trash it (e_q e)\<rparr>)
          else
            (let ev = (case inst of None \<Rightarrow> ev0 | Some i \<Rightarrow> withProject env e (WithInstance i True ev0));
                 (a, new) = changed ev (e_archive e);
                 e1 = e\<lparr>e_archive := a\<rparr>
             in Some (e1\<lparr>e_q := (if new then settle it ev (e_q e) else trash it (e_q e))\<rparr>)))"

fun settle_items ::
  "enr_env \<Rightarrow> bool \<Rightarrow> bool \<Rightarrow> inst option \<Rightarrow> nat list \<Rightarrow> enricher \<Rightarrow> enricher option" where
  "settle_items env landed unseen inst [] e = Some e"
| "settle_items env landed unseen inst (it # its) e =
     (case settle_item env landed unseen inst it e of
        None \<Rightarrow> None
      | Some e1 \<Rightarrow> settle_items env landed unseen inst its e1)"

definition sweepEnd :: "enricher \<Rightarrow> enricher \<times> eout list" where
  "sweepEnd e =
     (e\<lparr>e_ending := False\<rparr>, [Raise \<lparr>cmd_action = ActionSweepEnd, cmd_chain = ChainWarm\<rparr>])"

definition push_own :: "enr_env \<Rightarrow> event option \<Rightarrow> inst option \<Rightarrow> enricher \<Rightarrow> enricher" where
  \<comment> \<open>The event the fan-out left on the call goes in the line where it says something new.\<close>
  "push_own env own inst e =
     (case (own, inst) of
        (Some ev, Some i) \<Rightarrow>
          (let syn = withProject env e (WithInstance i True ev);
               (a, new) = changed syn (e_archive e);
               e1 = e\<lparr>e_archive := a\<rparr>
           in if new then e1\<lparr>e_q := fst (push syn True (e_q e))\<rparr> else e1)
      | _ \<Rightarrow> e)"

definition read_instance :: "answer \<Rightarrow> full_instance option" where
  "read_instance ans = (case ans of InstanceRead inst st \<Rightarrow> inst | _ \<Rightarrow> None)"

definition settleRead :: "enr_env \<Rightarrow> int \<Rightarrow> nat \<Rightarrow> answer \<Rightarrow> enricher \<Rightarrow> (enricher \<times> eout list) option" where
  "settleRead env now p ans e =
     (if \<not> current p (e_reads e) then Some (e, [])
      else
        (let c = call_at p (e_reads e);
             (d, o1) = reads_done (en_acc env) p (e_reads e);
             e1 = e\<lparr>e_reads := d\<rparr>; out1 = map Do o1
         in
         if c_kind c = kindNetwork then
           (case ans of
              NetworkRead n \<Rightarrow>
                (let e2 = e1\<lparr>e_st := setNetwork n (e_st e1)\<rparr>;
                     (e3, o2) = fanOut env now (networkInstances (an_project n) (an_name n) (e_st e2)) e2
                 in Some (e3, out1 @ o2))
            | _ \<Rightarrow> Some (e1, out1))
         else if c_kind c = kindProject then
           (let (e2, o2) =
                  (case ans of
                     ProjectRead cfg \<Rightarrow>
                       (let e2 = e1\<lparr>e_st := setProject (c_project c) cfg (e_st e1)\<rparr>
                        in fanOut env now (projectInstances (c_project c) (e_st e2)) e2)
                   | _ \<Rightarrow> (e1, []));
                (e3, o3) = (if e_ending e2 \<and> d_owed (e_reads e2) = 0 then sweepEnd e2 else (e2, []))
            in Some (e3, out1 @ o2 @ o3))
         else
           (let had = held_instance (c_project c) (c_name c) (e_st e1) \<noteq> None;
                unserved = (case (en_serves env, read_instance ans) of (Some f, Some i) \<Rightarrow> \<not> f i | _ \<Rightarrow> False)
            in case patchState env now (c_project c) (c_name c) ans e1 of
                 None \<Rightarrow> None
               | Some (e2, o2, inst, landed) \<Rightarrow>
                   (case settle_items env landed (unserved \<and> \<not> had) inst (c_items c) e2 of
                      None \<Rightarrow> None
                    | Some e3 \<Rightarrow> Some (push_own env (c_ev c) inst e3, out1 @ o2)))))"

subsection \<open>Taking events in\<close>

definition forgetNetwork :: "enr_env \<Rightarrow> int \<Rightarrow> string \<Rightarrow> string \<Rightarrow> enricher \<Rightarrow> enricher \<times> eout list" where
  \<comment> \<open>The iterator over the instances is lazy: it runs after the network is gone.\<close>
  "forgetNetwork env now project name e =
     (let e1 = e\<lparr>e_st := deleteNetwork project name (e_st e)\<rparr>
      in fanOut env now (networkInstances project name (e_st e1)) e1)"

definition push_settled :: "event \<Rightarrow> enricher \<Rightarrow> enricher" where
  "push_settled ev e = e\<lparr>e_q := fst (push ev True (e_q e))\<rparr>"

definition acceptNetwork :: "enr_env \<Rightarrow> int \<Rightarrow> event \<Rightarrow> enricher \<Rightarrow> (enricher \<times> eout list) option" where
  \<comment> \<open>\<open>None\<close>: not a network's action.\<close>
  "acceptNetwork env now ev e =
     (if \<not> has_prefix (ev_action ev) ''network-'' then None
      else
        (let e1 = push_settled ev e;
             (e2, o1) = (if ev_oldName ev \<noteq> [] then forgetNetwork env now (ev_project ev) (ev_oldName ev) e1 else (e1, []));
             (e3, o2) = (if ev_action ev = ''network-deleted'' then forgetNetwork env now (ev_project ev) (ev_name ev) e2
                         else send_call env (network_call (ev_project ev) (ev_name ev)) e2)
         in Some (e3, o1 @ o2)))"

definition stamp :: "event \<Rightarrow> enricher \<Rightarrow> event \<times> enricher" where
  "stamp ev e =
     (if ev_chain ev = ChainUnset then (WithChainState (e_chain e) ev, e) else (ev, e\<lparr>e_chain := ev_chain ev\<rparr>))"

definition instance_call :: "enr_env \<Rightarrow> event \<Rightarrow> nat \<Rightarrow> call" where
  "instance_call env ev it =
     \<lparr>c_key = resourceKey kindInstance (ev_project ev) (ev_name ev), c_project = ev_project ev, c_name = ev_name ev,
      c_kind = kindInstance, c_items = [it], c_ev = None,
      c_wantInterfaces = (w_enrich (wanted (en_wants env) (ev_action ev)) AND EnrichedInstanceWithInterfaces \<noteq> 0),
      c_waitForRunning = (ev_action ev = ''instance-started'' \<or> ev_action ev = ''instance-restarted'')\<rparr>"

definition accept_instance :: "enr_env \<Rightarrow> event \<Rightarrow> enricher \<Rightarrow> enricher \<times> eout list" where
  \<comment> \<open>The end of \<open>accept\<close>, from the rename on.\<close>
  "accept_instance env ev e =
     (let e1 = (if ev_action ev = ''instance-renamed'' \<and> ev_oldName ev \<noteq> []
                then forget_instance (ev_project ev) (ev_oldName ev) e else e)
      in if has_prefix (ev_action ev) ''instance-''
            \<and> w_enrich (wanted (en_wants env) (ev_action ev)) AND (EnrichedInstance OR EnrichedInstanceWithInterfaces) \<noteq> 0
         then (let (q, it) = push ev False (e_q e1) in send_call env (instance_call env ev it) (e1\<lparr>e_q := q\<rparr>))
         else (push_settled ev e1, []))"

definition accept_named :: "enr_env \<Rightarrow> int \<Rightarrow> event \<Rightarrow> enricher \<Rightarrow> enricher \<times> eout list" where
  \<comment> \<open>\<open>accept\<close> for an event that is not finished and names a resource.\<close>
  "accept_named env now ev e =
     (case acceptNetwork env now ev e of
        Some res \<Rightarrow> res
      | None \<Rightarrow>
          if has_prefix (ev_action ev) ''profile-'' then
            (let e1 = push_settled ev e
             in if ev_action ev \<noteq> ''profile-deleted''
                then fanOut env now (projectInstances (ev_project ev) (e_st e1)) e1 else (e1, []))
          else if ev_action ev = ''instance-deleted'' then
            (push_settled ev (forget_instance (ev_project ev) (ev_name ev) e), [])
          else accept_instance env ev e)"

definition accept_event :: "enr_env \<Rightarrow> int \<Rightarrow> event \<Rightarrow> enricher \<Rightarrow> enricher \<times> eout list" where
  "accept_event env now ev0 e0 =
     (let (ev1, e) = stamp ev0 e0 in
      if ev_action ev1 = ActionConnected then (push_settled ev1 e, [RestartSweep])
      else
        (let ev = withProject env e ev1;
             (e1, o1) = readProject env ev e
         in if ev_err ev \<noteq> None \<or> ev_name ev = [] then (push_settled ev e1, o1)
            else (let (e2, o2) = accept_named env now ev e1 in (e2, o1 @ o2))))"

subsection \<open>What a sweep says\<close>

datatype sweep_msg =
    SweepProjects "string list"
  | SweepNetworks string "string list"
  | SweepInstances string "string list"
  | SweepNetwork api_network
  | SweepNetworksWarm
  | SweepDone
  | SweepFailed

definition go_on :: "enricher \<Rightarrow> (enricher \<times> eout list) option" where
  \<comment> \<open>What the line releases goes to the next plugin.\<close>
  "go_on e =
     (case release (e_q e) of
        None \<Rightarrow> None
      | Some (q, out) \<Rightarrow> (case those out of None \<Rightarrow> None | Some evs \<Rightarrow> Some (e\<lparr>e_q := q\<rparr>, map Next evs)))"

definition then_go_on :: "enricher \<times> eout list \<Rightarrow> (enricher \<times> eout list) option" where
  "then_go_on r = (case go_on (fst r) of None \<Rightarrow> None | Some (e, out) \<Rightarrow> Some (e, snd r @ out))"

definition acceptSweep :: "enr_env \<Rightarrow> int \<Rightarrow> sweep_msg \<Rightarrow> enricher \<Rightarrow> (enricher \<times> eout list) option" where
  "acceptSweep env now msg e =
     (case msg of
        SweepProjects names \<Rightarrow>
          Some (run_steps (\<lambda>n. send_call env (project_call n)) names (e\<lparr>e_st := pruneProjects names (e_st e)\<rparr>))
      | SweepNetworks project names \<Rightarrow> Some (e\<lparr>e_st := pruneNetworks project names (e_st e)\<rparr>, [])
      | SweepInstances project names \<Rightarrow>
          then_go_on (run_steps (\<lambda>s. accept_event env now (NewEvent now ''instance-deleted'' (fst s) (snd s) []))
                        (missingInstances project names (e_st e)) e)
      | SweepNetwork n \<Rightarrow> Some (e\<lparr>e_st := setNetwork n (e_st e)\<rparr>, [])
      | SweepNetworksWarm \<Rightarrow>
          (let (d, out) = flush (en_acc env) (e_reads e) in Some (e\<lparr>e_reads := d\<rparr>, map Do out))
      | SweepDone \<Rightarrow> if 0 < d_owed (e_reads e) then Some (e\<lparr>e_ending := True\<rparr>, []) else Some (sweepEnd e)
      | SweepFailed \<Rightarrow> Some (e, []))"

subsection \<open>The store\<close>

definition storeSend :: "fleet \<Rightarrow> fleet option \<Rightarrow> fleet option" where
  \<comment> \<open>A free slot takes the clone.  Otherwise the stale one is taken out, here or by the writer first,
     and the second offer finds the slot free.\<close>
  "storeSend s slot = Some s"

definition storeClone :: "enr_env \<Rightarrow> enricher \<Rightarrow> enricher" where
  "storeClone env e =
     (if \<not> en_store env \<or> \<not> f_dirty (e_st e) then e
      else (let st = (e_st e)\<lparr>f_dirty := False\<rparr>
            in e\<lparr>e_st := st, e_slot := storeSend (clone st) (e_slot e)\<rparr>))"

subsection \<open>The loop\<close>

datatype enr_in =
    Arrived int event               \<comment> \<open>an event off the inbox\<close>
  | Swept int sweep_msg
  | Landed int nat answer           \<comment> \<open>the answer of a call\<close>
  | RetryDue int
  | Refused                         \<comment> \<open>the timer of what the pool refused\<close>
  | StoreTick
  | Written                         \<comment> \<open>the store takes what is in its slot\<close>

fun enr_step :: "enr_env \<Rightarrow> enr_in \<Rightarrow> enricher \<Rightarrow> (enricher \<times> eout list) option" where
  "enr_step env (Arrived now ev) e = then_go_on (accept_event env now ev e)"
| "enr_step env (Swept now msg) e = acceptSweep env now msg e"
| "enr_step env (Landed now p ans) e =
     (case settleRead env now p ans e of None \<Rightarrow> None | Some r \<Rightarrow> then_go_on r)"
| "enr_step env (RetryDue now) e =
     (let (r, due) = retries_take now (e_retries e) in Some (fanOut env now due (e\<lparr>e_retries := r\<rparr>)))"
| "enr_step env Refused e = (let (d, out) = retry (en_acc env) (e_reads e) in Some (e\<lparr>e_reads := d\<rparr>, map Do out))"
| "enr_step env StoreTick e = Some (storeClone env e, [])"
| "enr_step env Written e = Some (e\<lparr>e_slot := None\<rparr>, [])"

fun accept_all :: "enr_env \<Rightarrow> int \<Rightarrow> event list \<Rightarrow> enricher \<Rightarrow> enricher \<times> eout list" where
  "accept_all env now [] e = (e, [])"
| "accept_all env now (ev # evs) e =
     (let (e1, o1) = accept_event env now ev e; (e2, o2) = accept_all env now evs e1 in (e2, o1 @ o2))"

definition finish :: "enr_env \<Rightarrow> int \<Rightarrow> event list \<Rightarrow> command \<Rightarrow> enricher \<Rightarrow> (enricher \<times> eout list) option" where
  \<comment> \<open>Asked to finish: what the inbox holds is accepted, then the whole line goes, then the answer.\<close>
  "finish env now inbox cmd e =
     (let (e1, o1) = accept_all env now inbox e in
      case drain (e_q e1) of
        None \<Rightarrow> None
      | Some (q, out) \<Rightarrow>
          (case those out of None \<Rightarrow> None | Some evs \<Rightarrow> Some (e1\<lparr>e_q := q\<rparr>, o1 @ map Next evs @ [Raise cmd])))"

end
