(* ===== verification/EnricherRun.thy ===== *)
theory EnricherRun
  imports Enricher ReadsHeld
begin

text \<open>
  What the enricher's loop keeps: the line of events and the table of reads fit
  together.  An event that waits in the line waits on exactly one call of the
  table, whatever the loop takes in and in whatever order.
\<close>

subsection \<open>What waits in the line\<close>

definition waiting_in :: "event queue \<Rightarrow> nat multiset" where
  "waiting_in q = mset (map fst (filter (\<lambda>(p, it). \<not> settled it) (line_of q)))"

definition tidy :: "event queue \<Rightarrow> bool" where
  "tidy q \<longleftrightarrow> good_queue q \<and> (\<forall>p it. (p, it) \<in> set (line_of q) \<longrightarrow> skip it \<longrightarrow> settled it)"

lemma tidy_good: "tidy q \<Longrightarrow> good_queue q"
  by (simp add: tidy_def)

lemma tidy_push:
  "tidy q \<Longrightarrow> tidy (fst (push e s q)) \<and>
     waiting_in (fst (push e s q)) = waiting_in q + (if s then {#} else {#length (store q)#})"
  using ring_line.line_push [of q e s] ring_line.good_push [of q e s]
  by (auto simp: tidy_def waiting_in_def fresh_item_def)

lemma waiting_member: "p \<in># waiting_in q \<longleftrightarrow> (\<exists>it. (p, it) \<in> set (line_of q) \<and> \<not> settled it)"
  by (force simp: waiting_in_def)

lemma waiting_removed:
  assumes "distinct (map fst xs)" "(p, it) \<in> set xs" "\<not> settled it" "settled (f it)"
  shows "mset (map fst (filter (\<lambda>(p, it). \<not> settled it) xs)) =
    add_mset p (mset (map fst (filter (\<lambda>(p, it). \<not> settled it) (map (\<lambda>(p', it). (p', if p' = p then f it else it)) xs))))"
  using assms
proof (induction xs)
  case (Cons x xs)
  obtain p' it' where x: "x = (p', it')" by fastforce
  have same: "map (\<lambda>(p', it). (p', if p' = p then f it else it)) xs = xs" if "p \<notin> fst ` set xs"
    by (rule map_idI) (use that in force)
  show ?case
  proof (cases "p' = p")
    case True
    then have n: "p \<notin> fst ` set xs" using Cons.prems(1) x by simp
    then have "it' = it" using Cons.prems(2) x True by (force simp: image_iff)
    then show ?thesis using Cons.prems(3,4) x True same [OF n] by simp
  next
    case False
    then show ?thesis using Cons x by simp
  qed
qed simp

lemma tidy_settle:
  assumes t: "tidy q" and p: "p \<in># waiting_in q"
  shows "tidy (settle p e q) \<and> waiting_in q = add_mset p (waiting_in (settle p e q))"
    and "tidy (trash p q) \<and> waiting_in q = add_mset p (waiting_in (trash p q))"
    and "\<exists>ev. it_ev (store q ! p) = Some ev"
proof -
  have g: "good_queue q" using t by (rule tidy_good)
  from p obtain it where it: "(p, it) \<in> set (line_of q)" "\<not> settled it" by (auto simp: waiting_member)
  note dist = ring_line.distinct_line [OF g]
  have "\<forall>p' it. (p', it) \<in> set (line_of (settle p e q)) \<longrightarrow> skip it \<longrightarrow> settled it"
    using t by (auto simp: tidy_def ring_line.line_settle [OF g] settled_item_def)
  then show "tidy (settle p e q) \<and> waiting_in q = add_mset p (waiting_in (settle p e q))"
    using waiting_removed [OF dist it, of "settled_item e"] ring_line.good_settle [OF g]
    by (simp add: tidy_def waiting_in_def ring_line.line_settle [OF g] settled_item_def)
  have "\<forall>p' it. (p', it) \<in> set (line_of (trash p q)) \<longrightarrow> skip it \<longrightarrow> settled it"
    using t by (auto simp: tidy_def ring_line.line_trash [OF g] trashed_item_def)
  then show "tidy (trash p q) \<and> waiting_in q = add_mset p (waiting_in (trash p q))"
    using waiting_removed [OF dist it, of trashed_item] ring_line.good_trash [OF g]
    by (simp add: tidy_def waiting_in_def ring_line.line_trash [OF g] trashed_item_def)
  have s: "it = store q ! p" "p < length (store q)"
    using it(1) good_ptrs [OF g] by (auto simp: line_of_def)
  have "\<not> skip it" using t it by (auto simp: tidy_def)
  then show "\<exists>ev. it_ev (store q ! p) = Some ev"
    using g s by (auto simp: good_queue_def)
qed

definition front_waits :: "event queue \<Rightarrow> bool" where
  \<comment> \<open>Nothing finished is at the front of the line.\<close>
  "front_waits q \<longleftrightarrow> line_of q = [] \<or> \<not> settled (snd (hd (line_of q)))"

lemma those_Some: "None \<notin> set xs \<Longrightarrow> those xs = Some (map the xs)"
proof (induction xs)
  case (Cons x xs)
  then show ?case by (cases x) auto
qed simp

lemma filter_dropWhile_mset:
  "mset (map fst (filter (\<lambda>(p, it). \<not> settled it) (dropWhile (ready False) xs)))
     = mset (map fst (filter (\<lambda>(p, it). \<not> settled it) xs))"
  by (induction xs) (auto simp: ready_def)

lemma release_tidy:
  assumes t: "tidy q"
  shows "\<exists>q' out. release q = Some (q', out) \<and> None \<notin> set out \<and> tidy q' \<and> waiting_in q' = waiting_in q
    \<and> front_waits q'"
proof -
  have g: "good_queue q" using t by (rule tidy_good)
  from ring_line.take_spec [OF g, of False] obtain q' where
    q: "release q = Some (q', outputs (takeWhile (ready False) (line_of q)))" "good_queue q'"
    "line_of q' = dropWhile (ready False) (line_of q)" by (auto simp: release_def)
  have real: "p \<in> set (ptrs q) \<Longrightarrow> skip (store q ! p) \<or> it_ev (store q ! p) \<noteq> None" for p
    using g good_ptrs [OF g] by (auto simp: good_queue_def)
  have "None \<notin> set (outputs (takeWhile (ready False) (line_of q)))"
    by (auto simp: outputs_def line_of_def dest!: set_takeWhileD real)
  moreover have "tidy q'"
    using t q by (auto simp: tidy_def dest: set_dropWhileD)
  moreover have "waiting_in q' = waiting_in q" by (simp only: waiting_in_def q(3) filter_dropWhile_mset)
  moreover have "front_waits q'"
    using hd_dropWhile [of "ready False" "line_of q"] by (auto simp: front_waits_def q(3) ready_def)
  ultimately show ?thesis using q(1) by blast
qed

subsection \<open>The line and the table fit together\<close>

definition other_kind :: "string \<Rightarrow> bool" where
  \<comment> \<open>The key of a network's or a project's read.\<close>
  "other_kind k \<longleftrightarrow> \<not> has_prefix k kindInstance"

definition fits :: "enr_env \<Rightarrow> nat multiset \<Rightarrow> enricher \<Rightarrow> bool" where
  \<comment> \<open>What waits in the line waits on the table, but for the places in \<open>M\<close>, which are being settled.\<close>
  "fits env M e \<longleftrightarrow> tidy (e_q e) \<and> reads_reach (en_acc env) (e_reads e) \<and> waiting_in (e_q e) = held (e_reads e) + M
     \<and> held_by other_kind (e_reads e) = {#}"

lemma fits_simps [simp]:
  "fits env M (e\<lparr>e_st := x0\<rparr>) = fits env M e" "fits env M (e\<lparr>e_retries := x1\<rparr>) = fits env M e"
  "fits env M (e\<lparr>e_archive := x2\<rparr>) = fits env M e" "fits env M (e\<lparr>e_chain := x3\<rparr>) = fits env M e"
  "fits env M (e\<lparr>e_ending := x4\<rparr>) = fits env M e" "fits env M (e\<lparr>e_slot := x5\<rparr>) = fits env M e"
  "fits env M (e\<lparr>e_st := x0, e_retries := x1\<rparr>) = fits env M e"
  "fits env M (e\<lparr>e_st := x0, e_archive := x2\<rparr>) = fits env M e"
  "fits env M (e\<lparr>e_st := x0, e_slot := x5\<rparr>) = fits env M e"
  by (simp_all add: fits_def)

lemma fits_keyed: "fits env M e \<Longrightarrow> keyed (e_reads e)"
  by (auto simp: fits_def dest!: reach_fine fine_keyed)

lemma fits_forget [simp]: "fits env M (forget_instance p n e) = fits env M e"
  by (simp add: forget_instance_def)

lemma fits_push:
  "fits env M e \<Longrightarrow> fits env (M + (if s then {#} else {#length (store (e_q e))#})) (e\<lparr>e_q := fst (push ev s (e_q e))\<rparr>)"
  using tidy_push [of "e_q e" ev s] by (simp add: fits_def)

lemma fits_push_settled: "fits env M e \<Longrightarrow> fits env M (push_settled ev e)"
  using fits_push [where s = True] by (simp add: push_settled_def)

lemma fits_send:
  assumes f: "fits env (M + mset (c_items c)) e" and c: "wf_call c" "share other_kind c = {#}"
  shows "fits env M (fst (send_call env c e))"
proof -
  let ?n = "new_call c (e_reads e)"
  let ?d = "fst (send (en_acc env) (snd ?n) (fst ?n))"
  have "reads_reach (en_acc env) ?d"
    using f c by (intro reads_reach.steps [OF _ reads_step.sends]) (simp_all add: fits_def)
  moreover have "held ?d = held (e_reads e) + mset (c_items c)"
    using send_new_held [OF fits_keyed [OF f], where P = "\<lambda>_. True"] by simp
  moreover have "held_by other_kind ?d = {#}"
    using send_new_held [OF fits_keyed [OF f], where P = other_kind] f c(2) by (simp add: fits_def)
  moreover have "fst (send_call env c e) = e\<lparr>e_reads := ?d\<rparr>"
    by (simp add: send_call_def split_beta Let_def)
  ultimately show ?thesis using f by (simp add: fits_def ac_simps)
qed

lemma fits_send_bare: "fits env M e \<Longrightarrow> wf_call c \<Longrightarrow> c_items c = [] \<Longrightarrow> fits env M (fst (send_call env c e))"
  by (rule fits_send) (simp_all add: share_def)

lemma wf_calls [simp]:
  "wf_call (project_call p)" "wf_call (network_call p n)" "wf_call (fan_call env now e s)"
  "wf_call (instance_call env ev it)"
  "c_items (project_call p) = []" "c_items (network_call p n) = []" "c_items (fan_call env now e s) = []"
  "c_items (instance_call env ev it) = [it]" "share other_kind (instance_call env ev it) = {#}"
  by (simp_all add: wf_call_def project_call_def network_call_def fan_call_def instance_call_def kinds
      share_def other_kind_def resourceKey_def has_prefix_def)

lemma fits_fanOut: "fits env M e \<Longrightarrow> fits env M (fst (fanOut env now ss e))"
  unfolding fanOut_def
  by (rule run_steps_invariant [where I = "fits env M"]) (simp_all add: fits_send_bare)

lemma fits_readNetwork: "fits env M e \<Longrightarrow> fits env M (fst (readNetwork env p n e))"
  by (simp add: readNetwork_def fits_send_bare)

lemma fits_readProject: "fits env M e \<Longrightarrow> fits env M (fst (readProject env ev e))"
  by (simp add: readProject_def fits_send_bare)

lemma fits_forgetNetwork: "fits env M e \<Longrightarrow> fits env M (fst (forgetNetwork env now p n e))"
  by (simp add: forgetNetwork_def Let_def fits_fanOut)

lemma fits_acceptNetwork:
  "acceptNetwork env now ev e = Some r \<Longrightarrow> fits env M e \<Longrightarrow> fits env M (fst r)"
  by (auto simp: acceptNetwork_def Let_def split_beta fits_push_settled fits_forgetNetwork fits_send_bare
      split: if_splits)

lemma fits_accept_instance: "fits env M e \<Longrightarrow> fits env M (fst (accept_instance env ev e))"
proof -
  assume f: "fits env M e"
  define e1 where "e1 = (if ev_action ev = ''instance-renamed'' \<and> ev_oldName ev \<noteq> []
                then forget_instance (ev_project ev) (ev_oldName ev) e else e)"
  have f1: "fits env M e1" using f by (simp add: e1_def)
  have "fits env (M + {#length (store (e_q e1))#}) (e1\<lparr>e_q := fst (push ev False (e_q e1))\<rparr>)"
    using fits_push [OF f1, of False ev] by simp
  then have "fits env M (fst (send_call env (instance_call env ev (length (store (e_q e1))))
      (e1\<lparr>e_q := fst (push ev False (e_q e1))\<rparr>)))"
    by (intro fits_send) simp_all
  then show ?thesis
    using fits_push_settled [OF f1]
    by (simp add: accept_instance_def e1_def [symmetric] Let_def split_beta del: e1_def)
qed

lemma fits_accept_named: "fits env M e \<Longrightarrow> fits env M (fst (accept_named env now ev e))"
  by (auto simp: accept_named_def Let_def fits_push_settled fits_fanOut fits_accept_instance
      dest: fits_acceptNetwork split: option.splits)

lemma fits_accept: "fits env M e \<Longrightarrow> fits env M (fst (accept_event env now ev e))"
proof -
  assume "fits env M e"
  then have "fits env M (snd (stamp ev e))" by (simp add: stamp_def)
  then show ?thesis
    by (simp add: accept_event_def split_beta Let_def fits_push_settled fits_readProject fits_accept_named)
qed

lemma fits_settle_item:
  assumes f: "fits env (add_mset it M) e"
  shows "\<exists>e'. settle_item env landed unseen inst it e = Some e' \<and> fits env M e'"
proof -
  have t: "tidy (e_q e)" and p: "it \<in># waiting_in (e_q e)" using f by (auto simp: fits_def)
  obtain ev where ev: "it_ev (store (e_q e) ! it) = Some ev" using tidy_settle(3) [OF t p] by blast
  have set: "fits env M (e\<lparr>e_q := settle it x (e_q e)\<rparr>)" for x
    using f tidy_settle(1) [OF t p, of x] by (simp add: fits_def)
  have trash: "fits env M (e\<lparr>e_q := trash it (e_q e)\<rparr>)"
    using f tidy_settle(2) [OF t p] by (simp add: fits_def)
  have arch: "fits env M (e\<lparr>e_archive := a, e_q := q\<rparr>) = fits env M (e\<lparr>e_q := q\<rparr>)" for a q
    by (simp add: fits_def)
  show ?thesis using set trash by (simp add: settle_item_def ev Let_def split_beta arch)
qed

lemma fits_settle_items:
  "fits env (mset its + M) e \<Longrightarrow> \<exists>e'. settle_items env landed unseen inst its e = Some e' \<and> fits env M e'"
proof (induction its arbitrary: e)
  case (Cons it its)
  then have "fits env (add_mset it (mset its + M)) e" by simp
  from fits_settle_item [OF this, of landed unseen inst] obtain e1 where
    "settle_item env landed unseen inst it e = Some e1" "fits env (mset its + M) e1" by blast
  with Cons.IH [of e1] show ?case by simp
qed simp

lemma fits_push_own: "fits env M e \<Longrightarrow> fits env M (push_own env own inst e)"
proof -
  assume f: "fits env M e"
  have "fits env M (e\<lparr>e_archive := a, e_q := fst (push x True (e_q e))\<rparr>)" for a x
    using fits_push [OF f, of True x] by (simp add: fits_def)
  with f show ?thesis by (auto simp: push_own_def Let_def split_beta split: option.splits)
qed

definition real_answer :: "answer \<Rightarrow> bool" where
  \<comment> \<open>The connection answers an instance or an error, never neither.\<close>
  "real_answer ans \<longleftrightarrow> (\<forall>st. ans \<noteq> InstanceRead None st)"

lemma fits_patchState:
  assumes "fits env M e" "real_answer ans"
  shows "\<exists>e' out i landed. patchState env now p n ans e = Some (e', out, i, landed) \<and> fits env M e'"
proof (cases ans)
  case (InstanceRead inst st)
  then obtain f where "inst = Some f" using assms(2) by (cases inst) (auto simp: real_answer_def)
  then show ?thesis
    using assms(1) InstanceRead
    by (auto simp: patchState_def Let_def split_beta fits_readNetwork split: option.splits sum.splits)
qed (use assms(1) in \<open>auto simp: patchState_def Let_def\<close>)

definition feasible :: "enricher \<Rightarrow> enr_in \<Rightarrow> bool" where
  \<comment> \<open>An answer is the connection's, and one the table still waits for is of a call in flight.\<close>
  "feasible e x \<longleftrightarrow>
     (case x of
        Landed now p ans \<Rightarrow> real_answer ans \<and> (current p (e_reads e) \<longrightarrow>
           map_of (d_cancels (e_reads e)) (c_key (call_at p (e_reads e))) = Some p)
      | Refused \<Rightarrow> d_armed (e_reads e)
      | _ \<Rightarrow> True)"

lemma fits_done:
  assumes f: "fits env {#} e" and p: "current p (e_reads e)"
    and fl: "map_of (d_cancels (e_reads e)) (c_key (call_at p (e_reads e))) = Some p"
  shows "fits env (mset (c_items (call_at p (e_reads e)))) (e\<lparr>e_reads := fst (reads_done (en_acc env) p (e_reads e))\<rparr>)"
proof -
  have "reads_reach (en_acc env) (fst (reads_done (en_acc env) p (e_reads e)))"
    using f p fl by (intro reads_reach.steps [OF _ reads_step.lands]) (simp_all add: fits_def)
  with f done_held [OF fits_keyed [OF f] p, where P = "\<lambda>_. True"]
    done_held [OF fits_keyed [OF f] p, where P = other_kind] show ?thesis by (simp add: fits_def)
qed

lemma fits_other_kind:
  assumes f: "fits env M e" and p: "current p (e_reads e)" "c_kind (call_at p (e_reads e)) \<noteq> kindInstance"
  shows "c_items (call_at p (e_reads e)) = []"
proof -
  have "wf_call (call_at p (e_reads e))"
    using f p(1) by (auto simp: fits_def current_def fine_def table_ok_def dest!: reach_fine)
  then have "other_kind (c_key (call_at p (e_reads e)))"
    using p(2) by (auto simp: wf_call_def other_kind_def resourceKey_def has_prefix_def kinds)
  then show ?thesis
    using done_held [OF fits_keyed [OF f] p(1), where P = other_kind] f by (simp add: fits_def share_def)
qed

lemma fits_sweepEnd: "fits env M e \<Longrightarrow> fits env M (fst (sweepEnd e))"
  by (simp add: sweepEnd_def)

lemma Some_pair_ex: "(\<exists>x. (\<exists>y. r = (x, y)) \<and> P x) \<longleftrightarrow> P (fst r)"
  by (cases r) simp

lemma fits_current:
  assumes "fits env M e" "current p (e_reads e)"
  shows "wf_call (call_at p (e_reads e))"
  using assms by (auto simp: fits_def current_def fine_def table_ok_def dest!: reach_fine)

lemma fits_settleRead:
  assumes f: "fits env {#} e" and x: "feasible e (Landed now p ans)"
  shows "\<exists>e' out. settleRead env now p ans e = Some (e', out) \<and> fits env {#} e'"
proof (cases "current p (e_reads e)")
  case False
  with f show ?thesis by (simp add: settleRead_def)
next
  case True
  let ?c = "call_at p (e_reads e)"
  let ?e = "e\<lparr>e_reads := fst (reads_done (en_acc env) p (e_reads e))\<rparr>"
  have dn: "fits env (mset (c_items ?c)) ?e"
    using fits_done [OF f True] x True by (simp add: feasible_def)
  show ?thesis
  proof (cases "c_kind ?c = kindInstance")
    case other: False
    then have d: "fits env {#} ?e" using dn fits_other_kind [OF f True] by simp
    have p: "fits env {#} (fst (fanOut env now ss (?e\<lparr>e_st := s\<rparr>)))" for ss s
      by (rule fits_fanOut) (simp add: d)
    have "c_kind ?c = kindNetwork \<or> c_kind ?c = kindProject"
      using fits_current [OF f True] other by (auto simp: wf_call_def)
    then show ?thesis
    proof
      assume "c_kind ?c = kindNetwork"
      then show ?thesis using True d p by (cases ans) (simp_all add: settleRead_def Let_def split_beta)
    next
      assume "c_kind ?c = kindProject"
      then show ?thesis using True d p by (cases ans) (simp_all add: settleRead_def Let_def split_beta kinds fits_sweepEnd)
    qed
  next
    case inst: True
    obtain e2 out i landed where e2: "patchState env now (c_project ?c) (c_name ?c) ans ?e = Some (e2, out, i, landed)"
      "fits env (mset (c_items ?c)) e2" using fits_patchState [OF dn, of ans] x by (simp add: feasible_def) blast
    have e2': "fits env (mset (c_items ?c) + {#}) e2" using e2(2) by simp
    define u where "u \<longleftrightarrow> (case (en_serves env, read_instance ans) of (Some f, Some i) \<Rightarrow> \<not> f i | _ \<Rightarrow> False)
      \<and> held_instance (c_project ?c) (c_name ?c) (e_st ?e) = None"
    obtain e3 where e3: "settle_items env landed u i (c_items ?c) e2 = Some e3" "fits env {#} e3"
      using fits_settle_items [OF e2', of landed u i] by blast
    have kinds': "kindInstance \<noteq> kindNetwork" "kindInstance \<noteq> kindProject" by (simp_all add: kinds)
    have "\<exists>out'. settleRead env now p ans e = Some (push_own env (c_ev ?c) i e3, out')"
      using True inst kinds' e2(1) e3(1) by (simp add: settleRead_def Let_def split_beta u_def)
    then show ?thesis using fits_push_own [OF e3(2)] by blast
  qed
qed

lemma go_on_fits:
  assumes "fits env {#} e"
  shows "\<exists>e' out. go_on e = Some (e', out) \<and> fits env {#} e' \<and> front_waits (e_q e')"
proof -
  have "tidy (e_q e)" using assms by (simp add: fits_def)
  then obtain q out where "release (e_q e) = Some (q, out)" "None \<notin> set out" "tidy q"
    "waiting_in q = waiting_in (e_q e)" "front_waits q" using release_tidy by blast
  then show ?thesis using assms by (simp add: go_on_def those_Some fits_def)
qed

lemma then_go_on_fits:
  assumes "fits env {#} (fst r)"
  shows "\<exists>e' out. then_go_on r = Some (e', out) \<and> fits env {#} e' \<and> front_waits (e_q e')"
  using go_on_fits [OF assms] by (auto simp: then_go_on_def)

lemma send_call_queue [simp]: "e_q (fst (send_call env c e)) = e_q e"
  by (simp add: send_call_def split_beta Let_def)

lemma run_sends_queue [simp]: "e_q (fst (run_steps (\<lambda>x e. send_call env (f x e) e) xs e)) = e_q e"
  by (rule run_steps_invariant [where I = "\<lambda>x. e_q x = e_q e"]) simp_all

lemma fits_acceptSweep:
  assumes f: "fits env {#} e" and w: "front_waits (e_q e)"
  shows "\<exists>e' out. acceptSweep env now msg e = Some (e', out) \<and> fits env {#} e' \<and> front_waits (e_q e')"
proof (cases msg)
  case (SweepProjects names)
  have "fits env {#} (fst (run_steps (\<lambda>n. send_call env (project_call n)) names (e\<lparr>e_st := s\<rparr>)))" for s
    by (rule run_steps_invariant [where I = "fits env {#}"]) (simp_all add: fits_send_bare f)
  moreover have "e_q (fst (run_steps (\<lambda>n. send_call env (project_call n)) names (e\<lparr>e_st := s\<rparr>))) = e_q e" for s
    by (simp add: run_sends_queue)
  ultimately show ?thesis using w by (simp add: acceptSweep_def SweepProjects Some_pair_ex)
next
  case (SweepInstances project names)
  have "fits env {#} (fst (run_steps (\<lambda>s. accept_event env now (NewEvent now ''instance-deleted'' (fst s) (snd s) [])) ss e))" for ss
    by (rule run_steps_invariant [where I = "fits env {#}"]) (simp_all add: fits_accept f)
  then show ?thesis unfolding acceptSweep_def SweepInstances by (simp only: sweep_msg.case then_go_on_fits)
next
  case SweepNetworksWarm
  have "fits env {#} (e\<lparr>e_reads := fst (flush (en_acc env) (e_reads e))\<rparr>)"
    using f flush_held [OF fits_keyed [OF f], where acc = "en_acc env" and P = "\<lambda>_. True"]
      flush_held [OF fits_keyed [OF f], where acc = "en_acc env" and P = other_kind]
      reads_reach.steps [OF _ reads_step.flushes, of "en_acc env" "e_reads e"]
    by (simp add: fits_def)
  then show ?thesis using w by (simp add: acceptSweep_def SweepNetworksWarm split_beta Let_def)
next
  case SweepDone
  then show ?thesis using f w fits_sweepEnd [OF f] by (simp add: acceptSweep_def) (simp add: sweepEnd_def)
qed (use f w in \<open>simp_all add: acceptSweep_def\<close>)

lemma fits_step:
  assumes f: "fits env {#} e" and w: "front_waits (e_q e)" and x: "feasible e x"
  shows "\<exists>e' out. enr_step env x e = Some (e', out) \<and> fits env {#} e' \<and> front_waits (e_q e')"
proof (cases x)
  case (Arrived now ev)
  then show ?thesis using then_go_on_fits [OF fits_accept [OF f]] by simp
next
  case (Swept now msg)
  then show ?thesis using fits_acceptSweep [OF f w] by simp
next
  case (Landed now p ans)
  from fits_settleRead [OF f x [unfolded Landed]] obtain e1 o1 where
    "settleRead env now p ans e = Some (e1, o1)" "fits env {#} e1" by blast
  then show ?thesis using then_go_on_fits [of env "(e1, o1)"] by (simp add: Landed)
next
  case (RetryDue now)
  have "fits env {#} (fst (fanOut env now ss (e\<lparr>e_retries := r\<rparr>)))" for ss r by (rule fits_fanOut) (simp add: f)
  moreover have "e_q (fst (fanOut env now ss (e\<lparr>e_retries := r\<rparr>))) = e_q e" for ss r by (simp add: fanOut_def)
  ultimately show ?thesis using w by (simp add: RetryDue split_beta Let_def Some_pair_ex)
next
  case Refused
  have "fits env {#} (e\<lparr>e_reads := fst (retry (en_acc env) (e_reads e))\<rparr>)"
    using f x retry_held [of "\<lambda>_. True" "en_acc env" "e_reads e"] retry_held [of other_kind "en_acc env" "e_reads e"]
      reads_reach.steps [OF _ reads_step.retries, of "en_acc env" "e_reads e"]
    by (simp add: fits_def feasible_def Refused)
  then show ?thesis using w by (simp add: Refused split_beta Let_def)
next
  case StoreTick
  then show ?thesis using f w by (simp add: storeClone_def Let_def)
qed (use f w in simp)

inductive enr_reach :: "enr_env \<Rightarrow> enricher \<Rightarrow> bool" for env where
  start: "enr_reach env new_enricher"
| step: "enr_reach env e \<Longrightarrow> feasible e x \<Longrightarrow> enr_step env x e = Some (e', out) \<Longrightarrow> enr_reach env e'"

lemma reach_fits: "enr_reach env e \<Longrightarrow> fits env {#} e \<and> front_waits (e_q e)"
proof (induction rule: enr_reach.induct)
  case start
  have "line_of (new_queue :: event queue) = []" by (simp add: line_of_def ptrs_def new_queue_def)
  moreover have "held_by P newDeferred = {#}" for P by (simp add: held_by_def newDeferred_def total_def)
  ultimately show ?case
    by (simp add: fits_def new_enricher_def tidy_def good_new waiting_in_def front_waits_def reads_reach.starts)
next
  case (step e x e' out)
  then show ?case using fits_step [of env e x] by auto
qed

subsection \<open>Properties\<close>

lemma total_twice:
  assumes "finite (dom m)" "m k = Some v" "m j = Some w" "j \<noteq> k" "x \<in># f v" "x \<in># f w"
  shows "2 \<le> count (total m f) x"
proof -
  have "total (m(k := None)) f = total ((m(k := None))(j := None)) f + f w"
    by (rule total_leave) (use assms(1,3,4) in simp_all)
  with total_leave [OF assms(1,2), of f]
  have "total m f = total ((m(k := None))(j := None)) f + f w + f v" by simp
  then have "count (total m f) x = count (total ((m(k := None))(j := None)) f) x + count (f w) x + count (f v) x" by simp
  moreover have "1 \<le> count (f w) x" "1 \<le> count (f v) x"
    using assms(5,6) by (simp_all add: Suc_le_eq)
  ultimately show ?thesis by linarith
qed

lemma waiting_once: "good_queue q \<Longrightarrow> count (waiting_in q) x \<le> 1"
proof -
  assume "good_queue q"
  then have "distinct (map fst (filter (\<lambda>(p, it). \<not> settled it) (line_of q)))"
    by (intro distinct_map_filter ring_line.distinct_line)
  then show ?thesis
    by (simp add: waiting_in_def distinct_count_atmost_1 del: mset_map mset_filter)
qed

lemma fits_awaited:
  assumes f: "fits env {#} e"
  defines "at \<equiv> (\<lambda>k it. \<exists>p. map_of (d_calls (e_reads e)) k = Some p \<and> it \<in> set (c_items (call_at p (e_reads e))))"
  shows "(\<exists>k. at k it) \<longleftrightarrow> (\<exists>x. (it, x) \<in> set (line_of (e_q e)) \<and> \<not> settled x)"
    and "at k it \<Longrightarrow> at j it \<Longrightarrow> j = k"
proof -
  have w: "waiting_in (e_q e) = total (map_of (d_calls (e_reads e))) (\<lambda>p. mset (c_items (call_at p (e_reads e))))"
    using f by (simp add: fits_def held_by_def)
  have "it \<in># waiting_in (e_q e) \<longleftrightarrow> (\<exists>k. at k it)"
    unfolding w by (subst total_member) (simp_all add: finite_dom_map_of at_def)
  then show "(\<exists>k. at k it) \<longleftrightarrow> (\<exists>x. (it, x) \<in> set (line_of (e_q e)) \<and> \<not> settled x)"
    by (simp add: waiting_member)
  assume "at k it" "at j it"
  then obtain p p' where p: "map_of (d_calls (e_reads e)) k = Some p" "it \<in># mset (c_items (call_at p (e_reads e)))"
    "map_of (d_calls (e_reads e)) j = Some p'" "it \<in># mset (c_items (call_at p' (e_reads e)))"
    by (auto simp: at_def)
  have "count (waiting_in (e_q e)) it \<le> 1"
    using f by (intro waiting_once) (simp add: fits_def tidy_def)
  moreover have "j \<noteq> k \<Longrightarrow> 2 \<le> count (waiting_in (e_q e)) it"
    unfolding w
    using total_twice [OF finite_dom_map_of p(1) p(3), where f = "\<lambda>p. mset (c_items (call_at p (e_reads e)))" and x = it]
      p(2,4) by blast
  ultimately show "j = k" by linarith
qed

text \<open>
  C1.  No event is stranded.  Whatever the enricher takes in, in whatever order,
  each event that still waits in its line waits on exactly one call of the table,
  no call carries anything else, and nothing finished is kept at the front: once
  nothing is being read, the line is empty.
\<close>

theorem no_event_is_stranded:
  assumes "enr_reach env e"
  shows "(\<forall>it. (\<exists>x. (it, x) \<in> set (line_of (e_q e)) \<and> \<not> settled x) \<longleftrightarrow>
           (\<exists>!k. \<exists>p. map_of (d_calls (e_reads e)) k = Some p \<and> it \<in> set (c_items (call_at p (e_reads e)))))
    \<and> (\<forall>k p it. map_of (d_calls (e_reads e)) k = Some p \<and> it \<in> set (c_items (call_at p (e_reads e))) \<longrightarrow>
           (\<exists>x. (it, x) \<in> set (line_of (e_q e)) \<and> \<not> settled x))
    \<and> (d_calls (e_reads e) = [] \<longrightarrow> line_of (e_q e) = [])"
proof (intro conjI allI impI)
  have f: "fits env {#} e" and w: "front_waits (e_q e)" using reach_fits [OF assms] by simp_all
  note a = fits_awaited [OF f]
  show "(\<exists>x. (it, x) \<in> set (line_of (e_q e)) \<and> \<not> settled x) \<longleftrightarrow>
      (\<exists>!k. \<exists>p. map_of (d_calls (e_reads e)) k = Some p \<and> it \<in> set (c_items (call_at p (e_reads e))))" for it
    using a(1) [of it] a(2) [where it = it] by blast
  show "\<exists>x. (it, x) \<in> set (line_of (e_q e)) \<and> \<not> settled x"
    if "map_of (d_calls (e_reads e)) k = Some p \<and> it \<in> set (c_items (call_at p (e_reads e)))" for k p it
    using that a(1) [of it] by blast
  show "line_of (e_q e) = []" if n: "d_calls (e_reads e) = []"
  proof (rule ccontr)
    assume l: "line_of (e_q e) \<noteq> []"
    obtain it x where h: "hd (line_of (e_q e)) = (it, x)" by fastforce
    with w l have "(it, x) \<in> set (line_of (e_q e)) \<and> \<not> settled x"
      using hd_in_set [OF l] by (simp add: front_waits_def)
    with a(1) [of it] n show False by auto
  qed
qed

text \<open>
  C20.  The loop never stops on its own: in every state it can reach, every input
  that can arrive is taken to its end, and no step dereferences nil.
\<close>

theorem loop_takes_every_input:
  assumes "enr_reach env e" "feasible e x"
  shows "\<exists>e' out. enr_step env x e = Some (e', out)"
  using fits_step [OF _ _ assms(2)] reach_fits [OF assms(1)] by blast

definition demo_env :: enr_env where
  "demo_env = \<lparr>en_wants = [(''instance-updated'', \<lparr>w_action = ''instance-updated'', w_enrich = EnrichedInstance, w_debounce = False\<rparr>)],
     en_serves = None, en_ttl = 0, en_store = False, en_acc = (\<lambda>_. True)\<rparr>"

definition demo_update :: event where
  "demo_update = WithChainState ChainCold (NewEvent 5 ''instance-updated'' ''p'' ''web'' [])"

definition demo_line :: enricher where
  \<comment> \<open>One event has arrived, and waits for its read.\<close>
  "demo_line = (case enr_step demo_env (Arrived 5 demo_update) new_enricher of None \<Rightarrow> new_enricher | Some (e, out) \<Rightarrow> e)"

lemma demo_line_step:
  "enr_step demo_env (Arrived 5 demo_update) new_enricher = Some (demo_line, [])"
  "d_calls (e_reads demo_line) = [(''ins/p/web'', 0)]" "c_items (call_at 0 (e_reads demo_line)) = [0]"
  by code_simp+

lemma demo_line_reached: "enr_reach demo_env demo_line"
  by (rule enr_reach.step [OF enr_reach.start _ demo_line_step(1)]) (simp add: feasible_def)

theorem no_event_is_stranded_witness:
  "enr_reach demo_env demo_line \<and> (\<exists>x. (0, x) \<in> set (line_of (e_q demo_line)) \<and> \<not> settled x)"
  using no_event_is_stranded [OF demo_line_reached] demo_line_reached demo_line_step(2,3) by auto

theorem loop_takes_every_input_witness:
  "\<exists>e out. enr_step demo_env (Swept 6 SweepNetworksWarm) demo_line = Some (e, out)"
  by (rule loop_takes_every_input [OF demo_line_reached]) (simp add: feasible_def)

subsection \<open>When the chain is told it is warm\<close>

lemma silent_send [simp]: "Raise c \<notin> set (snd (send_call env x e))" "Next ev \<notin> set (snd (send_call env x e))"
  by (auto simp: send_call_def split_beta Let_def)

lemma run_steps_silent:
  assumes "\<And>i s. x \<notin> set (snd (step i s))"
  shows "x \<notin> set (snd (run_steps step is s))"
  by (induction "is" arbitrary: s) (simp_all add: assms del: run_steps.simps(2))

lemma silent_fanOut [simp]: "Raise c \<notin> set (snd (fanOut env now ss e))" "Next ev \<notin> set (snd (fanOut env now ss e))"
  by (simp_all add: fanOut_def run_steps_silent)

lemma silent_reads [simp]:
  "Raise c \<notin> set (snd (readNetwork env p n e))" "Raise c \<notin> set (snd (readProject env ev e))"
  "Raise c \<notin> set (snd (forgetNetwork env now p n e))"
  by (simp_all add: readNetwork_def readProject_def forgetNetwork_def Let_def)

lemma silent_acceptNetwork: "acceptNetwork env now ev e = Some r \<Longrightarrow> Raise c \<notin> set (snd r)"
  by (auto simp: acceptNetwork_def Let_def split_beta split: if_splits)

lemma silent_accept [simp]: "Raise c \<notin> set (snd (accept_event env now ev e))"
proof -
  have "Raise c \<notin> set (snd (accept_named env now ev e))" for ev e
    by (auto simp: accept_named_def accept_instance_def Let_def split_beta dest: silent_acceptNetwork
        split: option.splits)
  then show ?thesis by (simp add: accept_event_def Let_def split_beta)
qed

lemma then_go_on_silent: "then_go_on r = Some (e, out) \<Longrightarrow> Raise c \<in> set out \<longleftrightarrow> Raise c \<in> set (snd r)"
  by (auto simp: then_go_on_def go_on_def split: option.splits prod.splits)

lemma silent_patch: "patchState env now p n ans e = Some (e', out, r) \<Longrightarrow> Raise c \<notin> set out"
  by (auto simp: patchState_def Let_def split_beta split: answer.splits option.splits if_splits sum.splits)

lemma raised_by_settle:
  assumes "settleRead env now p ans e = Some (e', out)" "Raise c \<in> set out"
  shows "e_ending e \<and> d_owed (e_reads e') = 0"
proof -
  have kp: "c_kind (call_at p (e_reads e)) = kindProject" "c_kind (call_at p (e_reads e)) \<noteq> kindNetwork"
    using assms by (auto simp: settleRead_def Let_def split_beta kinds dest: silent_patch
        split: if_splits answer.splits option.splits)
  have same: "e_ending (fst (fanOut env now ss x)) = e_ending x" for ss x
    unfolding fanOut_def
    by (rule run_steps_invariant [where I = "\<lambda>y. e_ending y = e_ending x"]) (simp_all add: send_call_def split_beta Let_def)
  show ?thesis
    using assms kp by (auto simp: settleRead_def Let_def split_beta sweepEnd_def same split: if_splits answer.splits)
qed

text \<open>
  The chain is called warm only where the fleet has been read whole: the
  only command the loop raises of its own is the end of a sweep, it raises it
  only when a sweep has reached its end, now or earlier, and at that moment no
  read of a project is outstanding.
\<close>

theorem warm_only_when_read_whole:
  assumes "enr_reach env e" "feasible e x" "enr_step env x e = Some (e', out)" "Raise c \<in> set out"
  shows "((\<exists>now. x = Swept now SweepDone) \<or> e_ending e)
    \<and> (\<forall>k p. map_of (d_calls (e_reads e')) k = Some p \<longrightarrow> c_kind (call_at p (e_reads e')) \<noteq> kindProject)"
proof -
  have f: "fits env {#} e'" using fits_step [of env e x] reach_fits [OF assms(1)] assms(2,3) by auto
  then have fine: "fine {} {} (e_reads e')" by (auto simp: fits_def dest: reach_fine)
  have "((\<exists>now. x = Swept now SweepDone) \<or> e_ending e) \<and> d_owed (e_reads e') \<le> 0"
  proof (cases x)
    case (Landed now p ans)
    then obtain e1 o1 where "settleRead env now p ans e = Some (e1, o1)" "then_go_on (e1, o1) = Some (e', out)"
      using assms(3) by (auto split: option.splits)
    moreover from this(2) have "Raise c \<in> set o1" "e_reads e' = e_reads e1"
      using assms(4) then_go_on_silent by (force, auto simp: then_go_on_def go_on_def split: option.splits)
    ultimately show ?thesis using raised_by_settle by fastforce
  next
    case (Swept now msg)
    show ?thesis
    proof (cases msg)
      case (SweepInstances project names)
      have "Raise c \<notin> set (snd (run_steps (\<lambda>s. accept_event env now (NewEvent now ''instance-deleted'' (fst s) (snd s) [])) ss y))" for ss y
        by (rule run_steps_silent) simp
      moreover have t: "then_go_on (run_steps (\<lambda>s. accept_event env now (NewEvent now ''instance-deleted'' (fst s) (snd s) []))
          (missingInstances project names (e_st e)) e) = Some (e', out)"
        using assms(3) by (simp add: Swept SweepInstances acceptSweep_def)
      ultimately show ?thesis using assms(4) then_go_on_silent [OF t, of c] by blast
    next
      case (SweepProjects names)
      have "Raise c \<notin> set (snd (run_steps (\<lambda>n. send_call env (project_call n)) ns y))" for ns y
        by (rule run_steps_silent) simp
      then show ?thesis using assms(3,4) by (auto simp: Swept SweepProjects acceptSweep_def) (metis snd_conv)+
    qed (use assms(3,4) Swept in \<open>auto simp: acceptSweep_def sweepEnd_def split_beta Let_def split: if_splits\<close>)
  next
    case (RetryDue now)
    then obtain ss y where "out = snd (fanOut env now ss y)"
      using assms(3) by (auto simp: split_beta Let_def) (metis snd_conv)
    then show ?thesis using assms(4) by simp
  qed (use assms(3,4) in \<open>auto simp: then_go_on_silent split_beta Let_def dest: arg_cong [where f = snd]\<close>)
  moreover have "d_owed (e_reads e') = int (length (filter (is_project (e_reads e')) (d_calls (e_reads e'))))"
    by (rule fineD2(4) [OF fine])
  ultimately show ?thesis
    by (auto simp: filter_empty_conv is_project_def dest!: map_of_SomeD)
qed


theorem warm_only_when_read_whole_witness:
  "\<exists>e out. enr_step demo_env (Swept 6 SweepDone) demo_line = Some (e, out)
     \<and> Raise \<lparr>cmd_action = ActionSweepEnd, cmd_chain = ChainWarm\<rparr> \<in> set out
     \<and> (map_of (d_calls (e_reads e)) ''ins/p/web'' = Some 0 \<and> c_kind (call_at 0 (e_reads e)) \<noteq> kindProject)"
proof -
  let ?w = "\<lparr>cmd_action = ActionSweepEnd, cmd_chain = ChainWarm\<rparr>"
  have "d_owed (e_reads demo_line) = 0" by code_simp
  then obtain e out where e: "enr_step demo_env (Swept 6 SweepDone) demo_line = Some (e, out)"
    "Raise ?w \<in> set out" "e_reads e = e_reads demo_line"
    by (simp add: acceptSweep_def sweepEnd_def)
  moreover have "feasible demo_line (Swept 6 SweepDone)" by (simp add: feasible_def)
  ultimately show ?thesis
    using warm_only_when_read_whole [OF demo_line_reached _ e(1,2)] demo_line_step(2) by auto
qed

text \<open>
  A reconnect does not take back an end that is still owed.  Where a sweep
  had ended with a project read outstanding, losing and regaining the stream
  starts a new sweep but keeps the old one's end pending: as soon as that read
  lands, even failing, the chain is called warm, however little of the new sweep
  has been read.
\<close>

theorem reconnect_keeps_the_old_end:
  assumes "enr_reach env e" "e_ending e" "ev_action ev = ActionConnected"
    and "enr_step env (Arrived now ev) e = Some (e1, out1)"
    and "current p (e_reads e1)" "c_kind (call_at p (e_reads e1)) = kindProject"
    and "feasible e1 (Landed now' p ReadFailed)" "d_owed (fst (reads_done (en_acc env) p (e_reads e1))) = 0"
  shows "RestartSweep \<in> set out1 \<and> (\<exists>e2 out2. enr_step env (Landed now' p ReadFailed) e1 = Some (e2, out2)
    \<and> Raise \<lparr>cmd_action = ActionSweepEnd, cmd_chain = ChainWarm\<rparr> \<in> set out2)"
proof -
  have st: "ev_action (fst (stamp ev e)) = ActionConnected" "e_ending (snd (stamp ev e))"
    using assms(2,3) by (simp_all add: stamp_def WithChainState_def)
  have r: "then_go_on (push_settled (fst (stamp ev e)) (snd (stamp ev e)), [RestartSweep]) = Some (e1, out1)"
    using assms(4) st(1) by (simp add: accept_event_def split_beta Let_def)
  then have one: "RestartSweep \<in> set out1" "e_ending e1"
    using st(2) by (auto simp: then_go_on_def go_on_def push_settled_def split: option.splits)
  have "\<exists>e2. settleRead env now' p ReadFailed e1 =
      Some (e2, map Do (snd (reads_done (en_acc env) p (e_reads e1))) @ [Raise \<lparr>cmd_action = ActionSweepEnd, cmd_chain = ChainWarm\<rparr>])"
    using assms(5,6,8) one(2) by (simp add: settleRead_def Let_def split_beta kinds sweepEnd_def)
  then obtain e2 o2 where s: "settleRead env now' p ReadFailed e1 = Some (e2, o2)"
    "Raise \<lparr>cmd_action = ActionSweepEnd, cmd_chain = ChainWarm\<rparr> \<in> set o2" by auto
  have f1: "fits env {#} e1" using fits_step [of env e "Arrived now ev"] reach_fits [OF assms(1)] assms(4)
    by (auto simp: feasible_def)
  have "fits env {#} e2" using fits_settleRead [OF f1 assms(7)] s(1) by auto
  then obtain e3 o3 where "then_go_on (e2, o2) = Some (e3, o3)" using then_go_on_fits [of env "(e2, o2)"] by auto
  with s one show ?thesis using then_go_on_silent [of "(e2, o2)" e3 o3] by auto
qed

definition demo_after :: "enr_in \<Rightarrow> enricher \<Rightarrow> enricher" where
  "demo_after x e = (case enr_step demo_env x e of None \<Rightarrow> e | Some (e', out) \<Rightarrow> e')"

lemma demo_after_reached:
  assumes "enr_reach demo_env e" "feasible e x"
  shows "enr_reach demo_env (demo_after x e)"
proof -
  obtain e' out where "enr_step demo_env x e = Some (e', out)"
    using fits_step [OF _ _ assms(2)] reach_fits [OF assms(1)] by blast
  with enr_reach.step [OF assms this] show ?thesis by (simp add: demo_after_def)
qed

definition demo_connect :: event where
  "demo_connect = WithChainState ChainCold (NewEvent 9 ActionConnected [] [] [])"

definition demo_ending :: enricher where
  \<comment> \<open>A sweep of one project has ended, and the project's own read is still out.\<close>
  "demo_ending = demo_after (Swept 7 SweepDone) (demo_after (Swept 6 (SweepProjects [''p''])) new_enricher)"

lemma demo_ending_facts:
  "e_ending demo_ending" "feasible (demo_after (Arrived 9 demo_connect) demo_ending) (Landed 10 0 ReadFailed)"
  "current 0 (e_reads (demo_after (Arrived 9 demo_connect) demo_ending))"
  "c_kind (call_at 0 (e_reads (demo_after (Arrived 9 demo_connect) demo_ending))) = kindProject"
  "d_owed (fst (reads_done (en_acc demo_env) 0 (e_reads (demo_after (Arrived 9 demo_connect) demo_ending)))) = 0"
  subgoal by code_simp
  subgoal by (simp add: feasible_def real_answer_def) code_simp
  by code_simp+


lemma demo_ending_reached: "enr_reach demo_env demo_ending"
  unfolding demo_ending_def by (intro demo_after_reached enr_reach.start) (simp_all add: feasible_def)

theorem reconnect_keeps_the_old_end_witness:
  "\<exists>out1 e2 out2. enr_step demo_env (Arrived 9 demo_connect) demo_ending
      = Some (demo_after (Arrived 9 demo_connect) demo_ending, out1) \<and> RestartSweep \<in> set out1
    \<and> enr_step demo_env (Landed 10 0 ReadFailed) (demo_after (Arrived 9 demo_connect) demo_ending) = Some (e2, out2)
    \<and> Raise \<lparr>cmd_action = ActionSweepEnd, cmd_chain = ChainWarm\<rparr> \<in> set out2"
proof -
  have f: "feasible demo_ending (Arrived 9 demo_connect)" by (simp add: feasible_def)
  obtain e out where o: "enr_step demo_env (Arrived 9 demo_connect) demo_ending = Some (e, out)"
    using fits_step [OF _ _ f] reach_fits [OF demo_ending_reached] by blast
  then have e: "demo_after (Arrived 9 demo_connect) demo_ending = e" by (simp add: demo_after_def)
  have c: "ev_action demo_connect = ActionConnected"
    by (simp add: demo_connect_def WithChainState_def NewEvent_def)
  show ?thesis
    using reconnect_keeps_the_old_end [OF demo_ending_reached demo_ending_facts(1) c o] demo_ending_facts(2-5) o
    unfolding e by blast
qed

end
