(* ===== verification/Sweeper.thy ===== *)
theory Sweeper
  imports EnricherRun
begin

text \<open>
  The sweeper (\<open>ievent/enricher/sweeper.go\<close>): what one run says, in order, given
  what the connection answers, and what its listings do to the fleet.  A run
  whose context ends stops at a send or a wait, so what it has said is then a
  prefix of what it would have said.
\<close>

subsection \<open>One run\<close>

record sweep_conn =
  sw_names :: "string list option"                       \<comment> \<open>\<open>GetProjectNames\<close>, \<open>None\<close> an error\<close>
  sw_project :: "string \<Rightarrow> config option"                \<comment> \<open>\<open>GetProject\<close>\<close>
  sw_networks :: "string \<Rightarrow> string list option"          \<comment> \<open>\<open>GetNetworkNames\<close>\<close>
  sw_network :: "string \<Rightarrow> string \<Rightarrow> api_network option"  \<comment> \<open>\<open>readNet\<close>\<close>
  sw_instances :: "string \<Rightarrow> string list option"         \<comment> \<open>\<open>GetInstanceNames\<close>\<close>
  sw_serves :: "(string \<Rightarrow> config \<Rightarrow> bool) option"
  sw_isTrue :: "string \<Rightarrow> bool"                          \<comment> \<open>\<open>incusutil.IsTrue\<close>\<close>

datatype said = Say sweep_msg | Tell event

definition served_project :: "sweep_conn \<Rightarrow> string \<Rightarrow> bool" where
  "served_project c n =
     (case sw_project c n of
        None \<Rightarrow> True
      | Some cfg \<Rightarrow> (case sw_serves c of None \<Rightarrow> True | Some f \<Rightarrow> f n cfg))"

definition own_networks :: "sweep_conn \<Rightarrow> string \<Rightarrow> bool" where
  "own_networks c n =
     (case sw_project c n of
        None \<Rightarrow> False
      | Some cfg \<Rightarrow> (case sw_serves c of None \<Rightarrow> True | Some f \<Rightarrow> f n cfg)
          \<and> n \<noteq> DefaultProject \<and> sw_isTrue c (cfg_get cfg ''features.networks''))"

definition sweepProjects :: "sweep_conn \<Rightarrow> (string list \<times> string list) option" where
  \<comment> \<open>Served, and where networks are listed; the listing is said last.\<close>
  "sweepProjects c =
     (case sw_names c of
        None \<Rightarrow> None
      | Some names \<Rightarrow> Some (filter (served_project c) names, DefaultProject # filter (own_networks c) names))"

definition network_said :: "sweep_conn \<Rightarrow> string \<Rightarrow> string \<Rightarrow> said" where
  "network_said c project n =
     (case sw_network c project n of None \<Rightarrow> Say SweepFailed | Some net \<Rightarrow> Say (SweepNetwork net))"

definition sweepNetworks :: "sweep_conn \<Rightarrow> string list \<Rightarrow> said list" where
  "sweepNetworks c projects =
     concat (map (\<lambda>p. case sw_networks c p of
                        None \<Rightarrow> []
                      | Some names \<Rightarrow> Say (SweepNetworks p names) # map (network_said c p) names) projects)"

definition sweepInstances :: "sweep_conn \<Rightarrow> int \<Rightarrow> string list \<Rightarrow> said list" where
  "sweepInstances c now served =
     concat (map (\<lambda>p. case sw_instances c p of
                        None \<Rightarrow> []
                      | Some names \<Rightarrow> Say (SweepInstances p names)
                          # map (\<lambda>n. Tell (NewEvent now ''instance-updated'' p n [])) names) served)"

definition runSweep :: "sweep_conn \<Rightarrow> int \<Rightarrow> said list \<times> bool" where
  \<comment> \<open>What an uninterrupted run says, and whether it reached its end.\<close>
  "runSweep c now =
     (case sweepProjects c of
        None \<Rightarrow> ([], False)
      | Some (served, projects) \<Rightarrow>
          (Say (SweepProjects served) # sweepNetworks c projects @ [Say SweepNetworksWarm]
             @ sweepInstances c now served, True))"

definition sweep_round :: "sweep_conn \<Rightarrow> int \<Rightarrow> said list" where
  \<comment> \<open>One turn of the loop of \<open>runSweeper\<close>.\<close>
  "sweep_round c now =
     (let (out, ok) = runSweep c now in out @ [Say (if ok then SweepDone else SweepFailed)])"

subsection \<open>The order of a run\<close>

definition instance_part :: "said \<Rightarrow> bool" where
  "instance_part x = (case x of Tell ev \<Rightarrow> True | Say (SweepInstances p ns) \<Rightarrow> True | _ \<Rightarrow> False)"

definition network_part :: "said \<Rightarrow> bool" where
  "network_part x = (case x of Say (SweepNetworks p ns) \<Rightarrow> True | Say (SweepNetwork n) \<Rightarrow> True | _ \<Rightarrow> False)"

lemma sweepNetworks_parts: "x \<in> set (sweepNetworks c ps) \<Longrightarrow> \<not> instance_part x \<and> x \<noteq> Say SweepDone \<and> x \<noteq> Say SweepNetworksWarm"
  by (auto simp: sweepNetworks_def network_said_def instance_part_def split: option.splits)

lemma sweepInstances_parts: "x \<in> set (sweepInstances c now ps) \<Longrightarrow> instance_part x \<and> \<not> network_part x"
  by (auto simp: sweepInstances_def instance_part_def network_part_def split: option.splits)

fun said_of :: "said \<Rightarrow> string list" where
  \<comment> \<open>The project an instance listing, or an instance event, is about.\<close>
  "said_of (Tell ev) = [ev_project ev]"
| "said_of (Say (SweepInstances p ns)) = [p]"
| "said_of x = []"

lemma said_of_parts:
  "x \<in> set (sweepInstances c now ps) \<Longrightarrow> set (said_of x) \<subseteq> set ps"
  "x \<in> set (sweepNetworks c ps) \<Longrightarrow> said_of x = []"
  by (auto simp: sweepInstances_def sweepNetworks_def network_said_def NewEvent_def split: option.splits)

lemma said_order:
  assumes "xs = a @ w # b" "\<forall>x \<in> set a. \<not> I x" "\<forall>x \<in> set b. \<not> N x" "\<not> I w" "\<not> N w"
    and "i < n" "n \<le> length xs" "I (take n xs ! i)"
  shows "w \<in> set (take i xs) \<and> (\<forall>j. i \<le> j \<and> j < n \<longrightarrow> \<not> N (take n xs ! j))"
proof -
  have i: "length a < i"
  proof (rule ccontr)
    assume "\<not> length a < i"
    then have "xs ! i \<in> set a \<or> xs ! i = w"
      using assms(1) by (cases "i = length a") (auto simp: nth_append)
    then show False using assms(2,4,6,8) by auto
  qed
  then have "w \<in> set (take i xs)" using assms(1) by (auto simp: take_Cons')
  moreover have "\<not> N (take n xs ! j)" if "i \<le> j" "j < n" for j
  proof -
    have "xs ! j = b ! (j - Suc (length a))" using i that by (simp add: assms(1) nth_append nth_Cons')
    moreover have "j - Suc (length a) < length b" using i that assms(1,7) by simp
    ultimately show ?thesis using assms(3) that(2) nth_mem by (metis nth_take)
  qed
  ultimately show ?thesis by blast
qed

text \<open>
  However early a run of the sweeper is cut off, the networks come first:
  by the time it lists or names an instance it has announced that every network
  was read, and after that it reads no network.  The first thing it says is which
  projects it serves; every instance it lists or names is in one of them, and a
  project that could not be read counts as served.
\<close>

theorem sweep_reads_networks_first:
  assumes "n \<le> length (sweep_round c now)" "i < n" "instance_part (take n (sweep_round c now) ! i)"
  shows "Say SweepNetworksWarm \<in> set (take i (sweep_round c now))
    \<and> (\<forall>j. i \<le> j \<and> j < n \<longrightarrow> \<not> network_part (take n (sweep_round c now) ! j))
    \<and> (\<exists>served. hd (sweep_round c now) = Say (SweepProjects served)
         \<and> set (said_of (take n (sweep_round c now) ! i)) \<subseteq> set served
         \<and> (\<forall>names p. sw_names c = Some names \<and> p \<in> set names \<and> sw_project c p = None \<longrightarrow> p \<in> set served))"
proof -
  obtain served projects where s: "sweepProjects c = Some (served, projects)"
    using assms by (cases "sweepProjects c"; cases i) (auto simp: sweep_round_def runSweep_def instance_part_def)
  have r: "sweep_round c now = (Say (SweepProjects served) # sweepNetworks c projects) @ Say SweepNetworksWarm
        # (sweepInstances c now served @ [Say SweepDone])"
    by (simp add: sweep_round_def runSweep_def s)
  have "Say SweepNetworksWarm \<in> set (take i (sweep_round c now))
    \<and> (\<forall>j. i \<le> j \<and> j < n \<longrightarrow> \<not> network_part (take n (sweep_round c now) ! j))"
    by (rule said_order [where I = instance_part and N = network_part, OF r _ _ _ _ assms(2,1,3)])
       (auto simp: instance_part_def network_part_def dest: sweepNetworks_parts sweepInstances_parts)
  moreover have "take n (sweep_round c now) ! i \<in> set (sweep_round c now)" using assms(1,2) by simp
  then have "set (said_of (take n (sweep_round c now) ! i)) \<subseteq> set served"
    unfolding r by (auto dest: said_of_parts)
  moreover have "\<forall>names p. sw_names c = Some names \<and> p \<in> set names \<and> sw_project c p = None \<longrightarrow> p \<in> set served"
    using s by (auto simp: sweepProjects_def served_project_def split: option.splits)
  moreover have "hd (sweep_round c now) = Say (SweepProjects served)" by (simp add: r)
  ultimately show ?thesis by blast
qed

definition demo_conn :: sweep_conn where
  "demo_conn = \<lparr>sw_names = Some [''p''], sw_project = (\<lambda>_. None), sw_networks = (\<lambda>_. Some []),
     sw_network = (\<lambda>_ _. None), sw_instances = (\<lambda>_. Some [''web'']), sw_serves = None, sw_isTrue = (\<lambda>_. False)\<rparr>"

theorem sweep_reads_networks_first_witness:
  "take (Suc (Suc (Suc (Suc 0)))) (sweep_round demo_conn 0) ! Suc (Suc (Suc 0)) = Say (SweepInstances ''p'' [''web''])
   \<and> Say SweepNetworksWarm \<in> set (take (Suc (Suc (Suc 0))) (sweep_round demo_conn 0))"
proof -
  have r: "sweep_round demo_conn 0 = [Say (SweepProjects [''p'']), Say (SweepNetworks ''default'' []), Say SweepNetworksWarm,
      Say (SweepInstances ''p'' [''web'']), Tell (NewEvent 0 ''instance-updated'' ''p'' ''web'' []), Say SweepDone]"
    by (simp add: sweep_round_def runSweep_def sweepProjects_def served_project_def own_networks_def sweepNetworks_def
        sweepInstances_def demo_conn_def DefaultProject_def)
  have i: "take (Suc (Suc (Suc (Suc 0)))) (sweep_round demo_conn 0) ! Suc (Suc (Suc 0)) = Say (SweepInstances ''p'' [''web''])"
    by (simp add: r)
  then show ?thesis
    using sweep_reads_networks_first [of "Suc (Suc (Suc (Suc 0)))" demo_conn 0 "Suc (Suc (Suc 0))"]
    by (simp add: r instance_part_def)
qed

subsection \<open>What the listings and the reads do to the fleet\<close>

lemma send_call_fields [simp]:
  "e_st (fst (send_call env c e)) = e_st e" "e_archive (fst (send_call env c e)) = e_archive e"
  by (simp_all add: send_call_def split_beta Let_def)

lemma run_sends_fields:
  "e_st (fst (run_steps (\<lambda>x. send_call env (f x)) xs e)) = e_st e
   \<and> e_archive (fst (run_steps (\<lambda>x. send_call env (f x)) xs e)) = e_archive e"
  by (rule run_steps_invariant [where I = "\<lambda>y. e_st y = e_st e \<and> e_archive y = e_archive e"]) simp_all

lemma pruneProjects_lookup: "map_of (f_projects (pruneProjects names s)) = map_of (f_projects s) |` set names"
  by (auto simp: pruneProjects_def map_of_fold_delete missing_def restrict_map_def fun_eq_iff domIff
      simp flip: dom_map_of_conv_image_fst)

text \<open>
  A project that leaves the served ones takes its instances with it in
  silence: the state drops them and no later listing reports them missing, so no
  event says they are gone, and the archive goes on holding what was last said
  of each.
\<close>

theorem pruned_project_says_nothing:
  assumes "enr_step env (Swept now (SweepProjects names)) e = Some (e', out)" "p \<notin> set names"
  shows "held_instance p n (e_st e') = None \<and> missingInstances p listed (e_st e') = []
    \<and> e_archive e' = e_archive e \<and> (\<forall>ev. Next ev \<notin> set out)"
proof -
  let ?r = "run_steps (\<lambda>n. send_call env (project_call n)) names (e\<lparr>e_st := pruneProjects names (e_st e)\<rparr>)"
  have r: "?r = (e', out)" using assms(1) by (simp add: acceptSweep_def)
  have "e_st (fst ?r) = pruneProjects names (e_st e)" "e_archive (fst ?r) = e_archive e"
    using run_sends_fields [of env project_call names "e\<lparr>e_st := pruneProjects names (e_st e)\<rparr>"] by simp_all
  moreover have "Next ev \<notin> set (snd ?r)" for ev by (rule run_steps_silent) simp
  ultimately show ?thesis
    using assms(2) by (simp add: r held_instance_def missingInstances_def pruneProjects_lookup)
qed

lemma send_call_others:
  assumes "keyed (e_reads e)" "current p (e_reads e)" "c_key (call_at p (e_reads e)) \<noteq> c_key c"
  shows "current p (e_reads (fst (send_call env c e)))
    \<and> call_head (call_at p (e_reads (fst (send_call env c e)))) = call_head (call_at p (e_reads e))"
proof -
  let ?d = "fst (new_call c (e_reads e))" and ?q = "snd (new_call c (e_reads e))"
  have p: "p < length (d_store (e_reads e))" using assms(1,2) by (auto simp: current_def dest: keyedD)
  have at: "call_at p ?d = call_at p (e_reads e)" using p by (simp add: new_call_def call_at_def nth_append)
  have head: "call_head (call_at p (fst (send acc ?q ?d))) = call_head (call_at p (e_reads e))" for acc
    using send_store(2) [of acc ?q ?d p] at by (simp add: call_at_def)
  have "map_of (d_calls (fst (send acc ?q ?d))) k = map_of (d_calls (e_reads e)) k" if "k \<noteq> c_key c" for acc k
  proof (cases "map_of (d_calls ?d) (c_key c)")
    case None
    then show ?thesis using that by (simp add: send_def place_calls) (simp add: new_call_def)
  next
    case (Some r)
    have sk: "c_key (call_at ?q (supersede ?q r x)) = c_key (call_at ?q x)" for x by (simp add: call_at_supersede)
    have ck: "c_key (call_at ?q (fst (cancel (c_key c) ?d))) = c_key c"
      using cancel_shape(2) [OF Some] by (simp add: call_at_def new_call_def)
    show ?thesis
      using that Some cancel_shape [OF Some]
      by (simp add: send_def Let_def split_beta place_calls sk ck) (simp add: new_call_def)
  qed
  then show ?thesis
    using assms(2,3) head [of "en_acc env"] by (simp add: send_call_def split_beta Let_def current_def call_head_def)
qed

lemma delete_accepted:
  assumes "ev_err ev = None" "ev_action ev = ''instance-deleted''" "ev_name ev \<noteq> []"
  shows "\<exists>x y out. accept_event env now ev e =
      (push_settled x (forget_instance (ev_project ev) (ev_name ev) y), out) \<and> e_st y = e_st e
      \<and> (y = snd (stamp ev e) \<or> y = fst (send_call env (project_call (ev_project ev)) (snd (stamp ev e))))"
proof -
  let ?e = "snd (stamp ev e)" and ?x = "withProject env (snd (stamp ev e)) (fst (stamp ev e))"
  have same: "ev_action (fst (stamp ev e)) = ''instance-deleted''" "ev_action ?x = ''instance-deleted''"
    "ev_err ?x = None" "ev_name ?x = ev_name ev" "ev_project ?x = ev_project ev" "e_st ?e = e_st e"
    using assms by (simp_all add: stamp_def WithChainState_def withProject_def WithProject_def split: option.splits)
  have "accept_event env now ev e = (push_settled ?x (forget_instance (ev_project ev) (ev_name ev) (fst (readProject env ?x ?e))),
      snd (readProject env ?x ?e))"
    using assms(3) same by (simp add: accept_event_def accept_named_def acceptNetwork_def has_prefix_def ActionConnected_def
        split_beta Let_def)
  moreover have "fst (readProject env ?x ?e) = ?e \<or> fst (readProject env ?x ?e) = fst (send_call env (project_call (ev_project ev)) ?e)"
    using same(5) by (simp add: readProject_def)
  moreover have "e_st (fst (readProject env ?x ?e)) = e_st e"
    using same(6) by (simp add: readProject_def)
  ultimately show ?thesis by blast
qed

lemma held_delete: "held_instance p n (deleteInstance p n s) = None"
  by (auto simp: held_instance_def deleteInstance_def in_project_def split: option.splits)

lemma settle_item_st: "settle_item env landed u i it e = Some e' \<Longrightarrow> e_st e' = e_st e"
  by (auto simp: settle_item_def Let_def split_beta split: option.splits if_splits)

lemma settle_items_st: "settle_items env landed u i its e = Some e' \<Longrightarrow> e_st e' = e_st e"
  by (induction its arbitrary: e) (auto dest: settle_item_st split: option.splits)

lemma push_own_st [simp]: "e_st (push_own env own i e) = e_st e"
  by (auto simp: push_own_def Let_def split_beta split: option.splits)

lemma then_go_on_fields:
  "then_go_on r = Some (e, out) \<Longrightarrow> e_st e = e_st (fst r) \<and> e_reads e = e_reads (fst r)"
  by (auto simp: then_go_on_def go_on_def split: option.splits)

lemma instance_lands:
  assumes "current p (e_reads e)" "c_kind (call_at p (e_reads e)) = kindInstance"
    and "settleRead env now p (InstanceRead (Some f) st) e = Some (e', out)" "en_serves env = None"
    and "setInstance (fi_api f) (map_option lv_network st) (e_st e) = (fl, Inr i)"
  shows "e_st e' = fl"
proof -
  have kinds': "kindInstance \<noteq> kindNetwork" "kindInstance \<noteq> kindProject" by (simp_all add: kinds)
  show ?thesis
    using assms kinds'
    by (auto simp: settleRead_def patchState_def Let_def split_beta dest: settle_items_st split: option.splits)
qed

text \<open>
  A delete that arrives while the instance is being read is undone by that
  read.  Taking the delete in drops the instance and cancels nothing, so an
  answer made before the instance went is patched in again when it lands, and
  the fleet holds an instance that does not exist.
\<close>

theorem late_read_undoes_a_delete:
  assumes r: "enr_reach env e"
    and ev: "ev_err ev = None" "ev_action ev = ''instance-deleted''" "ev_name ev \<noteq> []"
    and step: "enr_step env (Arrived now ev) e = Some (e1, out1)" and all: "en_serves env = None"
    and p: "current p (e_reads e)"
      "call_head (call_at p (e_reads e)) = (resourceKey kindInstance (ev_project ev) (ev_name ev), ev_project ev, ev_name ev, kindInstance)"
    and l: "feasible e1 (Landed now' p (InstanceRead (Some f) st))"
    and f: "ai_project (fi_api f) = ev_project ev" "ai_name (fi_api f) = ev_name ev"
      "setInstance (fi_api f) (map_option lv_network st) (e_st e1) = (fl, Inr i)"
  shows "held_instance (ev_project ev) (ev_name ev) (e_st e1) = None \<and> current p (e_reads e1)
    \<and> (\<exists>e2 out2. enr_step env (Landed now' p (InstanceRead (Some f) st)) e1 = Some (e2, out2)
         \<and> held_instance (ev_project ev) (ev_name ev) (e_st e2) = Some i)"
proof -
  have k: "keyed (e_reads e)" using reach_fits [OF r] fits_keyed by blast
  obtain x y out where a: "accept_event env now ev e = (push_settled x (forget_instance (ev_project ev) (ev_name ev) y), out)"
    "e_st y = e_st e" "y = snd (stamp ev e) \<or> y = fst (send_call env (project_call (ev_project ev)) (snd (stamp ev e)))"
    using delete_accepted [OF ev] by blast
  have s: "e_reads (snd (stamp ev e)) = e_reads e" by (simp add: stamp_def)
  have "c_key (call_at p (e_reads e)) \<noteq> c_key (project_call (ev_project ev))"
    using p(2) by (simp add: call_head_def project_call_def resourceKey_def kinds)
  then have y: "current p (e_reads y)" "call_head (call_at p (e_reads y)) = call_head (call_at p (e_reads e))"
    using a(3) p(1) send_call_others [of "snd (stamp ev e)" p] k s by auto
  have e1: "e_st e1 = deleteInstance (ev_project ev) (ev_name ev) (e_st e)" "e_reads e1 = e_reads y"
    using step then_go_on_fields [of "accept_event env now ev e" e1 out1] a(1,2)
    by (simp_all add: push_settled_def forget_instance_def)
  have f1: "fits env {#} e1" "front_waits (e_q e1)"
    using fits_step [of env e "Arrived now ev"] reach_fits [OF r] step by (auto simp: feasible_def)
  obtain e2 out2 where e2: "enr_step env (Landed now' p (InstanceRead (Some f) st)) e1 = Some (e2, out2)"
    using fits_step [OF f1 l] by blast
  then obtain e' out' where e': "settleRead env now' p (InstanceRead (Some f) st) e1 = Some (e', out')" "e_st e2 = e_st e'"
    using then_go_on_fields by (fastforce split: option.splits)
  have "c_kind (call_at p (e_reads e1)) = kindInstance" using y(2) p(2) e1(2) by (simp add: call_head_def)
  then have "e_st e' = fl" using instance_lands [OF _ _ e'(1) all f(3)] y(1) e1(2) by simp
  then have "held_instance (ev_project ev) (ev_name ev) (e_st e2) = Some i"
    using e'(2) setInstance_held [OF f(3)] f(1,2) by simp
  with e2 y(1) e1 show ?thesis by (simp add: held_delete)
qed


definition demo_fleet_state :: enricher where
  "demo_fleet_state = new_enricher\<lparr>e_st := fst (setInstance demo_api None newState), e_archive := [(''ins/p/web'', demo_update)]\<rparr>"

theorem pruned_project_says_nothing_witness:
  "\<exists>e out. enr_step demo_env (Swept 6 (SweepProjects [''q''])) demo_fleet_state = Some (e, out)
     \<and> held_instance ''p'' ''web'' (e_st demo_fleet_state) \<noteq> None
     \<and> held_instance ''p'' ''web'' (e_st e) = None \<and> map_of (e_archive e) ''ins/p/web'' = Some demo_update"
proof -
  obtain e out where s: "enr_step demo_env (Swept 6 (SweepProjects [''q''])) demo_fleet_state = Some (e, out)"
    by (cases "run_steps (\<lambda>n. send_call demo_env (project_call n)) [''q'']
          (demo_fleet_state\<lparr>e_st := pruneProjects [''q''] (e_st demo_fleet_state)\<rparr>)")
       (simp add: acceptSweep_def del: run_steps.simps)
  have "held_instance ''p'' ''web'' (e_st demo_fleet_state) \<noteq> None" by code_simp
  with s pruned_project_says_nothing [OF s, of "''p''" "''web''"] show ?thesis
    by (auto simp: demo_fleet_state_def)
qed

definition demo_reading :: enricher where
  \<comment> \<open>The networks are known, and one instance is being read.\<close>
  "demo_reading = demo_after (Arrived 5 demo_update) (demo_after (Swept 4 SweepNetworksWarm) new_enricher)"

definition demo_delete :: event where
  "demo_delete = WithChainState ChainWarm (NewEvent 7 ''instance-deleted'' ''p'' ''web'' [])"

definition demo_full :: full_instance where
  "demo_full = \<lparr>fi_api = demo_api, fi_type = ''container'', fi_status = StOther 0\<rparr>"

lemma demo_reading_facts:
  "current 0 (e_reads demo_reading)"
  "call_head (call_at 0 (e_reads demo_reading)) = (''ins/p/web'', ''p'', ''web'', kindInstance)"
  "feasible (demo_after (Arrived 7 demo_delete) demo_reading) (Landed 8 0 (InstanceRead (Some demo_full) None))"
  subgoal by code_simp
  subgoal by code_simp
  subgoal by (simp add: feasible_def real_answer_def) code_simp
  done

theorem late_read_undoes_a_delete_witness:
  "\<exists>e2 out2 i. held_instance ''p'' ''web'' (e_st (demo_after (Arrived 7 demo_delete) demo_reading)) = None
    \<and> enr_step demo_env (Landed 8 0 (InstanceRead (Some demo_full) None)) (demo_after (Arrived 7 demo_delete) demo_reading)
        = Some (e2, out2) \<and> held_instance ''p'' ''web'' (e_st e2) = Some i"
proof -
  have r: "enr_reach demo_env demo_reading"
    unfolding demo_reading_def by (intro demo_after_reached enr_reach.start) (simp_all add: feasible_def)
  have f: "feasible demo_reading (Arrived 7 demo_delete)" by (simp add: feasible_def)
  obtain e out where o: "enr_step demo_env (Arrived 7 demo_delete) demo_reading = Some (e, out)"
    using fits_step [OF _ _ f] reach_fits [OF r] by blast
  then have e: "demo_after (Arrived 7 demo_delete) demo_reading = e" by (simp add: demo_after_def)
  have ev: "ev_err demo_delete = None" "ev_action demo_delete = ''instance-deleted''" "ev_name demo_delete = ''web''"
    "ev_project demo_delete = ''p''"
    by (simp_all add: demo_delete_def WithChainState_def NewEvent_def)
  have ins: "resourceKey kindInstance ''p'' ''web'' = ''ins/p/web''" by (simp add: resourceKey_def kinds)
  obtain fl i where i: "setInstance (fi_api demo_full) (map_option lv_network (None :: live option)) (e_st e) = (fl, Inr i)"
    by (simp add: setInstance_def interfaces_def Let_def)
  have api: "ai_project (fi_api demo_full) = ''p''" "ai_name (fi_api demo_full) = ''web''"
    by (simp_all add: demo_full_def demo_api_def)
  show ?thesis
    using late_read_undoes_a_delete [OF r ev(1,2) _ o _ demo_reading_facts(1) _ _ _ _ i, of 8]
      demo_reading_facts(2,3) ev ins api by (auto simp: e demo_env_def)
qed

end
