(* ===== verification/DnsNames.thy ===== *)
theory DnsNames
  imports Event Netip
begin

text \<open>
  Names in the DNS daemon (\<open>cmd/ic-dns/dns/labels.go\<close>, \<open>alias.go\<close>,
  \<open>reverse.go\<close>, \<open>ecs_view/snapshot.go\<close>): which configuration keys mean what, how
  a label is resolved into names, which zone a name belongs to, and how names
  and views are keyed.  \<open>canonical\<close>, \<open>is_domain\<close> and \<open>reverse_addr\<close> stand for
  \<open>CanonicalName\<close>, \<open>IsDomainName\<close> and \<open>ReverseAddr\<close> of the DNS library.
\<close>

subsection \<open>Labels\<close>

datatype label_kind = LabelProject | LabelInstance

definition kind_of :: "string \<Rightarrow> label_kind option" where
  \<comment> \<open>The map \<open>kinds\<close>; \<open>None\<close> is its zero value.\<close>
  "kind_of k =
     (if k = ''dns.ns'' \<or> k = ''dns.transfer'' then Some LabelProject
      else if k = ''dns.aliases'' \<or> k = ''dns.service'' \<or> k = ''incus-compose.service'' then Some LabelInstance
      else None)"

definition from_instance :: "string \<times> string \<Rightarrow> config \<Rightarrow> config" where
  "from_instance e out =
     (let key = drop (length ''user.label.'') (fst e) in
      if \<not> has_prefix (fst e) ''user.label.'' \<or> kind_of key = Some LabelProject then out
      else AList.update key (snd e) out)"

definition from_project :: "string \<times> string \<Rightarrow> config \<Rightarrow> config" where
  "from_project e out =
     (let key = trim_prefix (fst e) ''user.label.'' in
      if kind_of key = Some LabelInstance then out else AList.update key (snd e) out)"

definition merged :: "event \<Rightarrow> config" where
  "merged ev =
     fold from_project (case ev_proj ev of None \<Rightarrow> [] | Some p \<Rightarrow> p)
       (fold from_instance (case ev_inst ev of None \<Rightarrow> [] | Some i \<Rightarrow> inst_config i) [])"

definition labels :: "config \<Rightarrow> config" where
  "labels cfg =
     map (\<lambda>(k, v). (trim_prefix k ''dns.'', trim_space v))
       (filter (\<lambda>(k, v). has_prefix k ''dns.'' \<and> trim_space v \<noteq> []) cfg)"

definition meta :: "event \<Rightarrow> config" where
  "meta ev =
     (let config = merged ev; compose = trim_space (cfg_get config ''incus-compose.service'')
      in if compose = [] then labels config else AList.update ''service'' compose (labels config))"

subsection \<open>Names\<close>

definition relative_name :: "(string \<Rightarrow> string) \<Rightarrow> (string \<Rightarrow> bool) \<Rightarrow> string \<Rightarrow> string \<Rightarrow> string list" where
  "relative_name canonical is_domain zone field0 =
     (let field = trim_space field0;
          name = (if has_suffix field ''.'' then canonical field else canonical field @ zone)
      in if field = [] \<or> \<not> is_domain name then [] else [name])"

definition relativeNames :: "(string \<Rightarrow> string) \<Rightarrow> (string \<Rightarrow> bool) \<Rightarrow> string \<Rightarrow> string \<Rightarrow> string list" where
  "relativeNames canonical is_domain lst zone =
     (if lst = [] then []
      else remdups_adj (sort (concat (map (relative_name canonical is_domain zone) (split_on (CHR '','') lst)))))"

definition aliasNames :: "(string \<Rightarrow> string) \<Rightarrow> (string \<Rightarrow> bool) \<Rightarrow> config \<Rightarrow> string \<Rightarrow> string list" where
  "aliasNames canonical is_domain m zone = relativeNames canonical is_domain (cfg_get m ''aliases'') zone"

lemma index_byte_less: "index_byte s c = Some i \<Longrightarrow> i < length s"
  by (induction s c arbitrary: i rule: index_byte.induct) (auto split: if_splits option.splits)

function alias_loop :: "(string \<Rightarrow> bool) \<Rightarrow> string \<Rightarrow> string \<Rightarrow> string \<times> bool" where
  \<comment> \<open>The loop of \<open>aliasZone\<close>: what is left of the name, and its first parent.\<close>
  "alias_loop served name parent =
     (case index_byte name (CHR ''.'') of
        None \<Rightarrow> (parent, parent \<noteq> [])
      | Some i \<Rightarrow>
          (let rest = drop (i + 1) name;
               parent' = (if parent = [] then rest else parent)
           in if rest = [] then (parent, parent \<noteq> [])
              else if served rest then (rest, True)
              else alias_loop served rest parent'))"
  by pat_completeness auto
termination
  by (relation "measure (\<lambda>(served, name, parent). length name)") (auto dest: index_byte_less)

declare alias_loop.simps [simp del]

definition aliasZone :: "string \<Rightarrow> (string \<Rightarrow> bool) \<Rightarrow> string \<times> bool" where
  "aliasZone name served = alias_loop served name []"

fun drop_labels :: "nat \<Rightarrow> string \<Rightarrow> string option" where
  "drop_labels 0 zone = Some zone"
| "drop_labels (Suc n) zone =
     (case index_byte zone (CHR ''.'') of None \<Rightarrow> None | Some i \<Rightarrow> drop_labels n (drop (i + 1) zone))"

definition v6HostLabels :: nat where "v6HostLabels = 16"

definition reverseName :: "(string \<Rightarrow> string option) \<Rightarrow> addr \<Rightarrow> (string \<times> string) option" where
  "reverseName reverse_addr addr0 =
     (let addr = Unmap addr0 in
      case reverse_addr (addr_String addr) of
        None \<Rightarrow> None
      | Some name \<Rightarrow>
          (case drop_labels (if Is4 addr then 1 else v6HostLabels) name of
             None \<Rightarrow> None
           | Some zone \<Rightarrow> Some (name, zone)))"

definition covered :: "prefix list \<Rightarrow> addr \<Rightarrow> bool" where
  "covered ps a = list_ex (\<lambda>p. Contains p a) ps"

subsection \<open>Keys\<close>

definition NUL :: char where "NUL = CHR 0x00"

definition AmbiguousView :: string where "AmbiguousView = NUL # ''ambiguous''"

definition ViewOf :: "string list \<Rightarrow> string" where
  "ViewOf keys = (if keys = [] then [] else go_join [NUL] (sort keys))"

definition KeysOf :: "string \<Rightarrow> string list" where
  "KeysOf view = (if view = [] then [] else split_on NUL view)"

definition last_label :: "string \<Rightarrow> string" where
  "last_label s = rev (takeWhile (\<lambda>c. c \<noteq> CHR ''.'') (rev s))"

definition before_label :: "string \<Rightarrow> string" where
  \<comment> \<open>What is left in front of the last label and its dot.\<close>
  "before_label s = rev (drop 1 (dropWhile (\<lambda>c. c \<noteq> CHR ''.'') (rev s)))"

lemma before_label_less: "s \<noteq> [] \<Longrightarrow> length (before_label s) < length s"
  using length_dropWhile_le [of "\<lambda>c. c \<noteq> CHR ''.''" "rev s"] by (cases "length s") (auto simp: before_label_def)

function name_loop :: "string \<Rightarrow> string" where
  "name_loop s = (if s = [] then [] else last_label s @ ''.'' @ name_loop (before_label s))"
  by pat_completeness auto
termination
  by (relation "measure length") (auto intro: before_label_less)

declare name_loop.simps [simp del]

definition nameKey :: "string \<Rightarrow> string" where
  "nameKey name = name_loop (if name \<noteq> [] \<and> last name = CHR ''.'' then butlast name else name)"


subsection \<open>Lemmas and properties\<close>

lemma from_instance_get:
  "map_of (from_instance e out) k =
     (if fst e = ''user.label.'' @ k \<and> kind_of k \<noteq> Some LabelProject then Some (snd e) else map_of out k)"
  by (auto simp: from_instance_def Let_def has_prefix_def prefix_def)

lemma fold_from_instance:
  "map_of (fold from_instance es out) k =
     (case map_of (rev es) (''user.label.'' @ k) of
        Some v \<Rightarrow> if kind_of k \<noteq> Some LabelProject then Some v else map_of out k
      | None \<Rightarrow> map_of out k)"
  by (induction es arbitrary: out) (auto simp: from_instance_get map_add_def split: option.splits)

lemma from_project_get:
  "map_of (from_project e out) k =
     (if trim_prefix (fst e) ''user.label.'' = k \<and> kind_of k \<noteq> Some LabelInstance then Some (snd e) else map_of out k)"
  by (auto simp: from_project_def Let_def)

lemma fold_from_project:
  "map_of (fold from_project es out) k =
     (case map_of (rev (map (\<lambda>(k, v). (trim_prefix k ''user.label.'', v)) es)) k of
        Some v \<Rightarrow> if kind_of k \<noteq> Some LabelInstance then Some v else map_of out k
      | None \<Rightarrow> map_of out k)"
  by (induction es arbitrary: out) (auto simp: from_project_get map_add_def split: option.splits)

text \<open>
  Every DNS key is set by the side it belongs to: a project's key is read
  off the project alone, an instance's key off the instance alone, and any other
  key off the project where it sets it and off the instance otherwise.  On the
  instance only the label namespace counts; on the project a key counts with and
  without that prefix, and where both spellings are set the one enumerated last
  decides.
\<close>

theorem labels_come_from_their_owner:
  "map_of (merged ev) k =
     (let proj = map_of (rev (map (\<lambda>(k, v). (trim_prefix k ''user.label.'', v)) (case ev_proj ev of None \<Rightarrow> [] | Some p \<Rightarrow> p))) k;
          own = map_of (rev (case ev_inst ev of None \<Rightarrow> [] | Some i \<Rightarrow> inst_config i)) (''user.label.'' @ k)
      in case kind_of k of
           Some LabelProject \<Rightarrow> proj
         | Some LabelInstance \<Rightarrow> own
         | None \<Rightarrow> (case proj of Some v \<Rightarrow> Some v | None \<Rightarrow> own))"
  by (simp add: merged_def fold_from_instance fold_from_project Let_def split: option.splits label_kind.splits)

fun label_tails :: "string \<Rightarrow> string list" where
  \<comment> \<open>Every proper parent of a name, longest first.\<close>
  "label_tails [] = []"
| "label_tails (c # cs) = (if c = CHR ''.'' \<and> cs \<noteq> [] then cs # label_tails cs else label_tails cs)"

lemma label_tails_index:
  "label_tails name =
     (case index_byte name (CHR ''.'') of
        None \<Rightarrow> []
      | Some i \<Rightarrow> (let rest = drop (i + 1) name in if rest = [] then [] else rest # label_tails rest))"
  by (induction name) (auto simp: Let_def split: option.splits)

lemma alias_loop_spec:
  "alias_loop served name parent =
     (case find served (label_tails name) of
        Some z \<Rightarrow> (z, True)
      | None \<Rightarrow> (let p = (if parent \<noteq> [] then parent else case label_tails name of [] \<Rightarrow> [] | p # _ \<Rightarrow> p) in (p, p \<noteq> [])))"
proof (induction served name parent rule: alias_loop.induct)
  case (1 served name parent)
  show ?case
  proof (cases "index_byte name (CHR ''.'')")
    case None
    then show ?thesis by (simp add: alias_loop.simps [of served name] label_tails_index [of name])
  next
    case (Some i)
    show ?thesis
    proof (cases "drop (i + 1) name = []")
      case True
      then show ?thesis using Some by (simp add: alias_loop.simps [of served name] label_tails_index [of name])
    next
      case rest: False
      have l: "label_tails name = drop (i + 1) name # label_tails (drop (i + 1) name)"
        using Some rest by (subst label_tails_index) (simp add: Let_def)
      show ?thesis
      proof (cases "served (drop (i + 1) name)")
        case True
        then show ?thesis using Some rest l by (simp add: alias_loop.simps [of served name])
      next
        case False
        have "alias_loop served name parent
            = alias_loop served (drop (i + 1) name) (if parent = [] then drop (i + 1) name else parent)"
          using Some rest False by (subst alias_loop.simps) (simp add: Let_def)
        also have "\<dots> = (case find served (label_tails (drop (i + 1) name)) of
            Some z \<Rightarrow> (z, True)
          | None \<Rightarrow> (let p = (if (if parent = [] then drop (i + 1) name else parent) \<noteq> []
                then (if parent = [] then drop (i + 1) name else parent)
                else case label_tails (drop (i + 1) name) of [] \<Rightarrow> [] | p # _ \<Rightarrow> p) in (p, p \<noteq> [])))"
          by (rule 1) (use Some rest False in simp_all)
        finally show ?thesis using rest False by (auto simp: l Let_def split: option.splits)
      qed
    qed
  qed
qed

text \<open>
  An alias lands in the longest zone served above it, and in its own parent
  where none is; a name of a single label is refused.
\<close>

theorem alias_zone_is_longest_served:
  "aliasZone name served =
     (case find served (label_tails name) of
        Some z \<Rightarrow> (z, True)
      | None \<Rightarrow> (case label_tails name of [] \<Rightarrow> ([], False) | p # _ \<Rightarrow> (p, True)))"
proof -
  have "label_tails name \<noteq> [] \<Longrightarrow> hd (label_tails name) \<noteq> []"
    by (induction name) auto
  then show ?thesis by (cases "label_tails name") (auto simp: aliasZone_def alias_loop_spec Let_def split: option.splits)
qed


lemma sort_nil: "sort xs = [] \<longleftrightarrow> xs = []"
  by (metis length_0_conv length_sort)

lemma split_on_append: "c \<notin> set x \<Longrightarrow> split_on c (x @ c # s) = x # split_on c s"
  by (induction x) auto

lemma split_on_none: "c \<notin> set x \<Longrightarrow> split_on c x = [x]"
  by (induction x) auto

lemma split_join:
  "ks \<noteq> [] \<Longrightarrow> (\<And>k. k \<in> set ks \<Longrightarrow> c \<notin> set k) \<Longrightarrow> split_on c (go_join [c] ks) = ks"
  by (induction "[c]" ks rule: go_join.induct) (auto simp: split_on_append split_on_none)

lemma go_join_first: "xs \<noteq> [] \<Longrightarrow> hd xs \<noteq> [] \<Longrightarrow> go_join sep xs \<noteq> [] \<and> hd (go_join sep xs) = hd (hd xs)"
  by (cases xs; cases "tl xs") auto

text \<open>
  A view is its set of networks and nothing else: for network keys, which
  are not empty and hold no zero byte, taking the view apart gives back the keys,
  sorted, so two sets of networks share a view only where they are the same, and
  no view of networks is the ambiguous one.
\<close>

theorem view_is_its_networks:
  assumes "\<forall>k \<in> set ks. k \<noteq> [] \<and> NUL \<notin> set k"
  shows "KeysOf (ViewOf ks) = sort ks \<and> ViewOf ks \<noteq> AmbiguousView"
proof (cases "ks = []")
  case False
  then have h: "hd (sort ks) \<in> set ks" using hd_in_set [of "sort ks"] by (simp add: sort_nil)
  then have "go_join [NUL] (sort ks) \<noteq> [] \<and> hd (go_join [NUL] (sort ks)) = hd (hd (sort ks))"
    using assms False by (intro go_join_first) (auto simp: sort_nil)
  moreover have "hd (hd (sort ks)) \<noteq> NUL" using h assms by (metis hd_in_set)
  moreover have "split_on NUL (go_join [NUL] (sort ks)) = sort ks"
    by (rule split_join) (use assms False in \<open>auto simp: sort_nil\<close>)
  ultimately show ?thesis using False by (auto simp: KeysOf_def ViewOf_def AmbiguousView_def)
qed (simp add: KeysOf_def ViewOf_def AmbiguousView_def)

theorem view_is_its_networks_witness:
  "KeysOf (ViewOf [''p/net'', ''default/br0'']) = [''default/br0'', ''p/net'']"
proof -
  have "sort [''p/net'', ''default/br0''] = [''default/br0'', ''p/net'']" by code_simp
  then show ?thesis using view_is_its_networks [of "[''p/net'', ''default/br0'']"] by (simp add: NUL_def)
qed

definition dname :: "string list \<Rightarrow> string" where
  \<comment> \<open>The absolute name of a list of labels.\<close>
  "dname ls = concat (map (\<lambda>l. l @ ''.'') ls)"

definition label_ok :: "string \<Rightarrow> bool" where
  "label_ok l \<longleftrightarrow> l \<noteq> [] \<and> CHR ''.'' \<notin> set l"

lemma until_dot:
  "c \<notin> set l \<Longrightarrow> takeWhile (\<lambda>x. x \<noteq> c) (l @ c # s) = l" "c \<notin> set l \<Longrightarrow> takeWhile (\<lambda>x. x \<noteq> c) l = l"
  "c \<notin> set l \<Longrightarrow> dropWhile (\<lambda>x. x \<noteq> c) (l @ c # s) = c # s" "c \<notin> set l \<Longrightarrow> dropWhile (\<lambda>x. x \<noteq> c) l = []"
  by (induction l) auto

lemma last_label_append: "label_ok l \<Longrightarrow> last_label (s @ CHR ''.'' # l) = l" "label_ok l \<Longrightarrow> last_label l = l"
  by (simp_all add: last_label_def label_ok_def until_dot)

lemma before_label_append: "label_ok l \<Longrightarrow> before_label (s @ CHR ''.'' # l) = s" "label_ok l \<Longrightarrow> before_label l = []"
  by (simp_all add: before_label_def label_ok_def until_dot)

lemma dname_snoc: "dname (ls @ [l]) = dname ls @ l @ ''.''"
  by (simp add: dname_def)

lemma nameKey_dname: "list_all label_ok ls \<Longrightarrow> nameKey (dname ls) = dname (rev ls)"
proof (induction ls rule: rev_induct)
  case (snoc l ls)
  have "name_loop (dname ls @ l) = l @ ''.'' @ nameKey (dname ls)"
  proof (cases ls rule: rev_cases)
    case Nil
    then show ?thesis
      using snoc.prems last_label_append(2) [of l] before_label_append(2) [of l]
      by (simp add: name_loop.simps [of l] nameKey_def dname_def name_loop.simps [of "[]"]) (simp add: label_ok_def)
  next
    case (snoc ls' l')
    then have d: "dname ls = (dname ls' @ l') @ ''.''" by (simp add: dname_snoc)
    then have "dname ls \<noteq> []" "last (dname ls) = CHR ''.''" "butlast (dname ls) = dname ls' @ l'"
      by (simp_all add: butlast_append)
    then show ?thesis
      using \<open>list_all label_ok (ls @ [l])\<close> last_label_append(1) [of l "dname ls' @ l'"]
        before_label_append(1) [of l "dname ls' @ l'"]
      by (simp add: d name_loop.simps [of "dname ls' @ l' @ CHR ''.'' # l"] nameKey_def)
  qed
  then show ?case using snoc by (simp add: nameKey_def dname_snoc butlast_append) (simp add: dname_def)
qed (simp add: nameKey_def dname_def name_loop.simps)

lemma label_prefix:
  "c \<notin> set a \<Longrightarrow> c \<notin> set b \<Longrightarrow> prefix (a @ c # s) (b @ c # t) \<longleftrightarrow> a = b \<and> prefix s t"
proof (induction a arbitrary: b)
  case Nil
  then show ?case by (cases b) auto
next
  case (Cons x a)
  then show ?case by (cases b) auto
qed

lemma dname_prefix:
  "list_all label_ok zs \<Longrightarrow> list_all label_ok ns \<Longrightarrow> prefix (dname zs) (dname ns) \<longleftrightarrow> prefix zs ns"
proof (induction zs arbitrary: ns)
  case (Cons z zs)
  then show ?case by (cases ns) (simp_all add: dname_def label_prefix label_ok_def)
qed (simp add: dname_def)

text \<open>
  The trees find a zone by a byte-wise prefix, and that is exact: the key of
  a zone is a prefix of the key of a name if and only if the name lies in the
  zone, label by label, so no zone ever captures a name that merely starts or
  ends with the same letters.
\<close>

theorem zone_key_is_a_prefix_iff_inside:
  assumes "list_all label_ok zs" "list_all label_ok ns"
  shows "prefix (nameKey (dname zs)) (nameKey (dname ns)) \<longleftrightarrow> suffix zs ns"
  using dname_prefix [of "rev zs" "rev ns"] assms
  by (simp add: nameKey_dname suffix_to_prefix list_all_rev)

theorem zone_key_is_a_prefix_iff_inside_witness:
  "prefix (nameKey (dname [''incus''])) (nameKey (dname [''web'', ''incus'']))
   \<and> \<not> prefix (nameKey (dname [''incus''])) (nameKey (dname [''web'', ''incusx'']))"
  using zone_key_is_a_prefix_iff_inside [of "[''incus'']" "[''web'', ''incus'']"]
    zone_key_is_a_prefix_iff_inside [of "[''incus'']" "[''web'', ''incusx'']"]
  by (simp add: label_ok_def suffix_Cons)

end
