(* ===== verification/DnsState.thy ===== *)
theory DnsState
  imports DnsNames
begin

text \<open>
  What the DNS daemon folds (\<open>cmd/ic-dns/dns/build.go\<close>, \<open>state.go\<close>,
  \<open>patch.go\<close>, \<open>render.go\<close>): one instance as it is held, the working state, and
  how one instance moves from what the trees hold to what has arrived.  The radix
  and crit-bit trees are third-party: the environment carries their operations,
  with the DNS library's functions and the way it prints a record.
\<close>

subsection \<open>Records\<close>

datatype rr =
    RA string nat addr
  | RAAAA string nat addr
  | RPTR string nat string
  | RCNAME string nat string
  | RNS string nat string
  | RSOA string nat string string "32 word"   \<comment> \<open>owner, TTL, MNAME, RNAME, serial\<close>

datatype qtype = TypeA | TypeAAAA | TypePTR | TypeCNAME

type_synonym records = "(qtype \<times> rr list) list"
type_synonym answers = "(string \<times> records) list"   \<comment> \<open>by view\<close>

record zserial =
  zs_serial :: "32 word"
  zs_dirty :: bool
  zs_names :: int
  zs_hosts :: int
  zs_transfers :: int
  zs_ns :: "(string \<times> int) list"

record zone_rec =
  zn_name :: string
  zn_soa :: rr
  zn_ns :: "rr list"
  zn_shadowing :: bool
  zn_transfer :: bool

subsection \<open>One instance as it is held\<close>

record net_on =
  no_ipv4 :: "addr list"
  no_ipv6 :: "addr list"
  no_prefixes :: "prefix list"

record dinst =
  di_ev :: event
  di_zone :: string
  di_meta :: config
  di_ns :: "string list"
  di_transfer :: bool
  di_nets :: "(string \<times> net_on) list"
  di_names :: "string list"
  di_alias :: "string list"
  di_ptrs :: "(string \<times> (string \<times> string)) list"   \<comment> \<open>the network each reverse name is on, and its zone\<close>

type_synonym akey = "nat \<times> nat"   \<comment> \<open>what \<open>BitsKey\<close> is given: the address as a number, the bits that count\<close>

record ('n, 'z, 'a) dns_env =
  dv_canonical :: "string \<Rightarrow> string"
  dv_is_domain :: "string \<Rightarrow> bool"
  dv_reverse :: "string \<Rightarrow> string option"
  dv_is_true :: "string \<Rightarrow> bool"
  dv_rr_string :: "rr \<Rightarrow> string"
  nt_empty :: 'n
  nt_get :: "'n \<Rightarrow> string \<Rightarrow> answers option"
  nt_set :: "string \<Rightarrow> answers \<Rightarrow> 'n \<Rightarrow> 'n"
  nt_del :: "string \<Rightarrow> 'n \<Rightarrow> 'n"
  nt_walk :: "'n \<Rightarrow> string \<Rightarrow> (string \<times> answers) list"   \<comment> \<open>\<open>WalkPrefix\<close>\<close>
  zt_empty :: 'z
  zt_get :: "'z \<Rightarrow> string \<Rightarrow> zone_rec option"
  zt_set :: "string \<Rightarrow> zone_rec \<Rightarrow> 'z \<Rightarrow> 'z"
  zt_del :: "string \<Rightarrow> 'z \<Rightarrow> 'z"
  zt_longest :: "'z \<Rightarrow> string \<Rightarrow> zone_rec option"   \<comment> \<open>\<open>LongestPrefix\<close>\<close>
  at_empty :: 'a
  at_get :: "'a \<Rightarrow> akey \<Rightarrow> string option"
  at_set :: "akey \<Rightarrow> string \<Rightarrow> 'a \<Rightarrow> 'a"
  at_del :: "akey \<Rightarrow> 'a \<Rightarrow> 'a"
  at_all :: "'a \<Rightarrow> (akey \<times> string) list"
  at_longest :: "'a \<Rightarrow> akey \<Rightarrow> string option"

definition addrs :: "string list \<Rightarrow> addr list" where
  "addrs lst = concat (map (\<lambda>s. case ParseAddr s of None \<Rightarrow> [] | Some a \<Rightarrow> [a]) lst)"

definition prefixesOf :: "network option \<Rightarrow> prefix list" where
  "prefixesOf net =
     (let ipv4 = (case net of None \<Rightarrow> [] | Some n \<Rightarrow> net_ipv4 n); ipv6 = (case net of None \<Rightarrow> [] | Some n \<Rightarrow> net_ipv6 n)
      in concat (map (\<lambda>s. if s = [] then [] else case ParsePrefix s of None \<Rightarrow> [] | Some p \<Rightarrow> [Masked p]) [ipv4, ipv6]))"

definition sits_step :: "inst \<Rightarrow> iface \<Rightarrow> (string \<times> net_on) list \<Rightarrow> (string \<times> net_on) list" where
  "sits_step i f out =
     (let key = NetworkKey (if_project f) (if_network f);
          on = (case map_of out key of
                  Some on \<Rightarrow> on
                | None \<Rightarrow> \<lparr>no_ipv4 = [], no_ipv6 = [], no_prefixes = prefixesOf (map_of (inst_networks i) key)\<rparr>)
      in AList.update key (on\<lparr>no_ipv4 := no_ipv4 on @ addrs (if_ipv4 f), no_ipv6 := no_ipv6 on @ addrs (if_ipv6 f)\<rparr>) out)"

definition sitsOn :: "inst option \<Rightarrow> (string \<times> net_on) list" where
  "sitsOn i = (case i of None \<Rightarrow> [] | Some x \<Rightarrow> fold (sits_step x) (inst_ifaces x) [])"

definition zoneFor :: "('n, 'z, 'a) dns_env \<Rightarrow> string \<Rightarrow> config \<Rightarrow> string \<Rightarrow> string" where
  "zoneFor env project m sfx =
     (if cfg_get m ''zone'' \<noteq> [] then dv_canonical env (cfg_get m ''zone'')
      else dv_canonical env (project @ ''.'' @ sfx))"

definition ptr_step ::
  "('n, 'z, 'a) dns_env \<Rightarrow> string \<Rightarrow> net_on \<Rightarrow> addr \<Rightarrow> (string \<times> (string \<times> string)) list \<Rightarrow> (string \<times> (string \<times> string)) list" where
  "ptr_step env key net a out =
     (if \<not> covered (no_prefixes net) a then out
      else case reverseName (dv_reverse env) a of
             None \<Rightarrow> out
           | Some (name, zone) \<Rightarrow> AList.update name (key, zone) out)"

definition patchInstance :: "('n, 'z, 'a) dns_env \<Rightarrow> event \<Rightarrow> string \<Rightarrow> dinst option" where
  "patchInstance env ev sfx =
     (if \<not> Enriched EnrichedInstanceWithInterfaces ev then None
      else
        (let nets = sitsOn (ev_inst ev); own = meta ev; zone = zoneFor env (ev_project ev) own sfx;
             service = cfg_get own ''service''
         in Some \<lparr>di_ev = ev, di_zone = zone, di_meta = own,
                  di_ns = relativeNames (dv_canonical env) (dv_is_domain env) (cfg_get own ''ns'') zone,
                  di_transfer = dv_is_true env (cfg_get own ''transfer''),
                  di_nets = nets,
                  di_names = (dv_canonical env (ev_name ev) @ zone)
                    # (if service \<noteq> [] then [dv_canonical env service @ zone] else []),
                  di_alias = aliasNames (dv_canonical env) (dv_is_domain env) own zone,
                  di_ptrs = fold (\<lambda>(key, net). fold (ptr_step env key net) (no_ipv4 net @ no_ipv6 net)) nets []\<rparr>))"

definition heldKey :: "string \<Rightarrow> string \<Rightarrow> string" where
  "heldKey project name = project @ ''/'' @ name"

definition netKeys :: "dinst \<Rightarrow> string list" where
  "netKeys i = sort (map fst (di_nets i))"

subsection \<open>The state, its views\<close>

record ('n, 'z, 'a) dstate =
  ds_held :: "(string \<times> dinst) list"
  ds_pending :: "(string \<times> dinst option) list"
  ds_nets :: "(string \<times> (string \<times> int) list) list"
  ds_serials :: "(string \<times> zserial) list"
  ds_names :: 'n
  ds_zones :: 'z
  ds_v4 :: 'a
  ds_v6 :: 'a

definition over :: "('n, 'z, 'a) dstate \<Rightarrow> string \<Rightarrow> (string \<times> int) list" where
  "over s key = (case map_of (ds_nets s) key of Some m \<Rightarrow> m | None \<Rightarrow> [])"

definition count_of :: "(string \<times> int) list \<Rightarrow> string \<Rightarrow> int" where
  "count_of m vid = (case map_of m vid of Some n \<Rightarrow> n | None \<Rightarrow> 0)"

definition claim_key :: "string \<Rightarrow> string \<Rightarrow> ('n, 'z, 'a) dstate \<Rightarrow> ('n, 'z, 'a) dstate" where
  "claim_key vid key s =
     s\<lparr>ds_nets := AList.update key (AList.update vid (count_of (over s key) vid + 1) (over s key)) (ds_nets s)\<rparr>"

definition claim :: "string list \<Rightarrow> string \<Rightarrow> ('n, 'z, 'a) dstate \<Rightarrow> ('n, 'z, 'a) dstate \<times> bool" where
  "claim keys vid s =
     (fold (claim_key vid) keys s, list_ex (\<lambda>key. count_of (over s key) vid = 0) keys)"

fun claim_anon :: "string \<Rightarrow> string list \<Rightarrow> ('n, 'z, 'a) dstate \<Rightarrow> ('n, 'z, 'a) dstate \<times> string list" where
  "claim_anon own [] s = (s, [])"
| "claim_anon own (key # keys) s =
     (let anon = ViewOf [key];
          (s1, first) = claim [key] anon s;
          (s2, fresh) = claim_anon own keys s1
      in (s2, (if first \<and> anon \<noteq> own then [anon] else []) @ fresh))"

definition view :: "dinst \<Rightarrow> ('n, 'z, 'a) dstate \<Rightarrow> ('n, 'z, 'a) dstate \<times> string \<times> string list" where
  "view i s =
     (let keys = netKeys i; own = ViewOf keys;
          (s1, first) = claim keys own s;
          (s2, fresh) = claim_anon own keys s1
      in (s2, own, (if first then [own] else []) @ fresh))"

definition drop_claim :: "string \<Rightarrow> string \<Rightarrow> ('n, 'z, 'a) dstate \<Rightarrow> ('n, 'z, 'a) dstate \<times> bool" where
  \<comment> \<open>\<open>drop\<close>.\<close>
  "drop_claim key vid s =
     (case map_of (ds_nets s) key of
        None \<Rightarrow> (s, False)
      | Some m \<Rightarrow>
          if 0 < count_of m vid - 1
          then (s\<lparr>ds_nets := AList.update key (AList.update vid (count_of m vid - 1) m) (ds_nets s)\<rparr>, False)
          else (s\<lparr>ds_nets := AList.update key (AList.delete vid m) (ds_nets s)\<rparr>, True))"

fun release_keys ::
  "string \<Rightarrow> string list \<Rightarrow> ('n, 'z, 'a) dstate \<Rightarrow> ('n, 'z, 'a) dstate \<times> string list \<times> string list" where
  "release_keys own [] s = (s, [], [])"
| "release_keys own (key # keys) s =
     (let (s1, last1) = drop_claim key own s;
          anon = ViewOf [key];
          (s2, last2) = drop_claim key anon s1;
          empty = (over s2 key = []);
          s3 = (if empty then s2\<lparr>ds_nets := AList.delete key (ds_nets s2)\<rparr> else s2);
          (s4, freed, gone) = release_keys own keys s3
      in (s4, (if empty then [key] else []) @ freed,
          (if last1 then [own] else []) @ (if last2 \<and> anon \<noteq> own then [anon] else []) @ gone))"

definition release_views ::
  "dinst \<Rightarrow> ('n, 'z, 'a) dstate \<Rightarrow> ('n, 'z, 'a) dstate \<times> string list \<times> string list" where
  \<comment> \<open>\<open>release\<close>: the networks left with no view, and the views nothing is left in.\<close>
  "release_views i s = release_keys (ViewOf (netKeys i)) (netKeys i) s"

definition views :: "('n, 'z, 'a) dstate \<Rightarrow> string \<Rightarrow> string list" where
  "views s key = map fst (over s key)"

subsection \<open>What an instance contributes\<close>

definition render :: "string \<Rightarrow> addr list \<Rightarrow> addr list \<Rightarrow> nat \<Rightarrow> records" where
  \<comment> \<open>A record carries the address whose bytes it holds; the enricher files only IPv4 addresses as \<open>v4\<close>,
     so \<open>As4\<close> never panics.\<close>
  "render name v4 v6 ttl =
     (if v4 \<noteq> [] then [(TypeA, map (RA name ttl) v4)] else [])
     @ (if v6 \<noteq> [] then [(TypeAAAA, map (RAAAA name ttl) v6)] else [])"

definition renderPTR :: "string \<Rightarrow> string list \<Rightarrow> nat \<Rightarrow> records" where
  "renderPTR name targets ttl = (if targets = [] then [] else [(TypePTR, map (RPTR name ttl) targets)])"

definition addr_num :: "addr \<Rightarrow> nat" where
  "addr_num a = (case a of A4 w \<Rightarrow> unat w | A6 w z \<Rightarrow> unat w)"

definition addr_before :: "addr \<Rightarrow> addr \<Rightarrow> bool" where
  "addr_before a b \<longleftrightarrow> \<not> addr_less b a"

fun insert_addr :: "addr \<Rightarrow> addr list \<Rightarrow> addr list" where
  "insert_addr a [] = [a]"
| "insert_addr a (b # bs) = (if addr_before a b then a # b # bs else b # insert_addr a bs)"

definition sort_addrs :: "addr list \<Rightarrow> addr list" where
  "sort_addrs as = foldr insert_addr as []"

definition view_records :: "dinst \<Rightarrow> string \<Rightarrow> nat \<Rightarrow> string \<Rightarrow> records" where
  "view_records i name ttl vid =
     (let seen = concat (map (\<lambda>on. case map_of (di_nets i) on of None \<Rightarrow> [] | Some net \<Rightarrow> [net]) (KeysOf vid))
      in render name (sort_addrs (concat (map no_ipv4 seen))) (sort_addrs (concat (map no_ipv6 seen))) ttl)"

definition name_records :: "('n, 'z, 'a) dstate \<Rightarrow> dinst \<Rightarrow> string \<Rightarrow> nat \<Rightarrow> answers" where
  \<comment> \<open>\<open>records\<close>: each view over one of the instance's networks, once.\<close>
  "name_records s i name ttl =
     map (\<lambda>vid. (vid, view_records i name ttl vid)) (remdups (concat (map (views s) (map fst (di_nets i)))))"

definition reverse_records :: "('n, 'z, 'a) dstate \<Rightarrow> dinst \<Rightarrow> string \<Rightarrow> string \<Rightarrow> nat \<Rightarrow> answers" where
  "reverse_records s i name on ttl = map (\<lambda>vid. (vid, renderPTR name [hd (di_names i)] ttl)) (views s on)"

definition alias_records :: "('n, 'z, 'a) dstate \<Rightarrow> dinst \<Rightarrow> string \<Rightarrow> nat \<Rightarrow> answers" where
  "alias_records s i name ttl =
     (let cname = RCNAME name ttl (hd (di_names i))
      in map (\<lambda>(vid, records). (vid, (TypeCNAME, [cname]) # map (\<lambda>(t, rrs). (t, cname # rrs)) records))
           (name_records s i (hd (di_names i)) ttl))"

definition contributions :: "('n, 'z, 'a) dstate \<Rightarrow> dinst \<Rightarrow> nat \<Rightarrow> (string \<times> answers) list" where
  "contributions s i ttl =
     fold (\<lambda>(name, on). AList.update name (reverse_records s i name (fst on) ttl)) (di_ptrs i)
       (fold (\<lambda>name. AList.update name (alias_records s i name ttl)) (di_alias i)
         (fold (\<lambda>name. AList.update name (name_records s i name ttl)) (di_names i) []))"

subsection \<open>The tree of names\<close>

fun sameRR :: "rr \<Rightarrow> rr \<Rightarrow> bool" where
  "sameRR (RA n t a) (RA m u b) \<longleftrightarrow> n = m \<and> addr_num a = addr_num b"
| "sameRR (RAAAA n t a) (RAAAA m u b) \<longleftrightarrow> n = m \<and> addr_num a = addr_num b"
| "sameRR (RPTR n t a) (RPTR m u b) \<longleftrightarrow> n = m \<and> a = b"
| "sameRR (RCNAME n t a) (RCNAME m u b) \<longleftrightarrow> n = m \<and> a = b"
| "sameRR _ _ \<longleftrightarrow> False"

definition rrs_of :: "records \<Rightarrow> qtype \<Rightarrow> rr list" where
  "rrs_of r t = (case map_of r t of Some rrs \<Rightarrow> rrs | None \<Rightarrow> [])"

definition add_rr :: "rr \<Rightarrow> rr list \<Rightarrow> rr list" where
  "add_rr x xs = (if list_ex (\<lambda>have. sameRR have x) xs then xs else xs @ [x])"

definition union :: "('n, 'z, 'a) dns_env \<Rightarrow> records \<Rightarrow> records \<Rightarrow> records" where
  "union env held add =
     fold (\<lambda>(t, rrs) out. AList.update t (sort_key (dv_rr_string env) (fold add_rr rrs (rrs_of out t))) out) add held"

definition without :: "records \<Rightarrow> records \<Rightarrow> records" where
  "without held gone =
     filter (\<lambda>(t, rrs). rrs \<noteq> [])
       (map (\<lambda>(t, rrs). (t, filter (\<lambda>x. \<not> list_ex (\<lambda>have. sameRR have x) (rrs_of gone t)) rrs)) held)"

definition answer_of :: "answers \<Rightarrow> string \<Rightarrow> records" where
  "answer_of a vid = (case map_of a vid of Some r \<Rightarrow> r | None \<Rightarrow> [])"

definition put_name :: "('n, 'z, 'a) dns_env \<Rightarrow> string \<Rightarrow> answers \<Rightarrow> ('n, 'z, 'a) dstate \<Rightarrow> ('n, 'z, 'a) dstate" where
  \<comment> \<open>A name nothing answers under is taken out.\<close>
  "put_name env name out s =
     s\<lparr>ds_names := (if out = [] then nt_del env (nameKey name) (ds_names s)
                    else nt_set env (nameKey name) out (ds_names s))\<rparr>"

definition addName :: "('n, 'z, 'a) dns_env \<Rightarrow> string \<times> answers \<Rightarrow> ('n, 'z, 'a) dstate \<Rightarrow> ('n, 'z, 'a) dstate" where
  "addName env e s =
     (let held = (case nt_get env (ds_names s) (nameKey (fst e)) of Some h \<Rightarrow> h | None \<Rightarrow> [])
      in put_name env (fst e)
           (fold (\<lambda>(vid, records) out. AList.update vid (union env (answer_of out vid) records) out) (snd e) held) s)"

definition dropName :: "('n, 'z, 'a) dns_env \<Rightarrow> string \<times> answers \<Rightarrow> ('n, 'z, 'a) dstate \<Rightarrow> ('n, 'z, 'a) dstate" where
  "dropName env e s =
     (case nt_get env (ds_names s) (nameKey (fst e)) of
        None \<Rightarrow> s
      | Some held \<Rightarrow>
          put_name env (fst e)
            (concat (map (\<lambda>(vid, records).
               case map_of (snd e) vid of
                 None \<Rightarrow> [(vid, records)]
               | Some gone \<Rightarrow> (let left = without records gone in if left = [] then [] else [(vid, left)])) held)) s)"

definition dropView :: "('n, 'z, 'a) dns_env \<Rightarrow> string \<Rightarrow> string \<Rightarrow> ('n, 'z, 'a) dstate \<Rightarrow> ('n, 'z, 'a) dstate" where
  "dropView env vid name s =
     (case nt_get env (ds_names s) (nameKey name) of
        None \<Rightarrow> s
      | Some held \<Rightarrow>
          if map_of held vid = None then s else put_name env name (filter (\<lambda>e. fst e \<noteq> vid) held) s)"

definition held_on :: "('n, 'z, 'a) dstate \<Rightarrow> string list \<Rightarrow> dinst list" where
  "held_on s keys = filter (\<lambda>i. list_ex (\<lambda>key. map_of (di_nets i) key \<noteq> None) keys) (map snd (ds_held s))"

definition backfill :: "('n, 'z, 'a) dns_env \<Rightarrow> nat \<Rightarrow> string list \<Rightarrow> ('n, 'z, 'a) dstate \<Rightarrow> ('n, 'z, 'a) dstate" where
  "backfill env ttl fresh s =
     fold (\<lambda>vid s. fold (\<lambda>i s. fold (\<lambda>(name, answer) s.
         case map_of answer vid of None \<Rightarrow> s | Some records \<Rightarrow> addName env (name, [(vid, records)]) s)
       (contributions s i ttl) s) (held_on s (KeysOf vid)) s) fresh s"

definition forget_views :: "('n, 'z, 'a) dns_env \<Rightarrow> nat \<Rightarrow> string list \<Rightarrow> ('n, 'z, 'a) dstate \<Rightarrow> ('n, 'z, 'a) dstate" where
  "forget_views env ttl gone s =
     fold (\<lambda>vid s. fold (\<lambda>i s. fold (\<lambda>(name, answer). dropView env vid name) (contributions s i ttl) s)
       (held_on s (KeysOf vid)) s) gone s"

subsection \<open>Zones\<close>

definition synthesizedNS :: "string \<Rightarrow> string list" where
  "synthesizedNS zone = [''ns.dns.'' @ zone]"

definition soa :: "string \<Rightarrow> string list \<Rightarrow> 32 word \<Rightarrow> nat \<Rightarrow> rr" where
  "soa zone ns serial ttl =
     RSOA zone ttl (hd (if ns = [] then synthesizedNS zone else ns)) (''hostmaster.'' @ zone) serial"

definition nsRecords :: "string \<Rightarrow> string list \<Rightarrow> nat \<Rightarrow> rr list" where
  "nsRecords zone ns ttl = map (RNS zone ttl) (if ns = [] then synthesizedNS zone else ns)"

definition zone_of :: "string \<Rightarrow> zserial \<Rightarrow> string list \<Rightarrow> nat \<Rightarrow> zone_rec" where
  "zone_of name held ns ttl =
     \<lparr>zn_name = name, zn_soa = soa name ns (zs_serial held) ttl, zn_ns = nsRecords name ns ttl,
      zn_shadowing = (zs_hosts held = 0), zn_transfer = (0 < zs_transfers held)\<rparr>"

definition new_serial :: zserial where
  "new_serial = \<lparr>zs_serial = 0, zs_dirty = False, zs_names = 0, zs_hosts = 0, zs_transfers = 0, zs_ns = []\<rparr>"

definition serial_of :: "('n, 'z, 'a) dstate \<Rightarrow> string \<Rightarrow> zserial" where
  "serial_of s name = (case map_of (ds_serials s) name of Some h \<Rightarrow> h | None \<Rightarrow> new_serial)"

definition render_zone :: "('n, 'z, 'a) dns_env \<Rightarrow> nat \<Rightarrow> string \<Rightarrow> ('n, 'z, 'a) dstate \<Rightarrow> ('n, 'z, 'a) dstate" where
  "render_zone env ttl name s =
     (let held = serial_of s name
      in s\<lparr>ds_zones := zt_set env (nameKey name) (zone_of name held (sort (map fst (zs_ns held))) ttl) (ds_zones s)\<rparr>)"

definition ns_up :: "string \<Rightarrow> (string \<times> int) list \<Rightarrow> (string \<times> int) list" where
  "ns_up server m = AList.update server (count_of m server + 1) m"

definition ns_down :: "string \<Rightarrow> (string \<times> int) list \<Rightarrow> (string \<times> int) list" where
  "ns_down server m =
     (let n = count_of m server - 1 in if n \<le> 0 then AList.delete server m else AList.update server n m)"

definition enter ::
  "('n, 'z, 'a) dns_env \<Rightarrow> nat \<Rightarrow> string list \<Rightarrow> bool \<Rightarrow> bool \<Rightarrow> string \<Rightarrow> ('n, 'z, 'a) dstate \<Rightarrow> ('n, 'z, 'a) dstate" where
  "enter env ttl ns host transfer name s =
     (let held = serial_of s name;
          held1 = held\<lparr>zs_names := zs_names held + 1, zs_hosts := zs_hosts held + (if host then 1 else 0),
                       zs_transfers := zs_transfers held + (if transfer then 1 else 0),
                       zs_ns := fold ns_up ns (zs_ns held)\<rparr>
      in render_zone env ttl name (s\<lparr>ds_serials := AList.update name held1 (ds_serials s)\<rparr>))"

definition leave ::
  "('n, 'z, 'a) dns_env \<Rightarrow> nat \<Rightarrow> string list \<Rightarrow> bool \<Rightarrow> bool \<Rightarrow> string \<Rightarrow> ('n, 'z, 'a) dstate \<Rightarrow> ('n, 'z, 'a) dstate" where
  "leave env ttl ns host transfer name s =
     (case map_of (ds_serials s) name of
        None \<Rightarrow> s
      | Some held \<Rightarrow>
          (let held1 = held\<lparr>zs_names := zs_names held - 1, zs_hosts := zs_hosts held - (if host then 1 else 0),
                            zs_transfers := zs_transfers held - (if transfer then 1 else 0),
                            zs_ns := fold ns_down ns (zs_ns held), zs_dirty := True\<rparr>;
               s1 = s\<lparr>ds_serials := AList.update name held1 (ds_serials s)\<rparr>
           in if 0 < zs_names held1 then render_zone env ttl name s1 else s1))"

definition alias_zone :: "('n, 'z, 'a) dstate \<Rightarrow> string \<Rightarrow> string" where
  \<comment> \<open>\<open>state.aliasZone\<close>, against the zones served now.\<close>
  "alias_zone s name = fst (aliasZone name (\<lambda>zone. map_of (ds_serials s) zone \<noteq> None))"

definition dirty_zone :: "string \<Rightarrow> ('n, 'z, 'a) dstate \<Rightarrow> ('n, 'z, 'a) dstate" where
  "dirty_zone zone s =
     (case map_of (ds_serials s) zone of
        None \<Rightarrow> s
      | Some held \<Rightarrow> s\<lparr>ds_serials := AList.update zone (held\<lparr>zs_dirty := True\<rparr>) (ds_serials s)\<rparr>)"

definition moved :: "dinst \<Rightarrow> ('n, 'z, 'a) dstate \<Rightarrow> ('n, 'z, 'a) dstate" where
  "moved i s = fold dirty_zone (di_zone i # map (alias_zone s) (di_alias i) @ map (snd \<circ> snd) (di_ptrs i)) s"

definition step_zone :: "bool \<Rightarrow> zserial \<Rightarrow> zserial" where
  "step_zone warm held =
     held\<lparr>zs_dirty := False,
          zs_serial := (if zs_serial held = 0 then 1 else if warm then zs_serial held + 1 else zs_serial held)\<rparr>"

definition step_one :: "('n, 'z, 'a) dns_env \<Rightarrow> nat \<Rightarrow> bool \<Rightarrow> string \<Rightarrow> ('n, 'z, 'a) dstate \<Rightarrow> ('n, 'z, 'a) dstate" where
  "step_one env ttl warm name s =
     (let held = serial_of s name in
      if zs_names held \<le> 0 then
        s\<lparr>ds_serials := AList.delete name (ds_serials s), ds_zones := zt_del env (nameKey name) (ds_zones s)\<rparr>
      else if \<not> zs_dirty held then s
      else render_zone env ttl name (s\<lparr>ds_serials := AList.update name (step_zone warm held) (ds_serials s)\<rparr>))"

definition step :: "('n, 'z, 'a) dns_env \<Rightarrow> nat \<Rightarrow> bool \<Rightarrow> ('n, 'z, 'a) dstate \<Rightarrow> ('n, 'z, 'a) dstate" where
  "step env ttl warm s = fold (step_one env ttl warm) (map fst (ds_serials s)) s"

subsection \<open>The address trees\<close>

definition AddrKey :: "prefix \<Rightarrow> akey \<times> bool" where
  "AddrKey p = ((addr_num (px_addr p), px_bits p), Is4 (px_addr p))"

definition on_tree :: "bool \<Rightarrow> ('a \<Rightarrow> 'a) \<Rightarrow> ('n, 'z, 'a) dstate \<Rightarrow> ('n, 'z, 'a) dstate" where
  "on_tree v4 f s = (if v4 then s\<lparr>ds_v4 := f (ds_v4 s)\<rparr> else s\<lparr>ds_v6 := f (ds_v6 s)\<rparr>)"

definition tree_of :: "bool \<Rightarrow> ('n, 'z, 'a) dstate \<Rightarrow> 'a" where
  "tree_of v4 s = (if v4 then ds_v4 s else ds_v6 s)"

definition index :: "('n, 'z, 'a) dns_env \<Rightarrow> string \<Rightarrow> prefix \<Rightarrow> ('n, 'z, 'a) dstate \<Rightarrow> ('n, 'z, 'a) dstate" where
  "index env vid p s =
     (let (key, v4) = AddrKey p in
      case at_get env (tree_of v4 s) key of
        None \<Rightarrow> on_tree v4 (at_set env key vid) s
      | Some held \<Rightarrow> on_tree v4 (at_set env key (if held \<noteq> vid then AmbiguousView else vid)) s)"

definition unindex :: "('n, 'z, 'a) dns_env \<Rightarrow> prefix \<Rightarrow> ('n, 'z, 'a) dstate \<Rightarrow> ('n, 'z, 'a) dstate" where
  "unindex env p s = (let (key, v4) = AddrKey p in on_tree v4 (at_del env key) s)"

definition addAddrs :: "('n, 'z, 'a) dns_env \<Rightarrow> string \<Rightarrow> dinst \<Rightarrow> ('n, 'z, 'a) dstate \<Rightarrow> ('n, 'z, 'a) dstate" where
  "addAddrs env own i s =
     fold (\<lambda>(key, net) s.
       fold (index env (ViewOf [key])) (no_prefixes net)
         (fold (index env own) (map host_prefix (no_ipv4 net @ no_ipv6 net)) s)) (di_nets i) s"

definition dropAddrs :: "('n, 'z, 'a) dns_env \<Rightarrow> dinst \<Rightarrow> ('n, 'z, 'a) dstate \<Rightarrow> ('n, 'z, 'a) dstate" where
  "dropAddrs env i s =
     fold (\<lambda>(key, net). fold (unindex env) (map host_prefix (no_ipv4 net @ no_ipv6 net))) (di_nets i) s"

definition dropPrefixes :: "('n, 'z, 'a) dns_env \<Rightarrow> dinst \<Rightarrow> string list \<Rightarrow> ('n, 'z, 'a) dstate \<Rightarrow> ('n, 'z, 'a) dstate" where
  "dropPrefixes env i freed s =
     fold (\<lambda>key. case map_of (di_nets i) key of None \<Rightarrow> (\<lambda>s. s) | Some net \<Rightarrow> fold (unindex env) (no_prefixes net)) freed s"

subsection \<open>Where a fold starts\<close>

definition newState :: "('n, 'z, 'a) dns_env \<Rightarrow> (string \<times> zserial) list \<Rightarrow> ('n, 'z, 'a) dstate" where
  "newState env serials =
     \<lparr>ds_held = [], ds_pending = [], ds_nets = [], ds_serials = serials, ds_names = nt_empty env,
      ds_zones = zt_empty env, ds_v4 = at_empty env, ds_v6 = at_empty env\<rparr>"

subsection \<open>Moving one instance\<close>

definition take_out :: "('n, 'z, 'a) dns_env \<Rightarrow> nat \<Rightarrow> dinst \<Rightarrow> ('n, 'z, 'a) dstate \<Rightarrow> ('n, 'z, 'a) dstate" where
  \<comment> \<open>The half of \<open>apply\<close> for what was held.\<close>
  "take_out env ttl i s =
     (let s1 = moved i (fold (dropName env) (contributions s i ttl) s);
          s2 = fold (\<lambda>_. leave env ttl (di_ns i) True (di_transfer i) (di_zone i)) (di_names i) s1;
          s3 = fold (\<lambda>(_, on). leave env ttl (di_ns i) True (di_transfer i) (snd on)) (di_ptrs i) s2;
          s4 = fold (\<lambda>name s. leave env ttl [] False False (alias_zone s name) s) (di_alias i) s3;
          (s5, freed, gone) = release_views i (dropAddrs env i s4)
      in dropPrefixes env i freed (forget_views env ttl gone s5))"

definition put_in :: "('n, 'z, 'a) dns_env \<Rightarrow> nat \<Rightarrow> string \<Rightarrow> dinst \<Rightarrow> ('n, 'z, 'a) dstate \<Rightarrow> ('n, 'z, 'a) dstate" where
  \<comment> \<open>The half of \<open>apply\<close> for what has arrived.\<close>
  "put_in env ttl key i s =
     (let (s1, own, fresh) = view i s;
          s2 = s1\<lparr>ds_held := AList.update key i (ds_held s1)\<rparr>;
          s3 = fold (addName env) (contributions s2 i ttl) s2;
          s4 = fold (\<lambda>_. enter env ttl (di_ns i) True (di_transfer i) (di_zone i)) (di_names i) s3;
          s5 = fold (\<lambda>(_, on). enter env ttl (di_ns i) True (di_transfer i) (snd on)) (di_ptrs i) s4;
          s6 = fold (\<lambda>name s. enter env ttl [] False False (alias_zone s name) s) (di_alias i) s5
      in backfill env ttl fresh (addAddrs env own i (moved i s6)))"

definition apply_inst ::
  "('n, 'z, 'a) dns_env \<Rightarrow> nat \<Rightarrow> string \<Rightarrow> dinst option \<Rightarrow> ('n, 'z, 'a) dstate \<Rightarrow> ('n, 'z, 'a) dstate" where
  "apply_inst env ttl key arrived s =
     (let s1 = (case map_of (ds_held s) key of None \<Rightarrow> s | Some prev \<Rightarrow> take_out env ttl prev s)
      in case arrived of
           None \<Rightarrow> s1\<lparr>ds_held := AList.delete key (ds_held s1)\<rparr>
         | Some i \<Rightarrow> put_in env ttl key i s1)"

definition write_one ::
  "('n, 'z, 'a) dns_env \<Rightarrow> nat \<Rightarrow> string \<times> dinst option \<Rightarrow> ('n, 'z, 'a) dstate \<times> bool \<Rightarrow> ('n, 'z, 'a) dstate \<times> bool" where
  "write_one env ttl e r =
     (let (s0, m) = r; s = s0\<lparr>ds_pending := AList.delete (fst e) (ds_pending s0)\<rparr>
      in case (snd e, map_of (ds_held s) (fst e)) of
           (Some i, Some prev) \<Rightarrow>
             if event_Equal (Some (di_ev i)) (Some (di_ev prev)) then (s, m) else (apply_inst env ttl (fst e) (snd e) s, True)
         | (None, None) \<Rightarrow> (s, m)
         | _ \<Rightarrow> (apply_inst env ttl (fst e) (snd e) s, True))"

definition dns_write :: "('n, 'z, 'a) dns_env \<Rightarrow> nat \<Rightarrow> ('n, 'z, 'a) dstate \<Rightarrow> ('n, 'z, 'a) dstate \<times> bool" where
  "dns_write env ttl s = fold (write_one env ttl) (ds_pending s) (s, False)"

subsection \<open>Publishing\<close>

record ('n, 'z, 'a) snapshot =
  sn_tree :: 'n
  sn_denial :: 'z
  sn_v4 :: 'a
  sn_v6 :: 'a

definition copy_tree :: "('n, 'z, 'a) dns_env \<Rightarrow> 'a \<Rightarrow> 'a" where
  "copy_tree env t = fold (\<lambda>(key, view). at_set env key view) (at_all env t) (at_empty env)"

definition snapshot_of :: "('n, 'z, 'a) dns_env \<Rightarrow> ('n, 'z, 'a) dstate \<Rightarrow> ('n, 'z, 'a) snapshot" where
  \<comment> \<open>\<open>snapshot\<close>: the radix trees are values, so committing and going on from the commit changes nothing.\<close>
  "snapshot_of env s =
     \<lparr>sn_tree = ds_names s, sn_denial = ds_zones s, sn_v4 = copy_tree env (ds_v4 s), sn_v6 = copy_tree env (ds_v6 s)\<rparr>"

definition EmptySnapshot :: "('n, 'z, 'a) dns_env \<Rightarrow> ('n, 'z, 'a) snapshot" where
  "EmptySnapshot env = \<lparr>sn_tree = nt_empty env, sn_denial = zt_empty env, sn_v4 = at_empty env, sn_v6 = at_empty env\<rparr>"

end
