(* ===== verification/DnsPlugin.thy ===== *)
theory DnsPlugin
  imports DnsState Chain
begin

text \<open>
  The DNS plugin itself (\<open>cmd/ic-dns/dns/dns.go\<close>, \<open>coldstore.go\<close>): its inbox,
  how one event is folded, what the publish window and the end of a sweep do, and
  the loop as one step per case of its select.  Whether a send that does not
  block is taken is part of the input.  A cold file is what the JSON decoder
  reads from it.
\<close>

subsection \<open>The cold store\<close>

record cold_file =
  cf_version :: int
  cf_serials :: "(string \<times> 32 word) list"

definition coldVersion :: int where "coldVersion = 1"

definition encodeCold :: "(string \<times> zserial) list \<Rightarrow> cold_file" where
  \<comment> \<open>Of a serial only its number is exported.\<close>
  "encodeCold serials =
     \<lparr>cf_version = coldVersion, cf_serials = map (\<lambda>(zone, held). (zone, zs_serial held)) serials\<rparr>"

definition decodeCold :: "cold_file option \<Rightarrow> (string \<times> zserial) list" where
  \<comment> \<open>Nothing readable and another version both start with none.\<close>
  "decodeCold f =
     (case f of
        None \<Rightarrow> []
      | Some c \<Rightarrow>
          if cf_version c \<noteq> coldVersion then []
          else map (\<lambda>(zone, serial). (zone, new_serial\<lparr>zs_serial := serial\<rparr>)) (cf_serials c))"

subsection \<open>The plugin\<close>

definition dns_name :: string where "dns_name = ''dns''"

definition wantsInstance :: enrichment where
  "wantsInstance = EnrichedInstance OR EnrichedInstanceWithInterfaces OR EnrichedProject"

definition dns_Wants :: "want list" where
  "dns_Wants =
     [\<lparr>w_action = ''instance-started'', w_enrich = wantsInstance, w_debounce = False\<rparr>,
      \<lparr>w_action = ''instance-restarted'', w_enrich = wantsInstance, w_debounce = False\<rparr>,
      \<lparr>w_action = ''instance-resumed'', w_enrich = wantsInstance, w_debounce = False\<rparr>,
      \<lparr>w_action = ''instance-stopped'', w_enrich = wantsInstance, w_debounce = False\<rparr>,
      \<lparr>w_action = ''instance-shutdown'', w_enrich = wantsInstance, w_debounce = False\<rparr>,
      \<lparr>w_action = ''instance-updated'', w_enrich = wantsInstance, w_debounce = True\<rparr>,
      \<lparr>w_action = ''instance-deleted'', w_enrich = 0, w_debounce = False\<rparr>,
      \<lparr>w_action = ''instance-renamed'', w_enrich = wantsInstance, w_debounce = False\<rparr>,
      \<lparr>w_action = ''network-updated'', w_enrich = EnrichedNetwork, w_debounce = True\<rparr>]"

definition dns_actions :: "string list" where
  "dns_actions = map w_action dns_Wants"

record dns_cfg =
  dc_ttl :: nat
  dc_suffix :: string
  dc_size :: nat

record ('n, 'z, 'a) dns =
  dn_state :: "('n, 'z, 'a) dstate"
  dn_chain :: chain_state
  dn_ready :: bool
  dn_healthy :: bool
  dn_published :: bool
  dn_view :: "('n, 'z, 'a) snapshot"   \<comment> \<open>what the engine answers from\<close>
  dn_xfr :: "('n, 'z, 'a) snapshot"
  dn_inbox :: "event list"
  dn_window :: bool
  dn_over :: bool

datatype dns_out = Next event | Raise string | Store cold_file | Answered command

definition dns_new :: "('n, 'z, 'a) dns_env \<Rightarrow> cold_file option \<Rightarrow> ('n, 'z, 'a) dns" where
  \<comment> \<open>\<open>New\<close>, and what \<open>Run\<close> loads before its loop.\<close>
  "dns_new env cold =
     \<lparr>dn_state = newState env (decodeCold cold), dn_chain = ChainUnset, dn_ready = False, dn_healthy = False,
      dn_published = False, dn_view = EmptySnapshot env, dn_xfr = EmptySnapshot env, dn_inbox = [],
      dn_window = False, dn_over = False\<rparr>"

definition dns_Handle :: "dns_cfg \<Rightarrow> event \<Rightarrow> ('n, 'z, 'a) dns \<Rightarrow> ('n, 'z, 'a) dns \<times> dns_out list" where
  "dns_Handle cfg ev p =
     (if length (dn_inbox p) < dc_size cfg then (p\<lparr>dn_inbox := dn_inbox p @ [ev]\<rparr>, [])
      else (p, [Next (WithDropped dns_name ev)]))"

definition dns_Ready :: "('n, 'z, 'a) dns \<Rightarrow> bool" where
  "dns_Ready p \<longleftrightarrow> dn_published p \<and> dn_healthy p"

definition publish :: "('n, 'z, 'a) dns_env \<Rightarrow> dns_cfg \<Rightarrow> ('n, 'z, 'a) dns \<Rightarrow> ('n, 'z, 'a) dns \<times> dns_out list" where
  "publish env cfg p =
     (let s = step env (dc_ttl cfg) (dn_chain p = ChainWarm) (dn_state p); snap = snapshot_of env s
      in (p\<lparr>dn_state := s, dn_view := snap, dn_xfr := snap, dn_published := True\<rparr>, [Store (encodeCold (ds_serials s))]))"

definition write_out :: "('n, 'z, 'a) dns_env \<Rightarrow> dns_cfg \<Rightarrow> ('n, 'z, 'a) dns \<Rightarrow> ('n, 'z, 'a) dns \<times> dns_out list" where
  \<comment> \<open>\<open>write\<close>.\<close>
  "write_out env cfg p =
     (let (s, moved) = dns_write env (dc_ttl cfg) (dn_state p); p1 = p\<lparr>dn_state := s\<rparr>
      in if \<not> moved then (p1, []) else publish env cfg p1)"

definition rounded :: "('n, 'z, 'a) dns_env \<Rightarrow> dns_cfg \<Rightarrow> ('n, 'z, 'a) dns \<Rightarrow> ('n, 'z, 'a) dns \<times> dns_out list" where
  "rounded env cfg p =
     (let (p1, out) = publish env cfg (p\<lparr>dn_state := fst (dns_write env (dc_ttl cfg) (dn_state p))\<rparr>)
      in (p1\<lparr>dn_healthy := True\<rparr>, out))"

definition pend :: "string \<Rightarrow> dinst option \<Rightarrow> ('n, 'z, 'a) dns \<Rightarrow> ('n, 'z, 'a) dns" where
  "pend key next p = p\<lparr>dn_state := (dn_state p)\<lparr>ds_pending := AList.update key next (ds_pending (dn_state p))\<rparr>\<rparr>"

definition fold_subject ::
  "('n, 'z, 'a) dns_env \<Rightarrow> dns_cfg \<Rightarrow> event \<Rightarrow> ('n, 'z, 'a) dns \<Rightarrow> ('n, 'z, 'a) dns" where
  \<comment> \<open>What \<open>fold\<close> does with an event about an instance.\<close>
  "fold_subject env cfg ev p =
     (let key = heldKey (ev_project ev) (ev_name ev);
          p1 = (if ev_oldName ev \<noteq> [] then pend (heldKey (ev_project ev) (ev_oldName ev)) None p else p)
      in if ev_err ev \<noteq> None \<or> ev_action ev \<notin> set dns_actions \<or> ev_name ev = [] then p
         else if ev_action ev = ''instance-deleted'' then pend key None p1
         else if \<not> Enriched EnrichedInstanceWithInterfaces ev then p1
         else case patchInstance env ev (dc_suffix cfg) of None \<Rightarrow> p1 | Some i \<Rightarrow> pend key (Some i) p1)"

definition fold_body ::
  "('n, 'z, 'a) dns_env \<Rightarrow> dns_cfg \<Rightarrow> event \<Rightarrow> ('n, 'z, 'a) dns \<Rightarrow> ('n, 'z, 'a) dns \<times> dns_out list" where
  "fold_body env cfg ev p0 =
     (let p = p0\<lparr>dn_chain := ev_chain ev\<rparr>
      in if ev_action ev = ActionDisconnected then (p\<lparr>dn_healthy := False\<rparr>, [])
         else if ev_action ev = ActionSweepEnd then rounded env cfg p
         else (fold_subject env cfg ev p, []))"

definition announce :: "bool \<Rightarrow> ('n, 'z, 'a) dns \<Rightarrow> ('n, 'z, 'a) dns \<times> dns_out list" where
  "announce heard p =
     (let now = dns_Ready p in
      if now = dn_ready p then (p, [])
      else (p\<lparr>dn_ready := now\<rparr>, if heard then [Raise (if now then ''dns/ready'' else ''dns/not-ready'')] else []))"

definition dns_fold ::
  "('n, 'z, 'a) dns_env \<Rightarrow> dns_cfg \<Rightarrow> bool \<times> event \<Rightarrow> ('n, 'z, 'a) dns \<Rightarrow> ('n, 'z, 'a) dns \<times> dns_out list" where
  "dns_fold env cfg e p =
     (let (p1, out) = fold_body env cfg (snd e) p; (p2, said) = announce (fst e) p1
      in (p2, out @ Next (snd e) # said))"

datatype dns_in =
    DHandle event
  | DInbox bool
  | DWindow
  | DCommand command "bool list"
  | DAbort

fun dns_step ::
  "('n, 'z, 'a) dns_env \<Rightarrow> dns_cfg \<Rightarrow> dns_in \<Rightarrow> ('n, 'z, 'a) dns \<Rightarrow> ('n, 'z, 'a) dns \<times> dns_out list" where
  "dns_step env cfg (DHandle ev) p = dns_Handle cfg ev p"
| "dns_step env cfg (DInbox heard) p =
     (case dn_inbox p of
        [] \<Rightarrow> (p, [])
      | ev # rest \<Rightarrow>
          if dn_over p then (p, [])
          else
            (let (p1, out) = dns_fold env cfg (heard, ev) (p\<lparr>dn_inbox := rest\<rparr>)
             in (p1\<lparr>dn_window := dn_window p1 \<or> ds_pending (dn_state p1) \<noteq> []\<rparr>, out)))"
| "dns_step env cfg DWindow p =
     (if dn_over p \<or> \<not> dn_window p then (p, []) else write_out env cfg (p\<lparr>dn_window := False\<rparr>))"
| "dns_step env cfg (DCommand cmd heard) p =
     (if dn_over p then (p, [])
      else
        (let evs = zip (heard @ replicate (length (dn_inbox p)) False) (dn_inbox p);
             (p1, out) = run_steps (dns_fold env cfg) evs (p\<lparr>dn_inbox := []\<rparr>);
             (p2, out2) = write_out env cfg p1
         in (p2\<lparr>dn_over := True\<rparr>, out @ out2 @ [Answered cmd])))"
| "dns_step env cfg DAbort p = (p\<lparr>dn_over := True\<rparr>, [])"

definition dns_run ::
  "('n, 'z, 'a) dns_env \<Rightarrow> dns_cfg \<Rightarrow> dns_in list \<Rightarrow> ('n, 'z, 'a) dns \<Rightarrow> ('n, 'z, 'a) dns \<times> dns_out list" where
  "dns_run env cfg = run_steps (dns_step env cfg)"

end
