(* ===== verification/DnsViews.thy ===== *)
theory DnsViews
  imports DnsPlugin
begin

text \<open>
  What the counts of the DNS state mean.  Views and zones are kept alive by
  counting; here it is shown that the counts are exact, however instances come,
  move and go: a network has exactly the views of the instances on it, and a zone
  exactly the names of the instances in it.
\<close>

subsection \<open>What each part touches\<close>

lemma put_name_keeps [simp]:
  "ds_held (put_name env n out s) = ds_held s" "ds_nets (put_name env n out s) = ds_nets s"
  "ds_serials (put_name env n out s) = ds_serials s" "ds_pending (put_name env n out s) = ds_pending s"
  by (simp_all add: put_name_def)

lemma addName_keeps [simp]:
  "ds_held (addName env e s) = ds_held s" "ds_nets (addName env e s) = ds_nets s"
  "ds_serials (addName env e s) = ds_serials s" "ds_pending (addName env e s) = ds_pending s"
  by (simp_all add: addName_def Let_def)

lemma dropName_keeps [simp]:
  "ds_held (dropName env e s) = ds_held s" "ds_nets (dropName env e s) = ds_nets s"
  "ds_serials (dropName env e s) = ds_serials s" "ds_pending (dropName env e s) = ds_pending s"
  by (simp_all add: dropName_def split: option.splits)

lemma dropView_keeps [simp]:
  "ds_held (dropView env v e s) = ds_held s" "ds_nets (dropView env v e s) = ds_nets s"
  "ds_serials (dropView env v e s) = ds_serials s" "ds_pending (dropView env v e s) = ds_pending s"
  by (simp_all add: dropView_def split: option.splits)

lemma backfill_keeps [simp]:
  "ds_held (backfill env ttl f s) = ds_held s" "ds_nets (backfill env ttl f s) = ds_nets s"
  "ds_serials (backfill env ttl f s) = ds_serials s" "ds_pending (backfill env ttl f s) = ds_pending s"
  unfolding backfill_def by (rule fold_keeps, rule fold_keeps, rule fold_keeps, simp split: prod.splits option.splits)+

lemma forget_views_keeps [simp]:
  "ds_held (forget_views env ttl f s) = ds_held s" "ds_nets (forget_views env ttl f s) = ds_nets s"
  "ds_serials (forget_views env ttl f s) = ds_serials s" "ds_pending (forget_views env ttl f s) = ds_pending s"
  unfolding forget_views_def by (rule fold_keeps, rule fold_keeps, rule fold_keeps, simp split: prod.splits)+

lemma render_zone_keeps [simp]:
  "ds_held (render_zone env ttl n s) = ds_held s" "ds_nets (render_zone env ttl n s) = ds_nets s"
  "ds_serials (render_zone env ttl n s) = ds_serials s" "ds_pending (render_zone env ttl n s) = ds_pending s"
  by (simp_all add: render_zone_def Let_def)

lemma zones_keep [simp]:
  "ds_held (enter env ttl ns h t n s) = ds_held s" "ds_nets (enter env ttl ns h t n s) = ds_nets s"
  "ds_pending (enter env ttl ns h t n s) = ds_pending s"
  "ds_held (leave env ttl ns h t n s) = ds_held s" "ds_nets (leave env ttl ns h t n s) = ds_nets s"
  "ds_pending (leave env ttl ns h t n s) = ds_pending s"
  "ds_held (dirty_zone z s) = ds_held s" "ds_nets (dirty_zone z s) = ds_nets s" "ds_pending (dirty_zone z s) = ds_pending s"
  by (simp_all add: enter_def leave_def dirty_zone_def Let_def split: option.splits)

lemma moved_keeps [simp]:
  "ds_held (moved i s) = ds_held s" "ds_nets (moved i s) = ds_nets s" "ds_pending (moved i s) = ds_pending s"
  unfolding moved_def by (rule fold_keeps, simp)+

lemma index_keeps [simp]:
  "ds_held (index env v p s) = ds_held s" "ds_nets (index env v p s) = ds_nets s"
  "ds_serials (index env v p s) = ds_serials s" "ds_pending (index env v p s) = ds_pending s"
  "ds_held (unindex env p s) = ds_held s" "ds_nets (unindex env p s) = ds_nets s"
  "ds_serials (unindex env p s) = ds_serials s" "ds_pending (unindex env p s) = ds_pending s"
  by (simp_all add: index_def unindex_def on_tree_def split: option.splits prod.splits)

lemma addresses_keep [simp]:
  "ds_held (addAddrs env o' i s) = ds_held s" "ds_nets (addAddrs env o' i s) = ds_nets s"
  "ds_serials (addAddrs env o' i s) = ds_serials s" "ds_pending (addAddrs env o' i s) = ds_pending s"
  "ds_held (dropAddrs env i s) = ds_held s" "ds_nets (dropAddrs env i s) = ds_nets s"
  "ds_serials (dropAddrs env i s) = ds_serials s" "ds_pending (dropAddrs env i s) = ds_pending s"
  "ds_held (dropPrefixes env i f s) = ds_held s" "ds_nets (dropPrefixes env i f s) = ds_nets s"
  "ds_serials (dropPrefixes env i f s) = ds_serials s" "ds_pending (dropPrefixes env i f s) = ds_pending s"
  unfolding addAddrs_def dropAddrs_def dropPrefixes_def
  by (rule fold_keeps, simp add: fold_keeps [where f = ds_held] fold_keeps [where f = ds_nets]
        fold_keeps [where f = ds_serials] fold_keeps [where f = ds_pending] split: prod.splits option.splits)+

lemma claims_keep [simp]:
  "ds_held (claim_key v k s) = ds_held s" "ds_serials (claim_key v k s) = ds_serials s"
  "ds_pending (claim_key v k s) = ds_pending s"
  "ds_held (fst (drop_claim k v s)) = ds_held s" "ds_serials (fst (drop_claim k v s)) = ds_serials s"
  "ds_pending (fst (drop_claim k v s)) = ds_pending s"
  by (simp_all add: claim_key_def drop_claim_def split: option.splits)

lemma claim_keeps [simp]:
  "ds_held (fst (claim ks v s)) = ds_held s" "ds_serials (fst (claim ks v s)) = ds_serials s"
  "ds_pending (fst (claim ks v s)) = ds_pending s"
  by (simp_all add: claim_def fold_keeps [where f = ds_held] fold_keeps [where f = ds_serials] fold_keeps [where f = ds_pending])

lemma claim_anon_keeps [simp]:
  "ds_held (fst (claim_anon o' ks s)) = ds_held s" "ds_serials (fst (claim_anon o' ks s)) = ds_serials s"
  "ds_pending (fst (claim_anon o' ks s)) = ds_pending s"
  by (induction ks arbitrary: s) (simp_all add: Let_def split_beta)

lemma view_keeps [simp]:
  "ds_held (fst (view i s)) = ds_held s" "ds_serials (fst (view i s)) = ds_serials s" "ds_pending (fst (view i s)) = ds_pending s"
  by (simp_all add: view_def Let_def split_beta)

lemma release_keeps [simp]:
  "ds_held (fst (release_keys o' ks s)) = ds_held s" "ds_serials (fst (release_keys o' ks s)) = ds_serials s"
  "ds_pending (fst (release_keys o' ks s)) = ds_pending s"
  by (induction ks arbitrary: s) (simp_all add: Let_def split_beta)

lemma step_keeps [simp]:
  "ds_held (step env ttl w s) = ds_held s" "ds_nets (step env ttl w s) = ds_nets s"
  "ds_pending (step env ttl w s) = ds_pending s"
  unfolding step_def by (rule fold_keeps, simp add: step_one_def Let_def)+

lemma apply_pending [simp]: "ds_pending (apply_inst env ttl key a s) = ds_pending s"
proof -
  have t: "ds_pending (take_out env ttl i s) = ds_pending s" for i s
    by (simp add: take_out_def release_views_def Let_def fold_keeps [where f = ds_pending] split_beta)
  have p: "ds_pending (put_in env ttl key i s) = ds_pending s" for i s
    by (simp add: put_in_def Let_def fold_keeps [where f = ds_pending] split_beta)
  show ?thesis by (simp add: apply_inst_def t p Let_def split: option.splits)
qed

lemma apply_held [simp]:
  "ds_held (apply_inst env ttl key a s) =
     (case a of None \<Rightarrow> AList.delete key (ds_held s) | Some i \<Rightarrow> AList.update key i (ds_held s))"
proof -
  have t: "ds_held (take_out env ttl i s) = ds_held s" for i s
    by (simp add: take_out_def release_views_def Let_def fold_keeps [where f = ds_held] split_beta)
  have p: "ds_held (put_in env ttl key i s) = AList.update key i (ds_held s)" for i s
    by (simp add: put_in_def Let_def fold_keeps [where f = ds_held] split_beta)
  show ?thesis by (simp add: apply_inst_def t p Let_def split: option.splits)
qed

subsection \<open>What every step of the plugin keeps\<close>

definition fit_input :: "(event \<Rightarrow> bool) \<Rightarrow> dns_in \<Rightarrow> bool" where
  "fit_input fit x = (case x of DHandle ev \<Rightarrow> fit ev | _ \<Rightarrow> True)"

definition carries :: "(('n, 'z, 'a) dstate \<Rightarrow> bool) \<Rightarrow> (dinst \<Rightarrow> bool) \<Rightarrow> (event \<Rightarrow> bool) \<Rightarrow> ('n, 'z, 'a) dns \<Rightarrow> bool" where
  \<comment> \<open>A property of the working state, with what is still to reach it fit to.\<close>
  "carries I fits fit p \<longleftrightarrow>
     I (dn_state p) \<and> all_vals (pred_option fits) (ds_pending (dn_state p)) \<and> list_all fit (dn_inbox p)"

lemma write_keeps:
  assumes pend: "\<And>s pd. I s \<Longrightarrow> I (s\<lparr>ds_pending := pd\<rparr>)"
    and move: "\<And>s key a. I s \<Longrightarrow> pred_option fits a \<Longrightarrow> I (apply_inst env ttl key a s)"
    and "I s" "all_vals (pred_option fits) (ds_pending s)"
  shows "I (fst (dns_write env ttl s)) \<and> all_vals (pred_option fits) (ds_pending (fst (dns_write env ttl s)))"
proof -
  have one: "I (fst (write_one env ttl e r)) \<and> all_vals (pred_option fits) (ds_pending (fst (write_one env ttl e r)))"
    if "pred_option fits (snd e)" "I (fst r)" "all_vals (pred_option fits) (ds_pending (fst r))" for e r
    using that by (auto simp: write_one_def split_beta Let_def intro!: pend move split: option.splits)
  have "list_all (\<lambda>e. pred_option fits (snd e)) es \<Longrightarrow> I (fst r) \<Longrightarrow> all_vals (pred_option fits) (ds_pending (fst r)) \<Longrightarrow>
      I (fst (fold (write_one env ttl) es r)) \<and> all_vals (pred_option fits) (ds_pending (fst (fold (write_one env ttl) es r)))" for es r
    by (induction es arbitrary: r) (simp_all add: one)
  moreover have "list_all (\<lambda>e. pred_option fits (snd e)) (ds_pending s)"
    using assms(4) by (auto simp: all_vals_def list_all_iff)
  ultimately show ?thesis using assms(3,4) unfolding dns_write_def by auto
qed

lemma dns_run_keeps:
  assumes pend: "\<And>s pd. I s \<Longrightarrow> I (s\<lparr>ds_pending := pd\<rparr>)"
    and move: "\<And>s key a. I s \<Longrightarrow> pred_option fits a \<Longrightarrow> I (apply_inst env (dc_ttl cfg) key a s)"
    and settle: "\<And>s w. I s \<Longrightarrow> I (step env (dc_ttl cfg) w s)"
    and patch: "\<And>ev i. fit ev \<Longrightarrow> patchInstance env ev (dc_suffix cfg) = Some i \<Longrightarrow> fits i"
    and start: "carries I fits fit p" and ins: "list_all (fit_input fit) ins"
  shows "carries I fits fit (fst (dns_run env cfg ins p))"
proof -
  let ?J = "carries I fits fit"
  have st: "?J (p\<lparr>dn_state := s\<rparr>)" if "?J p" "I s" "all_vals (pred_option fits) (ds_pending s)" for p s
    using that by (simp add: carries_def)
  have pd: "?J (pend key a p)" if "?J p" "pred_option fits a" for key a p
    using that pend by (simp add: carries_def pend_def)
  have pub: "?J (fst (publish env cfg p))" if "?J p" for p
    using that settle by (simp add: carries_def publish_def Let_def)
  have wr: "?J (p\<lparr>dn_state := fst (dns_write env (dc_ttl cfg) (dn_state p))\<rparr>)" if "?J p" for p
    using that write_keeps [of I fits env "dc_ttl cfg" "dn_state p", OF pend move] by (simp add: carries_def)
  have out: "?J (fst (write_out env cfg p))" if "?J p" for p
    using wr [OF that] pub [OF wr [OF that]] by (simp add: write_out_def split_beta Let_def)
  have subject: "?J (fold_subject env cfg ev p)" if "?J p" "fit ev" for ev p
    using that patch [OF that(2)] by (auto simp: fold_subject_def Let_def pd split: option.splits)
  have fold: "?J (fst (dns_fold env cfg e p))" if "?J p" "fit (snd e)" for e p
  proof -
    have c: "?J (p\<lparr>dn_chain := c\<rparr>)" for c using that(1) by (simp add: carries_def)
    have "?J (fst (fold_body env cfg (snd e) p))"
      using c [of "ev_chain (snd e)"] pub [OF wr [OF c]] subject [OF c that(2)]
      by (simp add: fold_body_def rounded_def Let_def split_beta carries_def)
    then show ?thesis by (simp add: dns_fold_def announce_def split_beta Let_def carries_def)
  qed
  have folds: "?J (fst (run_steps (dns_fold env cfg) es p))" if "?J p" "list_all (fit \<circ> snd) es" for es p
    using that by (induction es arbitrary: p) (simp_all add: fold del: run_steps.simps(2))
  have "?J (fst (dns_step env cfg x p))" if "?J p" "fit_input fit x" for x p
  proof (cases x)
    case (DInbox heard)
    show ?thesis
    proof (cases "dn_inbox p")
      case (Cons ev rest)
      have "?J (fst (dns_fold env cfg (heard, ev) (p\<lparr>dn_inbox := rest\<rparr>)))"
        by (rule fold) (use that(1) Cons in \<open>simp_all add: carries_def\<close>)
      then show ?thesis using that(1) DInbox Cons by (simp add: carries_def split_beta Let_def)
    qed (use that(1) DInbox in simp)
  next
    case DWindow
    have "?J (p\<lparr>dn_window := False\<rparr>)" using that by (simp add: carries_def)
    from out [OF this] show ?thesis using that DWindow by simp
  next
    case (DCommand cmd heard)
    define es where "es = zip (heard @ replicate (length (dn_inbox p)) False) (dn_inbox p)"
    have "list_all (fit \<circ> snd) es" using that(1) by (auto simp: es_def carries_def list_all_iff dest: set_zip_rightD)
    then have "?J (fst (write_out env cfg (fst (run_steps (dns_fold env cfg) es (p\<lparr>dn_inbox := []\<rparr>)))))"
      by (intro out folds) (use that(1) in \<open>simp_all add: carries_def\<close>)
    then show ?thesis using that DCommand by (simp add: es_def split_beta Let_def carries_def)
  qed (use that in \<open>simp_all add: dns_Handle_def carries_def fit_input_def\<close>)
  then show ?thesis using start ins unfolding dns_run_def
    by (induction ins arbitrary: p) (simp_all del: run_steps.simps(2))
qed

subsection \<open>Counting what is held\<close>

definition of_opt :: "('i \<Rightarrow> 'k \<Rightarrow> int) \<Rightarrow> 'i option \<Rightarrow> 'k \<Rightarrow> int" where
  "of_opt weight a k = (case a of None \<Rightarrow> 0 | Some i \<Rightarrow> weight i k)"

lemma of_opt_simps [simp]: "of_opt weight None k = 0" "of_opt weight (Some i) k = weight i k"
  by (simp_all add: of_opt_def)

definition exact ::
  "('s \<Rightarrow> (string \<times> 'i) list) \<Rightarrow> ('s \<Rightarrow> 'k \<Rightarrow> int) \<Rightarrow> ('i \<Rightarrow> 'k \<Rightarrow> int) \<Rightarrow> ('i \<Rightarrow> bool) \<Rightarrow> ('s \<Rightarrow> bool) \<Rightarrow> 's \<Rightarrow> bool" where
  \<comment> \<open>Every num is the sum of what the entries held weigh.\<close>
  "exact held num weight fits sound s \<longleftrightarrow>
     sound s \<and> distinct (map fst (held s)) \<and> all_vals fits (held s)
     \<and> (\<forall>k. num s k = tally (\<lambda>i. weight i k) (held s))"

text \<open>
  A store that counts what it holds: moving one entry takes back what the old one
  weighed, where the num covers it, and adds what the new one weighs.
\<close>

locale counted =
  fixes held :: "'s \<Rightarrow> (string \<times> 'i) list" and num :: "'s \<Rightarrow> 'k \<Rightarrow> int" and weight :: "'i \<Rightarrow> 'k \<Rightarrow> int"
    and fits :: "'i \<Rightarrow> bool" and sound :: "'s \<Rightarrow> bool" and move :: "string \<Rightarrow> 'i option \<Rightarrow> 's \<Rightarrow> 's"
  assumes weight_nonneg: "0 \<le> weight i k"
    and move_held: "held (move key a s) = (case a of None \<Rightarrow> AList.delete key (held s) | Some i \<Rightarrow> AList.update key i (held s))"
    and move_count: "sound s \<Longrightarrow> pred_option fits (map_of (held s) key) \<Longrightarrow> pred_option fits a
      \<Longrightarrow> (\<And>k. of_opt weight (map_of (held s) key) k \<le> num s k)
      \<Longrightarrow> sound (move key a s)
        \<and> (\<forall>k. num (move key a s) k = num s k - of_opt weight (map_of (held s) key) k + of_opt weight a k)"
begin

lemma move_exact:
  assumes "exact held num weight fits sound s" "pred_option fits a"
  shows "exact held num weight fits sound (move key a s)"
proof -
  have d: "distinct (map fst (held s))" and f: "all_vals fits (held s)" and s: "sound s"
    and c: "num s k = tally (\<lambda>i. weight i k) (held s)" for k
    using assms(1) by (simp_all add: exact_def)
  have prev: "pred_option fits (map_of (held s) key)"
    using f by (cases "map_of (held s) key") (auto dest: all_vals_lookup)
  have "of_opt weight (map_of (held s) key) k \<le> num s k" for k
    using tally_ge [of "\<lambda>i. weight i k", OF weight_nonneg] tally_nonneg [of "\<lambda>i. weight i k", OF weight_nonneg]
    by (cases "map_of (held s) key") (simp_all add: c)
  note m = move_count [OF s prev assms(2) this]
  have del: "tally (\<lambda>i. weight i k) (AList.delete key (held s))
      = num s k - of_opt weight (map_of (held s) key) k" for k
    using tally_delete [OF d, of key] by (cases "map_of (held s) key") (simp_all add: c delete_absent)
  show ?thesis
    using m d f assms(2) tally_update [OF d] del by (cases a) (simp_all add: exact_def move_held)
qed

lemma count_pos:
  "exact held num weight fits sound s \<Longrightarrow> 0 < num s k \<longleftrightarrow> (\<exists>e \<in> set (held s). 0 < weight (snd e) k)"
  using tally_pos [of "\<lambda>i. weight i k" "held s", OF weight_nonneg] by (simp add: exact_def)

end

subsection \<open>Views\<close>

definition claims :: "('n, 'z, 'a) dstate \<Rightarrow> string \<Rightarrow> string \<Rightarrow> int" where
  "claims s key vid = count_of (over s key) vid"

definition positive :: "('n, 'z, 'a) dstate \<Rightarrow> bool" where
  \<comment> \<open>Only views something claims are kept.\<close>
  "positive s \<longleftrightarrow> (\<forall>key. distinct (map fst (over s key)) \<and> all_vals (\<lambda>n. 0 < n) (over s key))"

lemma over_nets: "ds_nets s = ds_nets s' \<Longrightarrow> over s = over s'"
  by (simp add: over_def fun_eq_iff)

lemma claims_nets: "ds_nets s = ds_nets s' \<Longrightarrow> claims s = claims s' \<and> positive s = positive s'"
  by (simp add: claims_def positive_def over_nets [of s s'] fun_eq_iff)

lemma over_simps [simp]:
  "over (s\<lparr>ds_nets := AList.update k m (ds_nets s)\<rparr>) k' = (if k' = k then m else over s k')"
  "over (s\<lparr>ds_nets := AList.delete k (ds_nets s)\<rparr>) k' = (if k' = k then [] else over s k')"
  by (simp_all add: over_def)

lemma count_simps [simp]:
  "count_of (AList.update v n m) v' = (if v' = v then n else count_of m v')"
  "count_of (AList.delete v m) v' = (if v' = v then 0 else count_of m v')"
  "count_of [] v = 0"
  by (simp_all add: count_of_def)

lemma count_nonneg: "all_vals (\<lambda>n. 0 < n) m \<Longrightarrow> 0 \<le> count_of m v"
  by (auto simp: count_of_def dest: all_vals_lookup split: option.splits)

lemma claims_nonneg: "positive s \<Longrightarrow> 0 \<le> claims s k v"
  by (simp add: positive_def claims_def count_nonneg)

lemma claim_key_claims:
  assumes "positive s"
  shows "claims (claim_key v k s) k' v' = claims s k' v' + of_bool (k' = k \<and> v' = v)" "positive (claim_key v k s)"
proof -
  show "claims (claim_key v k s) k' v' = claims s k' v' + of_bool (k' = k \<and> v' = v)"
    by (simp add: claims_def claim_key_def)
  have "0 \<le> count_of (over s k) v" using claims_nonneg [OF assms] by (simp add: claims_def)
  then show "positive (claim_key v k s)" using assms by (simp add: positive_def claim_key_def)
qed

lemma claim_claims:
  "positive s \<Longrightarrow> distinct ks \<Longrightarrow>
     claims (fst (claim ks v s)) k' v' = claims s k' v' + of_bool (k' \<in> set ks \<and> v' = v) \<and> positive (fst (claim ks v s))"
proof -
  have "positive s \<Longrightarrow> distinct ks \<Longrightarrow> claims (fold (claim_key v) ks s) k' v' = claims s k' v' + of_bool (k' \<in> set ks \<and> v' = v)
      \<and> positive (fold (claim_key v) ks s)"
    by (induction ks arbitrary: s) (auto simp: claim_key_claims)
  then show "positive s \<Longrightarrow> distinct ks \<Longrightarrow> ?thesis" by (simp add: claim_def)
qed

lemma claim_anon_claims:
  "positive s \<Longrightarrow> distinct ks \<Longrightarrow>
     claims (fst (claim_anon own ks s)) k' v' = claims s k' v' + of_bool (k' \<in> set ks \<and> v' = ViewOf [k'])
     \<and> positive (fst (claim_anon own ks s))"
  by (induction ks arbitrary: s) (auto simp: Let_def split_beta claim_claims)

definition sees :: "dinst \<Rightarrow> string \<Rightarrow> string \<Rightarrow> int" where
  \<comment> \<open>How often one instance claims a view over a network.\<close>
  "sees i key vid = of_bool (key \<in> set (netKeys i) \<and> vid = ViewOf (netKeys i)) + of_bool (key \<in> set (netKeys i) \<and> vid = ViewOf [key])"

definition wf_dinst :: "dinst \<Rightarrow> bool" where
  "wf_dinst i \<longleftrightarrow> distinct (map fst (di_nets i))"

lemma view_claims:
  assumes "positive s" "wf_dinst i"
  shows "claims (fst (view i s)) k v = claims s k v + sees i k v" "positive (fst (view i s))"
proof -
  have d: "distinct (netKeys i)" using assms(2) by (simp add: netKeys_def wf_dinst_def)
  note c = claim_claims [OF assms(1) d, where v = "ViewOf (netKeys i)"]
  show "claims (fst (view i s)) k v = claims s k v + sees i k v" "positive (fst (view i s))"
    using c claim_anon_claims [of "fst (claim (netKeys i) (ViewOf (netKeys i)) s)" "netKeys i"] d
    by (simp_all add: view_def Let_def split_beta sees_def)
qed

lemma drop_claims:
  assumes "positive s" "1 \<le> claims s k v"
  shows "claims (fst (drop_claim k v s)) k' v' = claims s k' v' - of_bool (k' = k \<and> v' = v)"
    and "positive (fst (drop_claim k v s))"
proof -
  obtain m where m: "map_of (ds_nets s) k = Some m" "over s k = m"
    using assms(2) by (auto simp: claims_def over_def split: option.splits)
  show "claims (fst (drop_claim k v s)) k' v' = claims s k' v' - of_bool (k' = k \<and> v' = v)"
    using assms(2) m by (auto simp: claims_def drop_claim_def)
  show "positive (fst (drop_claim k v s))"
    using assms(1) m by (auto simp: positive_def drop_claim_def)
qed

lemma release_claims:
  assumes "positive s" "distinct ks"
    and "\<And>k v. of_bool (k \<in> set ks \<and> v = own) + of_bool (k \<in> set ks \<and> v = ViewOf [k]) \<le> claims s k v"
  shows "claims (fst (release_keys own ks s)) k' v' =
      claims s k' v' - (of_bool (k' \<in> set ks \<and> v' = own) + of_bool (k' \<in> set ks \<and> v' = ViewOf [k']))
    \<and> positive (fst (release_keys own ks s))"
  using assms
proof (induction ks arbitrary: s)
  case (Cons k ks)
  let ?s1 = "fst (drop_claim k own s)"
  let ?s2 = "fst (drop_claim k (ViewOf [k]) ?s1)"
  let ?s3 = "if over ?s2 k = [] then ?s2\<lparr>ds_nets := AList.delete k (ds_nets ?s2)\<rparr> else ?s2"
  have one: "1 \<le> claims s k own" using Cons.prems(3) [of k own] by (cases "own = ViewOf [k]") simp_all
  note d1 = drop_claims [OF Cons.prems(1) one]
  have two: "1 \<le> claims ?s1 k (ViewOf [k])"
    using Cons.prems(3) [of k "ViewOf [k]"] d1(1) [of k "ViewOf [k]"] by (cases "own = ViewOf [k]") auto
  note d2 = drop_claims [OF d1(2) two]
  have c3: "claims ?s3 a b = claims s a b - (of_bool (a = k \<and> b = own) + of_bool (a = k \<and> b = ViewOf [k]))" for a b
  proof -
    have "claims ?s3 a b = claims ?s2 a b" by (auto simp: claims_def)
    then show ?thesis by (simp add: d1(1) d2(1))
  qed
  have p3: "positive ?s3" using d2(2) by (auto simp: positive_def)
  have "claims (fst (release_keys own ks ?s3)) k' v' =
      claims ?s3 k' v' - (of_bool (k' \<in> set ks \<and> v' = own) + of_bool (k' \<in> set ks \<and> v' = ViewOf [k']))
      \<and> positive (fst (release_keys own ks ?s3))"
  proof (rule Cons.IH [OF p3])
    show "of_bool (a \<in> set ks \<and> b = own) + of_bool (a \<in> set ks \<and> b = ViewOf [a]) \<le> claims ?s3 a b" for a b
      using Cons.prems(3) [of a b] Cons.prems(2) unfolding c3 by (cases "a = k") auto
  qed (use Cons.prems(2) in simp)
  moreover have "fst (release_keys own (k # ks) s) = fst (release_keys own ks ?s3)"
    by (simp add: Let_def split_beta)
  ultimately show ?case using Cons.prems(2) unfolding c3 by auto
qed simp


lemma sees_nonneg: "0 \<le> sees i k v"
  by (simp add: sees_def)

lemma take_out_views:
  assumes "positive s" "wf_dinst i" "\<And>k v. sees i k v \<le> claims s k v"
  shows "positive (take_out env ttl i s)" "claims (take_out env ttl i s) k v = claims s k v - sees i k v"
proof -
  let ?pre = "dropAddrs env i (fold (\<lambda>name s. leave env ttl [] False False (alias_zone s name) s) (di_alias i)
      (fold (\<lambda>(_, on). leave env ttl (di_ns i) True (di_transfer i) (snd on)) (di_ptrs i)
        (fold (\<lambda>_. leave env ttl (di_ns i) True (di_transfer i) (di_zone i)) (di_names i)
          (moved i (fold (dropName env) (contributions s i ttl) s)))))"
  let ?r = "release_views i ?pre"
  have pre: "ds_nets ?pre = ds_nets s"
    by (simp add: fold_keeps [where f = ds_nets] split: prod.splits)
  have out: "take_out env ttl i s = dropPrefixes env i (fst (snd ?r)) (forget_views env ttl (snd (snd ?r)) (fst ?r))"
    by (simp add: take_out_def Let_def split_beta)
  have w: "distinct (netKeys i)"
    using assms(2) by (simp add: netKeys_def wf_dinst_def)
  have r: "claims (fst ?r) k v = claims s k v - sees i k v \<and> positive (fst ?r)" for k v
    using release_claims [of ?pre "netKeys i" "ViewOf (netKeys i)" k v] w assms claims_nets [OF pre]
    unfolding release_views_def sees_def by simp
  show "positive (take_out env ttl i s)" "claims (take_out env ttl i s) k v = claims s k v - sees i k v"
    using r claims_nets [of "take_out env ttl i s" "fst ?r"] unfolding out by simp_all
qed

lemma put_in_views:
  assumes "positive s" "wf_dinst i"
  shows "positive (put_in env ttl key i s)" "claims (put_in env ttl key i s) k v = claims s k v + sees i k v"
proof -
  have n: "ds_nets (put_in env ttl key i s) = ds_nets (fst (view i s))"
    by (simp add: put_in_def Let_def split_beta fold_keeps [where f = ds_nets])
  show "positive (put_in env ttl key i s)" "claims (put_in env ttl key i s) k v = claims s k v + sees i k v"
    using view_claims [OF assms] claims_nets [OF n] by simp_all
qed


abbreviation views_exact :: "('n, 'z, 'a) dstate \<Rightarrow> bool" where
  "views_exact \<equiv> exact ds_held (\<lambda>s kv. claims s (fst kv) (snd kv)) (\<lambda>i kv. sees i (fst kv) (snd kv)) wf_dinst positive"

interpretation view_counts:
  counted ds_held "\<lambda>s kv. claims s (fst kv) (snd kv)" "\<lambda>i kv. sees i (fst kv) (snd kv)" wf_dinst positive "apply_inst env ttl"
  for env :: "('n, 'z, 'a) dns_env" and ttl :: nat
proof unfold_locales
  fix s :: "('n, 'z, 'a) dstate" and key a
  assume s: "positive s" and prev: "pred_option wf_dinst (map_of (ds_held s) key)" and a: "pred_option wf_dinst a"
    and cover: "\<And>kv. of_opt (\<lambda>i kv. sees i (fst kv) (snd kv)) (map_of (ds_held s) key) kv \<le> claims s (fst kv) (snd kv)"
  define s1 where "s1 = (case map_of (ds_held s) key of None \<Rightarrow> s | Some prev \<Rightarrow> take_out env ttl prev s)"
  have s1: "positive s1
      \<and> (\<forall>k v. claims s1 k v = claims s k v - of_opt (\<lambda>i kv. sees i (fst kv) (snd kv)) (map_of (ds_held s) key) (k, v))"
  proof (cases "map_of (ds_held s) key")
    case (Some i)
    have "sees i k v \<le> claims s k v" for k v using cover [of "(k, v)"] Some by simp
    then show ?thesis using take_out_views [OF s, of i] prev Some by (simp add: s1_def)
  qed (simp add: s1_def s)
  have h: "claims (s1\<lparr>ds_held := h\<rparr>) = claims s1" "positive (s1\<lparr>ds_held := h\<rparr>) = positive s1" for h
    using claims_nets [of "s1\<lparr>ds_held := h\<rparr>" s1] by simp_all
  show "positive (apply_inst env ttl key a s) \<and> (\<forall>kv. claims (apply_inst env ttl key a s) (fst kv) (snd kv) =
      claims s (fst kv) (snd kv) - of_opt (\<lambda>i kv. sees i (fst kv) (snd kv)) (map_of (ds_held s) key) kv
      + of_opt (\<lambda>i kv. sees i (fst kv) (snd kv)) a kv)"
    using s1 a put_in_views [of s1] h by (cases a) (simp_all add: apply_inst_def s1_def [symmetric] Let_def)
qed (simp_all add: sees_nonneg)

lemma patch_wf: "patchInstance env ev sfx = Some i \<Longrightarrow> wf_dinst i"
proof -
  have "distinct (map fst (fold (sits_step x) ifs out))" if "distinct (map fst out)" for x ifs out
    using that by (induction ifs arbitrary: out) (simp_all add: sits_step_def Let_def)
  then show "patchInstance env ev sfx = Some i \<Longrightarrow> wf_dinst i"
    by (auto simp: patchInstance_def wf_dinst_def sitsOn_def Let_def split: if_splits option.splits)
qed

lemma start_views: "views_exact (newState env serials)"
  by (simp add: exact_def newState_def positive_def over_def claims_def all_vals_def)

lemma run_views: "views_exact (dn_state (fst (dns_run env cfg ins (dns_new env cold))))"
proof -
  let ?fit = "\<lambda>ev. True"
  have nets: "views_exact s' = views_exact s" if "ds_nets s' = ds_nets s" "ds_held s' = ds_held s" for s s'
    using that claims_nets [OF that(1)] by (simp add: exact_def)
  have "carries views_exact wf_dinst ?fit (fst (dns_run env cfg ins (dns_new env cold)))"
  proof (rule dns_run_keeps)
    show "carries views_exact wf_dinst ?fit (dns_new env cold)"
      using start_views by (simp add: carries_def dns_new_def) (simp add: newState_def all_vals_def)
    show "list_all (fit_input ?fit) ins" by (simp add: list_all_iff fit_input_def split: dns_in.splits)
    show "views_exact (apply_inst env (dc_ttl cfg) key a s)" if "views_exact s" "pred_option wf_dinst a" for s key a
      using that by (rule view_counts.move_exact)
    show "views_exact (s\<lparr>ds_pending := pd\<rparr>)" if "views_exact s" for s pd
      using that by (subst nets [of _ s]) simp_all
    show "views_exact (step env (dc_ttl cfg) w s)" if "views_exact s" for s w
      using that by (subst nets [of _ s]) simp_all
  qed (rule patch_wf)
  then show ?thesis by (simp add: carries_def)
qed

text \<open>
  C6.  A view is exactly what the instances held make it.  Whatever the plugin is
  told and however its steps interleave, the views over a network are those of
  the instances on it and that network's own, each once, and a network nothing is
  on has none: no view is kept alive by an instance that went, and none is lost
  while an instance still queries from it.
\<close>

theorem views_are_those_of_the_held:
  "let s = dn_state (fst (dns_run env cfg ins (dns_new env cold)))
   in set (views s k) = {v. \<exists>i \<in> snd ` set (ds_held s). k \<in> set (netKeys i) \<and> (v = ViewOf (netKeys i) \<or> v = ViewOf [k])}
      \<and> distinct (views s k)"
proof -
  define s where "s = dn_state (fst (dns_run env cfg ins (dns_new env cold)))"
  have ok: "views_exact s" unfolding s_def by (rule run_views)
  have p: "distinct (map fst (over s k))" "all_vals (\<lambda>n. 0 < n) (over s k)"
    using ok by (simp_all add: exact_def positive_def)
  have "v \<in> set (views s k) \<longleftrightarrow> 0 < claims s k v" for v
  proof -
    have "v \<in> set (views s k) \<longleftrightarrow> map_of (over s k) v \<noteq> None"
      by (simp add: views_def map_of_eq_None_iff)
    then show ?thesis using p(2) by (auto simp: claims_def count_of_def dest: all_vals_lookup split: option.splits)
  qed
  moreover have "0 < claims s k v \<longleftrightarrow> (\<exists>e \<in> set (ds_held s). 0 < sees (snd e) k v)" for v
    using view_counts.count_pos [OF ok, of "(k, v)"] by simp
  moreover have "0 < sees i k v \<longleftrightarrow> k \<in> set (netKeys i) \<and> (v = ViewOf (netKeys i) \<or> v = ViewOf [k])" for i v
    by (auto simp: sees_def)
  ultimately show ?thesis using p(1) unfolding s_def [symmetric] by (auto simp: views_def Let_def)
qed

end
