(* ===== verification/DnsZones.thy ===== *)
theory DnsZones
  imports DnsViews
begin

text \<open>
  Zones in the DNS state: the names counted into each are those of the instances
  held, where no alias is claimed; a publish steps exactly what moved, and what
  happens to the serials a previous run left.
\<close>

subsection \<open>Counts of a zone\<close>

datatype zcount = Names string | Hosts string | Transfers string | Server string string

definition znum :: "('n, 'z, 'a) dstate \<Rightarrow> zcount \<Rightarrow> int" where
  "znum s k =
     (case k of
        Names z \<Rightarrow> zs_names (serial_of s z)
      | Hosts z \<Rightarrow> zs_hosts (serial_of s z)
      | Transfers z \<Rightarrow> zs_transfers (serial_of s z)
      | Server z n \<Rightarrow> count_of (zs_ns (serial_of s z)) n)"

definition bump :: "string list \<Rightarrow> bool \<Rightarrow> bool \<Rightarrow> string \<Rightarrow> zcount \<Rightarrow> int" where
  \<comment> \<open>What one name adds to the counts.\<close>
  "bump ns host transfer zone k =
     (case k of
        Names z \<Rightarrow> of_bool (z = zone)
      | Hosts z \<Rightarrow> of_bool (z = zone \<and> host)
      | Transfers z \<Rightarrow> of_bool (z = zone \<and> transfer)
      | Server z n \<Rightarrow> (if z = zone then int (count_list ns n) else 0))"

definition zones_in :: "dinst \<Rightarrow> string list" where
  \<comment> \<open>The zone of every name an instance answers to.\<close>
  "zones_in i = map (\<lambda>_. di_zone i) (di_names i) @ map (snd \<circ> snd) (di_ptrs i)"

definition zweight :: "dinst \<Rightarrow> zcount \<Rightarrow> int" where
  "zweight i k = sum_list (map (\<lambda>z. bump (di_ns i) True (di_transfer i) z k) (zones_in i))"

definition ns_sound :: "(string \<times> int) list \<Rightarrow> bool" where
  "ns_sound m \<longleftrightarrow> distinct (map fst m) \<and> all_vals (\<lambda>n. 0 < n) m"

definition zsound :: "('n, 'z, 'a) dstate \<Rightarrow> bool" where
  "zsound s \<longleftrightarrow> distinct (map fst (ds_serials s)) \<and> all_vals (\<lambda>h. ns_sound (zs_ns h)) (ds_serials s)"

lemma serial_of_simps [simp]:
  "serial_of (s\<lparr>ds_serials := AList.update z h (ds_serials s)\<rparr>) z' = (if z' = z then h else serial_of s z')"
  "serial_of (s\<lparr>ds_serials := AList.delete z (ds_serials s)\<rparr>) z' = (if z' = z then new_serial else serial_of s z')"
  by (simp_all add: serial_of_def)

lemma serials_same: "ds_serials s = ds_serials s' \<Longrightarrow> znum s = znum s' \<and> zsound s = zsound s' \<and> serial_of s = serial_of s'"
  by (simp add: znum_def zsound_def serial_of_def fun_eq_iff cong: zcount.case_cong)

lemma serials_num: "ds_serials s = ds_serials s' \<Longrightarrow> znum s = znum s'"
  and serials_sound: "ds_serials s = ds_serials s' \<Longrightarrow> zsound s = zsound s'"
  using serials_same [of s s'] by simp_all

lemma serial_render [simp]: "serial_of (render_zone env ttl n s) = serial_of s" "zsound (render_zone env ttl n s) = zsound s"
  by (simp_all add: serials_same [of "render_zone env ttl n s" s])

lemma bump_nonneg: "0 \<le> bump ns h t z k"
  by (simp add: bump_def split: zcount.splits)

lemma zweight_nonneg: "0 \<le> zweight i k"
  unfolding zweight_def by (rule sum_list_nonneg) (auto simp: bump_nonneg)

lemma ns_sound_of: "zsound s \<Longrightarrow> ns_sound (zs_ns (serial_of s z))"
  by (auto simp: zsound_def serial_of_def new_serial_def ns_sound_def dest: all_vals_lookup split: option.splits)

lemma ns_up_counts:
  "ns_sound m \<Longrightarrow> ns_sound (fold ns_up ns m) \<and> count_of (fold ns_up ns m) n = count_of m n + int (count_list ns n)"
proof (induction ns arbitrary: m)
  case (Cons x xs)
  have "0 \<le> count_of m x" using Cons.prems by (simp add: ns_sound_def count_nonneg)
  then have "ns_sound (ns_up x m)" using Cons.prems by (simp add: ns_sound_def ns_up_def)
  then show ?case using Cons.IH [of "ns_up x m"] by (simp add: ns_up_def)
qed simp

lemma ns_down_counts:
  "ns_sound m \<Longrightarrow> (\<And>n. int (count_list ns n) \<le> count_of m n) \<Longrightarrow>
     ns_sound (fold ns_down ns m) \<and> count_of (fold ns_down ns m) n = count_of m n - int (count_list ns n)"
proof (induction ns arbitrary: m)
  case (Cons x xs)
  have down: "count_of (ns_down x m) n = count_of m n - of_bool (n = x)" for n
    using Cons.prems(2) [of x] by (simp add: ns_down_def Let_def)
  have "ns_sound (ns_down x m)" using Cons.prems(1) by (simp add: ns_sound_def ns_down_def Let_def)
  moreover have "int (count_list xs n) \<le> count_of (ns_down x m) n" for n
    using Cons.prems(2) [of n] by (auto simp: down)
  ultimately show ?case using Cons.IH [of "ns_down x m"] by (simp add: down)
qed simp

lemma enter_counts:
  assumes "zsound s"
  shows "zsound (enter env ttl ns h t z s)" "znum (enter env ttl ns h t z s) k = znum s k + bump ns h t z k"
  using ns_up_counts [OF ns_sound_of [OF assms, of z], of ns] assms
  by (auto simp: enter_def Let_def zsound_def znum_def bump_def split: zcount.splits)

lemma leave_counts:
  assumes "zsound s" and cover: "\<And>k. bump ns h t z k \<le> znum s k"
  shows "zsound (leave env ttl ns h t z s)" "znum (leave env ttl ns h t z s) k = znum s k - bump ns h t z k"
proof -
  have "1 \<le> zs_names (serial_of s z)" using cover [of "Names z"] by (simp add: znum_def bump_def)
  then obtain held where held: "map_of (ds_serials s) z = Some held" "serial_of s z = held"
    by (auto simp: serial_of_def new_serial_def split: option.splits)
  have "int (count_list ns n) \<le> count_of (zs_ns held) n" for n
    using cover [of "Server z n"] held by (simp add: znum_def bump_def)
  note d = ns_down_counts [OF ns_sound_of [OF assms(1), of z], of ns] 
  show "zsound (leave env ttl ns h t z s)" "znum (leave env ttl ns h t z s) k = znum s k - bump ns h t z k"
    using d \<open>\<And>n. int (count_list ns n) \<le> count_of (zs_ns held) n\<close> held assms(1)
    by (auto simp: leave_def Let_def zsound_def znum_def bump_def split: zcount.splits)
qed

lemma enter_all_counts:
  "zsound s \<Longrightarrow> zsound (fold (enter env ttl ns h t) zs s)
     \<and> znum (fold (enter env ttl ns h t) zs s) k = znum s k + sum_list (map (\<lambda>z. bump ns h t z k) zs)"
  by (induction zs arbitrary: s) (simp_all add: enter_counts)

lemma leave_all_counts:
  "zsound s \<Longrightarrow> (\<And>k. sum_list (map (\<lambda>z. bump ns h t z k) zs) \<le> znum s k) \<Longrightarrow>
     zsound (fold (leave env ttl ns h t) zs s)
     \<and> znum (fold (leave env ttl ns h t) zs s) k = znum s k - sum_list (map (\<lambda>z. bump ns h t z k) zs)"
proof (induction zs arbitrary: s)
  case (Cons z zs)
  have nn: "0 \<le> sum_list (map (\<lambda>z. bump ns h t z k) zs)" for k
    by (rule sum_list_nonneg) (auto simp: bump_nonneg)
  have c: "bump ns h t z k \<le> znum s k" for k using Cons.prems(2) [of k] nn [of k] by simp
  note l = leave_counts [OF Cons.prems(1) c, where env = env and ttl = ttl]
  show ?case using Cons.IH [OF l(1)] Cons.prems(2) by (simp add: l(2) algebra_simps)
qed simp

lemma dirty_num [simp]: "znum (dirty_zone z s) = znum s"
proof -
  have "znum (dirty_zone z s) k = znum s k" for k
    by (auto simp: znum_def dirty_zone_def serial_of_def split: zcount.splits option.splits)
  then show ?thesis by (simp add: fun_eq_iff)
qed

lemma dirty_sound: "zsound s \<Longrightarrow> zsound (dirty_zone z s)"
  using all_vals_lookup [of "\<lambda>h. ns_sound (zs_ns h)" "ds_serials s" z]
  by (auto simp: zsound_def dirty_zone_def split: option.splits)

lemma moved_counts: "znum (moved i s) = znum s" "zsound s \<Longrightarrow> zsound (moved i s)"
proof -
  show "znum (moved i s) = znum s" unfolding moved_def by (rule fold_keeps, simp)
  have "zsound s \<Longrightarrow> zsound (fold dirty_zone zs s)" for zs
    by (induction zs arbitrary: s) (simp_all add: dirty_sound)
  then show "zsound s \<Longrightarrow> zsound (moved i s)" unfolding moved_def by blast
qed

subsection \<open>One instance\<close>

definition plain :: "dinst \<Rightarrow> bool" where
  "plain i \<longleftrightarrow> di_alias i = []"

lemma fold_const: "fold (\<lambda>_. f) xs = fold (\<lambda>_. f) (map g xs)"
  by (induction xs) auto

lemma zone_folds:
  "fold (\<lambda>(_, on). f (snd on)) ptrs (fold (\<lambda>_. f z) names s) = fold f (map (\<lambda>_. z) names @ map (snd \<circ> snd) ptrs) s"
  by (simp add: fold_map comp_def case_prod_beta')

lemma take_out_zones:
  assumes "zsound s" "plain i" "\<And>k. zweight i k \<le> znum s k"
  shows "zsound (take_out env ttl i s)" "znum (take_out env ttl i s) k = znum s k - zweight i k"
proof -
  let ?a = "moved i (fold (dropName env) (contributions s i ttl) s)"
  let ?b = "fold (leave env ttl (di_ns i) True (di_transfer i)) (zones_in i) ?a"
  have d: "ds_serials (fold (dropName env) (contributions s i ttl) s) = ds_serials s"
    by (simp add: fold_keeps [where f = ds_serials])
  have a: "zsound ?a" "znum ?a = znum s"
    using serials_sound [OF d] serials_num [OF d] assms(1) by (simp_all add: moved_counts)
  have b: "zsound ?b \<and> znum ?b k = znum s k - zweight i k" for k
    using leave_all_counts [OF a(1), of "di_ns i" True "di_transfer i" "zones_in i"] assms(3)
    by (simp add: a zweight_def)
  have o': "ds_serials (take_out env ttl i s) = ds_serials ?b"
    using assms(2) by (simp add: take_out_def release_views_def plain_def Let_def split_beta zone_folds zones_in_def)
  show "zsound (take_out env ttl i s)" "znum (take_out env ttl i s) k = znum s k - zweight i k"
    using b serials_sound [OF o'] serials_num [OF o'] by simp_all
qed

lemma put_in_zones:
  assumes "zsound s" "plain i"
  shows "zsound (put_in env ttl key i s)" "znum (put_in env ttl key i s) k = znum s k + zweight i k"
proof -
  let ?a = "fold (addName env) (contributions ((fst (view i s))\<lparr>ds_held := AList.update key i (ds_held (fst (view i s)))\<rparr>) i ttl)
      ((fst (view i s))\<lparr>ds_held := AList.update key i (ds_held (fst (view i s)))\<rparr>)"
  let ?b = "fold (enter env ttl (di_ns i) True (di_transfer i)) (zones_in i) ?a"
  have d: "ds_serials ?a = ds_serials s" by (simp add: fold_keeps [where f = ds_serials])
  have a: "zsound ?a" "znum ?a = znum s" using serials_sound [OF d] serials_num [OF d] assms(1) by simp_all
  have b: "zsound ?b \<and> znum ?b k = znum s k + zweight i k" for k
    using enter_all_counts [OF a(1), of env ttl "di_ns i" True "di_transfer i" "zones_in i" k] unfolding zweight_def a(2) .
  have o': "ds_serials (put_in env ttl key i s) = ds_serials (moved i ?b)"
    using assms(2) by (simp add: put_in_def plain_def Let_def split_beta zone_folds zones_in_def)
  show "zsound (put_in env ttl key i s)" "znum (put_in env ttl key i s) k = znum s k + zweight i k"
    using b serials_sound [OF o'] serials_num [OF o'] by (simp_all add: moved_counts)
qed

abbreviation zones_exact :: "('n, 'z, 'a) dstate \<Rightarrow> bool" where
  "zones_exact \<equiv> exact ds_held znum zweight plain zsound"

interpretation zone_counts: counted ds_held znum zweight plain zsound "apply_inst env ttl"
  for env :: "('n, 'z, 'a) dns_env" and ttl :: nat
proof unfold_locales
  fix s :: "('n, 'z, 'a) dstate" and key a
  assume s: "zsound s" and prev: "pred_option plain (map_of (ds_held s) key)" and a: "pred_option plain a"
    and cover: "\<And>k. of_opt zweight (map_of (ds_held s) key) k \<le> znum s k"
  define s1 where "s1 = (case map_of (ds_held s) key of None \<Rightarrow> s | Some prev \<Rightarrow> take_out env ttl prev s)"
  have s1: "zsound s1 \<and> (\<forall>k. znum s1 k = znum s k - of_opt zweight (map_of (ds_held s) key) k)"
  proof (cases "map_of (ds_held s) key")
    case (Some i)
    have "zweight i k \<le> znum s k" for k using cover [of k] Some by simp
    then show ?thesis using take_out_zones [OF s, of i] prev Some by (simp add: s1_def)
  qed (simp add: s1_def s)
  have h: "znum (s1\<lparr>ds_held := h\<rparr>) = znum s1" "zsound (s1\<lparr>ds_held := h\<rparr>) = zsound s1" for h
    using serials_num [of "s1\<lparr>ds_held := h\<rparr>" s1] serials_sound [of "s1\<lparr>ds_held := h\<rparr>" s1] by simp_all
  show "zsound (apply_inst env ttl key a s)
      \<and> (\<forall>k. znum (apply_inst env ttl key a s) k = znum s k - of_opt zweight (map_of (ds_held s) key) k + of_opt zweight a k)"
    using s1 a put_in_zones [of s1] h by (cases a) (simp_all add: apply_inst_def s1_def [symmetric] Let_def)
qed (simp_all add: zweight_nonneg)

subsection \<open>A publish\<close>

lemma step_one_serials:
  assumes "distinct (map fst (ds_serials s))"
  shows "distinct (map fst (ds_serials (step_one env ttl warm z s)))"
    "z \<in> fst ` set (ds_serials s) \<Longrightarrow> map_of (ds_serials (step_one env ttl warm z s)) z' =
      (if z' \<noteq> z then map_of (ds_serials s) z'
       else if zs_names (serial_of s z) \<le> 0 then None
       else Some (if zs_dirty (serial_of s z) then step_zone warm (serial_of s z) else serial_of s z))"
proof -
  show "distinct (map fst (ds_serials (step_one env ttl warm z s)))" using assms by (simp add: step_one_def Let_def)
  assume "z \<in> fst ` set (ds_serials s)"
  then obtain h where "map_of (ds_serials s) z = Some h" by (cases "map_of (ds_serials s) z") (auto simp: map_of_eq_None_iff)
  then show "map_of (ds_serials (step_one env ttl warm z s)) z' =
      (if z' \<noteq> z then map_of (ds_serials s) z'
       else if zs_names (serial_of s z) \<le> 0 then None
       else Some (if zs_dirty (serial_of s z) then step_zone warm (serial_of s z) else serial_of s z))"
    by (simp add: step_one_def Let_def serial_of_def)
qed

definition stepped :: "bool \<Rightarrow> zserial \<Rightarrow> zserial option" where
  \<comment> \<open>What a publish makes of one zone.\<close>
  "stepped warm h =
     (if zs_names h \<le> 0 then None else Some (if zs_dirty h then step_zone warm h else h))"

lemma step_serials:
  assumes "distinct (map fst (ds_serials s))"
  shows "map_of (ds_serials (step env ttl warm s)) z = Option.bind (map_of (ds_serials s) z) (stepped warm)"
    and "distinct (map fst (ds_serials (step env ttl warm s)))"
proof -
  have gen: "distinct zs \<Longrightarrow> distinct (map fst (ds_serials s)) \<Longrightarrow> set zs \<subseteq> fst ` set (ds_serials s) \<Longrightarrow>
      map_of (ds_serials (fold (step_one env ttl warm) zs s)) z =
        (if z \<in> set zs then Option.bind (map_of (ds_serials s) z) (stepped warm) else map_of (ds_serials s) z)
      \<and> distinct (map fst (ds_serials (fold (step_one env ttl warm) zs s)))" for zs s
  proof (induction zs arbitrary: s)
    case (Cons y ys)
    let ?s = "step_one env ttl warm y s"
    note one = step_one_serials [OF Cons.prems(2), where env = env and ttl = ttl and warm = warm and z = y]
    have y: "y \<in> fst ` set (ds_serials s)" using Cons.prems(3) by simp
    have keys: "x \<in> fst ` set (ds_serials t) \<longleftrightarrow> map_of (ds_serials t) x \<noteq> None" for x and t :: "('a, 'b, 'c) dstate"
      by (simp add: map_of_eq_None_iff)
    have "set ys \<subseteq> fst ` set (ds_serials ?s)"
    proof
      fix x assume x: "x \<in> set ys"
      then have "x \<noteq> y" "map_of (ds_serials s) x \<noteq> None" using Cons.prems(1,3) keys [of x s] by auto
      then show "x \<in> fst ` set (ds_serials ?s)" using one(2) [OF y, of x] by (simp add: keys)
    qed
    note ih = Cons.IH [OF _ one(1) this]
    obtain h where h: "map_of (ds_serials s) y = Some h" using y by (auto simp: keys)
    show ?case
      using ih Cons.prems(1) one(2) [OF y, of z] h by (auto simp: stepped_def serial_of_def)
  qed simp
  have g: "map_of (ds_serials (step env ttl warm s)) z =
        (if z \<in> set (map fst (ds_serials s)) then Option.bind (map_of (ds_serials s) z) (stepped warm) else map_of (ds_serials s) z)
      \<and> distinct (map fst (ds_serials (step env ttl warm s)))"
    unfolding step_def by (rule gen) (simp_all add: assms)
  show "map_of (ds_serials (step env ttl warm s)) z = Option.bind (map_of (ds_serials s) z) (stepped warm)"
  proof (cases "z \<in> set (map fst (ds_serials s))")
    case False
    then have "map_of (ds_serials s) z = None" by (simp add: map_of_eq_None_iff)
    then show ?thesis using g by simp
  qed (use g in simp)
  show "distinct (map fst (ds_serials (step env ttl warm s)))" using g by blast
qed

fun zone_key :: "zcount \<Rightarrow> string" where
  "zone_key (Names z) = z"
| "zone_key (Hosts z) = z"
| "zone_key (Transfers z) = z"
| "zone_key (Server z n) = z"

lemma zweight_simps:
  "zweight i (Names z) = int (count_list (zones_in i) z)"
  "zweight i (Hosts z) = int (count_list (zones_in i) z)"
  "zweight i (Transfers z) = (if di_transfer i then int (count_list (zones_in i) z) else 0)"
  "zweight i (Server z n) = int (count_list (zones_in i) z * count_list (di_ns i) n)"
proof -
  have "sum_list (map (\<lambda>z'. bump ns True t z' k) zs) =
      (case k of Names z \<Rightarrow> int (count_list zs z) | Hosts z \<Rightarrow> int (count_list zs z)
       | Transfers z \<Rightarrow> (if t then int (count_list zs z) else 0)
       | Server z n \<Rightarrow> int (count_list zs z * count_list ns n))" for ns t zs k
    by (induction zs) (auto simp: bump_def algebra_simps split: zcount.splits)
  then show "zweight i (Names z) = int (count_list (zones_in i) z)"
    "zweight i (Hosts z) = int (count_list (zones_in i) z)"
    "zweight i (Transfers z) = (if di_transfer i then int (count_list (zones_in i) z) else 0)"
    "zweight i (Server z n) = int (count_list (zones_in i) z * count_list (di_ns i) n)"
    by (simp_all add: zweight_def)
qed

lemma zweight_pos:
  assumes "0 < zweight i k"
  shows "0 < zweight i (Names (zone_key k))"
  using assms by (cases k) (auto simp: zweight_simps zero_less_mult_iff split: if_splits)

lemma empty_zone_counts_nothing:
  assumes "zones_exact s" "znum s (Names (zone_key k)) \<le> 0"
  shows "znum s k = 0"
proof -
  have "\<not> 0 < znum s k"
    using zone_counts.count_pos [OF assms(1), of k] zone_counts.count_pos [OF assms(1), of "Names (zone_key k)"] assms(2)
    by (auto dest: zweight_pos)
  moreover have "0 \<le> znum s k"
    using assms(1) tally_nonneg [of "\<lambda>i. zweight i k", OF zweight_nonneg] by (simp add: exact_def)
  ultimately show ?thesis by simp
qed

lemma step_zone_counts [simp]:
  "zs_names (step_zone w h) = zs_names h" "zs_hosts (step_zone w h) = zs_hosts h"
  "zs_transfers (step_zone w h) = zs_transfers h" "zs_ns (step_zone w h) = zs_ns h"
  by (simp_all add: step_zone_def)

lemma new_serial_counts [simp]:
  "zs_names new_serial = 0" "zs_hosts new_serial = 0" "zs_transfers new_serial = 0" "zs_ns new_serial = []"
  "zs_serial new_serial = 0" "zs_dirty new_serial = False"
  by (simp_all add: new_serial_def)

lemma all_vals_iff: "distinct (map fst m) \<Longrightarrow> all_vals P m \<longleftrightarrow> (\<forall>k v. map_of m k = Some v \<longrightarrow> P v)"
proof -
  assume d: "distinct (map fst m)"
  show ?thesis by (simp add: set_map_of [OF d, symmetric]) (auto simp: all_vals_def list_all_iff)
qed

lemma step_exact:
  assumes "zones_exact s"
  shows "zones_exact (step env ttl warm s)"
proof -
  have d: "distinct (map fst (ds_serials s))" and v: "all_vals (\<lambda>h. ns_sound (zs_ns h)) (ds_serials s)"
    using assms by (simp_all add: exact_def zsound_def)
  note st = step_serials [OF d, where env = env and ttl = ttl and warm = warm]
  have "znum (step env ttl warm s) k = znum s k" for k
  proof (cases "zs_names (serial_of s (zone_key k)) \<le> 0")
    case True
    then have "znum s k = 0" using empty_zone_counts_nothing [OF assms, of k] by (simp add: znum_def)
    moreover have "serial_of (step env ttl warm s) (zone_key k) = new_serial"
      using True st(1) [of "zone_key k"] by (simp add: serial_of_def stepped_def split: option.splits)
    ultimately show ?thesis by (cases k) (simp_all add: znum_def)
  next
    case False
    then have "serial_of (step env ttl warm s) (zone_key k) =
        (if zs_dirty (serial_of s (zone_key k)) then step_zone warm (serial_of s (zone_key k)) else serial_of s (zone_key k))"
      using st(1) [of "zone_key k"] by (auto simp: serial_of_def stepped_def split: option.splits)
    then show ?thesis by (cases k) (simp_all add: znum_def)
  qed
  moreover have "ns_sound (zs_ns h)" if "map_of (ds_serials (step env ttl warm s)) z = Some h" for z h
    using that st(1) [of z] all_vals_lookup [OF v, of z]
    by (auto simp: stepped_def split: bind_splits if_splits)
  ultimately show ?thesis
    using assms all_vals_iff [OF st(2)] st(2) by (simp add: exact_def zsound_def)
qed

lemma patch_plain:
  "cfg_get (meta ev) ''aliases'' = [] \<Longrightarrow> patchInstance env ev sfx = Some i \<Longrightarrow> plain i"
  by (auto simp: patchInstance_def plain_def aliasNames_def relativeNames_def Let_def split: if_splits)

lemma start_zones: "distinct (map fst (decodeCold cold)) \<Longrightarrow> zones_exact (newState env (decodeCold cold))"
proof -
  assume d: "distinct (map fst (decodeCold cold))"
  have v: "all_vals (\<lambda>h. zs_names h = 0 \<and> zs_hosts h = 0 \<and> zs_transfers h = 0 \<and> zs_ns h = []) (decodeCold cold)"
    by (auto simp: decodeCold_def all_vals_def list_all_iff split: option.splits)
  have "let h = serial_of (newState env (decodeCold cold)) z in zs_names h = 0 \<and> zs_hosts h = 0 \<and> zs_transfers h = 0 \<and> zs_ns h = []"
    for z
    using all_vals_lookup [OF v, of z] by (simp add: serial_of_def newState_def Let_def split: option.splits)
  then have "znum (newState env (decodeCold cold)) k = 0" for k
    by (cases k) (simp_all add: znum_def Let_def)
  moreover have "zsound (newState env (decodeCold cold))"
    using d all_vals_mono [OF v, of "\<lambda>h. ns_sound (zs_ns h)"] by (simp add: zsound_def newState_def ns_sound_def)
  ultimately show ?thesis by (simp add: exact_def newState_def all_vals_def)
qed

subsection \<open>A concrete environment\<close>

text \<open>
  Trees as association lists, searched whole, and a textual form of records: what
  the libraries promise holds of them, and witnesses evaluate on them.
\<close>

definition rr_text :: "rr \<Rightarrow> string" where
  "rr_text r =
     (case r of
        RA n t a \<Rightarrow> n @ '' A '' @ addr_String a
      | RAAAA n t a \<Rightarrow> n @ '' AAAA '' @ addr_String a
      | RPTR n t m \<Rightarrow> n @ '' PTR '' @ m
      | RCNAME n t m \<Rightarrow> n @ '' CNAME '' @ m
      | RNS n t m \<Rightarrow> n @ '' NS '' @ m
      | RSOA n t m h serial \<Rightarrow> n @ '' SOA '' @ m)"

definition longest_name :: "(string \<times> 'v) list \<Rightarrow> string \<Rightarrow> 'v option" where
  "longest_name m q =
     (case find (\<lambda>l. map_of m (take l q) \<noteq> None) (rev [0..<Suc (length q)]) of
        None \<Rightarrow> None
      | Some l \<Rightarrow> map_of m (take l q))"

definition longest_addr :: "(akey \<times> 'v) list \<Rightarrow> akey \<Rightarrow> 'v option" where
  "longest_addr m q =
     (case find (\<lambda>l. list_ex (\<lambda>e. snd (fst e) = l \<and> fst (fst e) div 2 ^ (snd q - l) = fst q div 2 ^ (snd q - l)) m)
             (rev [0..<Suc (snd q)]) of
        None \<Rightarrow> None
      | Some l \<Rightarrow>
          map_option snd
            (find (\<lambda>e. snd (fst e) = l \<and> fst (fst e) div 2 ^ (snd q - l) = fst q div 2 ^ (snd q - l)) m))"

definition list_env :: "((string \<times> answers) list, (string \<times> zone_rec) list, (akey \<times> string) list) dns_env" where
  "list_env =
     \<lparr>dv_canonical = (\<lambda>s. if has_suffix s ''.'' then to_lower s else to_lower s @ ''.''),
      dv_is_domain = (\<lambda>s. s \<noteq> []), dv_reverse = (\<lambda>s. None), dv_is_true = (\<lambda>s. s = ''true''), dv_rr_string = rr_text,
      nt_empty = [], nt_get = map_of, nt_set = AList.update, nt_del = AList.delete,
      nt_walk = (\<lambda>t key. filter (\<lambda>e. has_prefix (fst e) key) (sort_key fst t)),
      zt_empty = [], zt_get = map_of, zt_set = AList.update, zt_del = AList.delete, zt_longest = longest_name,
      at_empty = [], at_get = map_of, at_set = AList.update, at_del = AList.delete, at_all = (\<lambda>t. t),
      at_longest = longest_addr\<rparr>"

subsection \<open>Properties\<close>

lemma run_zones:
  assumes "distinct (map fst (decodeCold cold))"
    and "list_all (fit_input (\<lambda>ev. cfg_get (meta ev) ''aliases'' = [])) ins"
  shows "zones_exact (dn_state (fst (dns_run env cfg ins (dns_new env cold))))"
proof -
  let ?fit = "\<lambda>ev. cfg_get (meta ev) ''aliases'' = []"
  have "carries zones_exact plain ?fit (fst (dns_run env cfg ins (dns_new env cold)))"
  proof (rule dns_run_keeps [OF _ _ _ _ _ assms(2)])
    show "carries zones_exact plain ?fit (dns_new env cold)"
      using start_zones [OF assms(1)] by (simp add: carries_def dns_new_def) (simp add: newState_def all_vals_def)
    show "zones_exact (apply_inst env (dc_ttl cfg) key a s)" if "zones_exact s" "pred_option plain a" for s key a
      using that by (rule zone_counts.move_exact)
    show "zones_exact (s\<lparr>ds_pending := pd\<rparr>)" if "zones_exact s" for s pd
      using that serials_num [of "s\<lparr>ds_pending := pd\<rparr>" s] serials_sound [of "s\<lparr>ds_pending := pd\<rparr>" s]
      by (simp add: exact_def)
    show "zones_exact (step env (dc_ttl cfg) w s)" if "zones_exact s" for s w
      using that by (rule step_exact)
  qed (rule patch_plain)
  then show ?thesis by (simp add: carries_def)
qed

lemma count_of_pos: "ns_sound m \<Longrightarrow> n \<in> fst ` set m \<longleftrightarrow> 0 < count_of m n"
  using map_of_eq_None_iff [of m n]
  by (auto simp: ns_sound_def count_of_def dest: all_vals_lookup split: option.splits)

text \<open>
  C21.  Where no instance claims an alias, a zone counts exactly the names of the
  instances held, forward and reverse, however they came, changed and went: it is
  kept while one is in it, opened for transfer while one of them is of a project
  that asked for it, never taken for a zone made up for an alias, and its name
  servers are those the instances in it name.
\<close>

theorem zones_count_their_names:
  assumes "distinct (map fst (decodeCold cold))"
    and "list_all (fit_input (\<lambda>ev. cfg_get (meta ev) ''aliases'' = [])) ins"
  shows "let s = dn_state (fst (dns_run env cfg ins (dns_new env cold))); h = serial_of s z
   in zs_names h = tally (\<lambda>i. int (count_list (zones_in i) z)) (ds_held s)
      \<and> zs_hosts h = zs_names h
      \<and> zs_transfers h = tally (\<lambda>i. if di_transfer i then int (count_list (zones_in i) z) else 0) (ds_held s)
      \<and> fst ` set (zs_ns h) = {n. \<exists>i \<in> snd ` set (ds_held s). z \<in> set (zones_in i) \<and> n \<in> set (di_ns i)}"
proof -
  define s where "s = dn_state (fst (dns_run env cfg ins (dns_new env cold)))"
  have ok: "zones_exact s" unfolding s_def by (rule run_zones [OF assms])
  have c: "znum s k = tally (\<lambda>i. zweight i k) (ds_held s)" for k using ok by (simp add: exact_def)
  have "ns_sound (zs_ns (serial_of s z))" using ok by (simp add: exact_def ns_sound_of)
  then have "fst ` set (zs_ns (serial_of s z)) = {n. 0 < znum s (Server z n)}"
    using count_of_pos [of "zs_ns (serial_of s z)"] by (auto simp: znum_def)
  also have "\<dots> = {n. \<exists>i \<in> snd ` set (ds_held s). z \<in> set (zones_in i) \<and> n \<in> set (di_ns i)}"
    using zone_counts.count_pos [OF ok] by (auto simp: zweight_simps zero_less_mult_iff count_list_0_iff simp flip: neq0_conv)
  finally show ?thesis
    using c [of "Names z"] c [of "Hosts z"] c [of "Transfers z"]
    unfolding s_def [symmetric] by (simp add: znum_def zweight_simps Let_def)
qed

definition demo_cfg :: dns_cfg where
  "demo_cfg = \<lparr>dc_ttl = 60, dc_suffix = ''incus'', dc_size = 8\<rparr>"

definition demo_instance :: "string \<Rightarrow> string \<Rightarrow> string \<Rightarrow> config \<Rightarrow> event" where
  "demo_instance project name address config =
     WithProject []
       (WithInstance
         (NewInstance True config [NewInstanceInterface project ''br0'' True [address] []]
           [(NetworkKey project ''br0'', NewNetwork ''br0'' project True ''10.0.0.1/24'' [])]) True
         (WithChainState ChainCold (NewEvent 1 ''instance-started'' project name [])))"

definition demo_web :: event where "demo_web = demo_instance ''p'' ''web'' ''10.0.0.2'' []"

definition demo_cold :: "cold_file option" where
  "demo_cold = Some \<lparr>cf_version = 1, cf_serials = [(''p.incus.'', 7), (''q.incus.'', 9)]\<rparr>"

theorem zones_count_their_names_witness:
  "let s = dn_state (fst (dns_run list_env demo_cfg [DHandle demo_web, DInbox False, DWindow] (dns_new list_env demo_cold)));
       h = serial_of s ''p.incus.''
   in zs_names h = tally (\<lambda>i. int (count_list (zones_in i) ''p.incus.'')) (ds_held s) \<and> zs_hosts h = zs_names h"
proof -
  have "distinct (map fst (decodeCold demo_cold))" by code_simp
  moreover have "list_all (fit_input (\<lambda>ev. cfg_get (meta ev) ''aliases'' = [])) [DHandle demo_web, DInbox False, DWindow]"
    by code_simp
  ultimately show ?thesis
    using zones_count_their_names [of demo_cold "[DHandle demo_web, DInbox False, DWindow]" list_env demo_cfg "''p.incus.''"]
    by (simp add: Let_def)
qed

lemma serial_of_lookup: "map_of (ds_serials s) z = Some h \<Longrightarrow> serial_of s z = h"
  "map_of (ds_serials s) z = None \<Longrightarrow> serial_of s z = new_serial"
  by (simp_all add: serial_of_def)

lemma publish_parts:
  "dn_state (fst (publish env cfg p)) = step env (dc_ttl cfg) (dn_chain p = ChainWarm) (dn_state p)"
  "snd (publish env cfg p) = [Store (encodeCold (ds_serials (dn_state (fst (publish env cfg p)))))]"
  by (simp_all add: publish_def Let_def)

lemma encoded_lookup: "map_of (cf_serials (encodeCold serials)) z = map_option zs_serial (map_of serials z)"
  by (induction serials) (auto simp: encodeCold_def)

text \<open>
  A publish touches each zone once: one that nothing moved in keeps its
  serial; one that moved is born at one, or steps by one, wrapping at its width,
  and only while the chain is warm; and one with no name in it goes.  What is
  stored is what was published.
\<close>

theorem publish_steps_what_moved:
  assumes "distinct (map fst (ds_serials (dn_state p)))"
    and "after = dn_state (fst (publish env cfg p))"
  shows "map_of (ds_serials after) z =
      (case map_of (ds_serials (dn_state p)) z of
         None \<Rightarrow> None
       | Some h \<Rightarrow>
           if zs_names h \<le> 0 then None
           else if \<not> zs_dirty h then Some h
           else Some (h\<lparr>zs_dirty := False,
                        zs_serial := (if zs_serial h = 0 then 1
                                      else zs_serial h + (if dn_chain p = ChainWarm then 1 else 0))\<rparr>))
    \<and> (\<exists>c. snd (publish env cfg p) = [Store c] \<and> cf_version c = coldVersion
        \<and> map_of (cf_serials c) z = map_option zs_serial (map_of (ds_serials after) z))"
  using step_serials(1) [OF assms(1)] publish_parts(2) [of env cfg p] encoded_lookup
  by (auto simp: assms(2) publish_parts(1) stepped_def step_zone_def encodeCold_def split: option.splits)

text \<open>
  A serial a previous run left does not survive a publish its zone has no
  name in yet.  The zone is dropped and the store rewritten without it, whatever
  the chain's state, and when its first name arrives it is born again at one: the
  serial its secondaries hold goes backwards.
\<close>

theorem publish_forgets_the_remembered_serial:
  assumes "distinct (map fst (ds_serials (dn_state p)))" "zs_names (serial_of (dn_state p) z) \<le> 0"
  shows "\<exists>c. snd (publish env cfg p) = [Store c] \<and> map_of (cf_serials c) z = None
    \<and> zs_serial (serial_of (step env ttl warm (dirty_zone z (enter env ttl ns host transfer z
          (dn_state (fst (publish env cfg p)))))) z) = 1"
proof -
  let ?s = "dn_state (fst (publish env cfg p))"
  note st = step_serials [OF assms(1), where env = env and ttl = "dc_ttl cfg" and warm = "dn_chain p = ChainWarm"]
  have none: "map_of (ds_serials ?s) z = None"
    using st(1) [of z] assms(2) by (auto simp: publish_parts(1) stepped_def serial_of_def split: option.splits)
  let ?t = "dirty_zone z (enter env ttl ns host transfer z ?s)"
  have d: "distinct (map fst (ds_serials ?t))" using st(2)
    by (simp add: publish_parts(1) dirty_zone_def enter_def Let_def split: option.splits)
  have t: "map_of (ds_serials ?t) z \<noteq> None" "zs_names (serial_of ?t z) = 1" "zs_dirty (serial_of ?t z)" "zs_serial (serial_of ?t z) = 0"
    using none by (simp_all add: dirty_zone_def enter_def serial_of_def Let_def)
  then obtain h where h: "map_of (ds_serials ?t) z = Some h" by auto
  have "map_of (ds_serials (step env ttl warm ?t)) z = Some (step_zone warm h)"
    using step_serials(1) [OF d, of env ttl warm z] t h by (simp add: stepped_def serial_of_lookup(1) [OF h])
  then have "zs_serial (serial_of (step env ttl warm ?t) z) = 1"
    using t(4) by (simp add: serial_of_lookup(1) [OF h] serial_of_lookup(1) step_zone_def)
  then show ?thesis using none encoded_lookup [of "ds_serials ?s" z] by (intro exI) (simp add: publish_parts(2))
qed

theorem publish_forgets_the_remembered_serial_witness:
  "map_of (ds_serials (dn_state (dns_new list_env demo_cold))) ''q.incus.'' = Some (new_serial\<lparr>zs_serial := 9\<rparr>)
   \<and> (\<exists>c. snd (publish list_env demo_cfg (dns_new list_env demo_cold)) = [Store c] \<and> map_of (cf_serials c) ''q.incus.'' = None
        \<and> zs_serial (serial_of (step list_env 60 True (dirty_zone ''q.incus.'' (enter list_env 60 [] True False ''q.incus.''
              (dn_state (fst (publish list_env demo_cfg (dns_new list_env demo_cold))))))) ''q.incus.'') = 1)"
proof -
  have n: "ds_serials (dn_state (dns_new list_env demo_cold)) =
      [(''p.incus.'', new_serial\<lparr>zs_serial := 7\<rparr>), (''q.incus.'', new_serial\<lparr>zs_serial := 9\<rparr>)]"
    by (simp add: dns_new_def newState_def decodeCold_def demo_cold_def coldVersion_def)
  then show ?thesis
    using publish_forgets_the_remembered_serial [of "dns_new list_env demo_cold" "''q.incus.''" list_env demo_cfg 60 True "[]" True False]
    by (simp add: serial_of_def)
qed

theorem publish_steps_what_moved_witness:
  "map_of (ds_serials (dn_state (fst (publish list_env demo_cfg (dns_new list_env demo_cold))))) ''p.incus.'' = None"
proof -
  have n: "ds_serials (dn_state (dns_new list_env demo_cold)) =
      [(''p.incus.'', new_serial\<lparr>zs_serial := 7\<rparr>), (''q.incus.'', new_serial\<lparr>zs_serial := 9\<rparr>)]"
    by (simp add: dns_new_def newState_def decodeCold_def demo_cold_def coldVersion_def)
  then show ?thesis
    using publish_steps_what_moved [of "dns_new list_env demo_cold" _ list_env demo_cfg "''p.incus.''"] by simp
qed

definition host_of :: "string \<Rightarrow> string \<Rightarrow> string list \<Rightarrow> dinst" where
  \<comment> \<open>An instance with one name in a zone, on no network.\<close>
  "host_of name zone alias =
     \<lparr>di_ev = NewEvent 1 ''instance-started'' ''p'' name [], di_zone = zone, di_meta = [], di_ns = [], di_transfer = False,
      di_nets = [], di_names = [name @ zone], di_alias = alias, di_ptrs = []\<rparr>"

lemma alias1: "alias_zone s ''a.b.e.'' = (if map_of (ds_serials s) ''b.e.'' \<noteq> None then ''b.e.''
   else if map_of (ds_serials s) ''e.'' \<noteq> None then ''e.'' else ''b.e.'')"
  by (simp add: alias_zone_def aliasZone_def alias_loop_spec Let_def)

text \<open>
  What a move does to the zones of an instance on no network: nothing is answered
  for it, so only the counts move.
\<close>

lemma host_parts [simp]:
  "di_zone (host_of n z a) = z" "di_nets (host_of n z a) = []" "di_names (host_of n z a) = [n @ z]" "di_ns (host_of n z a) = []"
  "di_alias (host_of n z a) = a" "di_ptrs (host_of n z a) = []" "di_transfer (host_of n z a) = False"
  by (simp_all add: host_of_def)

lemma put_in_serials:
  "ds_serials (put_in env ttl key (host_of n z a) s) =
     ds_serials (moved (host_of n z a) (fold (\<lambda>name s. enter env ttl [] False False (alias_zone s name) s) a
       (enter env ttl [] True False z
         (fold (addName env) (contributions (s\<lparr>ds_held := AList.update key (host_of n z a) (ds_held s)\<rparr>) (host_of n z a) ttl)
           (s\<lparr>ds_held := AList.update key (host_of n z a) (ds_held s)\<rparr>)))))"
  by (simp add: put_in_def Let_def split_beta view_def claim_def netKeys_def)

definition znames :: "('n, 'z, 'a) dstate \<Rightarrow> string \<Rightarrow> int option" where
  "znames s z = map_option zs_names (map_of (ds_serials s) z)"

lemma znames_enter: "znames (enter env ttl ns h t z s) = (znames s)(z \<mapsto> (case znames s z of None \<Rightarrow> 1 | Some n \<Rightarrow> n + 1))"
  by (auto simp: znames_def enter_def Let_def serial_of_def fun_eq_iff split: option.splits)

lemma znames_leave: "znames (leave env ttl ns h t z s) = (case znames s z of None \<Rightarrow> znames s | Some n \<Rightarrow> (znames s)(z \<mapsto> n - 1))"
  by (auto simp: znames_def leave_def Let_def fun_eq_iff split: option.splits)

lemma znames_same: "ds_serials s = ds_serials s' \<Longrightarrow> znames s = znames s'"
  by (simp add: znames_def fun_eq_iff)

lemma znames_dirty [simp]: "znames (dirty_zone z s) = znames s"
  by (auto simp: znames_def dirty_zone_def fun_eq_iff split: option.splits)

lemma znames_moved [simp]: "znames (moved i s) = znames s"
  unfolding moved_def by (rule fold_keeps, simp)

lemma alias_zone_names: "alias_zone s name = fst (aliasZone name (\<lambda>z. znames s z \<noteq> None))"
  by (simp add: alias_zone_def znames_def)

lemma znames_adds [simp]: "znames (fold (addName env) xs s) = znames s" "znames (fold (dropName env) xs s) = znames s"
  "znames (s\<lparr>ds_held := h\<rparr>) = znames s"
  by (rule fold_keeps, rule znames_same, simp)+ (simp add: znames_def fun_eq_iff)

lemma put_in_names:
  "znames (put_in env ttl key (host_of n z []) s) = (znames s)(z \<mapsto> (case znames s z of None \<Rightarrow> 1 | Some n \<Rightarrow> n + 1))"
  "znames (put_in env ttl key (host_of n z [al]) s) =
     (let m = (znames s)(z \<mapsto> (case znames s z of None \<Rightarrow> 1 | Some n \<Rightarrow> n + 1)); az = fst (aliasZone al (\<lambda>z. m z \<noteq> None))
      in m(az \<mapsto> (case m az of None \<Rightarrow> 1 | Some n \<Rightarrow> n + 1)))"
  using znames_same [OF put_in_serials [of env ttl key n z "[]" s]] znames_same [OF put_in_serials [of env ttl key n z "[al]" s]]
  by (simp_all add: znames_enter alias_zone_names Let_def)

lemma take_out_names:
  "znames (take_out env ttl (host_of n z [al]) s) =
     (let m = (case znames s z of None \<Rightarrow> znames s | Some k \<Rightarrow> (znames s)(z \<mapsto> k - 1)); az = fst (aliasZone al (\<lambda>z. m z \<noteq> None))
      in (case m az of None \<Rightarrow> m | Some k \<Rightarrow> m(az \<mapsto> k - 1)))"
proof -
  have "ds_serials (take_out env ttl (host_of n z [al]) s) =
      ds_serials (let s3 = leave env ttl [] True False z (moved (host_of n z [al]) (fold (dropName env) (contributions s (host_of n z [al]) ttl) s))
        in leave env ttl [] False False (alias_zone s3 al) s3)"
    by (simp add: take_out_def release_views_def Let_def split_beta)
  from znames_same [OF this] show ?thesis by (simp add: znames_leave alias_zone_names Let_def cong: option.case_cong)
qed


definition zdistinct :: "('n, 'z, 'a) dstate \<Rightarrow> bool" where
  "zdistinct s \<longleftrightarrow> distinct (map fst (ds_serials s))"

lemma zdistinct_same: "ds_serials s = ds_serials s' \<Longrightarrow> zdistinct s = zdistinct s'"
  by (simp add: zdistinct_def)

lemma zdistinct_simps [simp]:
  "zdistinct s \<Longrightarrow> zdistinct (enter env ttl ns h t z s)" "zdistinct s \<Longrightarrow> zdistinct (leave env ttl ns h t z s)"
  "zdistinct s \<Longrightarrow> zdistinct (dirty_zone z s)" "zdistinct (dropName env e s) = zdistinct s"
  by (simp_all add: zdistinct_def enter_def leave_def dirty_zone_def Let_def split: option.splits)

lemma fold_pres: "(\<And>x s. P s \<Longrightarrow> P (g x s)) \<Longrightarrow> P s \<Longrightarrow> P (fold g xs s)"
  by (induction xs arbitrary: s) simp_all

lemma take_out_zdistinct: "zdistinct s \<Longrightarrow> zdistinct (take_out env ttl i s)"
proof -
  assume z: "zdistinct s"
  have "zdistinct (moved i (fold (dropName env) (contributions s i ttl) s))"
    unfolding moved_def
    by (rule fold_pres [where P = zdistinct], simp, rule fold_pres [where P = zdistinct]) (simp_all add: z)
  then have "zdistinct (fold (\<lambda>name s. leave env ttl [] False False (alias_zone s name) s) (di_alias i)
      (fold (\<lambda>(_, on). leave env ttl (di_ns i) True (di_transfer i) (snd on)) (di_ptrs i)
        (fold (\<lambda>_. leave env ttl (di_ns i) True (di_transfer i) (di_zone i)) (di_names i)
          (moved i (fold (dropName env) (contributions s i ttl) s)))))"
    by (intro fold_pres [where P = zdistinct]) (auto split: prod.splits)
  then show ?thesis by (simp add: zdistinct_def take_out_def release_views_def Let_def split_beta)
qed

lemma put_in_zdistinct: "zdistinct s \<Longrightarrow> zdistinct (put_in env ttl key i s)"
proof -
  assume z: "zdistinct s"
  define a where "a = fold (addName env) (contributions ((fst (view i s))\<lparr>ds_held := AList.update key i (ds_held (fst (view i s)))\<rparr>) i ttl)
      ((fst (view i s))\<lparr>ds_held := AList.update key i (ds_held (fst (view i s)))\<rparr>)"
  have "zdistinct a" using z by (simp add: a_def zdistinct_def fold_keeps [where f = ds_serials])
  then have "zdistinct (moved i (fold (\<lambda>name s. enter env ttl [] False False (alias_zone s name) s) (di_alias i)
      (fold (\<lambda>(_, on). enter env ttl (di_ns i) True (di_transfer i) (snd on)) (di_ptrs i)
        (fold (\<lambda>_. enter env ttl (di_ns i) True (di_transfer i) (di_zone i)) (di_names i) a))))"
    unfolding moved_def by (intro fold_pres [where P = zdistinct]) (auto split: prod.splits)
  then show ?thesis by (simp add: zdistinct_def put_in_def a_def Let_def split_beta)
qed

lemma apply_zdistinct: "zdistinct s \<Longrightarrow> zdistinct (apply_inst env ttl key a s)"
  using zdistinct_same [of "s\<lparr>ds_held := h\<rparr>" s for s h]
  by (auto simp: apply_inst_def Let_def take_out_zdistinct put_in_zdistinct split: option.splits)

text \<open>
  An alias counted into one zone can be taken out of another.  The zone an
  alias leaves is looked up again when its instance goes, so where a longer zone
  came up in between, the instance in that zone pays: its zone is left with no
  name counted, the next publish drops it although its instance is still held,
  and the zone the alias was counted into is kept for good.
\<close>

theorem alias_leaves_another_zone:
  fixes env :: "('n, 'z, 'a) dns_env"
  assumes "s = fold (\<lambda>(key, arrived). apply_inst env ttl key arrived)
      [(''p/top'', Some (host_of ''h.'' ''e.'' [])), (''p/web'', Some (host_of ''web.'' ''p.'' [''a.b.e.''])),
       (''q/low'', Some (host_of ''h.'' ''b.e.'' [])), (''p/web'', None)] (newState env [])"
  shows "map_of (ds_held s) ''q/low'' = Some (host_of ''h.'' ''b.e.'' [])
    \<and> map_of (ds_serials (step env ttl warm s)) ''b.e.'' = None
    \<and> (\<exists>h. map_of (ds_serials (step env ttl warm s)) ''e.'' = Some h \<and> zs_names h = 2)"
proof -
  have al: "fst (aliasZone ''a.b.e.'' served) = (if served ''b.e.'' then ''b.e.'' else if served ''e.'' then ''e.'' else ''b.e.'')" for served
    by (simp add: aliasZone_def alias_loop_spec Let_def)
  define x0 where "x0 = newState env []"
  define x1 where "x1 = put_in env ttl ''p/top'' (host_of ''h.'' ''e.'' []) x0"
  define x2 where "x2 = put_in env ttl ''p/web'' (host_of ''web.'' ''p.'' [''a.b.e.'']) x1"
  define x3 where "x3 = put_in env ttl ''q/low'' (host_of ''h.'' ''b.e.'' []) x2"
  define x4 where "x4 = take_out env ttl (host_of ''web.'' ''p.'' [''a.b.e.'']) x3"
  have n0: "znames x0 = Map.empty" by (simp add: x0_def znames_def newState_def fun_eq_iff)
  have n1: "znames x1 = [''e.'' \<mapsto> 1]" unfolding x1_def put_in_names n0 by simp
  have n2: "znames x2 = [''e.'' \<mapsto> 2, ''p.'' \<mapsto> 1]" unfolding x2_def put_in_names n1 al Let_def by (simp add: fun_eq_iff)
  have n3: "znames x3 = [''e.'' \<mapsto> 2, ''p.'' \<mapsto> 1, ''b.e.'' \<mapsto> 1]" unfolding x3_def put_in_names n2 by simp
  have n4: "znames x4 = [''e.'' \<mapsto> 2, ''p.'' \<mapsto> 0, ''b.e.'' \<mapsto> 0]"
    unfolding x4_def take_out_names n3 al Let_def by (simp add: fun_eq_iff)
  have arrive: "apply_inst env ttl k (Some i) x = put_in env ttl k i x" "ds_held (put_in env ttl k i x) = AList.update k i (ds_held x)"
    if "map_of (ds_held x) k = None" for k i x
    using that apply_held [of env ttl k "Some i" x] by (simp_all add: apply_inst_def)
  have h0: "ds_held x0 = []" by (simp add: x0_def newState_def)
  have h1: "ds_held x1 = [(''p/top'', host_of ''h.'' ''e.'' [])]" unfolding x1_def by (simp add: arrive h0)
  have h2: "ds_held x2 = ds_held x1 @ [(''p/web'', host_of ''web.'' ''p.'' [''a.b.e.''])]"
    unfolding x2_def by (simp add: arrive h1)
  have h3: "ds_held x3 = ds_held x2 @ [(''q/low'', host_of ''h.'' ''b.e.'' [])]" unfolding x3_def by (simp add: arrive h1 h2)
  have "apply_inst env ttl ''p/web'' None x3 = x4\<lparr>ds_held := AList.delete ''p/web'' (ds_held x4)\<rparr>"
    by (simp add: apply_inst_def h1 h2 h3 x4_def Let_def)
  then have s: "s = x4\<lparr>ds_held := AList.delete ''p/web'' (ds_held x4)\<rparr>"
    unfolding assms x0_def [symmetric] by (simp add: arrive h0 x1_def [symmetric])
       (simp add: arrive h1 x2_def [symmetric], simp add: arrive h1 h2 x3_def [symmetric])
  have held: "map_of (ds_held s) ''q/low'' = Some (host_of ''h.'' ''b.e.'' [])"
    unfolding assms by simp
  have zs: "znames s = [''e.'' \<mapsto> 2, ''p.'' \<mapsto> 0, ''b.e.'' \<mapsto> 0]" unfolding s n4 [symmetric] by simp
  have "zdistinct x0" by (simp add: zdistinct_def x0_def newState_def)
  then have "zdistinct s" unfolding assms x0_def [symmetric]
    by (intro fold_pres [where P = zdistinct]) (auto simp: apply_zdistinct)
  then have "distinct (map fst (ds_serials s))" by (simp add: zdistinct_def)
  note st = step_serials(1) [OF this, of env ttl warm]
  have "map_option zs_names (map_of (ds_serials s) ''b.e.'') = Some 0" "map_option zs_names (map_of (ds_serials s) ''e.'') = Some 2"
    using fun_cong [OF zs, of "''b.e.''"] fun_cong [OF zs, of "''e.''"] by (simp_all add: znames_def)
  then show ?thesis using held st [of "''b.e.''"] st [of "''e.''"] by (auto simp: stepped_def)
qed

theorem alias_leaves_another_zone_witness:
  "\<exists>s :: ((string \<times> answers) list, (string \<times> zone_rec) list, (akey \<times> string) list) dstate.
     map_of (ds_held s) ''q/low'' = Some (host_of ''h.'' ''b.e.'' []) \<and> map_of (ds_serials (step list_env 60 True s)) ''b.e.'' = None"
  using alias_leaves_another_zone [OF refl, of list_env 60 True] by blast

subsection \<open>Where a querier is placed\<close>

definition lawful_addrs :: "('n, 'z, 'a) dns_env \<Rightarrow> bool" where
  \<comment> \<open>What the address tree documents: a lookup finds what was set last under the key.\<close>
  "lawful_addrs env \<longleftrightarrow>
     (\<forall>t k v k'. at_get env (at_set env k v t) k' = (if k' = k then Some v else at_get env t k'))
     \<and> (\<forall>t k k'. at_get env (at_del env k t) k' = (if k' = k then None else at_get env t k'))
     \<and> (\<forall>k. at_get env (at_empty env) k = None)"

definition placed :: "('n, 'z, 'a) dns_env \<Rightarrow> prefix \<Rightarrow> ('n, 'z, 'a) dstate \<Rightarrow> string option" where
  \<comment> \<open>The view filed under exactly this prefix.\<close>
  "placed env p s = at_get env (tree_of (snd (AddrKey p)) s) (fst (AddrKey p))"

lemma index_placed:
  assumes "lawful_addrs env"
  shows "placed env p (index env v p s) =
      Some (case placed env p s of None \<Rightarrow> v | Some held \<Rightarrow> if held \<noteq> v then AmbiguousView else v)"
    and "placed env p (unindex env p s) = None"
  using assms
  by (auto simp: lawful_addrs_def placed_def index_def unindex_def on_tree_def tree_of_def split: prod.splits option.splits)

text \<open>
  Two instances that claim one address are both refused, but only until one
  of them goes: taking the address out of one takes it out of the tree, so the
  one still holding it is no longer placed by it at all, ambiguous or not.
\<close>

theorem one_of_two_claimants_leaving_unplaces_the_other:
  assumes "lawful_addrs env" "v1 \<noteq> v2" "placed env p s = None"
  shows "placed env p (index env v2 p (index env v1 p s)) = Some AmbiguousView
    \<and> placed env p (unindex env p (index env v2 p (index env v1 p s))) = None"
  using assms by (simp add: index_placed)

theorem one_of_two_claimants_leaving_unplaces_the_other_witness:
  "placed list_env (host_prefix (A4 1)) (unindex list_env (host_prefix (A4 1))
     (index list_env ''q/br0'' (host_prefix (A4 1)) (index list_env ''p/br0'' (host_prefix (A4 1)) (newState list_env [])))) = None"
proof -
  have "lawful_addrs list_env" by (auto simp: lawful_addrs_def list_env_def)
  moreover have "placed list_env (host_prefix (A4 1)) (newState list_env []) = None"
    by (simp add: placed_def newState_def tree_of_def list_env_def)
  ultimately show ?thesis
    using one_of_two_claimants_leaving_unplaces_the_other [of list_env "''p/br0''" "''q/br0''"] by simp
qed

end
