(* ===== verification/EcsView.thy ===== *)
theory EcsView
  imports DnsZones
begin

text \<open>
  The query engine (\<open>cmd/ic-dns/dns/ecs_view/serve.go\<close>, \<open>snapshot.go\<close>): how one
  query is answered from a snapshot.  The name is what CoreDNS's request gives,
  lower-cased and absolute; of an EDNS client subnet the engine uses its family,
  its scope and the address its bytes are.  A reply is \<open>None\<close> where the query
  falls through to the next plugin; metrics and logging are left out.
\<close>

subsection \<open>Queries and replies\<close>

datatype query_type = QRecords qtype | QSOA | QNS | QOther nat

record subnet =
  sb_family :: nat
  sb_addr :: "addr option"
  sb_scope :: nat

record query =
  q_name :: string
  q_type :: query_type
  q_subnet :: "subnet option"
  q_source :: "addr option"

datatype rcode = NoError | NameError | ServerFailure | Refused

record reply =
  r_rcode :: rcode
  r_answer :: "rr list"
  r_ns :: "rr list"
  r_echo :: "subnet option"

subsection \<open>The snapshot\<close>

definition ZoneOf :: "('n, 'z, 'a) dns_env \<Rightarrow> ('n, 'z, 'a) snapshot \<Rightarrow> string \<Rightarrow> zone_rec option" where
  "ZoneOf env snap qname = zt_longest env (sn_denial snap) (nameKey qname)"

definition Answers :: "('n, 'z, 'a) dns_env \<Rightarrow> ('n, 'z, 'a) snapshot \<Rightarrow> string \<Rightarrow> answers option" where
  "Answers env snap qname = nt_get env (sn_tree snap) (nameKey qname)"

definition ViewFor :: "('n, 'z, 'a) dns_env \<Rightarrow> ('n, 'z, 'a) snapshot \<Rightarrow> addr \<Rightarrow> string option" where
  "ViewFor env snap a =
     (if Is4 a then at_longest env (sn_v4 snap) (addr_num a, 32) else at_longest env (sn_v6 snap) (addr_num a, 128))"

subsection \<open>Records in a reply\<close>

fun rr_ttl :: "rr \<Rightarrow> nat" where
  "rr_ttl (RA n t a) = t"
| "rr_ttl (RAAAA n t a) = t"
| "rr_ttl (RPTR n t m) = t"
| "rr_ttl (RCNAME n t m) = t"
| "rr_ttl (RNS n t m) = t"
| "rr_ttl (RSOA n t m h s) = t"

fun with_ttl :: "nat \<Rightarrow> rr \<Rightarrow> rr" where
  "with_ttl t (RA n _ a) = RA n t a"
| "with_ttl t (RAAAA n _ a) = RAAAA n t a"
| "with_ttl t (RPTR n _ m) = RPTR n t m"
| "with_ttl t (RCNAME n _ m) = RCNAME n t m"
| "with_ttl t (RNS n _ m) = RNS n t m"
| "with_ttl t (RSOA n _ m h s) = RSOA n t m h s"

definition staleTTL :: nat where "staleTTL = 5"

definition authority :: "rr \<Rightarrow> bool \<Rightarrow> rr" where
  "authority r clamp = (if \<not> clamp \<or> rr_ttl r \<le> staleTTL then r else with_ttl staleTTL r)"

definition withTTL :: "rr list \<Rightarrow> bool \<Rightarrow> rr list" where
  "withTTL rrs clamp = (if \<not> clamp then rrs else map (\<lambda>r. authority r True) rrs)"

definition answerScope :: "nat \<Rightarrow> nat" where
  "answerScope family = (if family = 1 then 32 else if family = 2 then 128 else 0)"

definition deny :: "zone_rec \<Rightarrow> bool \<Rightarrow> reply \<Rightarrow> reply" where
  "deny z clamp m = m\<lparr>r_rcode := NameError, r_ns := [authority (zn_soa z) clamp]\<rparr>"

definition answerApex :: "query_type \<Rightarrow> zone_rec \<Rightarrow> bool \<Rightarrow> reply \<Rightarrow> reply" where
  "answerApex qtype z clamp m =
     (case qtype of
        QSOA \<Rightarrow> m\<lparr>r_answer := [authority (zn_soa z) clamp]\<rparr>
      | QNS \<Rightarrow> m\<lparr>r_answer := withTTL (zn_ns z) clamp\<rparr>
      | _ \<Rightarrow> m\<lparr>r_ns := [authority (zn_soa z) clamp]\<rparr>)"

definition typed :: "records \<Rightarrow> query_type \<Rightarrow> rr list option" where
  \<comment> \<open>Only the four record types are ever filed under a name.\<close>
  "typed r t = (case t of QRecords q \<Rightarrow> map_of r q | _ \<Rightarrow> None)"

subsection \<open>Answering\<close>

definition client_of :: "query \<Rightarrow> addr option" where
  \<comment> \<open>The client subnet's address wins over the source, where it is an address at all.\<close>
  "client_of q =
     (case q_subnet q of
        Some sb \<Rightarrow> (case sb_addr sb of Some a \<Rightarrow> Some (Unmap a) | None \<Rightarrow> map_option Unmap (q_source q))
      | None \<Rightarrow> map_option Unmap (q_source q))"

definition named_reply ::
  "('n, 'z, 'a) dns_env \<Rightarrow> ('n, 'z, 'a) snapshot \<Rightarrow> query \<Rightarrow> zone_rec \<Rightarrow> bool \<Rightarrow> answers \<Rightarrow> reply \<Rightarrow> reply" where
  \<comment> \<open>The end of \<open>Answer\<close>, for a name that is held.\<close>
  "named_reply env snap q z clamp answers m =
     (let view = Option.bind (client_of q) (ViewFor env snap) in
      if view = None \<or> view = Some AmbiguousView then deny z clamp m
      else
        (let byType = answer_of answers (the view);
             visible = map_of answers (the view) \<noteq> None \<and> \<not> 1 < length (rrs_of byType TypeCNAME)
         in if \<not> visible then deny z clamp m
            else case typed byType (q_type q) of
                   None \<Rightarrow> m\<lparr>r_ns := [authority (zn_soa z) clamp]\<rparr>
                 | Some rrs \<Rightarrow> m\<lparr>r_answer := withTTL rrs clamp\<rparr>))"

definition Answer ::
  "('n, 'z, 'a) dns_env \<Rightarrow> bool \<Rightarrow> bool \<Rightarrow> ('n, 'z, 'a) snapshot \<Rightarrow> query \<Rightarrow> reply option" where
  "Answer env healthy echoes snap q =
     (case ZoneOf env snap (q_name q) of
        None \<Rightarrow> None
      | Some z \<Rightarrow>
          (let held = Answers env snap (q_name q); clamp = \<not> healthy;
               echo = (if echoes then q_subnet q else None);
               m = \<lparr>r_rcode = NoError, r_answer = [], r_ns = [], r_echo = echo\<rparr>;
               m1 = m\<lparr>r_echo := map_option (\<lambda>sb. sb\<lparr>sb_scope := answerScope (sb_family sb)\<rparr>) echo\<rparr>
           in if zn_shadowing z \<and> held = None then None
              else if q_name q = zn_name z then Some (answerApex (q_type q) z clamp m)
              else Some (case held of None \<Rightarrow> deny z clamp m1 | Some answers \<Rightarrow> named_reply env snap q z clamp answers m1)))"

definition write_reply :: "bool \<Rightarrow> reply option \<Rightarrow> bool \<times> rcode" where
  \<comment> \<open>What \<open>Answer\<close> reports: whether it handled the query, and the code. The first argument: the write failed.\<close>
  "write_reply failed m = (case m of None \<Rightarrow> (False, NoError) | Some _ \<Rightarrow> (True, if failed then ServerFailure else NoError))"

definition ServeDNS :: "bool \<Rightarrow> reply option \<Rightarrow> bool \<times> rcode \<Rightarrow> bool \<times> rcode" where
  \<comment> \<open>A query not handled is the next plugin's.\<close>
  "ServeDNS failed m next = (if fst (write_reply failed m) then write_reply failed m else next)"

subsection \<open>Properties\<close>

lemma ttl_with_ttl [simp]: "rr_ttl (with_ttl t r) = t"
  by (cases r) simp_all

lemma authority_capped [simp]: "rr_ttl (authority r True) \<le> staleTTL" "authority r False = r"
  by (simp_all add: authority_def)

lemma withTTL_simps [simp]: "withTTL rrs False = rrs" "withTTL rrs True = map (\<lambda>r. authority r True) rrs"
  by (simp_all add: withTTL_def)

definition seen_by :: "('n, 'z, 'a) dns_env \<Rightarrow> ('n, 'z, 'a) snapshot \<Rightarrow> query \<Rightarrow> records option" where
  \<comment> \<open>What a name holds for the view its querier is placed in; nothing where the querier is
     placed nowhere or twice, and where two instances contest the alias.\<close>
  "seen_by env snap q =
     (case (Answers env snap (q_name q), Option.bind (client_of q) (ViewFor env snap)) of
        (Some answers, Some v) \<Rightarrow>
          if v = AmbiguousView \<or> map_of answers v = None \<or> 1 < length (rrs_of (answer_of answers v) TypeCNAME) then None
          else Some (answer_of answers v)
      | _ \<Rightarrow> None)"

definition seen_reply :: "bool \<Rightarrow> bool \<Rightarrow> zone_rec \<Rightarrow> query \<Rightarrow> records option \<Rightarrow> reply" where
  \<comment> \<open>The answer as a function of the zone and of what is seen alone.\<close>
  "seen_reply healthy echoes z q seen =
     (let echo = (if echoes then q_subnet q else None);
          m = \<lparr>r_rcode = NoError, r_answer = [], r_ns = [], r_echo = echo\<rparr>;
          m1 = m\<lparr>r_echo := map_option (\<lambda>sb. sb\<lparr>sb_scope := answerScope (sb_family sb)\<rparr>) echo\<rparr>
      in if q_name q = zn_name z then answerApex (q_type q) z (\<not> healthy) m
         else case seen of
                None \<Rightarrow> deny z (\<not> healthy) m1
              | Some byType \<Rightarrow>
                  (case typed byType (q_type q) of
                     None \<Rightarrow> m1\<lparr>r_ns := [authority (zn_soa z) (\<not> healthy)]\<rparr>
                   | Some rrs \<Rightarrow> m1\<lparr>r_answer := withTTL rrs (\<not> healthy)\<rparr>))"

text \<open>
  C7.  In a zone of hosts the reply is a function of the zone and of what the
  name holds for the querier's own view, and of nothing else: no record of
  another view is in it, no record another view has changes it, and a name the
  querier cannot reach, one it is placed twice for and one whose alias is
  contested read exactly like one that does not exist.
\<close>

theorem answer_shows_only_the_queriers_view:
  assumes "ZoneOf env snap (q_name q) = Some z" "\<not> zn_shadowing z"
  shows "Answer env healthy echoes snap q = Some (seen_reply healthy echoes z q (seen_by env snap q))"
  using assms
  by (auto simp: Answer_def seen_reply_def seen_by_def named_reply_def Let_def split: option.splits)

definition demo_zone :: "bool \<Rightarrow> zone_rec" where
  "demo_zone shadowing =
     \<lparr>zn_name = ''p.'', zn_soa = soa ''p.'' [] 3 60, zn_ns = nsRecords ''p.'' [] 60, zn_shadowing = shadowing, zn_transfer = True\<rparr>"

definition demo_snap ::
  "bool \<Rightarrow> ((string \<times> answers) list, (string \<times> zone_rec) list, (akey \<times> string) list) snapshot" where
  \<comment> \<open>One name, reachable from \<open>p/br0\<close> alone, and one address placed there.\<close>
  "demo_snap shadowing =
     \<lparr>sn_tree = [(''p.w.'', [(''p/br0'', [(TypeA, [RA ''w.p.'' 60 (A4 7)])])])], sn_denial = [(''p.'', demo_zone shadowing)],
      sn_v4 = [((5, 32), ''p/br0'')], sn_v6 = []\<rparr>"

definition demo_query :: "addr \<Rightarrow> query" where
  "demo_query a = \<lparr>q_name = ''w.p.'', q_type = QRecords TypeA, q_subnet = None, q_source = Some a\<rparr>"

lemma demo_lookups:
  "ZoneOf list_env (demo_snap b) ''w.p.'' = Some (demo_zone b)"
  "Answers list_env (demo_snap b) ''w.p.'' = Some [(''p/br0'', [(TypeA, [RA ''w.p.'' 60 (A4 7)])])]"
  "ViewFor list_env (demo_snap b) (A4 5) = Some ''p/br0''" "ViewFor list_env (demo_snap b) (A4 6) = None"
proof -
  have k: "nameKey ''w.p.'' = ''p.w.''"
    using nameKey_dname [of "[''w'', ''p'']"] by (simp add: dname_def label_ok_def)
  show "ZoneOf list_env (demo_snap b) ''w.p.'' = Some (demo_zone b)"
    by (simp add: ZoneOf_def k list_env_def demo_snap_def longest_name_def upt_rec)
  show "Answers list_env (demo_snap b) ''w.p.'' = Some [(''p/br0'', [(TypeA, [RA ''w.p.'' 60 (A4 7)])])]"
    by (simp add: Answers_def k list_env_def demo_snap_def)
  have "longest_addr [((5, 32), ''p/br0'')] (5, 32) = Some ''p/br0''" "longest_addr [((5, 32), ''p/br0'')] (6, 32) = None"
    by code_simp+
  then show "ViewFor list_env (demo_snap b) (A4 5) = Some ''p/br0''" "ViewFor list_env (demo_snap b) (A4 6) = None"
    by (simp_all add: ViewFor_def list_env_def demo_snap_def addr_num_def)
qed

theorem answer_shows_only_the_queriers_view_witness:
  "(\<exists>m. Answer list_env True False (demo_snap False) (demo_query (A4 5)) = Some m \<and> r_answer m = [RA ''w.p.'' 60 (A4 7)])
   \<and> (\<exists>m. Answer list_env True False (demo_snap False) (demo_query (A4 6)) = Some m \<and> r_rcode m = NameError \<and> r_answer m = [])"
  using answer_shows_only_the_queriers_view [of list_env "demo_snap False" "demo_query (A4 5)" "demo_zone False" True False]
    answer_shows_only_the_queriers_view [of list_env "demo_snap False" "demo_query (A4 6)" "demo_zone False" True False]
  by (simp add: demo_query_def demo_lookups demo_zone_def seen_reply_def seen_by_def client_of_def answer_of_def rrs_of_def
      typed_def deny_def AmbiguousView_def NUL_def Let_def)

text \<open>
  In a zone made up for an alias every name that is held gives itself away:
  a name nothing is held under falls through to the next plugin, while one that
  is held is denied to a querier it is hidden from.
\<close>

theorem shadowing_zone_shows_what_is_hidden:
  assumes "ZoneOf env snap (q_name q) = Some z" "zn_shadowing z" "q_name q \<noteq> zn_name z" "seen_by env snap q = None"
  shows "Answer env healthy echoes snap q =
    (if Answers env snap (q_name q) = None then None else Some (seen_reply healthy echoes z q None))"
  using assms
  by (auto simp: Answer_def seen_reply_def seen_by_def named_reply_def Let_def split: option.splits)

theorem shadowing_zone_shows_what_is_hidden_witness:
  "\<exists>m. Answer list_env True False (demo_snap True) (demo_query (A4 6)) = Some m \<and> r_rcode m = NameError"
  using shadowing_zone_shows_what_is_hidden [of list_env "demo_snap True" "demo_query (A4 6)" "demo_zone True" True False]
  by (simp add: demo_query_def demo_lookups demo_zone_def seen_reply_def seen_by_def client_of_def deny_def Let_def)

definition clamped :: "reply \<Rightarrow> reply" where
  "clamped m = m\<lparr>r_answer := map (\<lambda>r. authority r True) (r_answer m), r_ns := map (\<lambda>r. authority r True) (r_ns m)\<rparr>"

text \<open>
  While the data is stale every record of a reply lives at most five
  seconds, and nothing else about the reply changes.
\<close>

theorem stale_answers_expire_soon:
  "Answer env False echoes snap q = map_option clamped (Answer env True echoes snap q)
   \<and> (case Answer env False echoes snap q of None \<Rightarrow> True
      | Some m \<Rightarrow> list_all (\<lambda>r. rr_ttl r \<le> staleTTL) (r_answer m @ r_ns m))"
proof -
  have "Answer env False echoes snap q = map_option clamped (Answer env True echoes snap q)"
    by (simp add: Answer_def named_reply_def answerApex_def deny_def clamped_def Let_def
        split: option.splits query_type.splits)
  moreover have "list_all (\<lambda>r. rr_ttl r \<le> staleTTL) (r_answer (clamped m) @ r_ns (clamped m))" for m
    by (auto simp: clamped_def list_all_iff)
  ultimately show ?thesis by (simp split: option.splits)
qed

end
