(* ===== verification/Xfr.thy ===== *)
theory Xfr
  imports EcsView
begin

text \<open>
  Zone transfers (\<open>cmd/ic-dns/dns/xfr.go\<close>): who may have one, what a zone is on the
  wire, and how it is cut into messages.  Type numbers order the records of one
  name, as the DNS library's constants do; \<open>rr_len\<close> stands for its \<open>Len\<close>.
\<close>

subsection \<open>Record types by number\<close>

fun type_number :: "qtype \<Rightarrow> nat" where
  "type_number TypeA = 1"
| "type_number TypeCNAME = 5"
| "type_number TypePTR = 12"
| "type_number TypeAAAA = 28"

lemma type_number_inject: "type_number a = type_number b \<longleftrightarrow> a = b"
  by (cases a; cases b) simp_all

instantiation qtype :: linorder
begin

definition less_eq_qtype :: "qtype \<Rightarrow> qtype \<Rightarrow> bool" where
  "less_eq_qtype a b \<longleftrightarrow> type_number a \<le> type_number b"

definition less_qtype :: "qtype \<Rightarrow> qtype \<Rightarrow> bool" where
  "less_qtype a b \<longleftrightarrow> type_number a < type_number b"

instance
  by standard (auto simp: less_eq_qtype_def less_qtype_def type_number_inject)

end

subsection \<open>One transfer\<close>

record xfr_env =
  xe_allow :: "prefix list"
  xe_rr_len :: "rr \<Rightarrow> nat"

datatype xfr_kind = AXFR | IXFR "rr list" | NotTransfer   \<comment> \<open>an IXFR carries its authority section\<close>

record xfr_query =
  xq_name :: string
  xq_kind :: xfr_kind
  xq_tcp :: bool
  xq_peer :: "addr option"
  xq_tsig :: bool   \<comment> \<open>the signature is good, or none is asked for\<close>

datatype xfr_reply = NextPlugin | XRcode rcode | UpToDate rr | Stream "rr list list"

definition maxEnvelope :: nat where "maxEnvelope = 63000"

definition allowed :: "xfr_env \<Rightarrow> addr \<Rightarrow> bool" where
  "allowed xe peer = list_ex (\<lambda>p. Contains p peer) (xe_allow xe)"

subsection \<open>Gathering one name\<close>

definition gather_rr ::
  "('n, 'z, 'a) dns_env \<Rightarrow> qtype \<Rightarrow> rr \<Rightarrow> records \<times> string list \<Rightarrow> records \<times> string list" where
  "gather_rr env t r acc =
     (let (out, seen) = acc; text = dv_rr_string env r in
      if text \<in> set seen then (out, seen) else (AList.update t (rrs_of out t @ [r]) out, text # seen))"

definition gather :: "('n, 'z, 'a) dns_env \<Rightarrow> answers \<Rightarrow> records" where
  "gather env answer =
     map (\<lambda>(t, rrs). (t, sort_key (dv_rr_string env) rrs))
       (fst (fold (\<lambda>(vid, records). fold (\<lambda>(t, rrs). fold (gather_rr env t) rrs) records) answer ([], [])))"

definition name_set :: "('n, 'z, 'a) dns_env \<Rightarrow> answers \<Rightarrow> rr list" where
  \<comment> \<open>What one name of the walk puts on the wire.\<close>
  "name_set env answer =
     (let sets = gather env answer in
      case map_of sets TypeCNAME of
        Some cname \<Rightarrow> cname
      | None \<Rightarrow> concat (map (rrs_of sets) (sort (map fst sets))))"

definition keyName :: "string \<Rightarrow> string" where
  "keyName key =
     (let labels = split_on (CHR ''.'') (if has_suffix key ''.'' then butlast key else key)
      in go_join ''.'' (rev labels) @ ''.'')"

definition zoneRecords :: "('n, 'z, 'a) dns_env \<Rightarrow> ('n, 'z, 'a) snapshot \<Rightarrow> zone_rec \<Rightarrow> rr \<Rightarrow> rr list" where
  "zoneRecords env snap z apex =
     [apex] @ zn_ns z
     @ concat (map (\<lambda>(key, answer).
           let name = keyName key in
           if name = zn_name z then []
           else case ZoneOf env snap name of
                  None \<Rightarrow> []
                | Some inside \<Rightarrow> if zn_name inside \<noteq> zn_name z then [] else name_set env answer)
         (nt_walk env (sn_tree snap) (nameKey (zn_name z))))
     @ [apex]"

subsection \<open>Messages\<close>

definition envelope_step :: "(rr \<Rightarrow> nat) \<Rightarrow> rr \<Rightarrow> rr list list \<times> rr list \<times> nat \<Rightarrow> rr list list \<times> rr list \<times> nat" where
  "envelope_step rr_len r acc =
     (let (out, batch, size) = acc; n = rr_len r in
      if batch \<noteq> [] \<and> maxEnvelope < size + n then (out @ [batch], [r], n) else (out, batch @ [r], size + n))"

definition envelopes :: "(rr \<Rightarrow> nat) \<Rightarrow> rr list \<Rightarrow> rr list list" where
  "envelopes rr_len rrs =
     (let (out, batch, size) = fold (envelope_step rr_len) rrs ([], [], 0)
      in if batch \<noteq> [] then out @ [batch] else out)"

fun soa_serial :: "rr \<Rightarrow> 32 word option" where
  "soa_serial (RSOA n t m h serial) = Some serial"
| "soa_serial _ = None"

definition transfer_zone :: "('n, 'z, 'a) dns_env \<Rightarrow> xfr_env \<Rightarrow> ('n, 'z, 'a) snapshot \<Rightarrow> xfr_query \<Rightarrow> zone_rec \<Rightarrow> xfr_reply" where
  \<comment> \<open>The end of \<open>transfer\<close>, past its gates.\<close>
  "transfer_zone env xe snap q z =
     (case soa_serial (zn_soa z) of
        None \<Rightarrow> XRcode ServerFailure
      | Some have' \<Rightarrow>
          (case (case xq_kind q of
                   IXFR [asked] \<Rightarrow> soa_serial asked
                 | IXFR _ \<Rightarrow> None
                 | _ \<Rightarrow> Some 0) of
             None \<Rightarrow> XRcode ServerFailure
           | Some serial \<Rightarrow>
               if serial \<noteq> 0 \<and> serial = have' then UpToDate (zn_soa z)
               else Stream (envelopes (xe_rr_len xe) (zoneRecords env snap z (zn_soa z)))))"

definition transfer :: "('n, 'z, 'a) dns_env \<Rightarrow> xfr_env \<Rightarrow> ('n, 'z, 'a) snapshot \<Rightarrow> xfr_query \<Rightarrow> xfr_reply" where
  "transfer env xe snap q =
     (if \<not> xq_tcp q \<or> (case xq_peer q of None \<Rightarrow> True | Some peer \<Rightarrow> \<not> allowed xe (Unmap peer)) \<or> \<not> xq_tsig q
      then XRcode Refused
      else case ZoneOf env snap (xq_name q) of
             None \<Rightarrow> XRcode Refused
           | Some z \<Rightarrow>
               if zn_name z \<noteq> xq_name q \<or> \<not> zn_transfer z \<or> zn_shadowing z then XRcode Refused
               else transfer_zone env xe snap q z)"

definition xfr_ServeDNS :: "('n, 'z, 'a) dns_env \<Rightarrow> xfr_env \<Rightarrow> ('n, 'z, 'a) snapshot \<Rightarrow> xfr_query \<Rightarrow> xfr_reply" where
  "xfr_ServeDNS env xe snap q = (if xq_kind q = NotTransfer then NextPlugin else transfer env xe snap q)"

subsection \<open>Properties\<close>

definition rr_size :: "(rr \<Rightarrow> nat) \<Rightarrow> rr list \<Rightarrow> nat" where
  "rr_size rr_len rrs = sum_list (map rr_len rrs)"

definition fits_wire :: "(rr \<Rightarrow> nat) \<Rightarrow> rr list \<Rightarrow> bool" where
  "fits_wire rr_len batch \<longleftrightarrow> batch \<noteq> [] \<and> (rr_size rr_len batch \<le> maxEnvelope \<or> length batch = 1)"

lemma envelope_step_simp:
  "envelope_step rr_len r (out, batch, n) =
     (if batch \<noteq> [] \<and> maxEnvelope < n + rr_len r then (out @ [batch], [r], rr_len r) else (out, batch @ [r], n + rr_len r))"
  by (simp add: envelope_step_def Let_def)

lemma envelope_fold:
  "list_all (fits_wire rr_len) out \<Longrightarrow> batch \<noteq> [] \<Longrightarrow> fits_wire rr_len batch \<Longrightarrow> sz = rr_size rr_len batch \<Longrightarrow>
     fold (envelope_step rr_len) rrs (out, batch, sz) = (out', batch', sz') \<Longrightarrow>
     list_all (fits_wire rr_len) out' \<and> fits_wire rr_len batch' \<and> concat out' @ batch' = concat out @ batch @ rrs"
proof (induction rrs arbitrary: out batch sz)
  case (Cons r rrs)
  show ?case
  proof (cases "maxEnvelope < sz + rr_len r")
    case True
    then have "fold (envelope_step rr_len) rrs (out @ [batch], [r], rr_len r) = (out', batch', sz')"
      using Cons.prems by (simp add: envelope_step_simp)
    moreover have "fits_wire rr_len [r]" "rr_len r = rr_size rr_len [r]" by (simp_all add: fits_wire_def rr_size_def)
    ultimately have "list_all (fits_wire rr_len) out' \<and> fits_wire rr_len batch' \<and> concat out' @ batch' = concat (out @ [batch]) @ [r] @ rrs"
      using Cons.prems(1,3) by (intro Cons.IH) simp_all
    then show ?thesis by simp
  next
    case False
    then have "fold (envelope_step rr_len) rrs (out, batch @ [r], sz + rr_len r) = (out', batch', sz')"
      using Cons.prems by (simp add: envelope_step_simp)
    moreover have "sz + rr_len r = rr_size rr_len (batch @ [r])" using Cons.prems(4) by (simp add: rr_size_def)
    moreover from this have "fits_wire rr_len (batch @ [r])" using False by (simp add: fits_wire_def)
    ultimately have "list_all (fits_wire rr_len) out' \<and> fits_wire rr_len batch' \<and> concat out' @ batch' = concat out @ (batch @ [r]) @ rrs"
      using Cons.prems(1) by (intro Cons.IH) simp_all
    then show ?thesis by simp
  qed
qed auto

text \<open>
  C22.  A transfer is cut without losing, repeating or moving a record: put
  together again, the messages are the records handed in, none is empty, and each
  stays under the limit unless it is one record that is itself too long.
\<close>

theorem envelopes_are_the_records:
  "concat (envelopes rr_len rrs) = rrs \<and> list_all (fits_wire rr_len) (envelopes rr_len rrs)"
proof (cases rrs)
  case (Cons r rest)
  obtain out batch size where f: "fold (envelope_step rr_len) rest ([], [r], rr_len r) = (out, batch, size)"
    by (cases "fold (envelope_step rr_len) rest ([], [r], rr_len r)") auto
  have "fits_wire rr_len [r]" by (simp add: fits_wire_def)
  then have w: "list_all (fits_wire rr_len) out \<and> fits_wire rr_len batch \<and> concat out @ batch = r # rest"
    using envelope_fold [of rr_len "[]" "[r]" "rr_len r" rest out batch size] f by (simp add: rr_size_def)
  have "fold (envelope_step rr_len) rrs ([], [], 0) = (out, batch, size)"
    using f Cons by (simp add: envelope_step_simp)
  moreover have "batch \<noteq> []" using w by (simp add: fits_wire_def)
  ultimately have "envelopes rr_len rrs = out @ [batch]" by (simp add: envelopes_def)
  then show ?thesis using w Cons by simp
qed (simp add: envelopes_def)

lemma split_dname:
  "list_all label_ok ls \<Longrightarrow> ls \<noteq> [] \<Longrightarrow> split_on (CHR ''.'') (butlast (dname ls)) = ls \<and> has_suffix (dname ls) ''.''"
proof (induction ls)
  case (Cons l ls)
  show ?case
  proof (cases "ls = []")
    case True
    then show ?thesis using Cons.prems by (simp add: dname_def label_ok_def split_on_none has_suffix_def suffix_def)
  next
    case False
    then have "dname ls \<noteq> []" using Cons.prems by (cases ls) (auto simp: dname_def)
    then have "butlast (dname (l # ls)) = l @ CHR ''.'' # butlast (dname ls)" by (simp add: dname_def butlast_append)
    then show ?thesis using Cons False
      by (auto simp: label_ok_def split_on_append dname_def has_suffix_def suffix_def)
  qed
qed simp

lemma join_dname: "ls \<noteq> [] \<Longrightarrow> go_join ''.'' ls @ ''.'' = dname ls"
  by (induction "''.''" ls rule: go_join.induct) (auto simp: dname_def)

text \<open>
  What is keyed is found again: for an absolute name of non-empty labels,
  walking a zone gives back the very name its key was made from.
\<close>

theorem walked_keys_are_their_names:
  assumes "list_all label_ok ls" "ls \<noteq> []"
  shows "keyName (nameKey (dname ls)) = dname ls"
proof -
  have r: "list_all label_ok (rev ls)" "rev ls \<noteq> []" using assms by (simp_all add: list_all_iff)
  show ?thesis
    using split_dname [OF r] join_dname [OF assms(2)] assms(1)
    by (simp add: keyName_def nameKey_dname Let_def)
qed

theorem walked_keys_are_their_names_witness:
  "keyName (nameKey ''web.p.incus.'') = ''web.p.incus.''"
  using walked_keys_are_their_names [of "[''web'', ''p'', ''incus'']"] by (simp add: label_ok_def dname_def)

text \<open>
  A zone leaves the server only whole and only to who may have it: over TCP,
  to a peer of an allowed prefix, with a good signature, by its own name, where it
  was opened for transfer and is not one made up for an alias; and what leaves is
  bracketed by its SOA.
\<close>

theorem transfer_is_gated_and_whole:
  assumes "xfr_ServeDNS env xe snap q = Stream batches"
  shows "xq_kind q \<noteq> NotTransfer \<and> xq_tcp q \<and> xq_tsig q
    \<and> (\<exists>peer. xq_peer q = Some peer \<and> (\<exists>p \<in> set (xe_allow xe). Contains p (Unmap peer)))
    \<and> (\<exists>z. ZoneOf env snap (xq_name q) = Some z \<and> zn_name z = xq_name q \<and> zn_transfer z \<and> \<not> zn_shadowing z
         \<and> concat batches = zoneRecords env snap z (zn_soa z)
         \<and> hd (concat batches) = zn_soa z \<and> last (concat batches) = zn_soa z)"
proof -
  have z: "hd (zoneRecords env snap z a) = a \<and> last (zoneRecords env snap z a) = a" for z a
    by (simp add: zoneRecords_def)
  show ?thesis using assms z envelopes_are_the_records
    by (auto simp: xfr_ServeDNS_def transfer_def transfer_zone_def allowed_def list_ex_iff Let_def
        split: if_splits option.splits)
qed

definition demo_peer :: xfr_query where
  "demo_peer = \<lparr>xq_name = ''p.'', xq_kind = AXFR, xq_tcp = True, xq_peer = Some (A4 9), xq_tsig = True\<rparr>"

theorem transfer_is_gated_and_whole_witness:
  "\<exists>batches. xfr_ServeDNS list_env \<lparr>xe_allow = [host_prefix (A4 9)], xe_rr_len = (\<lambda>_. 50)\<rparr> (demo_snap False) demo_peer = Stream batches
     \<and> hd (concat batches) = zn_soa (demo_zone False)"
proof -
  let ?xe = "\<lparr>xe_allow = [host_prefix (A4 9)], xe_rr_len = (\<lambda>_. 50)\<rparr>"
  have k: "nameKey ''p.'' = ''p.''"
    using nameKey_dname [of "[''p'']"] by (simp add: dname_def label_ok_def)
  have z: "ZoneOf list_env (demo_snap False) ''p.'' = Some (demo_zone False)"
    by (simp add: ZoneOf_def k list_env_def demo_snap_def longest_name_def upt_rec)
  have c: "Contains (host_prefix (A4 9)) (A4 9)" by code_simp
  have "xfr_ServeDNS list_env ?xe (demo_snap False) demo_peer =
      Stream (envelopes (\<lambda>_. 50) (zoneRecords list_env (demo_snap False) (demo_zone False) (zn_soa (demo_zone False))))"
    using c by (simp add: xfr_ServeDNS_def transfer_def demo_peer_def z transfer_zone_def demo_zone_def soa_def allowed_def)
  moreover obtain z' where "ZoneOf list_env (demo_snap False) (xq_name demo_peer) = Some z'"
      "hd (concat (envelopes (\<lambda>_. 50) (zoneRecords list_env (demo_snap False) (demo_zone False) (zn_soa (demo_zone False))))) = zn_soa z'"
    using transfer_is_gated_and_whole [OF calculation] by blast
  ultimately show ?thesis using z by (auto simp: demo_peer_def)
qed

text \<open>
  What an alias is in a transfer depends on the order its records are
  enumerated in.  An alias is filed under its own type and, chased, under every
  type of its target, and repeats are dropped by their text across types: where
  the alias's own type comes first it goes alone, and where another type does
  nothing is left under its own and it goes out beside the target's records.
\<close>

theorem transferred_alias_depends_on_order:
  assumes "dv_rr_string env cname \<noteq> dv_rr_string env target"
  shows "name_set env [(vid, [(TypeCNAME, [cname]), (TypeA, [cname, target])])] = [cname]
    \<and> set (name_set env [(vid, [(TypeA, [cname, target]), (TypeCNAME, [cname])])]) = {cname, target}"
  using assms by (auto simp: name_set_def gather_def gather_rr_def rrs_of_def Let_def)

theorem transferred_alias_depends_on_order_witness:
  "set (name_set list_env [(''p/br0'', [(TypeA, [RCNAME ''a.p.'' 60 ''w.p.'', RA ''w.p.'' 60 (A4 7)]),
      (TypeCNAME, [RCNAME ''a.p.'' 60 ''w.p.''])])]) = {RCNAME ''a.p.'' 60 ''w.p.'', RA ''w.p.'' 60 (A4 7)}"
  using transferred_alias_depends_on_order [of list_env "RCNAME ''a.p.'' 60 ''w.p.''" "RA ''w.p.'' 60 (A4 7)" "''p/br0''"]
  by (simp add: list_env_def rr_text_def)

end
