(* ===== verification/VolumeLock.thy ===== *)
theory VolumeLock
  imports Prelude
begin

text \<open>
  The advisory lock on a storage volume
  (\<open>client/resource_storage_volume_lock.go\<close>): contenders that share one file over
  SFTP.  One action is one file operation, so runs are the interleavings of what
  the contenders do; a file created anew at the path is another file, and a
  handle stays with the file it was opened on.  Times are nanoseconds, a holder is
  its number, and a stamp the file does not carry is \<open>None\<close>.
\<close>

subsection \<open>The file and who contends for it\<close>

record lock_file =
  lf_id :: nat
  lf_data :: "(nat \<times> int) option"   \<comment> \<open>owner and stamp, once written\<close>
  lf_mtime :: int

datatype phase =
    Trying            \<comment> \<open>about to create the file exclusively\<close>
  | Looking           \<comment> \<open>the create failed and a stale lock may be taken over\<close>
  | Statting          \<comment> \<open>the file could not be read\<close>
  | Reaping           \<comment> \<open>judged stale, about to remove\<close>
  | Created nat       \<comment> \<open>won, about to write itself in\<close>
  | Abandoning        \<comment> \<open>could not write, about to remove\<close>
  | Holding
  | Removing          \<comment> \<open>unlocking, the file named it\<close>
  | Released
  | Crashed

record volume =
  v_file :: "lock_file option"
  v_fresh :: nat
  v_phase :: "nat \<Rightarrow> phase"
  v_beat :: "nat \<Rightarrow> nat option"   \<comment> \<open>the file a heartbeat has open\<close>

datatype lock_act =
    Create nat int
  | Look nat int
  | Stat nat int
  | Reap nat
  | WriteIn nat int bool
  | Abandon nat
  | BeatOpen nat
  | BeatWrite nat int
  | ReadOwner nat
  | RemoveOwn nat
  | Crash nat

definition enter_phase :: "nat \<Rightarrow> phase \<Rightarrow> volume \<Rightarrow> volume" where
  "enter_phase p ph v = v\<lparr>v_phase := (v_phase v)(p := ph)\<rparr>"

definition judge :: "int \<Rightarrow> int \<Rightarrow> int \<Rightarrow> phase" where
  \<comment> \<open>Reaped once it has gone unrefreshed for longer than allowed.\<close>
  "judge stale now stamp = (if stale < now - stamp then Reaping else Trying)"

definition readLock :: "lock_file option \<Rightarrow> (nat \<times> int) option" where
  "readLock f = (case f of None \<Rightarrow> None | Some x \<Rightarrow> lf_data x)"

definition write_through :: "nat \<Rightarrow> nat \<Rightarrow> int \<Rightarrow> lock_file option \<Rightarrow> lock_file option" where
  \<comment> \<open>Writing through a handle reaches the file it was opened on, where that is still the one at the path.\<close>
  "write_through p i now f =
     map_option (\<lambda>x. if lf_id x = i then x\<lparr>lf_data := Some (p, now), lf_mtime := now\<rparr> else x) f"

definition refresh_open :: "int \<Rightarrow> nat \<Rightarrow> volume \<Rightarrow> volume" where
  \<comment> \<open>The heartbeat, there only where a lock may go stale, opens whatever is at the path.\<close>
  "refresh_open stale p v =
     (if v_phase v p \<noteq> Holding \<or> stale \<le> 0 then v else v\<lparr>v_beat := (v_beat v)(p := map_option lf_id (v_file v))\<rparr>)"

definition refresh_write :: "nat \<Rightarrow> int \<Rightarrow> volume \<Rightarrow> volume" where
  "refresh_write p now v =
     (case v_beat v p of
        None \<Rightarrow> v
      | Some i \<Rightarrow> v\<lparr>v_file := write_through p i now (v_file v), v_beat := (v_beat v)(p := None)\<rparr>)"

definition Unlock :: "nat \<Rightarrow> volume \<Rightarrow> volume" where
  \<comment> \<open>Up to the removal: the heartbeat has stopped, the file is read.\<close>
  "Unlock p v =
     (if v_phase v p \<noteq> Holding \<or> v_beat v p \<noteq> None then v
      else enter_phase p (case readLock (v_file v) of None \<Rightarrow> Released
                          | Some (owner, stamp) \<Rightarrow> if owner = p then Removing else Released) v)"

declare readLock_def [simp] write_through_def [simp] refresh_open_def [simp] refresh_write_def [simp] Unlock_def [simp]

fun lock_step :: "int \<Rightarrow> lock_act \<Rightarrow> volume \<Rightarrow> volume" where
  "lock_step stale (Create p now) v =
     (if v_phase v p \<noteq> Trying then v
      else case v_file v of
             None \<Rightarrow>
               enter_phase p (Created (v_fresh v))
                 (v\<lparr>v_file := Some \<lparr>lf_id = v_fresh v, lf_data = None, lf_mtime = now\<rparr>, v_fresh := Suc (v_fresh v)\<rparr>)
           | Some _ \<Rightarrow> if 0 < stale then enter_phase p Looking v else v)"
| "lock_step stale (Look p now) v =
     (if v_phase v p \<noteq> Looking then v
      else enter_phase p (case readLock (v_file v) of None \<Rightarrow> Statting | Some (owner, stamp) \<Rightarrow> judge stale now stamp) v)"
| "lock_step stale (Stat p now) v =
     (if v_phase v p \<noteq> Statting then v
      else case v_file v of
             None \<Rightarrow> enter_phase p Trying v
           | Some f \<Rightarrow> enter_phase p (judge stale now (lf_mtime f)) v)"
| "lock_step stale (Reap p) v = (if v_phase v p \<noteq> Reaping then v else enter_phase p Trying (v\<lparr>v_file := None\<rparr>))"
| "lock_step stale (WriteIn p now ok) v =
     (case v_phase v p of
        Created i \<Rightarrow>
          if \<not> ok then enter_phase p Abandoning v
          else enter_phase p Holding
                 (v\<lparr>v_file := write_through p i now (v_file v)\<rparr>)
      | _ \<Rightarrow> v)"
| "lock_step stale (Abandon p) v = (if v_phase v p \<noteq> Abandoning then v else enter_phase p Trying (v\<lparr>v_file := None\<rparr>))"
| "lock_step stale (BeatOpen p) v = refresh_open stale p v"
| "lock_step stale (BeatWrite p now) v = refresh_write p now v"
| "lock_step stale (ReadOwner p) v = Unlock p v"
| "lock_step stale (RemoveOwn p) v = (if v_phase v p \<noteq> Removing then v else enter_phase p Released (v\<lparr>v_file := None\<rparr>))"
| "lock_step stale (Crash p) v = (enter_phase p Crashed v)\<lparr>v_beat := (v_beat v)(p := None)\<rparr>"

definition lock_run :: "int \<Rightarrow> lock_act list \<Rightarrow> volume \<Rightarrow> volume" where
  "lock_run stale acts v = fold (lock_step stale) acts v"

definition no_lock :: volume where
  "no_lock = \<lparr>v_file = None, v_fresh = 0, v_phase = (\<lambda>_. Trying), v_beat = (\<lambda>_. None)\<rparr>"

subsection \<open>Mutual exclusion\<close>

fun owns :: "phase \<Rightarrow> bool" where
  \<comment> \<open>Between winning the create and giving the lock back.\<close>
  "owns (Created i) = True"
| "owns Abandoning = True"
| "owns Holding = True"
| "owns Removing = True"
| "owns _ = False"

fun quiet :: "phase \<Rightarrow> bool" where
  "quiet Looking = False"
| "quiet Statting = False"
| "quiet Reaping = False"
| "quiet _ = True"

fun file_for :: "nat \<Rightarrow> phase \<Rightarrow> lock_file option \<Rightarrow> bool" where
  \<comment> \<open>The file an owner relies on.\<close>
  "file_for p (Created i) f \<longleftrightarrow> map_option lf_id f = Some i"
| "file_for p Abandoning f \<longleftrightarrow> f \<noteq> None"
| "file_for p Holding f \<longleftrightarrow> map_option fst (Option.bind f lf_data) = Some p"
| "file_for p Removing f \<longleftrightarrow> f \<noteq> None"
| "file_for p _ f \<longleftrightarrow> True"

definition lock_ok :: "volume \<Rightarrow> bool" where
  "lock_ok v \<longleftrightarrow>
     (\<forall>p q. owns (v_phase v p) \<longrightarrow> owns (v_phase v q) \<longrightarrow> p = q)
     \<and> (\<forall>p. quiet (v_phase v p) \<and> v_beat v p = None \<and> file_for p (v_phase v p) (v_file v))"

lemma lock_okD:
  assumes "lock_ok v"
  shows "owns (v_phase v p) \<Longrightarrow> owns (v_phase v q) \<Longrightarrow> p = q" "quiet (v_phase v p)" "v_beat v p = None"
    "file_for p (v_phase v p) (v_file v)"
  using assms by (simp_all add: lock_ok_def)

lemma file_unowned: "\<not> owns ph \<Longrightarrow> file_for p ph f"
  by (cases ph) simp_all

lemma file_of_owner: "owns ph \<Longrightarrow> file_for p ph f \<Longrightarrow> f \<noteq> None"
  by (cases ph; cases f) auto

text \<open>One contender changes phase, and with it perhaps the file, while nobody else owns the lock.\<close>

lemma change_ok:
  assumes "lock_ok v" "\<And>q. owns (v_phase v q) \<Longrightarrow> q = p" "quiet ph" "file_for p ph f"
  shows "lock_ok (enter_phase p ph (v\<lparr>v_file := f, v_fresh := n\<rparr>))"
proof -
  have "file_for q (v_phase v q) f" if "q \<noteq> p" for q
    using assms(2) [of q] that by (auto intro: file_unowned)
  then show ?thesis using assms(2-4) lock_okD [OF assms(1)]
    by (auto simp: lock_ok_def enter_phase_def)
qed

lemma lock_ok_same:
  assumes "lock_ok v" shows "lock_ok (v\<lparr>v_beat := (v_beat v)(p := None)\<rparr>)"
  using lock_okD [OF assms] by (auto simp: lock_ok_def)

lemma no_change: "v\<lparr>v_file := v_file v, v_fresh := v_fresh v\<rparr> = v"
  by simp

lemma owner_change_ok:
  assumes "lock_ok v" "owns (v_phase v p)" "quiet ph" "file_for p ph f"
  shows "lock_ok (enter_phase p ph (v\<lparr>v_file := f\<rparr>))"
  using change_ok [OF assms(1) _ assms(3,4), of "v_fresh v"] lock_okD(1) [OF assms(1) _ assms(2)] by simp

lemma owner_phase_ok:
  assumes "lock_ok v" "owns (v_phase v p)" "quiet ph" "file_for p ph (v_file v)"
  shows "lock_ok (enter_phase p ph v)"
  using owner_change_ok [OF assms] by simp

lemma idle_change_ok:
  assumes "lock_ok v" "quiet ph" "\<not> owns ph"
  shows "lock_ok (enter_phase p ph v)"
  using lock_okD [OF assms(1)] assms(2,3) by (auto simp: lock_ok_def enter_phase_def file_unowned)

lemma create_ok:
  assumes "lock_ok v" shows "lock_ok (lock_step 0 (Create p now) v)"
proof (cases "v_file v")
  case None
  then have "\<not> owns (v_phase v q)" for q using lock_okD(4) [OF assms, of q] file_of_owner by fastforce
  then show ?thesis
    using None assms change_ok [OF assms, of p "Created (v_fresh v)" "Some \<lparr>lf_id = v_fresh v, lf_data = None, lf_mtime = now\<rparr>"]
    by simp
qed (use assms in simp)

lemma write_ok:
  assumes "lock_ok v" shows "lock_ok (lock_step 0 (WriteIn p now ok) v)"
proof (cases "v_phase v p")
  case (Created i)
  then have o': "owns (v_phase v p)" by simp
  obtain f where f: "v_file v = Some f" "lf_id f = i" using lock_okD(4) [OF assms, of p] Created by auto
  show ?thesis
  proof (cases ok)
    case True
    then show ?thesis using f Created owner_change_ok [OF assms o', of Holding "Some (f\<lparr>lf_data := Some (p, now), lf_mtime := now\<rparr>)"]
      by simp
  next
    case False
    then show ?thesis using f Created owner_phase_ok [OF assms o', of Abandoning] by simp
  qed
qed (use assms in simp_all)

lemma read_ok:
  assumes "lock_ok v" shows "lock_ok (lock_step 0 (ReadOwner p) v)"
proof (cases "v_phase v p = Holding")
  case True
  then obtain f t where f: "v_file v = Some f" "lf_data f = Some (p, t)"
    using lock_okD(4) [OF assms, of p] by (auto split: bind_splits)
  then show ?thesis using True owner_phase_ok [OF assms, of p Removing] assms by simp
qed (use assms in simp)

lemma lock_step_ok:
  assumes "lock_ok v" shows "lock_ok (lock_step 0 a v)"
proof (cases a)
  case (Look p now) then show ?thesis using assms lock_okD(2) [OF assms, of p] by (cases "v_phase v p") simp_all
next
  case (Stat p now) then show ?thesis using assms lock_okD(2) [OF assms, of p] by (cases "v_phase v p") simp_all
next
  case (Reap p) then show ?thesis using assms lock_okD(2) [OF assms, of p] by (cases "v_phase v p") simp_all
next
  case (Abandon p) then show ?thesis using assms owner_change_ok [OF assms, of p Trying None] by simp
next
  case (BeatOpen p) then show ?thesis using assms by simp
next
  case (BeatWrite p now) then show ?thesis using assms lock_okD(3) [OF assms, of p] by simp
next
  case (RemoveOwn p) then show ?thesis using assms owner_change_ok [OF assms, of p Released None] by simp
next
  case (Crash p) then show ?thesis using lock_ok_same [OF idle_change_ok [OF assms, of Crashed p], of p]
    by (simp add: enter_phase_def)
qed (use assms in \<open>simp_all only: create_ok write_ok read_ok\<close>)

lemma lock_run_ok: "lock_ok v \<Longrightarrow> lock_ok (lock_run 0 acts v)"
  by (induction acts arbitrary: v) (simp_all add: lock_run_def lock_step_ok)

text \<open>
  C32.  A lock that is never taken over excludes: whatever its contenders do, in
  whatever order, and wherever one crashes, no two of them hold it at once.
\<close>

theorem lock_without_takeover_excludes:
  assumes "v = lock_run 0 acts no_lock" "owns (v_phase v p)" "owns (v_phase v q)"
  shows "p = q"
proof -
  have "lock_ok no_lock" by (simp add: lock_ok_def no_lock_def)
  from lock_okD(1) [OF lock_run_ok [OF this, of acts]] show ?thesis using assms by blast
qed

definition two_acquire :: "lock_act list" where
  \<comment> \<open>Two contenders, the first of whom gets it and gives it back.\<close>
  "two_acquire = [Create 1 5, Create 2 6, WriteIn 1 7 True, Create 2 8, ReadOwner 1, RemoveOwn 1, Create 2 9, WriteIn 2 10 True]"

theorem lock_without_takeover_excludes_witness:
  "v_phase (lock_run 0 two_acquire no_lock) 2 = Holding \<and> \<not> owns (v_phase (lock_run 0 two_acquire no_lock) 1)"
proof -
  have h: "v_phase (lock_run 0 two_acquire no_lock) 2 = Holding"
    by (simp add: lock_run_def two_acquire_def no_lock_def enter_phase_def)
  then show ?thesis using lock_without_takeover_excludes [OF refl, of two_acquire 1 2] by auto
qed

definition takeover_race :: "int \<Rightarrow> lock_act list" where
  "takeover_race late =
     [Create 0 0, WriteIn 0 0 True, Crash 0,
      Create 1 late, Look 1 late, Create 2 late, Look 2 late,
      Reap 1, Create 1 late, WriteIn 1 late True,
      Reap 2, Create 2 late, WriteIn 2 late True]"

text \<open>
  Two takers of a stale lock can both end up holding it.  Each judges the
  dead holder's file; one removes it, creates its own and holds the lock, and then
  the other removes that file, which is not the one it judged, and holds the lock
  too.  No length of the stale time prevents it.
\<close>

theorem two_takers_both_hold_the_lock:
  assumes "0 < stale" "stale < late"
  shows "v_phase (lock_run stale (takeover_race late) no_lock) 1 = Holding
    \<and> v_phase (lock_run stale (takeover_race late) no_lock) 2 = Holding"
  using assms by (simp add: takeover_race_def lock_run_def no_lock_def enter_phase_def judge_def)

theorem two_takers_both_hold_the_lock_witness:
  "\<exists>acts. v_phase (lock_run 30 acts no_lock) 1 = Holding \<and> v_phase (lock_run 30 acts no_lock) 2 = Holding"
  using two_takers_both_hold_the_lock [of 30 31] by auto

end
