(* ===== verification/Placement.thy ===== *)
theory Placement
  imports GoLib
begin

text \<open>
  How many instances a service has and on which cluster member each goes
  (\<open>project/placement.go\<close>, and of \<open>project/project.go\<close> and \<open>project/instance.go\<close>
  how instances are counted, named and waited for).  A compose service is the
  fields these functions read; the extension block is the one boolean read out
  of it.  What the server knows is in the environment.
\<close>

subsection \<open>Data\<close>

record deploy =
  dp_mode :: string
  dp_replicas :: "int option"
  dp_condition :: "string option"   \<comment> \<open>the restart policy's, where one is declared\<close>
  dp_constraints :: "string list"
  dp_spreads :: "string list"       \<comment> \<open>the preferences\<close>
  dp_max :: "64 word"

record service =
  sv_name :: string
  sv_container :: string
  sv_restart :: string
  sv_deploy :: "deploy option"
  sv_allow_local :: bool
  sv_depends :: "(string \<times> string) list"   \<comment> \<open>each with its condition\<close>

record member =
  mb_name :: string
  mb_status :: string
  mb_roles :: "string list"
  mb_groups :: "string list"
  mb_domain :: string
  mb_config :: "(string \<times> string) list"

record placement_env =
  pe_clustered :: bool
  pe_server :: string
  pe_network :: string
  pe_remote :: bool
  pe_members :: "member list"

datatype place_error =
    UnsupportedMode string
  | UnsupportedKey string
  | InvalidConstraint string
  | NoMember
  | TooManyReplicas
  | NeedsRemoteStorage
  | LengthPanic   \<comment> \<open>\<open>make\<close> of a negative length\<close>

definition serviceRestartPolicy :: "service \<Rightarrow> string" where
  "serviceRestartPolicy sv =
     (if sv_restart sv \<noteq> [] then sv_restart sv
      else case sv_deploy sv of
             None \<Rightarrow> []
           | Some d \<Rightarrow>
               (case dp_condition d of
                  None \<Rightarrow> []
                | Some c \<Rightarrow>
                    if c = ''none'' then ''no'' else if c = ''on-failure'' then ''on-failure''
                    else if c = ''any'' \<or> c = [] then ''always'' else c))"

subsection \<open>Constraints\<close>

fun go_cut :: "string \<Rightarrow> string \<Rightarrow> (string \<times> string) option" where
  \<comment> \<open>\<open>strings.Cut\<close>, for a separator that is not empty.\<close>
  "go_cut [] sep = None"
| "go_cut (c # cs) sep =
     (if has_prefix (c # cs) sep then Some ([], drop (length sep) (c # cs))
      else map_option (\<lambda>(a, b). (c # a, b)) (go_cut cs sep))"

record constraint =
  pc_key :: string
  pc_op :: string
  pc_value :: string

definition known_key :: "string \<Rightarrow> bool" where
  "known_key k \<longleftrightarrow>
     k \<in> {''node.hostname'', ''node.id'', ''node.role'', ''node.group'', ''node.failure_domain''}
     \<or> has_prefix k ''node.labels.''"

fun parse_ops :: "string list \<Rightarrow> string \<Rightarrow> place_error + constraint" where
  "parse_ops [] raw = Inl (InvalidConstraint raw)"
| "parse_ops (op # ops) raw =
     (case go_cut raw op of
        None \<Rightarrow> parse_ops ops raw
      | Some (lhs0, rhs0) \<Rightarrow>
          (let lhs = trim_space lhs0; rhs = trim_space rhs0 in
           if lhs = [] then Inl (InvalidConstraint raw)
           else if known_key lhs then Inr \<lparr>pc_key = lhs, pc_op = op, pc_value = rhs\<rparr>
           else Inl (UnsupportedKey lhs)))"

definition parsePlacementConstraint :: "string \<Rightarrow> place_error + constraint" where
  "parsePlacementConstraint raw = parse_ops [''=='', ''!=''] raw"

definition pc_matches :: "constraint \<Rightarrow> member \<Rightarrow> bool" where
  "pc_matches c m =
     (let k = pc_key c; v = pc_value c;
          matched =
            (if k = ''node.hostname'' \<or> k = ''node.id'' then mb_name m = v
             else if k = ''node.role'' then v \<in> set (mb_roles m)
             else if k = ''node.group'' then v \<in> set (mb_groups m)
             else if k = ''node.failure_domain'' then mb_domain m = v
             else if has_prefix k ''node.labels.'' then
               cfg_get (mb_config m) (''user.'' @ trim_prefix k ''node.labels.'') = v
             else False)
      in if pc_op c = ''!='' then \<not> matched else matched)"

fun parse_all :: "string list \<Rightarrow> place_error + constraint list" where
  "parse_all [] = Inr []"
| "parse_all (raw # raws) =
     (case parsePlacementConstraint raw of
        Inl e \<Rightarrow> Inl e
      | Inr c \<Rightarrow> (case parse_all raws of Inl e \<Rightarrow> Inl e | Inr cs \<Rightarrow> Inr (c # cs)))"

definition online :: "member \<Rightarrow> bool" where
  "online m \<longleftrightarrow> mb_status m = [] \<or> to_lower (mb_status m) = ''online''"

definition filterClusterMembers :: "member list \<Rightarrow> string list \<Rightarrow> place_error + member list" where
  "filterClusterMembers members constraints =
     (case parse_all constraints of
        Inl e \<Rightarrow> Inl e
      | Inr parsed \<Rightarrow> Inr (filter (\<lambda>m. online m \<and> list_all (\<lambda>c. pc_matches c m) parsed) members))"

subsection \<open>Spreading\<close>

definition memberSpreadValue :: "member \<Rightarrow> string \<Rightarrow> string" where
  "memberSpreadValue m k =
     (if k = ''node.failure_domain'' then mb_domain m
      else if k = ''node.hostname'' \<or> k = ''node.id'' then mb_name m
      else if k = ''node.group'' then (case mb_groups m of [] \<Rightarrow> [] | g # _ \<Rightarrow> g)
      else if has_prefix k ''node.labels.'' then cfg_get (mb_config m) (''user.'' @ trim_prefix k ''node.labels.'')
      else mb_name m)"

definition preferred_first :: "string \<Rightarrow> member list \<Rightarrow> member list" where
  \<comment> \<open>The comparison function of the sort: the connected server, then by name.\<close>
  "preferred_first server ms =
     filter (\<lambda>m. mb_name m = server) ms @ sort_key mb_name (filter (\<lambda>m. mb_name m \<noteq> server) ms)"

definition bucket_order :: "string \<Rightarrow> member list \<Rightarrow> string list" where
  \<comment> \<open>The values in the order they first occur.\<close>
  "bucket_order k ms = rev (remdups (rev (map (\<lambda>m. memberSpreadValue m k) ms)))"

lemma tails_smaller:
  "b \<in> set bs \<Longrightarrow> b \<noteq> [] \<Longrightarrow> sum_list (map (\<lambda>x. length (tl x)) bs) < sum_list (map length bs)"
proof (induction bs)
  case (Cons x xs)
  have le: "sum_list (map (\<lambda>x. length (tl x)) xs) \<le> sum_list (map length xs)"
    by (rule sum_list_mono) simp
  show ?case
  proof (cases "b = x")
    case True
    then have "length (tl x) < length x" using Cons.prems(2) by (cases x) auto
    then show ?thesis using le by simp
  next
    case False
    then have "sum_list (map (\<lambda>x. length (tl x)) xs) < sum_list (map length xs)" using Cons by simp
    moreover have "length (tl x) \<le> length x" by simp
    ultimately show ?thesis unfolding list.map sum_list.Cons by (rule add_le_less_mono [rotated])
  qed
qed simp

function interleave :: "'a list list \<Rightarrow> 'a list" where
  \<comment> \<open>One from each bucket in turn, until all are taken.\<close>
  "interleave bs =
     (if list_all (\<lambda>b. b = []) bs then [] else concat (map (take 1) bs) @ interleave (map tl bs))"
  by pat_completeness auto
termination
  by (relation "measure (\<lambda>bs. sum_list (map length bs))")
     (auto simp: list_all_iff comp_def simp del: length_tl intro: tails_smaller)

declare interleave.simps [simp del]

fun orderClusterMembers :: "member list \<Rightarrow> string list \<Rightarrow> string \<Rightarrow> member list" where
  "orderClusterMembers candidates [] server = preferred_first server candidates"
| "orderClusterMembers candidates (spread # rest) server =
     (let sorted = preferred_first server candidates; k = trim_space spread in
      if length sorted \<le> 1 then sorted
      else if k = [] then orderClusterMembers sorted rest server
      else
        (let bucket = (\<lambda>v. filter (\<lambda>m. memberSpreadValue m k = v) sorted);
             buckets = map (\<lambda>v. if rest \<noteq> [] then orderClusterMembers (bucket v) rest server else bucket v) (bucket_order k sorted)
         in interleave buckets))"

subsection \<open>Placing a service\<close>

definition go_make :: "int \<Rightarrow> 'a \<Rightarrow> place_error + 'a list" where
  \<comment> \<open>\<open>make\<close> of a length: a negative one panics.\<close>
  "go_make n x = (if n < 0 then Inl LengthPanic else Inr (replicate (nat n) x))"

definition service_mode :: "service \<Rightarrow> string" where
  "service_mode sv =
     (case sv_deploy sv of None \<Rightarrow> ''replicated'' | Some d \<Rightarrow> if dp_mode d \<noteq> [] then dp_mode d else ''replicated'')"

definition declared_replicas :: "service \<Rightarrow> int option \<Rightarrow> int" where
  "declared_replicas sv override =
     (case override of
        Some n \<Rightarrow> n
      | None \<Rightarrow> (case sv_deploy sv of None \<Rightarrow> 1 | Some d \<Rightarrow> (case dp_replicas d of None \<Rightarrow> 1 | Some n \<Rightarrow> n)))"

definition place_on ::
  "placement_env \<Rightarrow> service \<Rightarrow> int option \<Rightarrow> bool \<Rightarrow> member list \<Rightarrow> place_error + int \<times> string list \<times> bool" where
  \<comment> \<open>\<open>resolveServicePlacementEnv\<close> on a cluster, once the members a replica may go on are known.\<close>
  "place_on env sv override allow_local candidates =
     (let mode = service_mode sv; everywhere = (mode = ''global'' \<and> override = None);
          maxReplicas = (case sv_deploy sv of None \<Rightarrow> 0 | Some d \<Rightarrow> dp_max d);
          constraints = (case sv_deploy sv of None \<Rightarrow> [] | Some d \<Rightarrow> dp_constraints d);
          preferences = (case sv_deploy sv of None \<Rightarrow> [] | Some d \<Rightarrow> dp_spreads d);
          desired = (if everywhere then int (length candidates) else declared_replicas sv override);
          scales = (1 < desired \<or> mode = ''global''); allowLocal = (allow_local \<or> sv_allow_local sv);
          warn = (scales \<and> \<not> pe_remote env);
          hasPlacement = (mode = ''global'' \<or> constraints \<noteq> [] \<or> preferences \<noteq> [] \<or> 0 < maxReplicas)
      in if candidates = [] then Inl NoMember
         else if desired = 0 then Inr (0, [], False)
         else if 0 < maxReplicas \<and> of_nat (length candidates) * maxReplicas < (of_int desired :: 64 word) then Inl TooManyReplicas
         else if warn \<and> \<not> allowLocal then Inl NeedsRemoteStorage
         else if desired = 1 \<and> \<not> hasPlacement then
           (if pe_network env = ''bridge'' \<or> \<not> pe_remote env then Inr (1, [pe_server env], warn) else Inr (1, [[]], warn))
         else if everywhere then Inr (desired, map mb_name candidates, warn)
         else
           (let ordered = orderClusterMembers candidates preferences (pe_server env)
            in case go_make desired [] of
                 Inl e \<Rightarrow> Inl e
               | Inr blank \<Rightarrow>
                   Inr (desired, map (\<lambda>i. mb_name (ordered ! (i mod length ordered))) [0..<length (blank :: string list)], warn)))"

definition resolveServicePlacementEnv ::
  "placement_env \<Rightarrow> service \<Rightarrow> int option \<Rightarrow> bool \<Rightarrow> place_error + int \<times> string list \<times> bool" where
  "resolveServicePlacementEnv env sv override allow_local =
     (let mode = service_mode sv in
      if mode \<noteq> ''replicated'' \<and> mode \<noteq> ''global'' then Inl (UnsupportedMode mode)
      else if \<not> pe_clustered env then
        (let desired = (if mode = ''global'' \<and> override = None then 1 else declared_replicas sv override)
         in case go_make desired [] of Inl e \<Rightarrow> Inl e | Inr ts \<Rightarrow> Inr (desired, ts, False))
      else case filterClusterMembers (pe_members env)
                  (case sv_deploy sv of None \<Rightarrow> [] | Some d \<Rightarrow> dp_constraints d) of
             Inl e \<Rightarrow> Inl e
           | Inr candidates \<Rightarrow> place_on env sv override allow_local candidates)"

subsection \<open>The order is a reordering\<close>

lemma preferred_first_mset [simp]: "mset (preferred_first server ms) = mset ms"
proof -
  have "mset (filter (\<lambda>m. mb_name m = server) ms) + mset (filter (\<lambda>m. mb_name m \<noteq> server) ms) = mset ms"
    by (induction ms) auto
  then show ?thesis by (simp add: preferred_first_def del: mset_filter)
qed

lemma interleave_mset: "mset (interleave bs) = sum_list (map mset bs)"
proof (induction bs rule: interleave.induct)
  case (1 bs)
  show ?case
  proof (cases "list_all (\<lambda>b. b = []) bs")
    case True
    then show ?thesis by (subst interleave.simps, induction bs) auto
  next
    case False
    have "mset (concat (map (take 1) xs)) + sum_list (map mset (map tl xs)) = sum_list (map mset xs)" for xs :: "'a list list"
    proof (induction xs)
      case (Cons x xs)
      then show ?case by (cases x) (auto simp: ac_simps)
    qed simp
    then show ?thesis using False 1 by (subst interleave.simps) simp
  qed
qed

lemma buckets_mset:
  assumes "distinct vs" "set (map f ms) \<subseteq> set vs"
  shows "sum_list (map (\<lambda>v. mset (filter (\<lambda>m. f m = v) ms)) vs) = mset ms"
  using assms(2)
proof (induction ms)
  case (Cons m ms)
  have "sum_list (map (\<lambda>v. if f m = v then {#m#} else {#}) vs) = {#m#}"
    using assms(1) Cons.prems by (subst sum_list_distinct_conv_sum_set) auto
  moreover have "(\<lambda>v. mset (filter (\<lambda>x. f x = v) (m # ms))) =
      (\<lambda>v. (if f m = v then {#m#} else {#}) + mset (filter (\<lambda>x. f x = v) ms))"
    by (auto simp: fun_eq_iff)
  ultimately show ?case using Cons by (simp only: sum_list_addf) simp
qed (induction vs; simp)

lemma order_mset: "mset (orderClusterMembers candidates spreads server) = mset candidates"
proof (induction candidates spreads server rule: orderClusterMembers.induct)
  case (2 candidates spread rest server)
  define sorted where "sorted = preferred_first server candidates"
  define k where "k = trim_space spread"
  have s: "mset sorted = mset candidates" by (simp add: sorted_def)
  show ?case
  proof (cases "length sorted \<le> 1 \<or> k = []")
    case True
    then show ?thesis using 2(1) [OF sorted_def k_def] s
      by (auto simp: sorted_def [symmetric] k_def [symmetric] Let_def)
  next
    case False
    have "mset (if rest \<noteq> [] then orderClusterMembers (filter (\<lambda>m. memberSpreadValue m k = v) sorted) rest server
          else filter (\<lambda>m. memberSpreadValue m k = v) sorted) = mset (filter (\<lambda>m. memberSpreadValue m k = v) sorted)"
      if "v \<in> set (bucket_order k sorted)" for v
      using 2(2) [OF sorted_def k_def] False that by auto
    then have "sum_list (map (\<lambda>v. mset (if rest \<noteq> [] then orderClusterMembers (filter (\<lambda>m. memberSpreadValue m k = v) sorted) rest server
          else filter (\<lambda>m. memberSpreadValue m k = v) sorted)) (bucket_order k sorted)) =
        sum_list (map (\<lambda>v. mset (filter (\<lambda>m. memberSpreadValue m k = v) sorted)) (bucket_order k sorted))"
      by (intro arg_cong [where f = sum_list] map_cong refl)
    moreover have "sum_list (map (\<lambda>v. mset (filter (\<lambda>m. memberSpreadValue m k = v) sorted)) (bucket_order k sorted)) = mset sorted"
      by (rule buckets_mset) (auto simp: bucket_order_def)
    ultimately show ?thesis using False s
      by (simp add: sorted_def [symmetric] k_def [symmetric] Let_def interleave_mset comp_def del: mset_filter)
  qed
qed simp

subsection \<open>Shares\<close>

abbreviation rounds :: "'a list \<Rightarrow> nat \<Rightarrow> 'a list" where
  \<comment> \<open>The first \<open>n\<close> of a list taken around and around.\<close>
  "rounds xs n \<equiv> map (\<lambda>i. xs ! (i mod length xs)) [0..<n]"

lemma count_rounds: "count_list (map f [0..<n]) v = card {i. i < n \<and> f i = v}"
proof (induction n)
  case (Suc n)
  have "{i. i < Suc n \<and> f i = v} = (if f n = v then insert n {i. i < n \<and> f i = v} else {i. i < n \<and> f i = v})"
    by (auto simp: less_Suc_eq)
  then show ?case using Suc by simp
qed simp

lemma rounds_at_most:
  assumes "distinct xs" "n \<le> length xs * k"
  shows "count_list (rounds xs n) v \<le> k"
proof (cases "xs = []")
  case False
  let ?S = "{i. i < n \<and> xs ! (i mod length xs) = v}"
  have inj: "inj_on (\<lambda>i. i div length xs) ?S"
  proof (rule inj_onI)
    fix i j assume ij: "i \<in> ?S" "j \<in> ?S" "i div length xs = j div length xs"
    then have "i mod length xs = j mod length xs" using nth_eq_iff_index_eq [OF assms(1), of "i mod length xs" "j mod length xs"] False by simp
    then show "i = j" using ij(3) by (metis div_mult_mod_eq)
  qed
  have "(\<lambda>i. i div length xs) ` ?S \<subseteq> {..<k}"
    using assms(2) False by (auto intro!: less_mult_imp_div_less simp: mult.commute)
  then have "card ?S \<le> card {..<k}" by (rule card_inj_on_le [OF inj]) simp
  then show ?thesis by (simp add: count_rounds)
qed (use assms in simp)

lemma rounds_at_least:
  assumes "v \<in> set xs"
  shows "n div length xs \<le> count_list (rounds xs n) v"
proof -
  obtain j where j: "j < length xs" "v = xs ! j" using assms by (auto simp: in_set_conv_nth)
  let ?S = "{i. i < n \<and> xs ! (i mod length xs) = v}"
  have "j + length xs * q < n" if "q < n div length xs" for q
  proof -
    have "length xs * (q + 1) \<le> length xs * (n div length xs)" using that by (intro mult_le_mono2) simp
    also have "\<dots> \<le> n" by simp
    finally show ?thesis using j(1) by (simp add: algebra_simps)
  qed
  then have "(\<lambda>q. j + length xs * q) ` {..<n div length xs} \<subseteq> ?S" using j by auto
  then have "card {..<n div length xs} \<le> card ?S"
    by (rule card_inj_on_le [rotated]) (use j(1) in \<open>auto simp: inj_on_def\<close>)
  then show ?thesis by (simp add: count_rounds)
qed

lemma rounds_mem: "xs \<noteq> [] \<Longrightarrow> t \<in> set (rounds xs n) \<Longrightarrow> t \<in> set xs"
  by auto

lemma order_members:
  "set (orderClusterMembers ms spreads server) = set ms"
  "length (orderClusterMembers ms spreads server) = length ms"
  "distinct (map f (orderClusterMembers ms spreads server)) = distinct (map f ms)"
proof -
  have m: "mset (orderClusterMembers ms spreads server) = mset ms" by (rule order_mset)
  show "set (orderClusterMembers ms spreads server) = set ms" by (rule mset_eq_setD [OF m])
  show "length (orderClusterMembers ms spreads server) = length ms" by (rule mset_eq_length [OF m])
  show "distinct (map f (orderClusterMembers ms spreads server)) = distinct (map f ms)"
    by (simp only: distinct_count_atmost_1 mset_map m set_map mset_eq_setD [OF m])
qed

lemma candidates_filtered:
  "filterClusterMembers ms cs = Inr ps \<Longrightarrow> set ps \<subseteq> {m \<in> set ms. online m}"
  "filterClusterMembers ms cs = Inr ps \<Longrightarrow> distinct (map f ms) \<Longrightarrow> distinct (map f ps)"
  "filterClusterMembers ms cs = Inr ps \<Longrightarrow> length ps \<le> length ms"
  by (auto simp: filterClusterMembers_def distinct_map_filter split: sum.splits)

definition suits :: "string list \<Rightarrow> member \<Rightarrow> bool" where
  "suits constraints m \<longleftrightarrow>
     online m \<and> (\<exists>cs. parse_all constraints = Inr cs \<and> list_all (\<lambda>c. pc_matches c m) cs)"

lemma candidates_suit:
  "filterClusterMembers ms cs = Inr ps \<Longrightarrow> set ps = {m \<in> set ms. suits cs m}"
  by (auto simp: filterClusterMembers_def suits_def split: sum.splits)

subsection \<open>What a placement keeps\<close>

abbreviation max_per_node :: "service \<Rightarrow> 64 word" where
  "max_per_node sv \<equiv> (case sv_deploy sv of None \<Rightarrow> 0 | Some d \<Rightarrow> dp_max d)"

abbreviation constraints_of :: "service \<Rightarrow> string list" where
  "constraints_of sv \<equiv> (case sv_deploy sv of None \<Rightarrow> [] | Some d \<Rightarrow> dp_constraints d)"

lemma place_on_cases:
  assumes r: "place_on env sv override al ps = Inr (n, ts, w)" and m: "0 < max_per_node sv"
    and d: "distinct (map mb_name ps)"
  shows "n = 0 \<and> ts = [] \<or>
     ps \<noteq> [] \<and> \<not> of_nat (length ps) * max_per_node sv < (of_int n :: 64 word) \<and>
     (n = int (length ps) \<and> ts = map mb_name ps \<or>
      0 \<le> n \<and> (\<exists>os. set os = set ps \<and> length os = length ps \<and> distinct (map mb_name os) \<and>
         ts = rounds (map mb_name os) (nat n)))"
proof -
  define os where "os = orderClusterMembers ps (case sv_deploy sv of None \<Rightarrow> [] | Some d \<Rightarrow> dp_spreads d) (pe_server env)"
  have os: "set os = set ps" "length os = length ps" "distinct (map mb_name os)"
    using d by (simp_all add: os_def order_members)
  show ?thesis
  proof (cases "n = 0 \<and> ts = []")
    case False
    then have ne: "ps \<noteq> []" using r by (auto simp: place_on_def Let_def)
    then have "os \<noteq> []" using os(2) by auto
    then have r': "rounds (map mb_name os) k = map (\<lambda>i. mb_name (os ! (i mod length os))) [0..<k]" for k
      by (simp add: nth_map)
    show ?thesis
      using r m False ne os
      unfolding place_on_def Let_def go_make_def os_def [symmetric]
      by (simp add: r' split: if_split_asm) (auto intro!: exI [of _ os])
  qed simp
qed

lemma word_limit:
  assumes "\<not> of_nat L * m < (of_int n :: 64 word)" "int L * uint m < 2 ^ 64" "0 \<le> n" "n < 2 ^ 63"
  shows "nat n \<le> L * unat m"
proof -
  have "uint (of_int n :: 64 word) = n" using assms(3,4) by (simp add: uint_word_of_int)
  moreover have "uint (of_nat L * m) = int L * uint m"
  proof (cases "m = 0")
    case False
    then have "1 \<le> uint m" using uint_0_iff [of m] uint_ge_0 [of m] by linarith
    then have "int L * 1 \<le> int L * uint m" by (intro mult_left_mono) auto
    then have "int L < 2 ^ 64" using assms(2) by simp
    then have "uint (of_nat L :: 64 word) = int L" by (simp add: unsigned_of_nat take_bit_nat_eq_self)
    then show ?thesis using assms(2) by (subst uint_mult_lem [THEN iffD1]) simp_all
  qed simp
  ultimately have "n \<le> int L * uint m" using assms(1) by (simp add: word_less_def)
  then show ?thesis by (metis nat_le_iff of_nat_mult uint_nat)
qed

lemma count_distinct: "distinct xs \<Longrightarrow> count_list xs t \<le> 1"
  by (induction xs) (auto simp: count_list_0_iff)

lemma rounds_names: "0 < length os \<Longrightarrow> t \<in> set (rounds (map f os) k) \<Longrightarrow> \<exists>m \<in> set os. f m = t"
  by auto

text \<open>
  C30.  Placing a service on a cluster, where a limit per node is set, gives as
  many targets as replicas are wanted, every one of them a member that is online
  and satisfies every constraint, and no member gets more than the limit --
  unless the limit times the number of members wraps at \<open>2 ^ 64\<close>.
\<close>
theorem placement_respects_the_limit:
  assumes "resolveServicePlacementEnv env sv override al = Inr (n, ts, w)"
    and "pe_clustered env" "distinct (map mb_name (pe_members env))" "0 < max_per_node sv"
    and "int (length (pe_members env)) * uint (max_per_node sv) < 2 ^ 64" "n < 2 ^ 63"
  shows "0 \<le> n \<and> length ts = nat n \<and>
     (\<forall>t \<in> set ts. \<exists>m \<in> set (pe_members env). suits (constraints_of sv) m \<and> mb_name m = t) \<and>
     (\<forall>t. count_list ts t \<le> unat (max_per_node sv))"
proof -
  obtain ps where ps: "filterClusterMembers (pe_members env) (constraints_of sv) = Inr ps"
      "place_on env sv override al ps = Inr (n, ts, w)"
    using assms(1,2) by (auto simp: resolveServicePlacementEnv_def Let_def split: if_splits sum.splits)
  have d: "distinct (map mb_name ps)" by (rule candidates_filtered(2) [OF ps(1) assms(3)])
  have su: "\<exists>m' \<in> set (pe_members env). suits (constraints_of sv) m' \<and> mb_name m' = mb_name m" if "m \<in> set ps" for m
    using candidates_suit [OF ps(1)] that by auto
  have le: "int (length ps) * uint (max_per_node sv) < 2 ^ 64"
    using assms(5) mult_right_mono [of "int (length ps)" "int (length (pe_members env))" "uint (max_per_node sv)"]
      candidates_filtered(3) [OF ps(1)] by simp
  have one: "1 \<le> unat (max_per_node sv)" using assms(4) by (simp add: unat_gt_0 Suc_le_eq word_neq_0_conv [symmetric])
  from place_on_cases [OF ps(2) assms(4) d] show ?thesis
  proof (elim disjE conjE exE)
    assume n: "n = int (length ps)" "ts = map mb_name ps"
    have "count_list ts t \<le> 1" for t using d unfolding n(2) by (rule count_distinct)
    then show ?thesis using su one n by (auto intro: order_trans)
  next
    fix os assume *: "\<not> of_nat (length ps) * max_per_node sv < (of_int n :: 64 word)" "0 \<le> n" "ps \<noteq> []"
      and os: "set os = set ps" "length os = length ps" "distinct (map mb_name os)" "ts = rounds (map mb_name os) (nat n)"
    have "nat n \<le> length (map mb_name os) * unat (max_per_node sv)"
      using word_limit [OF *(1) le *(2) assms(6)] os(2) by simp
    from rounds_at_most [OF os(3) this] have "count_list ts t \<le> unat (max_per_node sv)" for t unfolding os(4) .
    moreover have "0 < length os" using *(3) os(2) by simp
    then have "\<exists>m \<in> set ps. mb_name m = t" if "t \<in> set ts" for t
      using that rounds_names [of os t mb_name "nat n"] unfolding os(1,4) by simp
    then have "\<exists>m' \<in> set (pe_members env). suits (constraints_of sv) m' \<and> mb_name m' = t" if "t \<in> set ts" for t
      using su that by metis
    ultimately show ?thesis using *(2) os(4) by simp
  qed simp
qed

definition demo_members :: "member list" where
  "demo_members =
     [\<lparr>mb_name = ''n2'', mb_status = ''Online'', mb_roles = [''database''], mb_groups = [''default''], mb_domain = ''a'', mb_config = []\<rparr>,
      \<lparr>mb_name = ''n1'', mb_status = ''Online'', mb_roles = [], mb_groups = [''default''], mb_domain = ''b'', mb_config = []\<rparr>,
      \<lparr>mb_name = ''n3'', mb_status = ''Offline'', mb_roles = [], mb_groups = [], mb_domain = ''b'', mb_config = []\<rparr>]"

definition demo_placement :: placement_env where
  "demo_placement = \<lparr>pe_clustered = True, pe_server = ''n1'', pe_network = ''bridge'', pe_remote = True, pe_members = demo_members\<rparr>"

definition demo_service :: "int \<Rightarrow> string list \<Rightarrow> service" where
  "demo_service n cs =
     \<lparr>sv_name = ''web'', sv_container = [], sv_restart = [],
      sv_deploy = Some \<lparr>dp_mode = [], dp_replicas = Some n, dp_condition = None, dp_constraints = cs, dp_spreads = [], dp_max = 2\<rparr>,
      sv_allow_local = False, sv_depends = []\<rparr>"

lemma demo_placed:
  "resolveServicePlacementEnv demo_placement (demo_service 3 [''node.hostname != n9'']) None False =
     Inr (3, [''n1'', ''n2'', ''n1''], False)"
  by code_simp

theorem placement_respects_the_limit_witness:
  "(\<forall>t. count_list [''n1'', ''n2'', ''n1''] t \<le> 2) \<and> length [''n1'', ''n2'', ''n1''] = nat 3"
proof -
  have h: "pe_clustered demo_placement" "distinct (map mb_name (pe_members demo_placement))"
    "0 < max_per_node (demo_service 3 [''node.hostname != n9''])"
    "int (length (pe_members demo_placement)) * uint (max_per_node (demo_service 3 [''node.hostname != n9''])) < 2 ^ 64"
    "(3 :: int) < 2 ^ 63" "unat (max_per_node (demo_service 3 [''node.hostname != n9''])) = 2"
    by (simp_all add: demo_placement_def demo_service_def demo_members_def)
  show ?thesis
    using placement_respects_the_limit [OF demo_placed h(1-5)] h(6) by (simp del: count_list.simps)
qed

lemma place_on_rounds:
  assumes r: "place_on env sv override al ps = Inr (n, ts, w)"
    and "\<not> (service_mode sv = ''global'' \<and> override = None)" "1 < n"
  shows "0 < length ps \<and> (\<exists>os. mset os = mset ps \<and> ts = map (\<lambda>i. mb_name (os ! (i mod length os))) [0..<nat n])"
proof -
  define os where "os = orderClusterMembers ps (case sv_deploy sv of None \<Rightarrow> [] | Some d \<Rightarrow> dp_spreads d) (pe_server env)"
  have "mset os = mset ps" by (simp add: os_def order_mset)
  then show ?thesis
    using r assms(2,3)
    by (auto simp: place_on_def Let_def go_make_def os_def [symmetric] split: if_splits sum.splits)
qed

lemma share_of_a_member:
  assumes "resolveServicePlacementEnv env sv override al = Inr (n, ts, w)"
    and "pe_clustered env" "distinct (map mb_name (pe_members env))" "1 < n"
    and "\<not> (service_mode sv = ''global'' \<and> override = None)"
    and "m \<in> set (pe_members env)" "suits (constraints_of sv) m"
  shows "count_list ts (mb_name m) \<in>
      {nat n div card {m \<in> set (pe_members env). suits (constraints_of sv) m} ..
       Suc (nat n div card {m \<in> set (pe_members env). suits (constraints_of sv) m})}"
proof -
  obtain ps where ps: "filterClusterMembers (pe_members env) (constraints_of sv) = Inr ps"
      "place_on env sv override al ps = Inr (n, ts, w)"
    using assms(1,2) by (auto simp: resolveServicePlacementEnv_def Let_def split: if_splits sum.splits)
  obtain os where os: "0 < length ps" "mset os = mset ps" "ts = map (\<lambda>i. mb_name (os ! (i mod length os))) [0..<nat n]"
    using place_on_rounds [OF ps(2) assms(5,4)] by blast
  have l: "length os = length ps" using os(2) by (rule mset_eq_length)
  have s: "set os = {m \<in> set (pe_members env). suits (constraints_of sv) m}"
    using mset_eq_setD [OF os(2)] candidates_suit [OF ps(1)] by simp
  have dp: "distinct (map mb_name ps)" by (rule candidates_filtered(2) [OF ps(1) assms(3)])
  have d: "distinct (map mb_name os)"
    using dp os(2) by (metis mset_map mset_eq_imp_distinct_iff)
  have c: "card {m \<in> set (pe_members env). suits (constraints_of sv) m} = length os"
    using d s by (metis distinct_card distinct_map)
  have ts: "ts = rounds (map mb_name os) (nat n)" unfolding os(3) using os(1) l by (intro map_cong) auto
  have "nat n \<le> length (map mb_name os) * Suc (nat n div length os)"
    using os(1) l dividend_less_times_div [of "length os" "nat n"] by simp
  then have "count_list ts (mb_name m) \<le> Suc (nat n div length os)" unfolding ts by (rule rounds_at_most [OF d])
  moreover have "nat n div length os \<le> count_list ts (mb_name m)"
    unfolding ts using rounds_at_least [of "mb_name m" "map mb_name os" "nat n"] s assms(6,7) by simp
  ultimately show ?thesis by (simp add: c)
qed

lemma sum_between:
  fixes f :: "'x \<Rightarrow> nat"
  assumes "\<And>x. x \<in> B \<Longrightarrow> f x \<in> {lo .. hi}"
  shows "sum f B \<in> {card B * lo .. card B * hi}"
proof -
  have "sum (\<lambda>_. lo) B \<le> sum f B" by (rule sum_mono) (use assms in force)
  moreover have "sum f B \<le> sum (\<lambda>_. hi) B" by (rule sum_mono) (use assms in force)
  ultimately show ?thesis by simp
qed

text \<open>
  C31.  Several replicas of a service that is not global are spread evenly over the members of a
  cluster, whatever the spread preferences: every online member that
  satisfies the constraints gets its share rounded down, or one more.  So a group of them gets that for each of its
  members, and the buckets a preference names get shares that go by their sizes: the spread is even over the members, not over the
  buckets, as the comment of \<open>orderClusterMembers\<close> has it.
\<close>
theorem replicas_are_spread_evenly:
  assumes "resolveServicePlacementEnv env sv override al = Inr (n, ts, w)"
    and "pe_clustered env" "distinct (map mb_name (pe_members env))" "1 < n"
    and "\<not> (service_mode sv = ''global'' \<and> override = None)"
    and "B \<subseteq> {m \<in> set (pe_members env). suits (constraints_of sv) m}"
  shows "let share = nat n div card {m \<in> set (pe_members env). suits (constraints_of sv) m} in
    (\<forall>m \<in> B. count_list ts (mb_name m) \<in> {share .. Suc share}) \<and>
    (\<Sum>m \<in> B. count_list ts (mb_name m)) \<in> {card B * share .. card B * Suc share}"
  unfolding Let_def
  by (intro conjI ballI sum_between share_of_a_member [OF assms(1-5)]) (use assms(6) in auto)

definition bucket_member :: "string \<Rightarrow> string \<Rightarrow> member" where
  "bucket_member name domain =
     \<lparr>mb_name = name, mb_status = ''Online'', mb_roles = [], mb_groups = [], mb_domain = domain, mb_config = []\<rparr>"

definition bucket_cluster :: placement_env where
  "bucket_cluster = \<lparr>pe_clustered = True, pe_server = ''a1'', pe_network = ''bridge'', pe_remote = True,
     pe_members = [bucket_member ''a1'' ''a'', bucket_member ''b1'' ''b'', bucket_member ''b2'' ''b'', bucket_member ''b3'' ''b'']\<rparr>"

definition bucket_service :: service where
  "bucket_service =
     \<lparr>sv_name = ''web'', sv_container = [], sv_restart = [],
      sv_deploy = Some \<lparr>dp_mode = [], dp_replicas = Some 4, dp_condition = None, dp_constraints = [],
        dp_spreads = [''node.failure_domain''], dp_max = 0\<rparr>,
      sv_allow_local = False, sv_depends = []\<rparr>"

lemma bucket_placed:
  "resolveServicePlacementEnv bucket_cluster bucket_service None False = Inr (4, [''a1'', ''b1'', ''b2'', ''b3''], False)"
  by code_simp

theorem replicas_are_spread_evenly_witness:
  "card (set (tl (pe_members bucket_cluster))) = 3 \<and>
   (\<Sum>m \<in> set (tl (pe_members bucket_cluster)). count_list [''a1'', ''b1'', ''b2'', ''b3''] (mb_name m)) \<in> {3 .. 6}"
proof -
  have h: "pe_clustered bucket_cluster" "distinct (map mb_name (pe_members bucket_cluster))" "1 < (4 :: int)"
    by (simp_all add: bucket_cluster_def bucket_member_def)
  have g: "\<not> (service_mode bucket_service = ''global'' \<and> (None :: int option) = None)"
    by (simp add: bucket_service_def service_mode_def)
  have "constraints_of bucket_service = []" by (simp add: bucket_service_def)
  then have su: "suits (constraints_of bucket_service) m \<longleftrightarrow> online m" for m by (simp add: suits_def)
  have on: "{m \<in> set (pe_members bucket_cluster). suits (constraints_of bucket_service) m} = set (pe_members bucket_cluster)"
  proof -
    have "to_lower ''Online'' = ''online''" by code_simp
    then show ?thesis unfolding su by (auto simp: bucket_cluster_def bucket_member_def online_def)
  qed
  have c: "card (set (pe_members bucket_cluster)) = 4" "card (set (tl (pe_members bucket_cluster))) = 3"
    by (simp_all add: bucket_cluster_def bucket_member_def)
  have "set (tl (pe_members bucket_cluster)) \<subseteq> {m \<in> set (pe_members bucket_cluster). suits (constraints_of bucket_service) m}"
    unfolding on by (auto simp: bucket_cluster_def)
  from replicas_are_spread_evenly [OF bucket_placed h g this] show ?thesis
    unfolding on c Let_def by simp
qed

text \<open>
  A negative number of replicas (\<open>--scale web=-1\<close>, or in the compose file)
  is not an error but a panic, wherever no limit per member catches it: off a
  cluster always, and on one as soon as a member is left to place on and the
  placement is not refused.
\<close>
theorem negative_replicas_panic:
  assumes "service_mode sv = ''replicated''" "declared_replicas sv override < 0"
    and "pe_clustered env \<Longrightarrow>
       max_per_node sv = 0 \<and> (\<exists>ps. filterClusterMembers (pe_members env) (constraints_of sv) = Inr ps \<and> ps \<noteq> [])"
  shows "resolveServicePlacementEnv env sv override al = Inl LengthPanic"
  using assms by (cases "pe_clustered env") (auto simp: resolveServicePlacementEnv_def place_on_def go_make_def Let_def)

theorem negative_replicas_panic_witness:
  "resolveServicePlacementEnv (demo_placement\<lparr>pe_clustered := False\<rparr>) (demo_service 3 []) (Some (-1)) False = Inl LengthPanic"
  by (rule negative_replicas_panic)
    (simp_all add: demo_placement_def demo_service_def service_mode_def declared_replicas_def)

end
