(* ===== verification/Instances.thy ===== *)
theory Instances
  imports Placement Netip
begin

text \<open>
  The instances a service stands for: how they are named
  (\<open>client/names.go\<close>, \<open>instanceName\<close> of \<open>project/instance.go\<close>), which exist and
  which of them are one too many (\<open>Project.Resources\<close> and \<open>Project.InstanceNames\<close>
  of \<open>project/project.go\<close>), and which of a dependency's are waited for
  (\<open>instanceDependencyWaits\<close>).  Whether an instance exists is a function of its
  name, the answer of the server; the sanitizing of names is built from the
  slug and the digest of the libraries, which are parameters.
\<close>

subsection \<open>Names\<close>

fun itoa :: "nat \<Rightarrow> string" where
  "itoa n = (if n < 10 then [digit_char n] else itoa (n div 10) @ [digit_char (n mod 10)])"

declare itoa.simps [simp del]

definition show_int :: "int \<Rightarrow> string" where
  "show_int i = (if i < 0 then ''-'' @ itoa (nat (- i)) else itoa (nat i))"

definition MaxIncusNameLen :: int where "MaxIncusNameLen = 63"

definition SanitizeIncusName :: "(string \<Rightarrow> string) \<Rightarrow> (string \<Rightarrow> string) \<Rightarrow> string \<Rightarrow> int \<Rightarrow> string" where
  \<comment> \<open>\<open>digest\<close> is the hexadecimal form of the first 16 bytes of the SHA-256.\<close>
  "SanitizeIncusName slug digest name maxLength =
     (let limit = (if maxLength = -1 then MaxIncusNameLen else maxLength);
          safe = map (\<lambda>c. if c = CHR ''_'' then CHR ''-'' else c) (slug name)
      in if limit < int (length safe) then digest name else safe)"

definition SanitizePeerName :: "(string \<Rightarrow> string) \<Rightarrow> (string \<Rightarrow> string) \<Rightarrow> string \<Rightarrow> string \<Rightarrow> string" where
  "SanitizePeerName slug digest projectName networkName =
     (let full = (if projectName \<noteq> [] then projectName @ ''-'' @ networkName else networkName)
      in SanitizeIncusName slug digest full MaxIncusNameLen)"

definition instanceName :: "service \<Rightarrow> int \<Rightarrow> int \<Rightarrow> string" where
  "instanceName sv index scale =
     (let name = sv_name sv @ ''-'' @ show_int index in
      if sv_container sv \<noteq> [] then
        (if 1 < scale then sv_container sv @ ''-'' @ show_int index else sv_container sv)
      else name)"

subsection \<open>Counting what exists\<close>

partial_function (option) grown :: "(int \<Rightarrow> bool) \<Rightarrow> int \<Rightarrow> int option" where
  \<comment> \<open>The loops that raise a count while the next instance exists.  They end only where one does not.\<close>
  "grown ex n = (if ex (n + 1) then grown ex (n + 1) else Some n)"

record planned =
  pl_index :: int
  pl_name :: string
  pl_target :: string
  pl_delete :: bool

definition replica :: "placement_env \<Rightarrow> service \<Rightarrow> string list \<Rightarrow> int \<Rightarrow> int \<Rightarrow> planned" where
  "replica env sv targets scale i =
     \<lparr>pl_index = i, pl_name = instanceName sv i scale,
      pl_target = (if i \<le> int (length targets) then targets ! nat (i - 1) else if pe_clustered env then pe_server env else []),
      pl_delete = False\<rparr>"

definition mark_beyond :: "int \<Rightarrow> planned list \<Rightarrow> planned list" where
  \<comment> \<open>The list of instances is reversed and its first ones marked, as many as are too many; the instances are shared with the result.\<close>
  "mark_beyond desired ps =
     (if desired < int (length ps) then
        rev (map (\<lambda>(k, p). if int k < int (length ps) - desired then p\<lparr>pl_delete := True\<rparr> else p) (enumerate 0 (rev ps)))
      else ps)"

definition service_resources ::
  "placement_env \<Rightarrow> service \<Rightarrow> int option \<Rightarrow> bool \<Rightarrow> (string \<Rightarrow> bool) \<Rightarrow> (place_error + planned list) option" where
  \<comment> \<open>\<open>Resources\<close> for one service that is not run as a one-off; no answer where counting does not end.\<close>
  "service_resources env sv override al exists =
     (case resolveServicePlacementEnv env sv override al of
        Inl e \<Rightarrow> Some (Inl e)
      | Inr (desired, targets, warn) \<Rightarrow>
          (case grown (\<lambda>i. exists (sv_name sv @ ''-'' @ show_int i)) desired of
             None \<Rightarrow> None
           | Some scale \<Rightarrow> Some (Inr (mark_beyond desired (map (replica env sv targets scale) [1..scale])))))"

definition one_off_resources :: "placement_env \<Rightarrow> service \<Rightarrow> string \<Rightarrow> planned list" where
  "one_off_resources env sv name =
     [(replica env sv (if pe_clustered env then [pe_server env] else [[]]) 1 1)\<lparr>pl_name := name\<rparr>]"

definition declared_count :: "placement_env \<Rightarrow> service \<Rightarrow> int" where
  "declared_count env sv =
     (case sv_deploy sv of
        None \<Rightarrow> 1
      | Some d \<Rightarrow>
          (case dp_replicas d of
             Some n \<Rightarrow> n
           | None \<Rightarrow>
               if dp_mode d = ''global'' \<and> pe_clustered env then
                 (case filterClusterMembers (pe_members env) (dp_constraints d) of
                    Inr (c # cs) \<Rightarrow> int (length (c # cs))
                  | _ \<Rightarrow> 1)
               else 1))"

definition InstanceNames :: "placement_env \<Rightarrow> service \<Rightarrow> (string \<Rightarrow> bool) \<Rightarrow> string list option" where
  \<comment> \<open>For one service.\<close>
  "InstanceNames env sv exists =
     map_option (\<lambda>replicas. map (\<lambda>i. instanceName sv i replicas) [1..replicas])
       (grown (\<lambda>i. exists (instanceName sv i i)) (declared_count env sv))"

subsection \<open>What is waited for\<close>

definition dependency_waits :: "placement_env \<Rightarrow> (string \<Rightarrow> string) \<Rightarrow> string \<Rightarrow> service \<Rightarrow> int option \<Rightarrow> string list" where
  \<comment> \<open>The keys for one dependency whose condition is \<open>service_healthy\<close>.\<close>
  "dependency_waits env sanitize depName dep override =
     (let depScale = (case override of Some s \<Rightarrow> s | None \<Rightarrow> declared_count env dep) in
      if sv_container dep \<noteq> [] then [sanitize (sv_container dep)]
      else map (\<lambda>i. sanitize (depName @ ''-'' @ show_int i)) [1..depScale])"

definition instanceDependencyWaits ::
  "placement_env \<Rightarrow> (string \<Rightarrow> string) \<Rightarrow> (string \<Rightarrow> service) \<Rightarrow> (string \<Rightarrow> int option) \<Rightarrow> service \<Rightarrow> string list" where
  "instanceDependencyWaits env sanitize services scales sv =
     concat (map (\<lambda>(name, condition).
        if condition \<noteq> ''service_healthy'' then [] else dependency_waits env sanitize name (services name) (scales name))
      (sv_depends sv))"

subsection \<open>The counting loop\<close>

lemma grown_stops:
  assumes "n \<le> k" "\<not> ex (k + 1)"
  shows "\<exists>m. grown ex n = Some m \<and> n \<le> m \<and> m \<le> k \<and> (\<forall>i. n < i \<longrightarrow> i \<le> m \<longrightarrow> ex i) \<and> \<not> ex (m + 1)"
  using assms
proof (induction "nat (k - n)" arbitrary: n)
  case 0
  then show ?case by (intro exI [of _ n]) (subst grown.simps, auto)
next
  case (Suc d)
  show ?case
  proof (cases "ex (n + 1)")
    case True
    obtain m where m: "grown ex (n + 1) = Some m" "n + 1 \<le> m" "m \<le> k"
        "\<forall>i. n + 1 < i \<longrightarrow> i \<le> m \<longrightarrow> ex i" "\<not> ex (m + 1)"
      using Suc.hyps(1) [of "n + 1"] Suc.hyps(2) Suc.prems by fastforce
    have "ex i" if "n < i" "i \<le> m" for i using that m(4) True by (cases "i = n + 1") auto
    then show ?thesis using m True by (intro exI [of _ m]) (subst grown.simps, auto)
  next
    case False
    then show ?thesis using Suc.prems by (intro exI [of _ n]) (subst grown.simps, auto)
  qed
qed

lemma grown_unique:
  assumes "grown ex n = Some m"
  shows "n \<le> m \<and> (\<forall>i. n < i \<longrightarrow> i \<le> m \<longrightarrow> ex i) \<and> \<not> ex (m + 1)"
  using assms
proof (induction rule: grown.raw_induct [rotated 1, consumes 1])
  case (1 f ex n m)
  show ?case
  proof (cases "ex (n + 1)")
    case True
    then have IH: "n + 1 \<le> m" "\<forall>i. n + 1 < i \<longrightarrow> i \<le> m \<longrightarrow> ex i" "\<not> ex (m + 1)" using 1 by auto
    have "ex i" if "n < i" "i \<le> m" for i using that IH(2) True by (cases "i = n + 1") auto
    then show ?thesis using IH by auto
  qed (use 1 in auto)
qed

subsection \<open>Marking what is too many\<close>

lemma mark_beyond_nth:
  assumes "0 \<le> d" "j < length ps"
  shows "mark_beyond d ps ! j = (if d \<le> int j then (ps ! j)\<lparr>pl_delete := True\<rparr> else ps ! j)"
proof (cases "d < int (length ps)")
  case True
  have "rev (map (\<lambda>(k, p). if int k < int (length ps) - d then p\<lparr>pl_delete := True\<rparr> else p) (enumerate 0 (rev ps))) ! j =
      (if int (length ps - Suc j) < int (length ps) - d then (ps ! j)\<lparr>pl_delete := True\<rparr> else ps ! j)"
    using assms(2) by (simp add: rev_nth nth_enumerate_eq)
  moreover have "int (length ps - Suc j) < int (length ps) - d \<longleftrightarrow> d \<le> int j" using assms(2) by auto
  ultimately show ?thesis using True by (simp add: mark_beyond_def)
qed (use assms in \<open>auto simp: mark_beyond_def\<close>)

lemma mark_beyond_length [simp]: "length (mark_beyond d ps) = length ps"
  by (simp add: mark_beyond_def)

lemma nth_upto_from_one: "j < length [1..n] \<Longrightarrow> [1..n] ! j = int j + 1"
  by simp

lemma marked_replicas:
  assumes "0 \<le> d"
  shows "mark_beyond d (map (replica env sv ts scale) [1..scale]) =
     map (\<lambda>i. (replica env sv ts scale i)\<lparr>pl_delete := (d < i)\<rparr>) [1..scale]"
proof (rule nth_equalityI)
  fix j assume "j < length (mark_beyond d (map (replica env sv ts scale) [1..scale]))"
  then have j: "j < length [1..scale]" by simp
  then show "mark_beyond d (map (replica env sv ts scale) [1..scale]) ! j =
      map (\<lambda>i. (replica env sv ts scale i)\<lparr>pl_delete := (d < i)\<rparr>) [1..scale] ! j"
    using assms by (subst mark_beyond_nth) (auto simp: replica_def)
qed simp

text \<open>
  C29.  Counting a service's instances ends as soon as the server lacks one, and
  then the plan is exact: an instance for every index up to the first that does
  not exist, those up to the wanted number to be kept and every one beyond it,
  and none other, marked for removal.
\<close>
theorem plan_marks_exactly_the_surplus:
  assumes "resolveServicePlacementEnv env sv override al = Inr (desired, targets, w)" "0 \<le> desired"
    and "desired \<le> k" "\<not> exists (sv_name sv @ ''-'' @ show_int (k + 1))"
  shows "\<exists>scale ps. service_resources env sv override al exists = Some (Inr ps) \<and>
     desired \<le> scale \<and> scale \<le> k \<and> \<not> exists (sv_name sv @ ''-'' @ show_int (scale + 1)) \<and>
     (\<forall>i. desired < i \<longrightarrow> i \<le> scale \<longrightarrow> exists (sv_name sv @ ''-'' @ show_int i)) \<and>
     map pl_index ps = [1..scale] \<and> map pl_name ps = map (\<lambda>i. instanceName sv i scale) [1..scale] \<and>
     filter pl_delete ps = filter (\<lambda>p. desired < pl_index p) ps"
proof -
  obtain scale where s: "grown (\<lambda>i. exists (sv_name sv @ ''-'' @ show_int i)) desired = Some scale"
      "desired \<le> scale" "scale \<le> k" "\<not> exists (sv_name sv @ ''-'' @ show_int (scale + 1))"
      "\<forall>i. desired < i \<longrightarrow> i \<le> scale \<longrightarrow> exists (sv_name sv @ ''-'' @ show_int i)"
    using grown_stops [of desired k "\<lambda>i. exists (sv_name sv @ ''-'' @ show_int i)"] assms(3,4) by blast
  define ps where "ps = map (\<lambda>i. (replica env sv targets scale i)\<lparr>pl_delete := (desired < i)\<rparr>) [1..scale]"
  have "service_resources env sv override al exists = Some (Inr ps)"
    using assms(1,2) s(1) by (simp add: service_resources_def ps_def marked_replicas)
  moreover have "map pl_index ps = [1..scale]" by (simp add: ps_def replica_def comp_def)
  moreover have "map pl_name ps = map (\<lambda>i. instanceName sv i scale) [1..scale]" by (simp add: ps_def replica_def comp_def)
  moreover have "filter pl_delete ps = filter (\<lambda>p. desired < pl_index p) ps"
    by (rule filter_cong) (auto simp: ps_def replica_def)
  ultimately show ?thesis using s(2-5) by blast
qed

definition lone_host :: placement_env where
  "lone_host = \<lparr>pe_clustered = False, pe_server = [], pe_network = ''bridge'', pe_remote = False, pe_members = []\<rparr>"

definition plain_service :: "string \<Rightarrow> string \<Rightarrow> service" where
  "plain_service name container =
     \<lparr>sv_name = name, sv_container = container, sv_restart = [], sv_deploy = None, sv_allow_local = False, sv_depends = []\<rparr>"

lemma plain_service_simps [simp]:
  "sv_name (plain_service name container) = name" "sv_container (plain_service name container) = container"
  "sv_deploy (plain_service name container) = None"
  "pe_clustered lone_host = False"
  by (simp_all add: plain_service_def lone_host_def)

lemma plain_resolves:
  "resolveServicePlacementEnv lone_host (plain_service name container) None al = Inr (1, [[]], False)"
  by (simp add: resolveServicePlacementEnv_def service_mode_def declared_replicas_def go_make_def Let_def)

theorem plan_marks_exactly_the_surplus_witness:
  "\<exists>scale ps. service_resources lone_host (plain_service ''web'' []) None False (\<lambda>n. n \<in> {''web-2'', ''web-3''}) = Some (Inr ps) \<and>
     1 \<le> scale \<and> scale \<le> 3 \<and> map pl_index ps = [1..scale] \<and> filter pl_delete ps = filter (\<lambda>p. 1 < pl_index p) ps"
proof -
  have "\<not> (sv_name (plain_service ''web'' []) @ ''-'' @ show_int (3 + 1)) \<in> {''web-2'', ''web-3''}"
    by (simp add: show_int_def itoa.simps digit_char_def)
  from plan_marks_exactly_the_surplus [OF plain_resolves, of 3 "\<lambda>n. n \<in> {''web-2'', ''web-3''}", OF _ _ this]
  show ?thesis by fastforce
qed

subsection \<open>A service with a container name\<close>

text \<open>
  A service with a container name is counted by the service's name, which
  its replicas do not carry: whatever instances \<open><container>-<i>\<close> exist, scaling
  back to one plans the single instance and marks none of the others, which
  are left behind running.
\<close>
theorem renamed_replicas_are_left_behind:
  assumes "resolveServicePlacementEnv env sv override al = Inr (1, targets, w)"
    and "sv_container sv \<noteq> []" "\<not> exists (sv_name sv @ ''-'' @ show_int 2)"
  shows "\<exists>p. service_resources env sv override al exists = Some (Inr [p]) \<and>
     pl_name p = sv_container sv \<and> \<not> pl_delete p"
proof -
  have g: "grown (\<lambda>i. exists (sv_name sv @ ''-'' @ show_int i)) 1 = Some 1"
    using assms(3) by (subst grown.simps) simp
  have "service_resources env sv override al exists = Some (Inr (mark_beyond 1 (map (replica env sv targets 1) [1..1])))"
    using assms(1) g by (simp add: service_resources_def)
  also have "mark_beyond 1 (map (replica env sv targets 1) [1..1]) = [replica env sv targets 1 1]"
    by (simp add: mark_beyond_def)
  finally show ?thesis using assms(2) by (simp add: replica_def instanceName_def)
qed

theorem renamed_replicas_are_left_behind_witness:
  "\<exists>p. service_resources lone_host (plain_service ''web'' ''shop'') None False (\<lambda>n. n \<in> {''shop-1'', ''shop-2'', ''shop-3''})
        = Some (Inr [p]) \<and> pl_name p = ''shop'' \<and> \<not> pl_delete p"
  using renamed_replicas_are_left_behind [where sv = "plain_service ''web'' ''shop''" and
      exists = "\<lambda>n. n \<in> {''shop-1'', ''shop-2'', ''shop-3''}", OF plain_resolves]
  by (simp add: show_int_def itoa.simps digit_char_def)

text \<open>
  A dependency with a container name that is scaled to two or more is
  waited for under a name none of its instances has: each of them carries its
  number, the name that is waited for does not.
\<close>
theorem waits_for_what_never_exists:
  assumes "resolveServicePlacementEnv env dep override al = Inr (desired, targets, w)" "2 \<le> desired"
    and "sv_container dep \<noteq> []" "service_resources env dep override al exists = Some (Inr ps)"
  shows "dependency_waits env sanitize depName dep override = [sanitize (sv_container dep)] \<and>
     (\<forall>p \<in> set ps. pl_name p = sv_container dep @ ''-'' @ show_int (pl_index p) \<and> pl_name p \<noteq> sv_container dep)"
proof -
  obtain scale where g: "grown (\<lambda>i. exists (sv_name dep @ ''-'' @ show_int i)) desired = Some scale"
      "ps = mark_beyond desired (map (replica env dep targets scale) [1..scale])"
    using assms(1,4) by (auto simp: service_resources_def split: option.splits)
  have "1 < scale" using grown_unique [OF g(1)] assms(2) by simp
  then have "\<forall>p \<in> set ps. pl_name p = sv_container dep @ ''-'' @ show_int (pl_index p)"
    using assms(2,3) by (auto simp: g(2) marked_replicas replica_def instanceName_def)
  then show ?thesis using assms(3) by (simp add: dependency_waits_def)
qed

theorem waits_for_what_never_exists_witness:
  "\<exists>ps. service_resources lone_host (plain_service ''db'' ''store'') (Some 2) False (\<lambda>_. False) = Some (Inr ps) \<and>
     dependency_waits lone_host (\<lambda>s. s) ''db'' (plain_service ''db'' ''store'') (Some 2) = [''store''] \<and>
     (\<forall>p \<in> set ps. pl_name p \<noteq> ''store'')"
proof -
  have r: "resolveServicePlacementEnv lone_host (plain_service ''db'' ''store'') (Some 2) False = Inr (2, replicate 2 [], False)"
    by (simp add: resolveServicePlacementEnv_def service_mode_def declared_replicas_def go_make_def Let_def)
  have "grown (\<lambda>i. False) 2 = Some 2" by (subst grown.simps) simp
  then obtain ps where ps: "service_resources lone_host (plain_service ''db'' ''store'') (Some 2) False (\<lambda>_. False) = Some (Inr ps)"
    by (simp add: service_resources_def r)
  show ?thesis using waits_for_what_never_exists [OF r _ _ ps, of "\<lambda>s. s" "''db''"] ps by simp
qed

subsection \<open>Sanitized names\<close>

text \<open>
  A sanitized name fits: it is never longer than the limit, or the limit of
  63 where that is asked for by -1, as long as the limit leaves room for the
  32 digits of the digest; and it never holds an underscore.
\<close>
theorem sanitized_names_fit:
  assumes "\<And>s. length (digest s) = 32" "\<And>s. CHR ''_'' \<notin> set (digest s)" "limit = -1 \<or> 32 \<le> limit"
  shows "int (length (SanitizeIncusName slug digest name limit)) \<le> (if limit = -1 then 63 else limit) \<and>
     CHR ''_'' \<notin> set (SanitizeIncusName slug digest name limit)"
  using assms by (auto simp: SanitizeIncusName_def MaxIncusNameLen_def Let_def)

theorem sanitized_names_fit_witness:
  "int (length (SanitizeIncusName (\<lambda>s. s) (\<lambda>s. replicate 32 (CHR ''0'')) ''my_service-1'' (-1))) \<le> 63"
  using sanitized_names_fit [of "\<lambda>s. replicate 32 (CHR ''0'')" "-1" "\<lambda>s. s" "''my_service-1''"] by simp

end
