(* ===== verification/InstanceDevices.thy ===== *)
theory InstanceDevices
  imports Netip
begin

text \<open>
  The devices of an instance on their way to Incus
  (\<open>client/resource_instance_device.go\<close>, \<open>buildDevices\<close>, \<open>coversPath\<close> and
  \<open>volumeTarget\<close> of \<open>client/resource_instance.go\<close>, and the volumes of
  \<open>client/resource_instance_prefetch.go\<close>).  A map of the source is an association
  list that is only ever read by key and written by \<open>AList.update\<close>.
\<close>

type_synonym cfg = "(string \<times> string) list"

definition copy_into :: "cfg \<Rightarrow> cfg \<Rightarrow> cfg" where
  \<comment> \<open>\<open>maps.Copy(m, ext)\<close>\<close>
  "copy_into m ext = fold (\<lambda>(k, v). AList.update k v) ext m"

lemma copy_into_get:
  "distinct (map fst ext) \<Longrightarrow> map_of (copy_into m ext) k = (case map_of ext k of Some v \<Rightarrow> Some v | None \<Rightarrow> map_of m k)"
  unfolding copy_into_def
proof (induction ext arbitrary: m)
  case (Cons e ext)
  have "fst e \<notin> fst ` set ext" using Cons.prems by simp
  then show ?case
    using Cons by (cases e) (auto simp: update_conv split: option.splits dest: map_of_SomeD intro: rev_image_eqI)
qed simp

subsection \<open>Data\<close>

record nic_network =
  nn_name :: string
  nn_unmanaged :: "string option"   \<comment> \<open>the type of the network Incus does not manage\<close>

record proxy_config =
  px_listen_type :: string
  px_listen_addr :: string
  px_listen_port :: nat
  px_connect_type :: string
  px_connect_addr :: string
  px_connect_port :: nat
  px_nat :: bool

record disk_config =
  dk_pool :: "string option"   \<comment> \<open>of a storage volume\<close>
  dk_source :: string
  dk_path :: string
  dk_shift :: bool
  dk_readonly :: bool

record device =
  dv_name :: string
  dv_type :: string
  dv_network :: "nic_network option"
  dv_network_name :: string
  dv_proxy :: proxy_config
  dv_disk :: disk_config
  dv_tmpfs_path :: string
  dv_tmpfs_size :: string
  dv_ext :: "cfg option"   \<comment> \<open>nil where there are none\<close>

abbreviation ext_of :: "device \<Rightarrow> cfg" where
  "ext_of d \<equiv> case_option [] (\<lambda>m. m) (dv_ext d)"

definition no_proxy :: proxy_config where
  "no_proxy = \<lparr>px_listen_type = [], px_listen_addr = [], px_listen_port = 0, px_connect_type = [],
     px_connect_addr = [], px_connect_port = 0, px_nat = False\<rparr>"

definition no_disk :: disk_config where
  "no_disk = \<lparr>dk_pool = None, dk_source = [], dk_path = [], dk_shift = False, dk_readonly = False\<rparr>"

definition bare_device :: "string \<Rightarrow> string \<Rightarrow> device" where
  \<comment> \<open>The zero value but for the name and the type.\<close>
  "bare_device name type =
     \<lparr>dv_name = name, dv_type = type, dv_network = None, dv_network_name = [], dv_proxy = no_proxy,
      dv_disk = no_disk, dv_tmpfs_path = [], dv_tmpfs_size = [], dv_ext = None\<rparr>"

datatype device_error = BadDeviceConfig string

subsection \<open>Rendering\<close>

definition is_ip6 :: "string \<Rightarrow> bool" where
  \<comment> \<open>\<open>net.ParseIP\<close> reads it and it has no form of four bytes.\<close>
  "is_ip6 s = (case ParseAddr s of Some (A6 w zone) \<Rightarrow> zone = [] \<and> \<not> mapped w | _ \<Rightarrow> False)"

definition proxyEndpoint :: "string \<Rightarrow> nat \<Rightarrow> string" where
  "proxyEndpoint addr port =
     (if is_ip6 addr then ''['' @ addr @ '']:'' @ show_dec port else addr @ '':'' @ show_dec port)"

definition toNicDevice :: "device \<Rightarrow> device_error + cfg" where
  "toNicDevice d =
     (let named = (\<lambda>n.
            let base = [(''type'', ''nic''), (''name'', dv_name d)];
                placed = (case dv_network d of
                   Some nn \<Rightarrow>
                     (case nn_unmanaged nn of
                        Some t \<Rightarrow>
                          AList.update ''parent'' n (AList.update ''nictype''
                            (if t = ''bridge'' then ''bridged'' else if t = ''physical'' then ''physical'' else ''macvlan'') base)
                      | None \<Rightarrow> if n \<noteq> [] then AList.update ''network'' n base else base)
                 | None \<Rightarrow> if n \<noteq> [] then AList.update ''network'' n base else base)
            in copy_into placed (ext_of d))
      in case dv_network d of
           Some nn \<Rightarrow> Inr (named (nn_name nn))
         | None \<Rightarrow>
             if dv_network_name d \<noteq> [] then Inr (named (dv_network_name d))
             else if map_of (ext_of d) ''nictype'' = None then Inl (BadDeviceConfig ''network not given'')
             else Inr (named []))"

definition toProxyDevice :: "device \<Rightarrow> cfg" where
  "toProxyDevice d =
     (let c = dv_proxy d;
          base = [(''type'', ''proxy''),
            (''listen'', px_listen_type c @ '':'' @ proxyEndpoint (px_listen_addr c) (px_listen_port c)),
            (''connect'', px_connect_type c @ '':'' @ proxyEndpoint (px_connect_addr c) (px_connect_port c))]
      in copy_into (if px_nat c then AList.update ''nat'' ''true'' base else base) (ext_of d))"

definition toDiskDevice :: "device \<Rightarrow> cfg" where
  "toDiskDevice d =
     (let c = dv_disk d;
          base = [(''type'', ''disk''), (''source'', dk_source c), (''path'', dk_path c)];
          held = (case dk_pool c of
                    Some pool \<Rightarrow> AList.update ''pool'' pool base
                  | None \<Rightarrow> if dk_shift c then AList.update ''shift'' ''true'' base else base)
      in copy_into (if dk_readonly c then AList.update ''readonly'' ''true'' held else held) (ext_of d))"

definition toTmpfsDevice :: "device \<Rightarrow> cfg" where
  "toTmpfsDevice d =
     (let base = [(''type'', ''disk''), (''path'', dv_tmpfs_path d), (''source'', ''tmpfs:'')]
      in copy_into (if dv_tmpfs_size d \<noteq> [] then AList.update ''size'' (dv_tmpfs_size d) base else base) (ext_of d))"

definition ToIncusDevice :: "device \<Rightarrow> device_error + string \<times> cfg" where
  "ToIncusDevice d =
     (let rendered =
        (if dv_type d = ''nic'' then toNicDevice d
         else if dv_type d = ''proxy'' then Inr (toProxyDevice d)
         else if dv_type d = ''disk'' then Inr (toDiskDevice d)
         else if dv_type d = ''tmpfs'' then Inr (toTmpfsDevice d)
         else (case dv_ext d of
                 None \<Rightarrow> Inl (BadDeviceConfig ''device config not given'')
               | Some ext \<Rightarrow> Inr (AList.update ''type'' (dv_type d) ext)))
      in case rendered of Inl e \<Rightarrow> Inl (BadDeviceConfig (dv_name d)) | Inr m \<Rightarrow> Inr (dv_name d, m))"

fun render_all :: "device list \<Rightarrow> (string \<times> cfg) list \<Rightarrow> device_error + (string \<times> cfg) list" where
  "render_all [] devices = Inr devices"
| "render_all (d # ds) devices =
     (case ToIncusDevice d of Inl e \<Rightarrow> Inl e | Inr (name, config) \<Rightarrow> render_all ds (AList.update name config devices))"

definition buildDevices ::
  "device list \<Rightarrow> (string \<times> cfg) list option \<Rightarrow> bool list \<Rightarrow> bool \<Rightarrow> string \<Rightarrow> device_error + (string \<times> cfg) list" where
  \<comment> \<open>Of the profiles it takes, whether each has a root device.\<close>
  "buildDevices devs extra profile_roots noRoot pool =
     (case render_all devs (case extra of None \<Rightarrow> [] | Some m \<Rightarrow> m) of
        Inl e \<Rightarrow> Inl e
      | Inr devices \<Rightarrow>
          if map_of devices ''root'' = None \<and> \<not> noRoot \<and> True \<notin> set profile_roots
          then Inr (AList.update ''root'' [(''type'', ''disk''), (''path'', ''/''), (''pool'', pool)] devices)
          else Inr devices)"

subsection \<open>Paths\<close>

fun clean_step :: "bool \<Rightarrow> string list \<Rightarrow> string \<Rightarrow> string list" where
  \<comment> \<open>On the elements kept so far, the last one first.\<close>
  "clean_step rooted kept e =
     (if e = [] \<or> e = ''.'' then kept
      else if e = ''..'' then
        (case kept of
           [] \<Rightarrow> if rooted then [] else [''..'']
         | k # ks \<Rightarrow> if k = ''..'' then ''..'' # kept else ks)
      else e # kept)"

fun join_path :: "string list \<Rightarrow> string" where
  "join_path [] = []"
| "join_path (e # es) = CHR ''/'' # e @ join_path es"

definition path_clean :: "string \<Rightarrow> string" where
  \<comment> \<open>\<open>path.Clean\<close>\<close>
  "path_clean p =
     (let rooted = has_prefix p ''/''; es = rev (fold (\<lambda>e kept. clean_step rooted kept e) (split_on (CHR ''/'') p) [])
      in if rooted then (if es = [] then ''/'' else join_path es)
         else if es = [] then ''.'' else drop 1 (join_path es))"

definition path_is_abs :: "string \<Rightarrow> bool" where "path_is_abs p \<longleftrightarrow> has_prefix p ''/''"

definition path_below_root :: "string \<Rightarrow> string" where
  \<comment> \<open>\<open>path.Join("/", p)\<close>, which leaves an empty element out.\<close>
  "path_below_root p = path_clean (if p = [] then ''/'' else ''//'' @ p)"

definition trim_suffix :: "string \<Rightarrow> string \<Rightarrow> string" where
  "trim_suffix s q = (if has_suffix s q then take (length s - length q) s else s)"

definition coversPath :: "string \<Rightarrow> string \<Rightarrow> bool" where
  "coversPath mount target \<longleftrightarrow>
     mount \<noteq> [] \<and> (target = path_clean mount \<or> has_prefix target (trim_suffix (path_clean mount) ''/'' @ ''/''))"

definition mount_of :: "device \<Rightarrow> string" where
  "mount_of d = (if dv_type d = ''tmpfs'' then dv_tmpfs_path d else dk_path (dv_disk d))"

definition deviceByName :: "device list \<Rightarrow> string \<Rightarrow> device option" where
  "deviceByName devs name = find (\<lambda>d. dv_name d = name) devs"

definition outer_mount :: "string \<Rightarrow> string \<times> string \<Rightarrow> string \<times> string \<Rightarrow> string \<times> string" where
  \<comment> \<open>One round of the loops of \<open>volumeTarget\<close>: a longer mount over the target is taken instead.\<close>
  "outer_mount target best candidate =
     (if \<not> coversPath (snd candidate) target \<or> length (snd candidate) \<le> length (snd best) then best else candidate)"

definition volumeTarget :: "device list \<Rightarrow> (string \<times> cfg) list \<Rightarrow> string \<Rightarrow> string \<times> string" where
  "volumeTarget devs extra target =
     (let mounts = map (\<lambda>d. (dv_name d, mount_of d)) devs
            @ map (\<lambda>(name, m). (name, cfg_get m ''path'')) (filter (\<lambda>(name, m). cfg_get m ''type'' = ''disk'') extra);
          best = fold (\<lambda>c b. outer_mount target b c) mounts ([], [])
      in if fst best = [] then ([], target)
         else case deviceByName devs (fst best) of
                None \<Rightarrow> ([], target)
              | Some d \<Rightarrow>
                  if dk_pool (dv_disk d) = None then ([], target)
                  else (fst best, path_below_root (trim_prefix target (snd best))))"

subsection \<open>Volumes an image declares\<close>

definition prefetchDevicePrefix :: string where "prefetchDevicePrefix = ''imgvol-''"

definition prefetchVolumeName :: "(string \<Rightarrow> string) \<Rightarrow> string \<Rightarrow> string \<Rightarrow> string" where
  "prefetchVolumeName slug service p = ''auto-'' @ service @ ''-'' @ slug p"

definition overlaps :: "string \<Rightarrow> string \<Rightarrow> bool" where
  "overlaps a b \<longleftrightarrow> coversPath a b \<or> coversPath b a"

definition devicePath :: "device list \<Rightarrow> (string \<times> cfg) list \<Rightarrow> string \<Rightarrow> string" where
  "devicePath devs extra p =
     (case find (\<lambda>d. overlaps (mount_of d) p) devs of
        Some d \<Rightarrow> mount_of d
      | None \<Rightarrow>
          (case find (\<lambda>(name, m). cfg_get m ''type'' = ''disk'' \<and> overlaps (cfg_get m ''path'') p) extra of
             Some (name, m) \<Rightarrow> cfg_get m ''path''
           | None \<Rightarrow> []))"

definition prefetch_device :: "(string \<Rightarrow> string) \<Rightarrow> (string \<Rightarrow> string) \<Rightarrow> string \<Rightarrow> string \<Rightarrow> string \<Rightarrow> device" where
  "prefetch_device slug incusName pool service p =
     (bare_device (prefetchDevicePrefix @ slug p) ''disk'')
       \<lparr>dv_disk := \<lparr>dk_pool = Some pool, dk_source = incusName (prefetchVolumeName slug service p), dk_path = p,
                    dk_shift = True, dk_readonly = False\<rparr>\<rparr>"

fun prefetchVolumes ::
  "(string \<Rightarrow> string) \<Rightarrow> (string \<Rightarrow> string) \<Rightarrow> string \<Rightarrow> string \<Rightarrow> (string \<Rightarrow> 'e option) \<Rightarrow> (string \<times> cfg) list \<Rightarrow>
     string list \<Rightarrow> device list \<Rightarrow> 'e + device list" where
  \<comment> \<open>\<open>ensure\<close> answers what went wrong in making a volume, where anything did.\<close>
  "prefetchVolumes slug incusName pool service ensure extra [] devs = Inr devs"
| "prefetchVolumes slug incusName pool service ensure extra (raw # raws) devs =
     (let p = path_clean raw in
      if p = ''/'' \<or> \<not> path_is_abs p then prefetchVolumes slug incusName pool service ensure extra raws devs
      else if devicePath devs extra p \<noteq> [] then prefetchVolumes slug incusName pool service ensure extra raws devs
      else case ensure (prefetchVolumeName slug service p) of
             Some e \<Rightarrow> Inl e
           | None \<Rightarrow>
               prefetchVolumes slug incusName pool service ensure extra raws
                 (devs @ [prefetch_device slug incusName pool service p]))"

definition prefetchDevices :: "(string \<times> cfg) list \<Rightarrow> cfg list" where
  \<comment> \<open>Of the devices an instance has on the server.\<close>
  "prefetchDevices devices =
     map snd (filter (\<lambda>(name, d). has_prefix name prefetchDevicePrefix \<and> cfg_get d ''type'' = ''disk'' \<and>
       cfg_get d ''path'' \<noteq> [] \<and> cfg_get d ''source'' \<noteq> []) devices)"

subsection \<open>Cleaned paths\<close>

lemma clean_step_nonempty: "[] \<notin> set kept \<Longrightarrow> [] \<notin> set (clean_step rooted kept e)"
  by (cases kept) (auto simp: clean_step.simps)

declare clean_step.simps [simp del]

lemma clean_step_empty [simp]: "clean_step rooted kept [] = kept"
  by (simp add: clean_step.simps)

lemma clean_fold_nonempty: "[] \<notin> set kept \<Longrightarrow> [] \<notin> set (fold (\<lambda>e kept. clean_step rooted kept e) es kept)"
  by (induction es arbitrary: kept) (simp_all add: clean_step_nonempty)

lemma path_clean_nonempty [simp]: "path_clean p \<noteq> []"
proof -
  define es where "es = rev (fold (\<lambda>e kept. clean_step (has_prefix p ''/'') kept e) (split_on (CHR ''/'') p) [])"
  have ne: "[] \<notin> set es" by (simp add: es_def clean_fold_nonempty)
  have "path_clean p = (if has_prefix p ''/'' then (if es = [] then ''/'' else join_path es)
      else if es = [] then ''.'' else drop 1 (join_path es))"
    unfolding path_clean_def Let_def es_def by (rule refl)
  moreover have "drop 1 (join_path es) \<noteq> [] \<and> join_path es \<noteq> []" if nonempty: "es \<noteq> []"
  proof -
    obtain e fs where e: "es = e # fs" using nonempty by (cases es) auto
    then have "e \<noteq> []" using ne by auto
    then show ?thesis unfolding e by simp
  qed
  ultimately show ?thesis by (auto simp del: drop_eq_Nil)
qed

lemma overlaps_nonempty: "overlaps a b \<Longrightarrow> a \<noteq> [] \<and> b \<noteq> []"
  by (auto simp: overlaps_def coversPath_def has_prefix_def)

lemma split_on_plain: "c \<notin> set s \<Longrightarrow> split_on c (s @ c # t) = s # split_on c t"
  by (induction s) auto

lemma path_split_none: "c \<notin> set s \<Longrightarrow> split_on c s = [s]"
  by (induction s) auto

definition plain_path :: "string list \<Rightarrow> bool" where
  "plain_path es \<longleftrightarrow> (\<forall>e \<in> set es. e \<noteq> [] \<and> e \<noteq> ''.'' \<and> e \<noteq> ''..'' \<and> CHR ''/'' \<notin> set e)"

lemma path_split_join: "plain_path es \<Longrightarrow> es \<noteq> [] \<Longrightarrow> split_on (CHR ''/'') (join_path es) = [] # es"
proof (induction es)
  case (Cons e es)
  show ?case
  proof (cases es)
    case Nil
    then show ?thesis using Cons.prems by (simp add: path_split_none plain_path_def)
  next
    case (Cons f fs)
    then have IH: "split_on (CHR ''/'') (join_path es) = [] # es" using Cons.IH Cons.prems by (simp add: plain_path_def)
    have j: "join_path es = CHR ''/'' # f @ join_path fs" by (simp add: Cons)
    have "split_on (CHR ''/'') (f @ join_path fs) = es" using IH by (simp add: j)
    moreover have "CHR ''/'' \<notin> set e" using Cons.prems by (simp add: plain_path_def)
    ultimately show ?thesis by (simp add: j split_on_plain)
  qed
qed simp

lemma clean_plain: "plain_path es \<Longrightarrow> fold (\<lambda>e kept. clean_step rooted kept e) es kept = rev es @ kept"
  by (induction es arbitrary: kept) (auto simp: plain_path_def clean_step.simps)

lemma path_clean_join [simp]:
  assumes "plain_path es" "es \<noteq> []"
  shows "path_clean (join_path es) = join_path es"
proof -
  have "has_prefix (join_path es) ''/''" using assms(2) by (cases es) (auto simp: has_prefix_def)
  then show ?thesis unfolding path_clean_def Let_def path_split_join [OF assms] using assms by (simp add: clean_plain)
qed

lemma path_below_root_join:
  assumes "plain_path es"
  shows "path_below_root (join_path es) = (if es = [] then ''/'' else join_path es)"
proof (cases "es = []")
  case True
  then show ?thesis by (simp add: path_below_root_def path_clean_def has_prefix_def)
next
  case False
  then obtain e fs where e: "es = e # fs" by (cases es) auto
  have "split_on (CHR ''/'') (''//'' @ join_path es) = [] # [] # [] # es" using path_split_join [OF assms False] by simp
  moreover have "has_prefix (''//'' @ join_path es) ''/''" "join_path es \<noteq> []" by (simp_all add: has_prefix_def e)
  ultimately show ?thesis using False assms unfolding path_below_root_def path_clean_def Let_def
    by (simp del: split_on.simps append.simps add: clean_plain)
qed

lemma join_path_append [simp]: "join_path (as @ bs) = join_path as @ join_path bs"
  by (induction as) auto

subsection \<open>Where a file lands\<close>

lemma covers_join:
  assumes "plain_path ms" "ms \<noteq> []"
  shows "coversPath (join_path ms) target \<longleftrightarrow> target = join_path ms \<or> has_prefix target (join_path ms @ ''/'')"
proof -
  have "\<not> has_suffix (join_path ms) ''/''"
  proof
    assume h: "has_suffix (join_path ms) ''/''"
    obtain as e where m: "ms = as @ [e]" using assms(2) by (metis append_butlast_last_id)
    have e: "e \<noteq> []" "CHR ''/'' \<notin> set e" using assms(1) by (simp_all add: m plain_path_def)
    have "join_path ms = join_path as @ CHR ''/'' # e" by (simp add: m)
    then have "last (join_path ms) = last e" using e(1) by simp
    moreover obtain zs where "join_path ms = zs @ ''/''" using h by (auto simp: has_suffix_def suffix_def)
    then have "last (join_path ms) = CHR ''/''" by simp
    ultimately show False using last_in_set [OF e(1)] e(2) by simp
  qed
  then show ?thesis using assms path_clean_join [OF assms] by (cases ms) (auto simp: coversPath_def trim_suffix_def)
qed

lemma join_path_covers:
  assumes "plain_path ms" "ms \<noteq> []"
  shows "coversPath (join_path ms) (join_path (ms @ ts))"
  using covers_join [OF assms] by (cases ts) (auto simp: has_prefix_def)

lemma best_mount:
  "fold (\<lambda>c b. outer_mount target b c) cs b = r \<Longrightarrow>
     (r = b \<or> r \<in> set cs \<and> coversPath (snd r) target) \<and> length (snd b) \<le> length (snd r) \<and>
     (\<forall>c \<in> set cs. coversPath (snd c) target \<longrightarrow> length (snd c) \<le> length (snd r))"
proof (induction cs arbitrary: b)
  case (Cons c cs)
  let ?b = "outer_mount target b c"
  have step: "(?b = b \<or> ?b = c \<and> coversPath (snd c) target) \<and> length (snd b) \<le> length (snd ?b) \<and>
      (coversPath (snd c) target \<longrightarrow> length (snd c) \<le> length (snd ?b))"
    by (auto simp: outer_mount_def)
  have IH: "(r = ?b \<or> r \<in> set cs \<and> coversPath (snd r) target) \<and> length (snd ?b) \<le> length (snd r) \<and>
      (\<forall>c \<in> set cs. coversPath (snd c) target \<longrightarrow> length (snd c) \<le> length (snd r))"
    using Cons.prems by (intro Cons.IH) simp
  show ?case using step IH by auto
qed simp

text \<open>
  A file to be pushed that is written to a device's volume lands where the
  instance will see it: the device is one of the instance's own with a volume
  behind it, no longer mount covers the target, and the mount followed by the
  path in the volume is the target again.
\<close>
theorem files_land_under_their_mount:
  assumes "volumeTarget devs extra target = (name, p)" "name \<noteq> []"
    and "deviceByName devs name = Some d" "dv_name d = name"
    and "\<And>c. c \<in> set devs \<Longrightarrow> dv_name c = name \<Longrightarrow> mount_of c = join_path ms"
    and "\<And>m. (name, m) \<notin> set extra" "plain_path ms" "ms \<noteq> []"
    and "target = join_path (ms @ ts)" "plain_path ts"
  shows "dk_pool (dv_disk d) \<noteq> None \<and> coversPath (mount_of d) target \<and>
     (\<forall>c \<in> set devs. coversPath (mount_of c) target \<longrightarrow> length (mount_of c) \<le> length (mount_of d)) \<and>
     (if ts = [] then p = ''/'' else mount_of d @ p = target)"
proof -
  define mounts where "mounts = map (\<lambda>d. (dv_name d, mount_of d)) devs
      @ map (\<lambda>(name, m). (name, cfg_get m ''path'')) (filter (\<lambda>(name, m). cfg_get m ''type'' = ''disk'') extra)"
  define best where "best = fold (\<lambda>c b. outer_mount target b c) mounts ([], [])"
  have r: "fst best = name" "dk_pool (dv_disk d) \<noteq> None" "p = path_below_root (trim_prefix target (snd best))"
    using assms(1-3) by (auto simp: volumeTarget_def mounts_def [symmetric] best_def [symmetric] Let_def split: if_splits option.splits)
  have b: "best \<in> set mounts" "\<forall>c \<in> set mounts. coversPath (snd c) target \<longrightarrow> length (snd c) \<le> length (snd best)"
    using best_mount [OF best_def [symmetric]] r(1) assms(2) by auto
  have "(\<exists>c \<in> set devs. dv_name c = fst best \<and> mount_of c = snd best) \<or> (\<exists>m. (fst best, m) \<in> set extra)"
    using b(1) unfolding mounts_def by auto
  then have m: "snd best = join_path ms" using r(1) assms(5,6) by metis
  have dm: "mount_of d = join_path ms"
    using assms(3-5) by (auto simp: deviceByName_def find_Some_iff intro: nth_mem)
  have "p = path_below_root (join_path ts)"
    unfolding r(3) m assms(9) by (simp add: trim_prefix_def has_prefix_def)
  then have "if ts = [] then p = ''/'' else p = join_path ts" using path_below_root_join [OF assms(10)] by simp
  moreover have "\<forall>c \<in> set devs. coversPath (mount_of c) target \<longrightarrow> length (mount_of c) \<le> length (mount_of d)"
  proof (intro ballI impI)
    fix c assume c: "c \<in> set devs" "coversPath (mount_of c) target"
    then have "(dv_name c, mount_of c) \<in> set mounts" by (simp add: mounts_def)
    then show "length (mount_of c) \<le> length (mount_of d)" using b(2) c(2) unfolding m dm by force
  qed
  ultimately show ?thesis
    using r(2) join_path_covers [OF assms(7,8), of ts] unfolding dm assms(9) by auto
qed

definition demo_volume_device :: device where
  "demo_volume_device =
     (bare_device ''vol-data'' ''disk'')\<lparr>dv_disk := no_disk\<lparr>dk_pool := Some ''default'', dk_source := ''data'', dk_path := ''/data''\<rparr>\<rparr>"

theorem files_land_under_their_mount_witness:
  "volumeTarget [demo_volume_device] [] ''/data/app/key'' = (''vol-data'', ''/app/key'') \<and>
     ''/data'' @ ''/app/key'' = ''/data/app/key''"
proof -
  have v: "volumeTarget [demo_volume_device] [] ''/data/app/key'' = (''vol-data'', ''/app/key'')"
    by code_simp
  have n: "dv_name demo_volume_device = ''vol-data''" "mount_of demo_volume_device = join_path [''data'']"
    by (simp_all add: demo_volume_device_def mount_of_def bare_device_def no_disk_def)
  have f: "deviceByName [demo_volume_device] ''vol-data'' = Some demo_volume_device"
    by (simp add: deviceByName_def n)
  have h: "plain_path [''data'']" "plain_path [''app'', ''key'']" by (simp_all add: plain_path_def)
  have t: "''/data/app/key'' = join_path ([''data''] @ [''app'', ''key''])" by simp
  show ?thesis
    using files_land_under_their_mount [OF v _ f n(1) _ _ h(1) _ t h(2)] n v by simp
qed

subsection \<open>Auto volumes\<close>

lemma split_on_members: "x \<in> set (split_on c s) \<Longrightarrow> c \<notin> set x"
proof (induction s arbitrary: x)
  case (Cons a s)
  then show ?case by (cases "split_on c s") (auto split: if_splits)
qed simp

lemma clean_rooted_plain:
  "plain_path kept \<Longrightarrow> \<forall>e \<in> set es. CHR ''/'' \<notin> set e \<Longrightarrow>
     plain_path (fold (\<lambda>e kept. clean_step True kept e) es kept)"
proof (induction es arbitrary: kept)
  case (Cons e es)
  have "plain_path (clean_step True kept e)"
    using Cons.prems by (cases kept) (auto simp: clean_step.simps plain_path_def)
  then show ?case using Cons by simp
qed simp

lemma clean_unrooted_members:
  "\<forall>e \<in> set kept. e \<noteq> [] \<and> CHR ''/'' \<notin> set e \<Longrightarrow> \<forall>e \<in> set es. CHR ''/'' \<notin> set e \<Longrightarrow>
     \<forall>e \<in> set (fold (\<lambda>e kept. clean_step rooted kept e) es kept). e \<noteq> [] \<and> CHR ''/'' \<notin> set e"
proof (induction es arbitrary: kept)
  case (Cons e es)
  have "\<forall>e \<in> set (clean_step rooted kept e). e \<noteq> [] \<and> CHR ''/'' \<notin> set e"
    using Cons.prems by (cases kept) (auto simp: clean_step.simps)
  moreover have "\<forall>e \<in> set es. CHR ''/'' \<notin> set e" using Cons.prems(2) by simp
  ultimately show ?case unfolding fold_simps by (rule Cons.IH)
qed simp

lemma clean_abs:
  assumes "path_is_abs (path_clean raw)" "path_clean raw \<noteq> ''/''"
  obtains es where "plain_path es" "es \<noteq> []" "path_clean raw = join_path es"
proof -
  define es where "es = rev (fold (\<lambda>e kept. clean_step (has_prefix raw ''/'') kept e) (split_on (CHR ''/'') raw) [])"
  have r: "path_clean raw = (if has_prefix raw ''/'' then (if es = [] then ''/'' else join_path es)
      else if es = [] then ''.'' else drop 1 (join_path es))"
    unfolding path_clean_def Let_def es_def by (rule refl)
  have m: "\<forall>e \<in> set es. e \<noteq> [] \<and> CHR ''/'' \<notin> set e"
    unfolding es_def set_rev by (rule clean_unrooted_members) (auto dest: split_on_members)
  have rooted: "has_prefix raw ''/''"
  proof (rule ccontr)
    assume no: "\<not> has_prefix raw ''/''"
    show False
    proof (cases es)
      case Nil
      then have "path_clean raw = ''.''" using r no by simp
      then show False using assms(1) by (simp add: path_is_abs_def has_prefix_def)
    next
      case (Cons e fs)
      then obtain a e' where e: "e = a # e'" "a \<noteq> CHR ''/''" using m by (cases e) auto
      have "path_clean raw = drop 1 (join_path es)" using r no Cons by simp
      then have "path_clean raw = a # e' @ join_path fs" unfolding Cons e(1) by simp
      then show False using assms(1) e(2) by (simp add: path_is_abs_def has_prefix_def)
    qed
  qed
  then have "plain_path (fold (\<lambda>e kept. clean_step True kept e) (split_on (CHR ''/'') raw) [])"
    by (intro clean_rooted_plain) (auto simp: plain_path_def dest: split_on_members)
  then have "plain_path es" using rooted by (simp add: es_def plain_path_def)
  moreover have "es \<noteq> []" "path_clean raw = join_path es" using r rooted assms(2) by auto
  ultimately show ?thesis using that by blast
qed

lemma clean_twice:
  "path_is_abs (path_clean raw) \<Longrightarrow> path_clean raw \<noteq> ''/'' \<Longrightarrow> path_clean (path_clean raw) = path_clean raw"
  by (metis clean_abs path_clean_join)

lemma find_holds: "find P xs = Some x \<Longrightarrow> x \<in> set xs \<and> P x"
  by (auto simp: find_Some_iff)

lemma devicePath_covers:
  "devicePath devs extra p \<noteq> [] \<longleftrightarrow>
     (\<exists>d \<in> set devs. overlaps (mount_of d) p) \<or>
     (\<exists>(name, m) \<in> set extra. cfg_get m ''type'' = ''disk'' \<and> overlaps (cfg_get m ''path'') p)"
proof (cases "find (\<lambda>d. overlaps (mount_of d) p) devs")
  case None
  note first = None
  then have no: "\<not> (\<exists>d \<in> set devs. overlaps (mount_of d) p)" by (simp add: find_None_iff)
  show ?thesis
  proof (cases "find (\<lambda>(name, m). cfg_get m ''type'' = ''disk'' \<and> overlaps (cfg_get m ''path'') p) extra")
    case None
    then have "devicePath devs extra p = []" using first by (simp add: devicePath_def)
    then show ?thesis using no None by (auto simp: find_None_iff)
  next
    case (Some e)
    obtain name m where e: "e = (name, m)" by (cases e)
    have "devicePath devs extra p = cfg_get m ''path''" using first Some by (simp add: devicePath_def e)
    moreover have "(name, m) \<in> set extra" "cfg_get m ''type'' = ''disk''" "overlaps (cfg_get m ''path'') p"
      using find_holds [OF Some] by (simp_all add: e)
    ultimately show ?thesis using overlaps_nonempty by auto
  qed
next
  case (Some d)
  moreover have "devicePath devs extra p = mount_of d" using Some by (simp add: devicePath_def)
  moreover have "d \<in> set devs \<and> overlaps (mount_of d) p" using find_holds [OF Some] .
  ultimately have "d \<in> set devs" "overlaps (mount_of d) p" "devicePath devs extra p = mount_of d" by simp_all
  then show ?thesis using overlaps_nonempty by auto
qed

definition covered_path :: "device list \<Rightarrow> (string \<times> cfg) list \<Rightarrow> string \<Rightarrow> bool" where
  "covered_path devs extra p \<longleftrightarrow>
     (\<exists>d \<in> set devs. overlaps (mount_of d) p) \<or>
     (\<exists>(name, m) \<in> set extra. cfg_get m ''type'' = ''disk'' \<and> overlaps (cfg_get m ''path'') p)"

lemma covered_path_mono: "covered_path devs extra p \<Longrightarrow> covered_path (devs @ new) extra p"
  by (auto simp: covered_path_def)

lemma prefetch_device_simps [simp]:
  "mount_of (prefetch_device slug incusName pool service p) = p"
  by (simp add: prefetch_device_def mount_of_def bare_device_def)

text \<open>
  C27.  The volumes made for the paths an image declares only add devices, never
  one nested in or around a mount the instance has already: one of its own, one of
  the others just added, or a disk among its extra devices; and afterwards every declared path that is
  absolute and not the root is inside, around or at some mount.
\<close>
theorem auto_volumes_never_nest:
  assumes "prefetchVolumes slug incusName pool service ensure extra raws devs = Inr devs'"
  shows "\<exists>new. devs' = devs @ new \<and>
     (\<forall>i j. i < j \<longrightarrow> length devs \<le> j \<longrightarrow> j < length devs' \<longrightarrow> \<not> overlaps (mount_of (devs' ! i)) (mount_of (devs' ! j))) \<and>
     (\<forall>d \<in> set new. \<forall>(name, m) \<in> set extra. cfg_get m ''type'' = ''disk'' \<longrightarrow> \<not> overlaps (cfg_get m ''path'') (mount_of d)) \<and>
     (\<forall>raw \<in> set raws. path_is_abs (path_clean raw) \<longrightarrow> path_clean raw \<noteq> ''/'' \<longrightarrow> covered_path devs' extra (path_clean raw))"
  using assms
proof (induction raws arbitrary: devs)
  case (Cons raw raws)
  define p where "p = path_clean raw"
  show ?case
  proof (cases "p = ''/'' \<or> \<not> path_is_abs p \<or> devicePath devs extra p \<noteq> []")
    case True
    have "prefetchVolumes slug incusName pool service ensure extra raws devs = Inr devs'"
      using Cons.prems True by (auto simp: p_def [symmetric] Let_def split: if_splits)
    from Cons.IH [OF this] obtain new where new: "devs' = devs @ new"
      "\<forall>i j. i < j \<longrightarrow> length devs \<le> j \<longrightarrow> j < length devs' \<longrightarrow> \<not> overlaps (mount_of (devs' ! i)) (mount_of (devs' ! j))"
      "\<forall>d \<in> set new. \<forall>(name, m) \<in> set extra. cfg_get m ''type'' = ''disk'' \<longrightarrow> \<not> overlaps (cfg_get m ''path'') (mount_of d)"
      "\<forall>raw \<in> set raws. path_is_abs (path_clean raw) \<longrightarrow> path_clean raw \<noteq> ''/'' \<longrightarrow> covered_path devs' extra (path_clean raw)"
      by blast
    have "covered_path devs' extra p" if "path_is_abs p" "p \<noteq> ''/''"
      using True that covered_path_mono [of devs extra p new] by (auto simp: new(1) devicePath_covers covered_path_def)
    then show ?thesis using new by (auto simp: p_def)
  next
    case False
    let ?d = "prefetch_device slug incusName pool service p"
    have "prefetchVolumes slug incusName pool service ensure extra raws (devs @ [?d]) = Inr devs'"
      using Cons.prems False by (auto simp: p_def [symmetric] Let_def split: option.splits)
    from Cons.IH [OF this] obtain new where new: "devs' = (devs @ [?d]) @ new"
      "\<forall>i j. i < j \<longrightarrow> length (devs @ [?d]) \<le> j \<longrightarrow> j < length devs' \<longrightarrow> \<not> overlaps (mount_of (devs' ! i)) (mount_of (devs' ! j))"
      "\<forall>d \<in> set new. \<forall>(name, m) \<in> set extra. cfg_get m ''type'' = ''disk'' \<longrightarrow> \<not> overlaps (cfg_get m ''path'') (mount_of d)"
      "\<forall>raw \<in> set raws. path_is_abs (path_clean raw) \<longrightarrow> path_clean raw \<noteq> ''/'' \<longrightarrow> covered_path devs' extra (path_clean raw)"
      by blast
    have "overlaps p p" using False clean_twice [of raw] by (simp add: p_def overlaps_def coversPath_def)
    have first: "\<not> overlaps (mount_of (devs' ! i)) (mount_of (devs' ! j))" if "i < j" "j = length devs" for i j
      using False that by (auto simp: new(1) nth_append devicePath_covers)
    have "\<not> overlaps (mount_of (devs' ! i)) (mount_of (devs' ! j))" if "i < j" "length devs \<le> j" "j < length devs'" for i j
      using that first [of i j] new(2) by (cases "j = length devs") auto
    moreover have "covered_path devs' extra p" using \<open>overlaps p p\<close> by (auto simp: new(1) covered_path_def)
    moreover have "\<forall>(name, m) \<in> set extra. cfg_get m ''type'' = ''disk'' \<longrightarrow> \<not> overlaps (cfg_get m ''path'') p"
      using False by (auto simp: devicePath_covers)
    then have "\<forall>d \<in> set (?d # new). \<forall>(name, m) \<in> set extra. cfg_get m ''type'' = ''disk'' \<longrightarrow> \<not> overlaps (cfg_get m ''path'') (mount_of d)"
      using new(3) by simp
    moreover have "devs' = devs @ (?d # new)" by (simp add: new(1))
    moreover have "\<forall>q \<in> set (raw # raws). path_is_abs (path_clean q) \<longrightarrow> path_clean q \<noteq> ''/'' \<longrightarrow> covered_path devs' extra (path_clean q)"
      using calculation(2) new(4) by (simp add: p_def)
    ultimately show ?thesis by blast
  qed
qed simp

definition demo_extra :: "(string \<times> cfg) list" where
  "demo_extra = [(''cache'', [(''type'', ''disk''), (''path'', ''/var/cache'')])]"

theorem auto_volumes_never_nest_witness:
  "\<exists>new. prefetchVolumes (\<lambda>s. s) (\<lambda>s. s) ''default'' ''web'' (\<lambda>_. None :: unit option) demo_extra
       [''/data/cache'', ''/var'', ''/var/lib/''] [demo_volume_device] = Inr ([demo_volume_device] @ new) \<and>
     covered_path ([demo_volume_device] @ new) demo_extra ''/var/lib'' \<and> (\<forall>d \<in> set new. \<not> overlaps ''/var/cache'' (mount_of d))"
proof -
  let ?d = "prefetch_device (\<lambda>s. s) (\<lambda>s. s) ''default'' ''web'' ''/var/lib''"
  have c: "path_clean ''/data/cache'' = ''/data/cache''" "path_clean ''/var'' = ''/var''" "path_clean ''/var/lib/'' = ''/var/lib''" by code_simp+
  have d: "devicePath [demo_volume_device] demo_extra ''/data/cache'' \<noteq> []" "devicePath [demo_volume_device] demo_extra ''/var'' \<noteq> []"
    "devicePath [demo_volume_device] demo_extra ''/var/lib'' = []"
    by code_simp+
  have r: "prefetchVolumes (\<lambda>s. s) (\<lambda>s. s) ''default'' ''web'' (\<lambda>_. None :: unit option) demo_extra
      [''/data/cache'', ''/var'', ''/var/lib/''] [demo_volume_device] = Inr [demo_volume_device, ?d]"
    using d by (simp add: c path_is_abs_def has_prefix_def Let_def)
  obtain new where new: "[demo_volume_device, ?d] = [demo_volume_device] @ new"
    "\<forall>d \<in> set new. \<forall>(name, m) \<in> set demo_extra. cfg_get m ''type'' = ''disk'' \<longrightarrow> \<not> overlaps (cfg_get m ''path'') (mount_of d)"
    "\<forall>raw \<in> set [''/data/cache'', ''/var'', ''/var/lib/'']. path_is_abs (path_clean raw) \<longrightarrow> path_clean raw \<noteq> ''/'' \<longrightarrow>
       covered_path [demo_volume_device, ?d] demo_extra (path_clean raw)"
    using auto_volumes_never_nest [OF r] by blast
  have "covered_path [demo_volume_device, ?d] demo_extra ''/var/lib''"
    using bspec [OF new(3), of "''/var/lib/''"] by (simp add: c path_is_abs_def has_prefix_def)
  moreover have "\<forall>d \<in> set new. \<not> overlaps ''/var/cache'' (mount_of d)"
    using new(2) by (simp add: demo_extra_def cfg_get_def)
  ultimately show ?thesis using r new(1) by (intro exI [of _ new]) simp
qed

text \<open>
  The volume of a declared path is named by gluing the service and the path
  together, so two services whose names differ by a hyphenated tail can be
  given one and the same volume for paths of their own.
\<close>
theorem auto_volumes_collide:
  assumes "slug q = b @ ''-'' @ slug p"
  shows "prefetchVolumeName slug (a @ ''-'' @ b) p = prefetchVolumeName slug a q"
  using assms by (simp add: prefetchVolumeName_def)

definition demo_slug :: "string \<Rightarrow> string" where
  \<comment> \<open>What the slug makes of a plain path: the separators become hyphens, none at the ends.\<close>
  "demo_slug s = drop 1 (map (\<lambda>c. if c = CHR ''/'' then CHR ''-'' else c) s)"

theorem auto_volumes_collide_witness:
  "prefetchVolumeName demo_slug ''web-db'' ''/data'' = prefetchVolumeName demo_slug ''web'' ''/db/data''"
  using auto_volumes_collide [of demo_slug "''/db/data''" "''db''" "''/data''" "''web''"] by (simp add: demo_slug_def)

subsection \<open>What the server is handed\<close>

lemma ToIncusDevice_name: "ToIncusDevice d = Inr (n, m) \<Longrightarrow> n = dv_name d"
  by (auto simp: ToIncusDevice_def Let_def split: if_splits sum.splits option.splits)

lemma render_all_lookup:
  "render_all ds m = Inr r \<Longrightarrow>
     map_of r n = (case filter (\<lambda>d. dv_name d = n) ds of
                     [] \<Rightarrow> map_of m n
                   | d # rest \<Rightarrow> map_option snd (case ToIncusDevice (last (d # rest)) of Inl _ \<Rightarrow> None | Inr x \<Rightarrow> Some x))"
proof (induction ds arbitrary: m)
  case (Cons d ds)
  obtain n' c where t: "ToIncusDevice d = Inr (n', c)" "render_all ds (AList.update n' c m) = Inr r"
    using Cons.prems by (auto split: sum.splits)
  have n': "n' = dv_name d" using ToIncusDevice_name [OF t(1)] .
  from Cons.IH [OF t(2)] show ?case
    using t(1) by (auto simp: n' update_conv split: list.splits)
qed simp

lemma buildDevices_lookup:
  assumes "buildDevices ds None roots noRoot pool = Inr r" "n \<noteq> ''root''"
  shows "map_of r n = (case filter (\<lambda>d. dv_name d = n) ds of
                     [] \<Rightarrow> None
                   | d # rest \<Rightarrow> map_option snd (case ToIncusDevice (last (d # rest)) of Inl _ \<Rightarrow> None | Inr x \<Rightarrow> Some x))"
proof -
  obtain r' where r': "render_all ds [] = Inr r'" using assms(1) by (auto simp: buildDevices_def split: sum.splits)
  then have "map_of r n = map_of r' n" using assms by (auto simp: buildDevices_def update_conv split: if_splits)
  then show ?thesis using render_all_lookup [OF r', of n] by (simp split: list.splits)
qed

end
