(* ===== verification/ServiceDevices.thy ===== *)
theory ServiceDevices
  imports InstanceDevices Instances
begin

text \<open>
  The devices and files of a service (\<open>project/instance.go\<close>): the proxies of its
  ports, the mounts of its volumes, and how files are shared out between the
  instance and the containers that run before it starts.
\<close>

subsection \<open>Ports\<close>

record port =
  pt_published :: string
  pt_target :: nat
  pt_protocol :: string
  pt_host :: string
  pt_nat :: bool

record server_caps =
  cap_nat :: bool         \<comment> \<open>72: addresses of its own for nat\<close>
  cap_nat_static :: bool  \<comment> \<open>73\<close>

definition first_static :: "device list \<Rightarrow> string" where
  \<comment> \<open>The address of the first NIC that is given one, without its length.\<close>
  "first_static devs =
     (case find (\<lambda>d. dv_type d = ''nic'' \<and> map_of (ext_of d) ''ipv4.address'' \<noteq> None) devs of
        None \<Rightarrow> []
      | Some d \<Rightarrow>
          (let addr = cfg_get (ext_of d) ''ipv4.address'' in
           case go_cut addr ''/'' of None \<Rightarrow> addr | Some (before, after) \<Rightarrow> before))"

definition proxy_device :: "port \<Rightarrow> nat \<Rightarrow> string \<Rightarrow> device" where
  "proxy_device p lPort connectAddr =
     (let proto = (if pt_protocol p = [] then ''tcp'' else pt_protocol p);
          listenIP = (if pt_host p = [] then ''0.0.0.0'' else pt_host p)
      in (bare_device (''proxy-'' @ itoa lPort) ''proxy'')
           \<lparr>dv_proxy := \<lparr>px_listen_type = proto, px_listen_addr = listenIP, px_listen_port = lPort,
              px_connect_type = proto, px_connect_addr = connectAddr, px_connect_port = pt_target p, px_nat = pt_nat p\<rparr>\<rparr>)"

fun proxy_loop :: "server_caps \<Rightarrow> port list \<Rightarrow> string \<Rightarrow> device list \<times> string list \<Rightarrow> device list \<times> string list" where
  \<comment> \<open>The address to connect to is carried from one port to the next.\<close>
  "proxy_loop caps [] connectAddr (devs, errs) = (devs, errs)"
| "proxy_loop caps (p # ps) connectAddr (devs, errs) =
     (let add = (\<lambda>to. case parse_uint32 (pt_published p) of
                   None \<Rightarrow> proxy_loop caps ps to (devs, errs @ [pt_published p])
                 | Some lPort \<Rightarrow> proxy_loop caps ps to (devs @ [proxy_device p lPort to], errs))
      in if pt_nat p \<and> connectAddr = [] then
           (if \<not> cap_nat caps then proxy_loop caps ps connectAddr (devs, errs) else add ''0.0.0.0'')
         else if pt_nat p then
           (if \<not> cap_nat_static caps then proxy_loop caps ps connectAddr (devs, errs) else add connectAddr)
         else add ''127.0.0.1'')"

definition instanceProxyDevices :: "server_caps \<Rightarrow> device list \<Rightarrow> port list \<Rightarrow> device list \<times> string list" where
  "instanceProxyDevices caps devs ports = proxy_loop caps ports (first_static devs) (devs, [])"

subsection \<open>Volumes\<close>

record mount =
  mn_type :: string
  mn_source :: string
  mn_target :: string
  mn_readonly :: bool
  mn_seed :: bool
  mn_remote :: bool
  mn_nocopy :: bool
  mn_size :: nat          \<comment> \<open>of a tmpfs\<close>
  mn_shifted :: "string option"  \<comment> \<open>\<open>security.shifted\<close>, the volume's own or given inline\<close>

record host =
  h_remote_mounts :: bool                  \<comment> \<open>\<open>AllowRemoteMounts\<close>\<close>
  h_same :: bool                           \<comment> \<open>Incus runs on this host\<close>
  h_stat :: "string \<Rightarrow> bool option"       \<comment> \<open>whether a path is a directory, if it is there\<close>
  h_default_pool :: string
  h_pool :: "string \<Rightarrow> string"            \<comment> \<open>the pool a volume's definition names, empty for none\<close>
  h_isTrue :: "string \<Rightarrow> bool"            \<comment> \<open>\<open>util.IsTrue\<close> of the Incus client\<close>

datatype mount_error = NotHere | NoSuchSource | UnknownVolumeType string

definition volume_type :: "mount \<Rightarrow> string" where
  "volume_type m =
     (if mn_type m \<noteq> [] then mn_type m
      else if mn_source m \<noteq> [] \<and> (has_prefix (mn_source m) ''/'' \<or> has_prefix (mn_source m) ''.'') then ''bind''
      else if mn_source m \<noteq> [] then ''volume'' else [])"

definition disk_device :: "string \<Rightarrow> string option \<Rightarrow> string \<Rightarrow> mount \<Rightarrow> bool \<Rightarrow> device" where
  "disk_device name pool source m shift =
     (bare_device name ''disk'')
       \<lparr>dv_disk := \<lparr>dk_pool = pool, dk_source = source, dk_path = mn_target m, dk_shift = shift, dk_readonly = mn_readonly m\<rparr>\<rparr>"

definition tmpfs_device :: "string \<Rightarrow> string \<Rightarrow> string \<Rightarrow> device" where
  "tmpfs_device name p sz = (bare_device name ''tmpfs'')\<lparr>dv_tmpfs_path := p, dv_tmpfs_size := sz\<rparr>"

definition formatTmpfsSize :: "nat \<Rightarrow> string" where
  "formatTmpfsSize n = (if n = 0 then [] else itoa n)"

record built =
  bt_devices :: "device list"
  bt_files :: "string list"      \<comment> \<open>the targets of the files to push\<close>
  bt_volumes :: "string list"    \<comment> \<open>the names of the volumes referred to\<close>
  bt_errs :: "mount_error list"

definition mount_step ::
  "host \<Rightarrow> (string \<Rightarrow> int \<Rightarrow> string) \<Rightarrow> (string \<Rightarrow> string) \<Rightarrow> mount \<Rightarrow> built \<Rightarrow> mount_error + built" where
  \<comment> \<open>One volume; \<open>Inl\<close> where the function gives up.  \<open>sanitize\<close> is \<open>SanitizeIncusName\<close>, \<open>incusName\<close> what a volume is called.\<close>
  "mount_step h sanitize incusName m b =
     (let t = volume_type m;
          shifted = (case mn_shifted m of None \<Rightarrow> True | Some es \<Rightarrow> h_isTrue h es);
          put = (\<lambda>d. b\<lparr>bt_devices := bt_devices b @ [d]\<rparr>)
      in if t = ''volume'' then
           (let pool = (if h_pool h (mn_source m) = [] then h_default_pool h else h_pool h (mn_source m));
                d = disk_device (''vol-'' @ sanitize (mn_source m) (MaxIncusNameLen - 4)) (Some pool) (incusName (mn_source m)) m shifted
            in Inr ((put d)\<lparr>bt_volumes := bt_volumes b @ [mn_source m]\<rparr>))
         else if t = ''bind'' then
           (if mn_seed m then
              (case h_stat h (mn_source m) of
                 None \<Rightarrow> Inl NoSuchSource
               | Some False \<Rightarrow> Inr (b\<lparr>bt_files := bt_files b @ [mn_target m]\<rparr>)
               | Some True \<Rightarrow>
                   (let v = ''bind-'' @ mn_source m;
                        d = disk_device (''vol-seed-'' @ sanitize (mn_source m) (MaxIncusNameLen - 10)) (Some (h_default_pool h))
                              (incusName v) m shifted
                    in Inr ((put d)\<lparr>bt_volumes := bt_volumes b @ [v]\<rparr>)))
            else if \<not> mn_remote m \<and> \<not> h_remote_mounts h \<and> \<not> h_same h then Inl NotHere
            else if \<not> mn_remote m \<and> \<not> h_remote_mounts h \<and> h_stat h (mn_source m) = None then Inl NoSuchSource
            else Inr (put (disk_device (''bind-'' @ sanitize (mn_source m) (MaxIncusNameLen - 5)) None (mn_source m) m shifted)))
         else if t = ''tmpfs'' then
           Inr (put (tmpfs_device (''tmpfs-'' @ map (\<lambda>c. if c = CHR ''/'' then CHR ''-'' else c) (mn_target m))
                       (mn_target m) (formatTmpfsSize (mn_size m))))
         else Inr (b\<lparr>bt_errs := bt_errs b @ [UnknownVolumeType t]\<rparr>))"

fun mount_all ::
  "host \<Rightarrow> (string \<Rightarrow> int \<Rightarrow> string) \<Rightarrow> (string \<Rightarrow> string) \<Rightarrow> mount list \<Rightarrow> built \<Rightarrow> mount_error + built" where
  "mount_all h sanitize incusName [] b = Inr b"
| "mount_all h sanitize incusName (m # ms) b =
     (case mount_step h sanitize incusName m b of Inl e \<Rightarrow> Inl e | Inr b' \<Rightarrow> mount_all h sanitize incusName ms b')"

definition instanceVolumeDevices ::
  "host \<Rightarrow> (string \<Rightarrow> int \<Rightarrow> string) \<Rightarrow> (string \<Rightarrow> string) \<Rightarrow> mount list \<Rightarrow> string list \<Rightarrow> nat \<Rightarrow> mount_error + built" where
  "instanceVolumeDevices h sanitize incusName ms tmpfs shm =
     (case mount_all h sanitize incusName ms \<lparr>bt_devices = [], bt_files = [], bt_volumes = [], bt_errs = []\<rparr> of
        Inl e \<Rightarrow> Inl e
      | Inr b \<Rightarrow>
          Inr (b\<lparr>bt_devices := bt_devices b
              @ map (\<lambda>(i, p). tmpfs_device (''tmpfs-'' @ itoa i) p (itoa (32 * 1024))) (enumerate 0 tmpfs)
              @ (if 0 < shm then [tmpfs_device ''shm'' ''/dev/shm'' (itoa shm)] else [])\<rparr>))"

subsection \<open>One name, one device\<close>

lemma proxy_loop_last:
  assumes "\<not> pt_nat q" "parse_uint32 (pt_published q) = Some n"
  shows "fst (proxy_loop caps (ps @ [q]) to (devs, errs)) =
     fst (proxy_loop caps ps to (devs, errs)) @ [proxy_device q n ''127.0.0.1'']"
proof (induction caps ps to "(devs, errs)" arbitrary: devs errs rule: proxy_loop.induct)
  case (1 caps to)
  then show ?case using assms by simp
next
  case (2 caps p ps to)
  then show ?case by (auto simp: Let_def split: option.splits)
qed

lemma last_named_wins:
  assumes "buildDevices (ds @ [d]) None roots noRoot pool = Inr r" "dv_name d \<noteq> ''root''"
  shows "map_option (Pair (dv_name d)) (map_of r (dv_name d)) = (case ToIncusDevice d of Inl e \<Rightarrow> None | Inr x \<Rightarrow> Some x)"
proof -
  obtain xs where xs: "filter (\<lambda>x. dv_name x = dv_name d) (ds @ [d]) = xs @ [d]" by simp
  have "map_of r (dv_name d) = map_option snd (case ToIncusDevice d of Inl _ \<Rightarrow> None | Inr x \<Rightarrow> Some x)"
    using buildDevices_lookup [OF assms(1,2)] unfolding xs by (cases xs) auto
  then show ?thesis using ToIncusDevice_name [of d] by (auto split: sum.splits)
qed

lemma ToIncusDevice_proxy: "ToIncusDevice (proxy_device p n to) = Inr (''proxy-'' @ itoa n, toProxyDevice (proxy_device p n to))"
  by (simp add: ToIncusDevice_def proxy_device_def bare_device_def Let_def)

text \<open>
  A port published twice under one number -- for two protocols, or on two
  addresses of the host -- is forwarded once: the proxies are named by the
  number alone, and of those with one name the last is handed to the server
  and the others are lost.
\<close>
theorem port_published_twice_keeps_the_last:
  assumes "parse_uint32 (pt_published p) = Some n" "parse_uint32 (pt_published q) = Some n"
    and "\<not> pt_nat p" "\<not> pt_nat q"
    and "buildDevices (fst (instanceProxyDevices caps devs (ps @ [p] @ qs @ [q]))) None roots noRoot pool = Inr r"
  shows "proxy_device p n ''127.0.0.1'' \<in> set (fst (instanceProxyDevices caps devs (ps @ [p] @ qs @ [q]))) \<and>
     dv_name (proxy_device p n ''127.0.0.1'') = ''proxy-'' @ itoa n \<and>
     map_of r (''proxy-'' @ itoa n) = Some (toProxyDevice (proxy_device q n ''127.0.0.1''))"
proof -
  have grows: "set devs' \<subseteq> set (fst (proxy_loop caps xs to (devs', errs)))" for xs to devs' errs
    by (induction caps xs to "(devs', errs)" arbitrary: devs' errs rule: proxy_loop.induct)
      (auto simp: Let_def split: option.splits)
  have appends: "\<exists>to' errs'. proxy_loop caps (xs @ ys) to (devs', errs) = proxy_loop caps ys to' (fst (proxy_loop caps xs to (devs', errs)), errs')"
    for xs ys to devs' errs
    by (induction caps xs to "(devs', errs)" arbitrary: devs' errs rule: proxy_loop.induct)
      (auto simp: Let_def split: option.splits)
  have d: "fst (instanceProxyDevices caps devs (ps @ [p] @ qs @ [q])) =
      fst (proxy_loop caps (ps @ [p] @ qs) (first_static devs) (devs, [])) @ [proxy_device q n ''127.0.0.1'']"
    using proxy_loop_last [OF assms(4,2), of caps "ps @ [p] @ qs"] by (simp add: instanceProxyDevices_def)
  obtain to' errs' where "proxy_loop caps ((ps @ [p]) @ qs @ [q]) (first_static devs) (devs, []) =
      proxy_loop caps (qs @ [q]) to' (fst (proxy_loop caps (ps @ [p]) (first_static devs) (devs, [])), errs')"
    using appends by blast
  then have "proxy_device p n ''127.0.0.1'' \<in> set (fst (instanceProxyDevices caps devs (ps @ [p] @ qs @ [q])))"
    using grows proxy_loop_last [OF assms(3,1), of caps ps "first_static devs" devs "[]"]
    by (fastforce simp: instanceProxyDevices_def)
  moreover have n: "dv_name (proxy_device x n to) = ''proxy-'' @ itoa n" for x to
    by (simp add: proxy_device_def bare_device_def Let_def)
  ultimately show ?thesis
    using last_named_wins [OF assms(5) [unfolded d]] by (simp add: n ToIncusDevice_proxy)
qed

definition dns_port :: "string \<Rightarrow> port" where
  "dns_port proto = \<lparr>pt_published = ''53'', pt_target = 53, pt_protocol = proto, pt_host = [], pt_nat = False\<rparr>"

lemma parse_53: "parse_uint32 ''53'' = Some 53"
  by (simp add: parse_uint32_def digits_value_def is_digit_def digit_def code_def)

lemma dns_port_number: "parse_uint32 (pt_published (dns_port proto)) = Some 53"
  by (simp add: dns_port_def parse_53)

theorem port_published_twice_keeps_the_last_witness:
  "\<exists>r. buildDevices (fst (instanceProxyDevices \<lparr>cap_nat = True, cap_nat_static = True\<rparr> [] [dns_port ''tcp'', dns_port ''udp''])) None [] True ''default'' = Inr r \<and>
     map_of r ''proxy-53'' = Some (toProxyDevice (proxy_device (dns_port ''udp'') 53 ''127.0.0.1''))"
proof -
  let ?caps = "\<lparr>cap_nat = True, cap_nat_static = True\<rparr>"
  have n: "\<not> pt_nat (dns_port proto)" for proto by (simp add: dns_port_def)
  have l: "fst (instanceProxyDevices ?caps [] ([] @ [dns_port ''tcp''] @ [] @ [dns_port ''udp''])) =
      [proxy_device (dns_port ''tcp'') 53 ''127.0.0.1'', proxy_device (dns_port ''udp'') 53 ''127.0.0.1'']"
    by (simp add: instanceProxyDevices_def first_static_def dns_port_number n)
  then obtain r where r: "buildDevices (fst (instanceProxyDevices ?caps [] ([] @ [dns_port ''tcp''] @ [] @ [dns_port ''udp'']))) None [] True ''default'' = Inr r"
    by (simp add: buildDevices_def ToIncusDevice_proxy)
  have "itoa 53 = ''53''" by (simp add: itoa.simps digit_char_def)
  then show ?thesis
    using port_published_twice_keeps_the_last [OF dns_port_number dns_port_number n n r] r by simp
qed

text \<open>
  C28.  A port forwarded by address translation that follows one that is not
  connects to the loopback address, whatever static address the instance was
  given: the address found for the first is overwritten by the second.
\<close>
theorem nat_after_plain_port_loses_its_address:
  assumes "\<not> pt_nat p" "parse_uint32 (pt_published p) = Some n"
    and "pt_nat q" "parse_uint32 (pt_published q) = Some k" "cap_nat_static caps"
  shows "last (fst (instanceProxyDevices caps devs (ps @ [p, q]))) = proxy_device q k ''127.0.0.1''"
proof -
  have "last (fst (proxy_loop caps (ps @ [p, q]) to (devs', errs))) = proxy_device q k ''127.0.0.1''" for to devs' errs
    using assms(5)
  proof (induction caps ps to "(devs', errs)" arbitrary: devs' errs rule: proxy_loop.induct)
    case (1 caps to)
    then show ?case using assms(1-4) by simp
  next
    case (2 caps x ps to)
    then show ?case by (auto simp: Let_def split: option.splits)
  qed
  then show ?thesis by (simp add: instanceProxyDevices_def)
qed

theorem nat_after_plain_port_loses_its_address_witness:
  "\<exists>d. first_static [d] = ''10.0.0.5'' \<and>
     px_connect_addr (dv_proxy (last (fst (instanceProxyDevices \<lparr>cap_nat = True, cap_nat_static = True\<rparr> [d]
        ([] @ [dns_port ''tcp'', (dns_port ''udp'')\<lparr>pt_nat := True\<rparr>]))))) = ''127.0.0.1''"
proof -
  let ?d = "(bare_device ''eth0'' ''nic'')\<lparr>dv_ext := Some [(''ipv4.address'', ''10.0.0.5'')]\<rparr>"
  have "first_static [?d] = ''10.0.0.5''" by (simp add: first_static_def bare_device_def cfg_get_def has_prefix_def)
  moreover have "parse_uint32 (pt_published ((dns_port ''udp'')\<lparr>pt_nat := True\<rparr>)) = Some 53"
    by (simp add: dns_port_def parse_53)
  ultimately show ?thesis
    using nat_after_plain_port_loses_its_address [of "dns_port ''tcp''" 53 "(dns_port ''udp'')\<lparr>pt_nat := True\<rparr>" 53
        "\<lparr>cap_nat = True, cap_nat_static = True\<rparr>" "[?d]" "[]"] dns_port_number
    by (intro exI [of _ ?d]) (simp add: dns_port_def proxy_device_def Let_def)
qed

lemma mount_all_append:
  "mount_all h sanitize incusName (xs @ ys) b =
     (case mount_all h sanitize incusName xs b of Inl e \<Rightarrow> Inl e | Inr b' \<Rightarrow> mount_all h sanitize incusName ys b')"
  by (induction xs arbitrary: b) (auto split: sum.splits)

lemma mount_step_grows:
  "mount_step h sanitize incusName m b = Inr b' \<Longrightarrow> set (bt_devices b) \<subseteq> set (bt_devices b')"
  by (auto simp: mount_step_def Let_def split: if_splits option.splits bool.splits)

lemma mount_all_grows:
  "mount_all h sanitize incusName ms b = Inr b' \<Longrightarrow> set (bt_devices b) \<subseteq> set (bt_devices b')"
proof (induction ms arbitrary: b)
  case (Cons m ms)
  then obtain c where "mount_step h sanitize incusName m b = Inr c" "mount_all h sanitize incusName ms c = Inr b'"
    by (auto split: sum.splits)
  then show ?case using Cons.IH mount_step_grows by blast
qed simp

definition volume_device :: "host \<Rightarrow> (string \<Rightarrow> int \<Rightarrow> string) \<Rightarrow> (string \<Rightarrow> string) \<Rightarrow> mount \<Rightarrow> device" where
  "volume_device h sanitize incusName m =
     disk_device (''vol-'' @ sanitize (mn_source m) (MaxIncusNameLen - 4))
       (Some (if h_pool h (mn_source m) = [] then h_default_pool h else h_pool h (mn_source m)))
       (incusName (mn_source m)) m (case mn_shifted m of None \<Rightarrow> True | Some es \<Rightarrow> h_isTrue h es)"

lemma mount_step_volume:
  "volume_type m = ''volume'' \<Longrightarrow> mount_step h sanitize incusName m b =
     Inr (b\<lparr>bt_devices := bt_devices b @ [volume_device h sanitize incusName m], bt_volumes := bt_volumes b @ [mn_source m]\<rparr>)"
  by (simp add: mount_step_def volume_device_def Let_def)

lemma ToIncusDevice_disk: "dv_type d = ''disk'' \<Longrightarrow> ToIncusDevice d = Inr (dv_name d, toDiskDevice d)"
  by (simp add: ToIncusDevice_def)

text \<open>
  A volume a service mounts at two places is mounted at one: its device is
  named by the volume, so the mount written last is the one the server is
  handed, and the other is lost without an error.
\<close>
theorem volume_mounted_twice_keeps_the_last:
  assumes "volume_type m = ''volume''" "volume_type m' = ''volume''" "mn_source m' = mn_source m"
    and "instanceVolumeDevices h sanitize incusName (ms @ [m] @ ms' @ [m']) [] 0 = Inr b"
    and "buildDevices (bt_devices b) None roots noRoot pool = Inr r"
  shows "volume_device h sanitize incusName m \<in> set (bt_devices b) \<and>
     map_of r (dv_name (volume_device h sanitize incusName m)) = Some (toDiskDevice (volume_device h sanitize incusName m'))"
proof -
  let ?b0 = "\<lparr>bt_devices = [], bt_files = [], bt_volumes = [], bt_errs = []\<rparr>"
  have "mount_all h sanitize incusName ((ms @ [m]) @ ms' @ [m']) ?b0 = Inr b"
    using assms(4) by (simp add: instanceVolumeDevices_def split: sum.splits)
  then obtain c e where c: "mount_all h sanitize incusName (ms @ [m]) ?b0 = Inr c"
      "mount_all h sanitize incusName ms' c = Inr e" "mount_step h sanitize incusName m' e = Inr b"
    by (auto simp: mount_all_append split: sum.splits)
  have "volume_device h sanitize incusName m \<in> set (bt_devices c)"
    using c(1) by (auto simp: mount_all_append mount_step_volume [OF assms(1)] split: sum.splits)
  then have "volume_device h sanitize incusName m \<in> set (bt_devices e)" using mount_all_grows [OF c(2)] by blast
  moreover have b: "bt_devices b = bt_devices e @ [volume_device h sanitize incusName m']"
    using c(3) by (auto simp: mount_step_volume [OF assms(2)])
  moreover have n: "dv_name (volume_device h sanitize incusName m') = dv_name (volume_device h sanitize incusName m)"
    "dv_type (volume_device h sanitize incusName m') = ''disk''" "dv_name (volume_device h sanitize incusName m) \<noteq> ''root''"
    using assms(3) by (simp_all add: volume_device_def disk_device_def bare_device_def)
  ultimately show ?thesis
    using last_named_wins [OF assms(5) [unfolded b]] ToIncusDevice_disk [OF n(2)] by (auto simp: n(1))
qed

definition demo_mount :: "string \<Rightarrow> mount" where
  "demo_mount target =
     \<lparr>mn_type = ''volume'', mn_source = ''data'', mn_target = target, mn_readonly = False, mn_seed = False,
      mn_remote = False, mn_nocopy = False, mn_size = 0, mn_shifted = None\<rparr>"

definition demo_host :: host where
  "demo_host = \<lparr>h_remote_mounts = False, h_same = True, h_stat = (\<lambda>_. None), h_default_pool = ''default'', h_pool = (\<lambda>_. []),
     h_isTrue = (\<lambda>s. s = ''true'')\<rparr>"

theorem volume_mounted_twice_keeps_the_last_witness:
  "\<exists>b r. instanceVolumeDevices demo_host (\<lambda>s n. s) (\<lambda>s. s) [demo_mount ''/a'', demo_mount ''/b''] [] 0 = Inr b \<and>
     buildDevices (bt_devices b) None [] True ''default'' = Inr r \<and>
     map_option (\<lambda>m. cfg_get m ''path'') (map_of r ''vol-data'') = Some ''/b''"
proof -
  have t: "volume_type (demo_mount p) = ''volume''" "mn_source (demo_mount p) = ''data''" for p
    by (simp_all add: demo_mount_def volume_type_def)
  obtain b where b: "instanceVolumeDevices demo_host (\<lambda>s n. s) (\<lambda>s. s) ([] @ [demo_mount ''/a''] @ [] @ [demo_mount ''/b'']) [] 0 = Inr b"
    "bt_devices b = map (volume_device demo_host (\<lambda>s n. s) (\<lambda>s. s)) [demo_mount ''/a'', demo_mount ''/b'']"
    by (simp add: instanceVolumeDevices_def mount_step_volume t)
  have d: "dv_type (volume_device demo_host (\<lambda>s n. s) (\<lambda>s. s) m) = ''disk''" for m
    by (simp add: volume_device_def disk_device_def bare_device_def)
  obtain r where r: "buildDevices (bt_devices b) None [] True ''default'' = Inr r"
    by (simp add: b(2) buildDevices_def ToIncusDevice_disk [OF d])
  have "dv_name (volume_device demo_host (\<lambda>s n. s) (\<lambda>s. s) (demo_mount ''/a'')) = ''vol-data''"
    "cfg_get (toDiskDevice (volume_device demo_host (\<lambda>s n. s) (\<lambda>s. s) (demo_mount ''/b''))) ''path'' = ''/b''"
    by (simp_all add: volume_device_def disk_device_def bare_device_def demo_mount_def demo_host_def toDiskDevice_def
        copy_into_def cfg_get_def)
  then show ?thesis using volume_mounted_twice_keeps_the_last [OF t(1) t(1) _ b(1) r] b(1) r t(2) by simp
qed

subsection \<open>Containers that run first\<close>

definition filterRunnerDevices :: "device list \<Rightarrow> device list" where
  "filterRunnerDevices devs = filter (\<lambda>d. dv_type d \<noteq> ''proxy'') devs"

definition holds_file :: "string \<Rightarrow> device \<Rightarrow> bool" where
  "holds_file target d \<longleftrightarrow> dv_type d = ''disk'' \<and> coversPath (dk_path (dv_disk d)) target"

definition isVolumeFile :: "device list \<Rightarrow> string \<Rightarrow> bool" where
  "isVolumeFile devs target \<longleftrightarrow> list_ex (holds_file target) devs"

definition volumeDevicePath :: "device list \<Rightarrow> string \<Rightarrow> string" where
  "volumeDevicePath devs target = (case find (holds_file target) devs of None \<Rightarrow> [] | Some d \<Rightarrow> dk_path (dv_disk d))"

fun seed_files :: "device list \<Rightarrow> string list \<Rightarrow> string list \<Rightarrow> string list \<times> string list" where
  \<comment> \<open>The files one runner is given, and the volumes seeded by then.\<close>
  "seed_files devs [] seeded = ([], seeded)"
| "seed_files devs (f # fs) seeded =
     (if isVolumeFile devs f then
        (let volTarget = volumeDevicePath devs f in
         if volTarget \<in> set seeded then seed_files devs fs seeded
         else let (taken, s) = seed_files devs fs (volTarget # seeded) in (f # taken, s))
      else let (taken, s) = seed_files devs fs seeded in (f # taken, s))"

record hook =
  hk_per_replica :: bool
  hk_command :: "string list"

definition runner_name :: "service \<Rightarrow> string \<Rightarrow> nat \<Rightarrow> hook \<Rightarrow> string" where
  "runner_name sv inst i k =
     (if hk_per_replica k then inst @ ''-pre_start-'' @ itoa i else sv_name sv @ ''-pre_start-'' @ itoa i)"

fun pre_start ::
  "service \<Rightarrow> string \<Rightarrow> int \<Rightarrow> device list \<Rightarrow> string list \<Rightarrow> nat \<Rightarrow> hook list \<Rightarrow> string list \<Rightarrow> (string \<times> string list) list" where
  \<comment> \<open>The runners, each with its files.  An error in making one fails the whole service.\<close>
  "pre_start sv inst index devs files i [] seeded = []"
| "pre_start sv inst index devs files i (k # ks) seeded =
     (if \<not> hk_per_replica k \<and> 1 < index then pre_start sv inst index devs files (Suc i) ks seeded
      else let (taken, s) = seed_files (filterRunnerDevices devs) files seeded
           in (runner_name sv inst i k, taken) # pre_start sv inst index devs files (Suc i) ks s)"

definition instance_files :: "device list \<Rightarrow> string list \<Rightarrow> hook list \<Rightarrow> string list" where
  "instance_files devs files hooks = (if hooks \<noteq> [] then filter (\<lambda>f. \<not> isVolumeFile devs f) files else files)"

lemma runner_devices_hold [simp]:
  "isVolumeFile (filterRunnerDevices devs) f = isVolumeFile devs f"
  "volumeDevicePath (filterRunnerDevices devs) f = volumeDevicePath devs f"
proof -
  have f: "find (holds_file f) (filterRunnerDevices devs) = find (holds_file f) devs"
    by (induction devs) (auto simp: filterRunnerDevices_def holds_file_def)
  show "isVolumeFile (filterRunnerDevices devs) f = isVolumeFile devs f"
    by (auto simp: isVolumeFile_def list_ex_iff filterRunnerDevices_def holds_file_def)
  show "volumeDevicePath (filterRunnerDevices devs) f = volumeDevicePath devs f"
    by (simp add: volumeDevicePath_def f)
qed

lemma seed_files_parts [simp]:
  "fst (seed_files devs (f # fs) seeded) =
     (if isVolumeFile devs f then
        (if volumeDevicePath devs f \<in> set seeded then fst (seed_files devs fs seeded)
         else f # fst (seed_files devs fs (volumeDevicePath devs f # seeded)))
      else f # fst (seed_files devs fs seeded))"
  "snd (seed_files devs (f # fs) seeded) =
     (if isVolumeFile devs f then
        (if volumeDevicePath devs f \<in> set seeded then snd (seed_files devs fs seeded)
         else snd (seed_files devs fs (volumeDevicePath devs f # seeded)))
      else snd (seed_files devs fs seeded))"
  by (simp_all add: Let_def split_beta)

declare seed_files.simps(2) [simp del]

lemma seed_files_append:
  "fst (seed_files devs (fs @ gs) seeded) =
     fst (seed_files devs fs seeded) @ fst (seed_files devs gs (snd (seed_files devs fs seeded)))"
  by (induction fs arbitrary: seeded) simp_all

lemma seed_files_seeded: "v \<in> set seeded \<Longrightarrow> v \<in> set (snd (seed_files devs fs seeded))"
  by (induction fs arbitrary: seeded) simp_all

lemma seed_files_from: "x \<in> set (fst (seed_files devs fs seeded)) \<Longrightarrow> x \<in> set fs"
  by (induction fs arbitrary: seeded) (auto split: if_splits)

lemma seed_files_marks:
  "f \<in> set fs \<Longrightarrow> isVolumeFile devs f \<Longrightarrow> volumeDevicePath devs f \<in> set (snd (seed_files devs fs seeded))"
  by (induction fs arbitrary: seeded) (auto intro: seed_files_seeded)

lemma seed_files_skips:
  "isVolumeFile devs g \<Longrightarrow> volumeDevicePath devs g \<in> set seeded \<Longrightarrow> g \<notin> set (fst (seed_files devs fs seeded))"
  by (induction fs arbitrary: seeded) auto

lemma seed_second_skipped:
  assumes "isVolumeFile devs f" "isVolumeFile devs g" "volumeDevicePath devs f = volumeDevicePath devs g" "g \<notin> set fs" "g \<noteq> f"
  shows "g \<notin> set (fst (seed_files devs (fs @ [f] @ gs) seeded))"
proof -
  have "g \<notin> set (fst (seed_files devs (fs @ [f]) seeded))" using seed_files_from [of g devs "fs @ [f]"] assms(4,5) by auto
  moreover have "volumeDevicePath devs g \<in> set (snd (seed_files devs (fs @ [f]) seeded))"
    using seed_files_marks [of f "fs @ [f]" devs seeded] assms(1,3) by simp
  then have "g \<notin> set (fst (seed_files devs gs (snd (seed_files devs (fs @ [f]) seeded))))"
    by (rule seed_files_skips [OF assms(2)])
  ultimately show ?thesis using seed_files_append [of devs "fs @ [f]" gs seeded] by simp
qed

text \<open>
  Of several files that land in one volume, a service with a pre-start hook
  delivers the first alone: a runner stops at the first file of a volume, the
  later runners find the volume seeded, and the instance itself is not given
  the files of volumes at all.
\<close>
theorem second_file_of_a_volume_is_lost:
  assumes "hooks \<noteq> []" "isVolumeFile devs f" "isVolumeFile devs g" "volumeDevicePath devs f = volumeDevicePath devs g"
    and "g \<notin> set fs" "g \<noteq> f" "g \<in> set gs"
  shows "g \<notin> set (instance_files devs (fs @ [f] @ gs) hooks) \<and>
     (\<forall>(name, taken) \<in> set (pre_start sv inst index devs (fs @ [f] @ gs) 0 hooks []). g \<notin> set taken)"
proof -
  have "\<forall>(name, taken) \<in> set (pre_start sv inst index devs (fs @ [f] @ gs) i ks seeded). g \<notin> set taken" for i ks seeded
  proof (induction ks arbitrary: i seeded)
    case (Cons k ks)
    have "g \<notin> set (fst (seed_files (filterRunnerDevices devs) (fs @ [f] @ gs) seeded))"
      using assms(2-6) by (intro seed_second_skipped) simp_all
    then show ?case using Cons.IH by (simp add: split_beta Let_def del: append_Cons)
  qed simp
  then show ?thesis using assms(1,3) by (auto simp: instance_files_def)
qed

theorem second_file_of_a_volume_is_lost_witness:
  "\<forall>(name, taken) \<in> set (pre_start (plain_service ''web'' []) ''web-1'' 1 [demo_volume_device] [''/data/key'', ''/data/cert''] 0
       [\<lparr>hk_per_replica = False, hk_command = [''/init'']\<rparr>] []). ''/data/cert'' \<notin> set taken"
proof -
  have v: "isVolumeFile [demo_volume_device] ''/data/key''" "isVolumeFile [demo_volume_device] ''/data/cert''"
    "volumeDevicePath [demo_volume_device] ''/data/key'' = volumeDevicePath [demo_volume_device] ''/data/cert''"
    by code_simp+
  have l: "[''/data/key'', ''/data/cert''] = [] @ [''/data/key''] @ [''/data/cert'']" by simp
  show ?thesis unfolding l
    by (rule second_file_of_a_volume_is_lost [OF _ v, THEN conjunct2]) simp_all
qed

end
