(* ===== verification/InstanceConfig.thy ===== *)
theory InstanceConfig
  imports Instances InstanceDevices HealthConfig
begin

text \<open>
  The configuration an instance of a service is created with
  (\<open>instanceConfig\<close> and what it calls in \<open>project/instance.go\<close>), and how the
  checker reads back what is written about health.  A duration is the text
  \<open>Duration.String\<close> gives it; a count of processors is the dyadic number a
  \<open>float32\<close> is, numerator and exponent.  An iteration over a map is one over the
  association list in its order: every key is written to a place of its own.
\<close>

subsection \<open>Data\<close>

record healthcheck =
  hc_disable :: bool
  hc_test :: "string list"
  hc_start_period :: "string option"
  hc_start_interval :: "string option"
  hc_interval :: "string option"
  hc_timeout :: "string option"
  hc_retries :: "nat option"

record limits =
  lm_cpus :: "nat \<times> nat"   \<comment> \<open>\<open>m / 2 ^ e\<close>\<close>
  lm_memory :: int

record composed = service +
  cs_environment :: "(string \<times> string option) list"
  cs_labels :: cfg
  cs_privileged :: bool
  cs_sysctls :: cfg
  cs_limits :: limits                  \<comment> \<open>\<open>cpus\<close> and \<open>mem_limit\<close>\<close>
  cs_deploy_limits :: "limits option"
  cs_health :: "healthcheck option"
  cs_dns :: "string list"
  cs_dns_search :: "string list"
  cs_domain :: string
  cs_xincus :: cfg

subsection \<open>Limits and restarts\<close>

definition resourceLimits :: "composed \<Rightarrow> limits" where
  "resourceLimits sv =
     (let l = cs_limits sv in
      case cs_deploy_limits sv of
        None \<Rightarrow> l
      | Some d \<Rightarrow>
          (let l1 = (if fst (lm_cpus d) \<noteq> 0 then l\<lparr>lm_cpus := lm_cpus d\<rparr> else l)
           in if lm_memory d \<noteq> 0 then l1\<lparr>lm_memory := lm_memory d\<rparr> else l1))"

definition formatCPUAllowance :: "nat \<times> nat \<Rightarrow> string" where
  \<comment> \<open>The product with 100 is exact in a \<open>float64\<close>; \<open>math.Round\<close> rounds a half up.\<close>
  "formatCPUAllowance = (\<lambda>(m, e).
     (let quota = max ((2 * (m * 100) + 2 ^ e) div (2 * 2 ^ e)) 1 in itoa quota @ ''ms/100ms''))"

definition formatMemoryLimit :: "int \<Rightarrow> string" where
  "formatMemoryLimit bytes =
     (if bytes mod 2 ^ 30 = 0 then show_int (bytes div 2 ^ 30) @ ''GiB''
      else if bytes mod 2 ^ 20 = 0 then show_int (bytes div 2 ^ 20) @ ''MiB''
      else if bytes mod 2 ^ 10 = 0 then show_int (bytes div 2 ^ 10) @ ''KiB''
      else show_int bytes @ ''B'')"

definition applyResourceLimits :: "limits \<Rightarrow> cfg \<Rightarrow> cfg" where
  "applyResourceLimits l m =
     (let m1 = (if fst (lm_cpus l) \<noteq> 0 then AList.update ''limits.cpu.allowance'' (formatCPUAllowance (lm_cpus l)) m else m)
      in if lm_memory l \<noteq> 0 then AList.update ''limits.memory'' (formatMemoryLimit (lm_memory l)) m1 else m1)"

definition applyRestartPolicy :: "string \<Rightarrow> cfg \<Rightarrow> cfg" where
  "applyRestartPolicy policy m =
     (if policy = ''always'' then AList.update ''boot.autostart'' ''true'' m
      else if policy = ''on-failure'' then AList.update ''boot.autorestart'' ''true'' (AList.update ''boot.autostart'' ''true'' m)
      else if policy = ''unless-stopped'' then m
      else if policy = ''no'' \<or> policy = [] then AList.update ''boot.autostart'' ''false'' m
      else m)"

definition parse_mode :: "nat \<Rightarrow> int option \<Rightarrow> int" where
  \<comment> \<open>\<open>parseConfigMode\<close> and \<open>parseSecretMode\<close>: the write bits are taken off.\<close>
  "parse_mode dflt mode =
     (case mode of None \<Rightarrow> int dflt | Some m \<Rightarrow> and m (not 0x92))"

subsection \<open>The test as JSON\<close>

definition json_char :: "char \<Rightarrow> string" where
  \<comment> \<open>A byte of a string as \<open>json.Marshal\<close> writes it.\<close>
  "json_char c =
     (if c = CHR 0x22 then [CHR 0x5C, CHR 0x22] else if c = CHR 0x5C then [CHR 0x5C, CHR 0x5C]
      else if c = CHR 0x08 then [CHR 0x5C, CHR ''b''] else if c = CHR 0x0C then [CHR 0x5C, CHR ''f'']
      else if c = CHR 0x0A then [CHR 0x5C, CHR ''n''] else if c = CHR 0x0D then [CHR 0x5C, CHR ''r'']
      else if c = CHR 0x09 then [CHR 0x5C, CHR ''t'']
      else if code c < 0x20 \<or> c \<in> {CHR ''<'', CHR ''>'', CHR ''&''} then
        CHR 0x5C # ''u00'' @ [digit_char (code c div 16), digit_char (code c mod 16)]
      else [c])"

definition json_quote :: "string \<Rightarrow> string" where
  "json_quote s = [CHR 0x22] @ concat (map json_char s) @ [CHR 0x22]"

fun json_join :: "string list \<Rightarrow> string" where
  "json_join [] = []"
| "json_join [s] = json_quote s"
| "json_join (s # t # ss) = json_quote s @ '','' @ json_join (t # ss)"

definition json_marshal :: "string list \<Rightarrow> string" where
  "json_marshal ss = ''['' @ json_join ss @ '']''"

subsection \<open>The configuration\<close>

definition healthdRestartPolicies :: "string list" where
  "healthdRestartPolicies = [''always'', ''on-failure'', ''unless-stopped'']"

definition ServiceLabelKey :: string where "ServiceLabelKey = ''user.label.incus-compose.service''"

definition OneOffKey :: string where "OneOffKey = ''user.incus-compose.oneoff''"

definition put_some :: "string \<Rightarrow> string option \<Rightarrow> cfg \<Rightarrow> cfg" where
  "put_some k v m = (case v of None \<Rightarrow> m | Some t \<Rightarrow> AList.update (HealthKeyPrefix @ k) t m)"

definition health_keys :: "healthcheck \<Rightarrow> cfg \<Rightarrow> cfg" where
  \<comment> \<open>A check that is declared and not suppressed.\<close>
  "health_keys hc m =
     (let m1 = (if hc_test hc \<noteq> [] then AList.update (HealthKeyPrefix @ ''test'') (json_marshal (hc_test hc)) m else m)
      in put_some ''timeout'' (hc_timeout hc)
           (put_some ''retries'' (map_option itoa (hc_retries hc))
             (put_some ''interval'' (hc_interval hc)
               (put_some ''start_interval'' (hc_start_interval hc) (put_some ''start_period'' (hc_start_period hc) m1)))))"

definition suppressed :: "composed \<Rightarrow> bool" where
  "suppressed sv =
     (case cs_health sv of None \<Rightarrow> False | Some hc \<Rightarrow> hc_disable hc \<or> (hc_test hc \<noteq> [] \<and> hd (hc_test hc) = ''NONE''))"

definition join_comma :: "string list \<Rightarrow> string" where
  "join_comma ss = concat (case ss of [] \<Rightarrow> [] | s # rest \<Rightarrow> s # map (\<lambda>t. '','' @ t) rest)"

definition base_config :: "composed \<Rightarrow> string \<Rightarrow> cfg" where
  "base_config sv projectName =
     (let policy = serviceRestartPolicy (service.truncate sv);
          env = concat (map (\<lambda>(k, v). case v of None \<Rightarrow> [] | Some t \<Rightarrow> [(''environment.'' @ k, t)]) (cs_environment sv));
          m0 = copy_into (copy_into [] env) (map (\<lambda>(k, v). (''user.label.'' @ k, v)) (cs_labels sv));
          m1 = AList.update ''user.label.incus-compose.project'' projectName (AList.update ServiceLabelKey (sv_name sv) m0);
          m2 = (if cs_privileged sv then AList.update ''security.privileged'' ''true'' m1 else m1);
          m3 = applyRestartPolicy policy (copy_into m2 (map (\<lambda>(k, v). (''linux.sysctl.'' @ k, v)) (cs_sysctls sv)))
      in applyResourceLimits (resourceLimits sv)
           (if policy \<noteq> [] then AList.update (HealthKeyPrefix @ ''restart'') policy m3 else m3))"

definition health_config :: "composed \<Rightarrow> cfg \<Rightarrow> cfg" where
  "health_config sv m =
     (let restarts = (serviceRestartPolicy (service.truncate sv) \<in> set healthdRestartPolicies);
          declared = (cs_health sv \<noteq> None);
          m1 = (if declared \<and> \<not> suppressed sv \<or> restarts then AList.update HealthEnabledKey ''true'' m
                else if declared then AList.update HealthEnabledKey ''false'' m else m);
          m2 = (if suppressed sv \<and> restarts then
                  AList.update (HealthKeyPrefix @ ''test'') (''['' @ [CHR 0x22] @ ''NONE'' @ [CHR 0x22] @ '']'') m1 else m1)
      in case cs_health sv of None \<Rightarrow> m2 | Some hc \<Rightarrow> if suppressed sv then m2 else health_keys hc m2)"

definition dns_config :: "bool \<Rightarrow> composed \<Rightarrow> cfg \<Rightarrow> cfg" where
  \<comment> \<open>\<open>dns\<close>: the server has the extension 72.\<close>
  "dns_config dns sv m =
     (if dns then
        (let d1 = (if cs_dns sv \<noteq> [] then AList.update ''oci.dns.nameservers'' (join_comma (cs_dns sv)) m else m);
             d2 = (if cs_dns_search sv \<noteq> [] then AList.update ''oci.dns.search'' (join_comma (cs_dns_search sv)) d1 else d1)
         in if cs_domain sv \<noteq> [] then AList.update ''oci.dns.domain'' (cs_domain sv) d2 else d2)
      else m)"

definition instanceConfig :: "bool \<Rightarrow> composed \<Rightarrow> string \<Rightarrow> cfg \<Rightarrow> cfg" where
  "instanceConfig dns sv projectName marks =
     copy_into (copy_into (dns_config dns sv (health_config sv (base_config sv projectName))) (cs_xincus sv)) marks"

definition oneOffMarks :: "cfg \<Rightarrow> cfg" where
  "oneOffMarks marks = AList.update HealthEnabledKey ''false'' (AList.update OneOffKey ''true'' marks)"

definition oneOffService :: "composed \<Rightarrow> composed" where
  \<comment> \<open>Of the fields above; the ports, hooks and entrypoint it rewrites are the devices' side.\<close>
  "oneOffService sv =
     sv\<lparr>sv_restart := [], cs_health := None,
        sv_deploy := map_option (\<lambda>d. d\<lparr>dp_replicas := None, dp_condition := None\<rparr>) (sv_deploy sv)\<rparr>"

subsection \<open>Numbers and strings are read back\<close>

lemma digit_char_digit: "d < 10 \<Longrightarrow> is_digit (digit_char d) \<and> digit (digit_char d) = d"
proof -
  assume "d < 10"
  then have "d \<in> {0, 1, 2, 3, 4, 5, 6, 7, 8, 9}" by auto
  then show ?thesis by (auto simp: digit_char_def is_digit_def digit_def code_def)
qed

lemma itoa_is_digits: "list_all is_digit (itoa n) \<and> itoa n \<noteq> []"
proof (induction n rule: itoa.induct)
  case (1 n)
  then show ?case using digit_char_digit [of n] digit_char_digit [of "n mod 10"]
    by (cases "n < 10") (simp_all add: itoa.simps [of n])
qed

lemma itoa_value: "fold (\<lambda>c n. n * 10 + digit c) (itoa n) 0 = n"
proof (induction n rule: itoa.induct)
  case (1 n)
  show ?case
  proof (cases "n < 10")
    case True
    then show ?thesis using digit_char_digit [of n] by (simp add: itoa.simps [of n])
  next
    case False
    then show ?thesis using 1 digit_char_digit [of "n mod 10"] by (simp add: itoa.simps [of n])
  qed
qed

lemma parse_itoa: "n < 2 ^ 32 \<Longrightarrow> parse_uint32 (itoa n) = Some n"
  using itoa_is_digits [of n] by (simp add: parse_uint32_def digits_value_def itoa_value)

definition ascii :: "string \<Rightarrow> bool" where
  "ascii s \<longleftrightarrow> (\<forall>c \<in> set s. code c < 128)"

lemma hex_digit_char: "d < 16 \<Longrightarrow> hex_value (digit_char d) = Some d"
proof -
  have "\<forall>d \<in> set [0..<16]. hex_value (digit_char d) = Some d" by code_simp
  then show "d < 16 \<Longrightarrow> hex_value (digit_char d) = Some d" by simp
qed

lemma unicode_escape_char:
  assumes "code c < 128"
  shows "unicode_escape (CHR ''0'' # CHR ''0'' # digit_char (code c div 16) # digit_char (code c mod 16) # rest) = Some ([c], 4)"
proof -
  have "hex_value (CHR ''0'') = Some 0" by (simp add: hex_value_def is_digit_def digit_def code_def)
  moreover have "hex_value (digit_char (code c div 16)) = Some (code c div 16)"
    "hex_value (digit_char (code c mod 16)) = Some (code c mod 16)"
    using assms by (simp_all add: hex_digit_char)
  ultimately have "get_u4 (CHR ''0'' # CHR ''0'' # digit_char (code c div 16) # digit_char (code c mod 16) # rest) = Some (code c)"
    by (simp add: get_u4_def)
  moreover have "utf8_encode (code c) = [c]" using assms by (simp add: utf8_encode_def code_def)
  ultimately show ?thesis using assms by (simp add: unicode_escape_def)
qed

declare json_string.simps [simp del]

lemma json_char_step:
  assumes "code c < 128"
  shows "json_string (json_char c @ rest) = map_option (apfst ((#) c)) (json_string rest)"
proof (cases "c \<in> {CHR 0x22, CHR 0x5C, CHR 0x08, CHR 0x0C, CHR 0x0A, CHR 0x0D, CHR 0x09}")
  case True
  then show ?thesis
    unfolding insert_iff empty_iff by (elim disjE) (simp_all add: json_char_def json_string.simps(2) simple_escape_def)
next
  case short: False
  show ?thesis
  proof (cases "code c < 0x20 \<or> c \<in> {CHR ''<'', CHR ''>'', CHR ''&''}")
    case True
    then have "json_char c = CHR 0x5C # ''u00'' @ [digit_char (code c div 16), digit_char (code c mod 16)]"
      using short by (simp add: json_char_def)
    moreover have "(@) [c] = (#) c" by (simp add: fun_eq_iff)
    ultimately show ?thesis by (simp add: json_string.simps(2) unicode_escape_char [OF assms])
  next
    case False
    then have "json_char c = [c]" using short by (simp add: json_char_def)
    moreover have "utf8_width (c # rest) = 1" using assms by (simp add: utf8_width_def Let_def)
    moreover have "(@) [c] = (#) c" by (simp add: fun_eq_iff)
    ultimately show ?thesis using short False by (simp add: json_string.simps(2))
  qed
qed

lemma json_quote_read:
  "ascii s \<Longrightarrow> json_string (concat (map json_char s) @ CHR 0x22 # rest) = Some (s, rest)"
proof (induction s)
  case (Cons c s)
  then show ?case by (simp add: json_char_step ascii_def)
qed (simp add: json_string.simps(2))

lemma json_join_read:
  assumes "\<forall>s \<in> set ss. ascii s" "ss \<noteq> []" "length ss \<le> fuel"
  shows "json_elements fuel (json_join ss @ '']'') = Some ss"
  using assms
proof (induction ss arbitrary: fuel rule: json_join.induct)
  case (2 s)
  then obtain f where "fuel = Suc f" by (cases fuel) auto
  then show ?case using 2 by (simp add: json_element_def json_quote_def json_quote_read json_space_def code_def)
next
  case (3 s t ss)
  then obtain f where f: "fuel = Suc f" by (cases fuel) auto
  have "json_elements f (json_join (t # ss) @ '']'') = Some (t # ss)" using 3 by (intro "3.IH") (auto simp: f)
  then show ?case using 3(2)
    by (simp add: f json_element_def json_quote_def json_quote_read json_space_def code_def)
qed simp

lemma json_join_length: "length ss \<le> length (json_join ss)"
  by (induction ss rule: json_join.induct) (auto simp: json_quote_def)

lemma json_marshal_read: "\<forall>s \<in> set ss. ascii s \<Longrightarrow> ss \<noteq> [] \<Longrightarrow> json_strings (json_marshal ss) = Some ss"
proof -
  assume a: "\<forall>s \<in> set ss. ascii s" and ne: "ss \<noteq> []"
  obtain q where q: "json_join ss = CHR 0x22 # q" using ne by (cases ss rule: json_join.cases) (auto simp: json_quote_def)
  have "json_elements (Suc (length (json_join ss @ '']''))) (json_join ss @ '']'') = Some ss"
    using json_join_length [of ss] by (intro json_join_read a ne) simp
  then show ?thesis
    by (simp add: json_strings_def json_marshal_def q json_space_def code_def Let_def del: json_elements.simps)
qed

subsection \<open>What a key holds\<close>

lemma update_get: "map_of (AList.update k v m) k' = (if k' = k then Some v else map_of m k')"
  by (simp add: update_conv)

lemma copy_into_absent: "k \<notin> fst ` set ext \<Longrightarrow> map_of (copy_into m ext) k = map_of m k"
  unfolding copy_into_def by (induction ext arbitrary: m) (auto simp: update_conv split_beta)

lemma copy_into_present: "k \<in> fst ` set ext \<Longrightarrow> map_of (copy_into m ext) k = map_of (copy_into [] ext) k"
  unfolding copy_into_def
proof (induction ext arbitrary: m rule: rev_induct)
  case (snoc e ext)
  then show ?case by (cases "k \<in> fst ` set ext") (auto simp: update_conv split_beta)
qed simp

abbreviation health_key :: "string \<Rightarrow> string" where
  "health_key x \<equiv> HealthKeyPrefix @ x"

definition no_health_keys :: "cfg \<Rightarrow> bool" where
  "no_health_keys m \<longleftrightarrow> (\<forall>k \<in> fst ` set m. \<not> has_prefix k HealthKeyPrefix)"

lemma no_health_keys_get: "no_health_keys ext \<Longrightarrow> map_of (copy_into m ext) (health_key x) = map_of m (health_key x)"
proof (rule copy_into_absent)
  assume "no_health_keys ext"
  moreover have "has_prefix (health_key x) HealthKeyPrefix" by (simp add: has_prefix_def)
  ultimately show "health_key x \<notin> fst ` set ext" unfolding no_health_keys_def by blast
qed

lemma applyResourceLimits_get: "map_of (applyResourceLimits l m) (health_key x) = map_of m (health_key x)"
  by (simp add: applyResourceLimits_def update_get HealthKeyPrefix_def Let_def)

lemma applyRestartPolicy_get: "map_of (applyRestartPolicy p m) (health_key x) = map_of m (health_key x)"
  by (simp add: applyRestartPolicy_def update_get HealthKeyPrefix_def)

lemma put_some_get:
  "map_of (put_some k v m) (health_key x) = (if x = k \<and> v \<noteq> None then v else map_of m (health_key x))"
  by (simp add: put_some_def update_get split: option.splits)

definition config_of_health :: "composed \<Rightarrow> string \<Rightarrow> string option" where
  \<comment> \<open>What a service writes about health, by key.\<close>
  "config_of_health sv x =
     (let policy = serviceRestartPolicy (service.truncate sv); restarts = (policy \<in> set healthdRestartPolicies);
          live = (case cs_health sv of Some hc \<Rightarrow> if suppressed sv then None else Some hc | None \<Rightarrow> None);
          from = (\<lambda>f. case live of None \<Rightarrow> None | Some hc \<Rightarrow> f hc)
      in if x = ''enabled'' then
           (if live \<noteq> None \<or> restarts then Some ''true'' else if cs_health sv \<noteq> None then Some ''false'' else None)
         else if x = ''restart'' then (if policy \<noteq> [] then Some policy else None)
         else if x = ''test'' then
           (case from (\<lambda>hc. if hc_test hc \<noteq> [] then Some (json_marshal (hc_test hc)) else None) of
              Some t \<Rightarrow> Some t
            | None \<Rightarrow> if suppressed sv \<and> restarts then Some (''['' @ [CHR 0x22] @ ''NONE'' @ [CHR 0x22] @ '']'') else None)
         else if x = ''start_period'' then from hc_start_period
         else if x = ''start_interval'' then from hc_start_interval
         else if x = ''interval'' then from hc_interval
         else if x = ''timeout'' then from hc_timeout
         else if x = ''retries'' then from (\<lambda>hc. map_option itoa (hc_retries hc))
         else None)"

lemma copy_other_get:
  "(\<And>k. k \<in> fst ` set ext \<Longrightarrow> \<not> has_prefix k HealthKeyPrefix) \<Longrightarrow>
     map_of (copy_into m ext) (health_key x) = map_of m (health_key x)"
  by (rule no_health_keys_get) (simp add: no_health_keys_def)

lemma other_key: "\<not> has_prefix k HealthKeyPrefix \<Longrightarrow> (health_key x = k) = False"
  by (auto simp: has_prefix_def)

lemma base_config_health:
  "map_of (base_config sv project) (health_key x) =
     (let policy = serviceRestartPolicy (service.truncate sv) in if x = ''restart'' \<and> policy \<noteq> [] then Some policy else None)"
proof -
  have env: "map_of (copy_into m (concat (map (\<lambda>(k, v). case v of None \<Rightarrow> [] | Some t \<Rightarrow> [(''environment.'' @ k, t)]) e))) (health_key x)
      = map_of m (health_key x)" for m e
    by (rule copy_other_get) (auto simp: has_prefix_def HealthKeyPrefix_def split: option.splits)
  have lab: "map_of (copy_into m (map (\<lambda>(k, v). (''user.label.'' @ k, v)) e)) (health_key x) = map_of m (health_key x)" for m e
    by (rule copy_other_get) (auto simp: has_prefix_def HealthKeyPrefix_def)
  have sys: "map_of (copy_into m (map (\<lambda>(k, v). (''linux.sysctl.'' @ k, v)) e)) (health_key x) = map_of m (health_key x)" for m e
    by (rule copy_other_get) (auto simp: has_prefix_def HealthKeyPrefix_def)
  have keys: "\<not> has_prefix ServiceLabelKey HealthKeyPrefix"
    "\<not> has_prefix ''user.label.incus-compose.project'' HealthKeyPrefix" "\<not> has_prefix ''security.privileged'' HealthKeyPrefix"
    by (simp_all add: has_prefix_def HealthKeyPrefix_def ServiceLabelKey_def)
  have restart: "(health_key x = health_key ''restart'') = (x = ''restart'')" by simp
  show ?thesis
    unfolding base_config_def Let_def applyResourceLimits_get
    by (simp only: env lab sys update_get applyRestartPolicy_get restart other_key [OF keys(1)] other_key [OF keys(2)]
        other_key [OF keys(3)] if_distrib [of "\<lambda>m. map_of m (health_key x)"] if_False map_of.simps)
      simp
qed

abbreviation known_health_keys :: "string set" where
  "known_health_keys \<equiv> {''enabled'', ''restart'', ''test'', ''start_period'', ''start_interval'', ''interval'', ''timeout'', ''retries''}"

lemma health_keys_health:
  "map_of (health_keys hc m) (health_key x) =
     (if x = ''timeout'' \<and> hc_timeout hc \<noteq> None then hc_timeout hc
      else if x = ''retries'' \<and> hc_retries hc \<noteq> None then map_option itoa (hc_retries hc)
      else if x = ''interval'' \<and> hc_interval hc \<noteq> None then hc_interval hc
      else if x = ''start_interval'' \<and> hc_start_interval hc \<noteq> None then hc_start_interval hc
      else if x = ''start_period'' \<and> hc_start_period hc \<noteq> None then hc_start_period hc
      else if x = ''test'' \<and> hc_test hc \<noteq> [] then Some (json_marshal (hc_test hc))
      else map_of m (health_key x))"
  unfolding health_keys_def Let_def put_some_get
  by (cases "hc_test hc = []") (simp_all add: update_get cong: if_cong split del: if_split)

lemma health_config_health:
  assumes "\<And>x. map_of m (health_key x) = (let policy = serviceRestartPolicy (service.truncate sv) in if x = ''restart'' \<and> policy \<noteq> [] then Some policy else None)"
  shows "map_of (health_config sv m) (health_key x) = config_of_health sv x"
proof -
  have en: "(health_key x = HealthEnabledKey) = (x = ''enabled'')" for x by (simp add: HealthEnabledKey_def)
  define policy where "policy = serviceRestartPolicy (service.truncate sv)"
  define restarts where "restarts = (policy \<in> set healthdRestartPolicies)"
  note unfolded = health_config_def config_of_health_def Let_def health_keys_health update_get en
    policy_def [symmetric] restarts_def [symmetric]
  have m: "map_of m (health_key x) = (if x = ''restart'' \<and> policy \<noteq> [] then Some policy else None)" for x
    using assms by (simp add: policy_def Let_def)
  show ?thesis
  proof (cases "x \<in> known_health_keys")
    case True
    then show ?thesis
      unfolding insert_iff empty_iff
      by (elim disjE; cases "cs_health sv"; cases "suppressed sv"; cases restarts) (simp_all add: unfolded m)
  next
    case False
    then have "x \<noteq> ''enabled''" "x \<noteq> ''restart''" "x \<noteq> ''test''" "x \<noteq> ''start_period''" "x \<noteq> ''start_interval''"
      "x \<noteq> ''interval''" "x \<noteq> ''timeout''" "x \<noteq> ''retries''" by simp_all
    then show ?thesis
      by (cases "cs_health sv"; cases "suppressed sv"; cases restarts) (simp_all add: unfolded m)
  qed
qed

lemma dns_config_health: "map_of (dns_config dns sv m) (health_key x) = map_of m (health_key x)"
proof -
  have keys: "\<not> has_prefix ''oci.dns.nameservers'' HealthKeyPrefix" "\<not> has_prefix ''oci.dns.search'' HealthKeyPrefix"
    "\<not> has_prefix ''oci.dns.domain'' HealthKeyPrefix"
    by (simp_all add: has_prefix_def HealthKeyPrefix_def)
  show ?thesis
    by (simp add: dns_config_def update_get Let_def other_key [OF keys(1)] other_key [OF keys(2)] other_key [OF keys(3)])
qed

lemma instanceConfig_health:
  assumes "no_health_keys (cs_xincus sv)" "no_health_keys marks"
  shows "map_of (instanceConfig dns sv project marks) (health_key x) = config_of_health sv x"
  unfolding instanceConfig_def no_health_keys_get [OF assms(2)] no_health_keys_get [OF assms(1)] dns_config_health
  by (rule health_config_health [OF base_config_health])

subsection \<open>What the checker makes of it\<close>

definition readable_period :: "bool \<Rightarrow> string option \<Rightarrow> bool" where
  "readable_period pos v \<longleftrightarrow>
     (case v of None \<Rightarrow> True | Some d \<Rightarrow> d \<noteq> [] \<and> (\<exists>n. parse_duration d = Some n \<and> (pos \<longrightarrow> 0 < n)))"

lemma instanceConfig_get:
  assumes "no_health_keys (cs_xincus sv)" "no_health_keys marks"
  shows "cfg_get (instanceConfig dns sv project marks) (health_key x) =
     (case config_of_health sv x of None \<Rightarrow> [] | Some v \<Rightarrow> v)"
  unfolding cfg_get_def instanceConfig_health [OF assms] ..

lemma json_marshal_nonempty [simp]: "json_marshal ss \<noteq> []"
  by (simp add: json_marshal_def)

definition duration_or :: "int \<Rightarrow> string option \<Rightarrow> int" where
  \<comment> \<open>The duration a text says, or what stands in for one that is not declared.\<close>
  "duration_or dflt v = (case v of None \<Rightarrow> dflt | Some d \<Rightarrow> (case parse_duration d of None \<Rightarrow> dflt | Some n \<Rightarrow> n))"

lemma parse_period_value:
  assumes "readable_period pos v" "pos \<longrightarrow> 0 < dflt"
  shows "parse_period k pos (case v of None \<Rightarrow> [] | Some d \<Rightarrow> d) dflt = Inr (duration_or dflt v)"
  using assms by (auto simp: readable_period_def parse_period_def duration_or_def split: option.splits)

text \<open>
  C26.  The health check a service declares is the one the checker runs: where it
  is not suppressed, its test is one the checker takes, every word of it in ASCII
  (other bytes \<open>json.Marshal\<close> may rewrite, which is not modelled), its durations are read
  and positive where they have to be, its retries between 1 and \<open>2 ^ 32 - 1\<close>,
  and neither the raw options nor the marks touch the health keys, the
  configuration written for it is accepted and carries the very test, each of
  the four durations or its default, the retries and the restart policy.
\<close>
theorem declared_check_is_read_back:
  assumes "cs_health sv = Some hc" "\<not> suppressed sv" "hc_test hc \<noteq> []" "\<forall>t \<in> set (hc_test hc). ascii t"
    and "hd (hc_test hc) = ''CMD-SHELL'' \<Longrightarrow> 2 \<le> length (hc_test hc)"
    and "readable_period False (hc_start_period hc)" "readable_period True (hc_start_interval hc)"
    and "readable_period True (hc_interval hc)" "readable_period True (hc_timeout hc)"
    and "\<And>n. hc_retries hc = Some n \<Longrightarrow> 0 < n \<and> n < 2 ^ 32"
    and "no_health_keys (cs_xincus sv)" "no_health_keys marks" "is_true ''true''"
  shows "\<exists>ic. parseInstanceConfig is_true (instanceConfig dns sv project marks) run = Inr ic \<and>
     test ic = hc_test hc \<and>
     startPeriod ic = duration_or defaultRestartPeriod (hc_start_period hc) \<and>
     startInterval ic = duration_or defaultRestartInterval (hc_start_interval hc) \<and>
     interval ic = duration_or defaultInterval (hc_interval hc) \<and>
     timeout ic = duration_or defaultTimeout (hc_timeout hc) \<and>
     retries ic = (case hc_retries hc of None \<Rightarrow> 3 | Some n \<Rightarrow> int n) \<and>
     restart ic = serviceRestartPolicy (service.truncate sv)"
proof -
  note get = instanceConfig_get [OF assms(11,12), of dns project]
  have keys:
    "cfg_get (instanceConfig dns sv project marks) HealthEnabledKey = ''true''"
    "cfg_get (instanceConfig dns sv project marks) (health_key ''test'') = json_marshal (hc_test hc)"
    "cfg_get (instanceConfig dns sv project marks) (health_key ''restart'') = serviceRestartPolicy (service.truncate sv)"
    "cfg_get (instanceConfig dns sv project marks) (health_key ''start_period'') = (case hc_start_period hc of None \<Rightarrow> [] | Some d \<Rightarrow> d)"
    "cfg_get (instanceConfig dns sv project marks) (health_key ''start_interval'') = (case hc_start_interval hc of None \<Rightarrow> [] | Some d \<Rightarrow> d)"
    "cfg_get (instanceConfig dns sv project marks) (health_key ''interval'') = (case hc_interval hc of None \<Rightarrow> [] | Some d \<Rightarrow> d)"
    "cfg_get (instanceConfig dns sv project marks) (health_key ''timeout'') = (case hc_timeout hc of None \<Rightarrow> [] | Some d \<Rightarrow> d)"
    "cfg_get (instanceConfig dns sv project marks) (health_key ''retries'') = (case hc_retries hc of None \<Rightarrow> [] | Some n \<Rightarrow> itoa n)"
    using assms(1-3) unfolding HealthEnabledKey_def get by (simp_all add: config_of_health_def Let_def split: option.split)
  have t: "parse_test (json_marshal (hc_test hc)) = Inr (hc_test hc)"
    using json_marshal_read [OF assms(4,3)] assms(3,5) by (cases "hc_test hc") (auto simp: parse_test_def)
  have r: "parse_retries (case hc_retries hc of None \<Rightarrow> [] | Some n \<Rightarrow> itoa n) =
      Inr (case hc_retries hc of None \<Rightarrow> 3 | Some n \<Rightarrow> int n)"
    using assms(10) itoa_is_digits parse_itoa by (auto simp: parse_retries_def defaultRetries_def split: option.split)
  have p:
    "parse_period ''start_period'' False (case hc_start_period hc of None \<Rightarrow> [] | Some d \<Rightarrow> d) defaultRestartPeriod =
      Inr (duration_or defaultRestartPeriod (hc_start_period hc))"
    "parse_period ''start_interval'' True (case hc_start_interval hc of None \<Rightarrow> [] | Some d \<Rightarrow> d) defaultRestartInterval =
      Inr (duration_or defaultRestartInterval (hc_start_interval hc))"
    "parse_period ''interval'' True (case hc_interval hc of None \<Rightarrow> [] | Some d \<Rightarrow> d) defaultInterval =
      Inr (duration_or defaultInterval (hc_interval hc))"
    "parse_period ''timeout'' True (case hc_timeout hc of None \<Rightarrow> [] | Some d \<Rightarrow> d) defaultTimeout =
      Inr (duration_or defaultTimeout (hc_timeout hc))"
    using parse_period_value [OF assms(6)] parse_period_value [OF assms(7), of defaultRestartInterval]
      parse_period_value [OF assms(8), of defaultInterval] parse_period_value [OF assms(9), of defaultTimeout]
    by (simp_all add: health_constants)
  have w: "wants_checking (instanceConfig dns sv project marks)" by (simp add: wants_checking_def keys)
  show ?thesis
    unfolding parseInstanceConfig_def Let_def keys using w assms(13) by (simp add: t r p)
qed

text \<open>
  A check declared with zero retries is written down and refused: the
  checker demands a positive number where one is given, so an instance whose
  service says \<open>retries: 0\<close> is never checked at all.
\<close>
theorem zero_retries_are_written_and_refused:
  assumes "cs_health sv = Some hc" "\<not> suppressed sv" "hc_retries hc = Some 0"
    and "no_health_keys (cs_xincus sv)" "no_health_keys marks"
  shows "cfg_get (instanceConfig dns sv project marks) HealthEnabledKey = ''true'' \<and>
     (\<forall>ic. parseInstanceConfig is_true (instanceConfig dns sv project marks) run \<noteq> Inr ic)"
proof -
  note get = instanceConfig_get [OF assms(4,5), of dns project]
  have "cfg_get (instanceConfig dns sv project marks) HealthEnabledKey = ''true''"
    using assms(1,2) unfolding HealthEnabledKey_def get by (simp add: config_of_health_def Let_def)
  moreover have "cfg_get (instanceConfig dns sv project marks) (health_key ''retries'') = ''0''"
    using assms(1-3) unfolding get by (simp add: config_of_health_def Let_def itoa.simps digit_char_def)
  moreover have "parse_retries ''0'' = Inl (MustBePositive ''retries'')"
    using parse_itoa [of 0] by (simp add: parse_retries_def itoa.simps digit_char_def)
  ultimately show ?thesis
    by (auto simp: parseInstanceConfig_def Let_def split: sum.splits if_splits)
qed

text \<open>
  What an instance is marked with stands, whatever the service declares or
  its raw options say; so a one-off, which is marked as not to be checked, is
  never taken up by the checker.
\<close>
theorem one_off_is_never_checked:
  assumes "\<not> is_true ''false''" "distinct (map fst marks)"
  shows "map_of (instanceConfig dns (oneOffService sv) project (oneOffMarks marks)) OneOffKey = Some ''true'' \<and>
     (\<forall>ic. parseInstanceConfig is_true (instanceConfig dns (oneOffService sv) project (oneOffMarks marks)) run \<noteq> Inr ic)"
proof -
  have m: "map_of (oneOffMarks marks) HealthEnabledKey = Some ''false''" "map_of (oneOffMarks marks) OneOffKey = Some ''true''"
    by (simp_all add: oneOffMarks_def update_get OneOffKey_def HealthEnabledKey_def HealthKeyPrefix_def)
  have d: "distinct (map fst (oneOffMarks marks))" using assms(2) by (simp add: oneOffMarks_def)
  have "map_of (instanceConfig dns (oneOffService sv) project (oneOffMarks marks)) OneOffKey = Some ''true''"
    "cfg_get (instanceConfig dns (oneOffService sv) project (oneOffMarks marks)) HealthEnabledKey = ''false''"
    by (simp_all add: instanceConfig_def copy_into_get [OF d] m cfg_get_def)
  then show ?thesis using assms(1) by (auto simp: parseInstanceConfig_def Let_def)
qed

definition demo_check :: "nat option \<Rightarrow> healthcheck" where
  "demo_check n =
     \<lparr>hc_disable = False, hc_test = [''CMD'', ''curl'', ''-f'', ''http://localhost/?a=1&b''], hc_start_period = None,
      hc_start_interval = None, hc_interval = Some ''30s'', hc_timeout = Some ''5s'', hc_retries = n\<rparr>"

definition demo_composed :: "nat option \<Rightarrow> composed" where
  "demo_composed n =
     \<lparr>sv_name = ''web'', sv_container = [], sv_restart = ''always'', sv_deploy = None, sv_allow_local = False, sv_depends = [],
      cs_environment = [(''A'', Some ''1'')], cs_labels = [], cs_privileged = False, cs_sysctls = [],
      cs_limits = \<lparr>lm_cpus = (0, 0), lm_memory = 0\<rparr>, cs_deploy_limits = None, cs_health = Some (demo_check n),
      cs_dns = [], cs_dns_search = [], cs_domain = [], cs_xincus = []\<rparr>"

lemma demo_composed_simps:
  "cs_health (demo_composed n) = Some (demo_check n)" "\<not> suppressed (demo_composed n)"
  "no_health_keys (cs_xincus (demo_composed n))" "no_health_keys []"
  by (simp_all add: demo_composed_def suppressed_def demo_check_def no_health_keys_def)

lemma demo_durations: "parse_duration ''30s'' = Some 30000000000" "parse_duration ''5s'' = Some 5000000000"
proof -
  have i: "duration_item ''30s'' = Some (30000000000, [])" "duration_item ''5s'' = Some (5000000000, [])"
    by (simp_all add: duration_item_def unit_map_def is_digit_def digit_def code_def)
  have "duration_sum d [] = Some d" for d by (simp add: duration_sum.simps)
  then have "duration_sum 0 ''30s'' = Some 30000000000" "duration_sum 0 ''5s'' = Some 5000000000"
    using i by (subst duration_sum.simps; simp)+
  then show "parse_duration ''30s'' = Some 30000000000" "parse_duration ''5s'' = Some 5000000000"
    by (simp_all add: parse_duration_def)
qed

theorem declared_check_is_read_back_witness:
  "\<exists>ic. parseInstanceConfig (\<lambda>s. s = ''true'') (instanceConfig False (demo_composed (Some 3)) ''demo'' []) True = Inr ic \<and>
     test ic = [''CMD'', ''curl'', ''-f'', ''http://localhost/?a=1&b''] \<and> interval ic = 30000000000 \<and>
     timeout ic = 5000000000 \<and> startInterval ic = defaultRestartInterval \<and> retries ic = 3"
proof -
  let ?hc = "demo_check (Some 3)"
  have p: "readable_period False (hc_start_period ?hc)" "readable_period True (hc_start_interval ?hc)"
    "readable_period True (hc_interval ?hc)" "readable_period True (hc_timeout ?hc)"
    by (simp_all add: demo_check_def readable_period_def demo_durations)
  have t: "hc_test ?hc = [''CMD'', ''curl'', ''-f'', ''http://localhost/?a=1&b'']" "hc_retries ?hc = Some 3"
    by (simp_all add: demo_check_def)
  have d: "duration_or defaultInterval (hc_interval ?hc) = 30000000000" "duration_or defaultTimeout (hc_timeout ?hc) = 5000000000"
    "duration_or defaultRestartInterval (hc_start_interval ?hc) = defaultRestartInterval"
    by (simp_all add: demo_check_def duration_or_def demo_durations)
  have a: "\<forall>t \<in> set (hc_test ?hc). ascii t" unfolding t by code_simp
  have "\<exists>ic. parseInstanceConfig (\<lambda>s. s = ''true'') (instanceConfig False (demo_composed (Some 3)) ''demo'' []) True = Inr ic \<and>
     test ic = hc_test ?hc \<and>
     startPeriod ic = duration_or defaultRestartPeriod (hc_start_period ?hc) \<and>
     startInterval ic = duration_or defaultRestartInterval (hc_start_interval ?hc) \<and>
     interval ic = duration_or defaultInterval (hc_interval ?hc) \<and>
     timeout ic = duration_or defaultTimeout (hc_timeout ?hc) \<and>
     retries ic = (case hc_retries ?hc of None \<Rightarrow> 3 | Some n \<Rightarrow> int n) \<and>
     restart ic = serviceRestartPolicy (service.truncate (demo_composed (Some 3)))"
    by (rule declared_check_is_read_back [OF demo_composed_simps(1,2) _ a _ p _ demo_composed_simps(3,4)]) (auto simp: t)
  then show ?thesis unfolding d by (auto simp: t)
qed

theorem zero_retries_are_written_and_refused_witness:
  "\<forall>ic. parseInstanceConfig (\<lambda>s. s = ''true'') (instanceConfig False (demo_composed (Some 0)) ''demo'' []) True \<noteq> Inr ic"
  using zero_retries_are_written_and_refused [OF demo_composed_simps(1,2) _ demo_composed_simps(3,4)] by (simp add: demo_check_def)

theorem one_off_is_never_checked_witness:
  "\<forall>ic. parseInstanceConfig (\<lambda>s. s = ''true'') (instanceConfig False (oneOffService (demo_composed None)) ''demo'' (oneOffMarks [])) True \<noteq> Inr ic"
  using one_off_is_never_checked [of "\<lambda>s. s = ''true''" "[]"] by simp

subsection \<open>Limits\<close>

definition memory_unit :: "string \<Rightarrow> nat option" where
  "memory_unit = map_of [(''GiB'', 2 ^ 30), (''MiB'', 2 ^ 20), (''KiB'', 2 ^ 10), (''B'', 1)]"

definition memory_value :: "string \<Rightarrow> nat option" where
  \<comment> \<open>What a size in these units says.\<close>
  "memory_value s =
     (let ds = takeWhile is_digit s in
      map_option (\<lambda>u. digits_value ds * u) (memory_unit (drop (length ds) s)))"

lemma memory_value_itoa:
  assumes "u \<noteq> []" "\<not> is_digit (hd u)"
  shows "memory_value (itoa n @ u) = map_option (\<lambda>k. n * k) (memory_unit u)"
proof -
  have d: "list_all is_digit (itoa n)" using itoa_is_digits by simp
  have "takeWhile is_digit (itoa n @ u) = itoa n"
    using d assms by (cases u) (simp_all add: list_all_iff takeWhile_append2)
  then show ?thesis by (simp add: memory_value_def Let_def digits_value_def itoa_value)
qed

text \<open>
  A memory limit loses nothing by being written in the largest unit that
  divides it: whatever the number of bytes, the text says that number.
\<close>
theorem memory_limit_is_exact: "memory_value (formatMemoryLimit (int n)) = Some n"
proof -
  have p: "(2 :: int) ^ k = int (2 ^ k)" for k by simp
  have i: "show_int (int n div 2 ^ k) = itoa (n div 2 ^ k)" for k
    unfolding p zdiv_int [symmetric] by (simp only: show_int_def nat_int of_nat_less_0_iff if_False)
  have m: "int n mod 2 ^ k = 0 \<longleftrightarrow> 2 ^ k dvd n" for k
    unfolding p zmod_int [symmetric] by (simp only: of_nat_eq_0_iff dvd_eq_mod_eq_0)
  show ?thesis
    unfolding formatMemoryLimit_def m i
    by (auto simp: memory_value_itoa memory_unit_def is_digit_def code_def show_int_def)
qed

text \<open>
  The mode of a config or a secret never has a write bit, whatever the
  compose file asks for and in spite of the default.
\<close>
theorem modes_never_write: "and (parse_mode 0x124 mode) 0x92 = 0 \<and> and (parse_mode 0x100 mode) 0x92 = 0"
proof -
  have "and (not (0x92 :: int)) 0x92 = 0" by (subst and.commute) (rule bit.conj_cancel_right)
  then have "and (and m (not 0x92)) 0x92 = 0" for m :: int by (simp only: and.assoc and_zero_eq)
  then show ?thesis by (simp add: parse_mode_def split: option.split)
qed

end
