(* ===== verification/Act.thy ===== *)
theory Act
  imports Prelude
begin

text \<open>
  Actions of the client: functions on a state that answer a value or the chain of an error's causes,
  the outermost first (\<open>client/errors.go\<close>, \<open>client/interfaces.go\<close>), and what is read off the log a
  state keeps of what it asked.  Each predicate has one rule per combinator.
\<close>

subsection \<open>Errors\<close>

datatype sentinel =
    ErrNotEnsured | ErrRunning | ErrNotRunning | ErrPaused | ErrNotPaused | ErrNotFound | ErrOperation
  | ErrInvalidFormat | ErrUnknown | ErrImageRequired | ErrDependencyNotEnsured | ErrCreate | ErrBadDevice
  | InstanceBusy      \<comment> \<open>of the Incus client\<close>
  | ServerError nat string   \<comment> \<open>the server's, with its HTTP status and message\<close>
  | Plain nat         \<comment> \<open>any other error\<close>

type_synonym chain = "sentinel list"

fun of_client :: "sentinel \<Rightarrow> bool" where
  "of_client InstanceBusy = False"
| "of_client (ServerError k m) = False"
| "of_client (Plain k) = False"
| "of_client s = True"

definition is_err :: "sentinel \<Rightarrow> chain \<Rightarrow> bool" where "is_err s e \<longleftrightarrow> s \<in> set e"

definition default_after :: "chain \<Rightarrow> chain" where
  \<comment> \<open>The innermost hook: the client's own error of the chain, or the unknown one around it.\<close>
  "default_after e = (case dropWhile (\<lambda>s. \<not> of_client s) e of [] \<Rightarrow> ErrUnknown # e | c # cs \<Rightarrow> c # cs)"

subsection \<open>Actions\<close>

datatype action_kind =
    ActionEnsure | ActionDelete | ActionStart | ActionStop | ActionPause | ActionUnpause | ActionBackup | ActionRestore
  | OtherAction string

type_synonym ('s, 'a) act = "'s \<Rightarrow> (chain + 'a) \<times> 's"

definition ret :: "'a \<Rightarrow> ('s, 'a) act" where "ret x s = (Inr x, s)"

definition fail :: "chain \<Rightarrow> ('s, 'a) act" where "fail e s = (Inl e, s)"

definition tried :: "('s, 'a) act \<Rightarrow> (chain + 'a \<Rightarrow> ('s, 'b) act) \<Rightarrow> ('s, 'b) act" where
  "tried m f s = (case m s of (r, s') \<Rightarrow> f r s')"

definition and_then :: "('s, 'a) act \<Rightarrow> ('a \<Rightarrow> ('s, 'b) act) \<Rightarrow> ('s, 'b) act" where
  "and_then m f = tried m (case_sum fail f)"

definition wrap :: "sentinel \<Rightarrow> ('s, 'a) act \<Rightarrow> ('s, 'a) act" where
  \<comment> \<open>\<open>ErrX.Wrap(err)\<close>\<close>
  "wrap s0 m = tried m (case_sum (\<lambda>e. fail (s0 # e)) ret)"

definition reading :: "('s \<Rightarrow> ('s, 'a) act) \<Rightarrow> ('s, 'a) act" where "reading f s = f s s"

definition changing :: "('s \<Rightarrow> 's) \<Rightarrow> ('s, unit) act" where "changing f s = (Inr (), f s)"

subsection \<open>What an action adds to a log\<close>

definition logs_within :: "('s \<Rightarrow> 'e list) \<Rightarrow> ('e \<Rightarrow> bool) \<Rightarrow> ('s, 'a) act \<Rightarrow> bool" where
  "logs_within L A m \<longleftrightarrow> (\<forall>s. \<exists>tr. L (snd (m s)) = L s @ tr \<and> list_all A tr)"

definition logs_ok :: "('s \<Rightarrow> 'e list) \<Rightarrow> ('e \<Rightarrow> bool) \<Rightarrow> ('s, 'a) act \<Rightarrow> bool" where
  \<comment> \<open>A success has an entry \<open>A\<close> among the new ones, and none of the old ones was taken away.\<close>
  "logs_ok L A m \<longleftrightarrow> (\<forall>s x s'. m s = (Inr x, s') \<longrightarrow> (\<exists>tr. L s' = L s @ tr \<and> list_ex A tr))"

named_theorems within_intros \<open>one rule for each combinator\<close>

lemma within_ret [within_intros]: "logs_within L A (ret x)"
  by (simp add: logs_within_def ret_def)

lemma within_fail [within_intros]: "logs_within L A (fail e)"
  by (simp add: logs_within_def fail_def)

lemma within_tried [within_intros]:
  assumes "logs_within L A m" "\<And>r. logs_within L A (f r)"
  shows "logs_within L A (tried m f)"
  unfolding logs_within_def
proof
  fix s
  obtain r s1 where m: "m s = (r, s1)" by fastforce
  obtain t1 where "L s1 = L s @ t1" "list_all A t1"
    using assms(1) m unfolding logs_within_def by (metis snd_conv)
  moreover obtain t2 where "L (snd (f r s1)) = L s1 @ t2" "list_all A t2"
    using assms(2) [of r] unfolding logs_within_def by blast
  ultimately show "\<exists>tr. L (snd (tried m f s)) = L s @ tr \<and> list_all A tr"
    by (intro exI [of _ "t1 @ t2"]) (simp add: tried_def m)
qed

lemma within_case_sum [within_intros]:
  assumes "\<And>e. logs_within L A (f e)" "\<And>x. logs_within L A (g x)"
  shows "logs_within L A (case_sum f g r)"
  using assms by (cases r) auto

lemma within_and_then [within_intros]:
  assumes "logs_within L A m" "\<And>x. logs_within L A (f x)"
  shows "logs_within L A (and_then m f)"
  unfolding and_then_def by (intro within_intros assms)

lemma within_wrap [within_intros]: "logs_within L A m \<Longrightarrow> logs_within L A (wrap k m)"
  unfolding wrap_def by (intro within_intros)

lemma within_reading [within_intros]: "(\<And>s. logs_within L A (f s)) \<Longrightarrow> logs_within L A (reading f)"
  unfolding logs_within_def reading_def by blast

lemma within_changing: "(\<And>s. L (g s) = L s) \<Longrightarrow> logs_within L A (changing g)"
  by (simp add: logs_within_def changing_def)

lemma within_if [within_intros]:
  assumes "c \<Longrightarrow> logs_within L A m" "\<not> c \<Longrightarrow> logs_within L A n"
  shows "logs_within L A (if c then m else n)"
  using assms by simp

lemma within_option [within_intros]:
  assumes "x = None \<Longrightarrow> logs_within L A m" "\<And>y. x = Some y \<Longrightarrow> logs_within L A (f y)"
  shows "logs_within L A (case x of None \<Rightarrow> m | Some y \<Rightarrow> f y)"
  using assms by (cases x) auto

lemma within_weaken: "logs_within L A m \<Longrightarrow> (\<And>e. A e \<Longrightarrow> B e) \<Longrightarrow> logs_within L B m"
  unfolding logs_within_def by (metis (mono_tags, lifting) list.pred_mono_strong)

lemma within_log:
  assumes "logs_within L A m" "m s = (r, s')"
  obtains tr where "L s' = L s @ tr" "list_all A tr"
  using assms unfolding logs_within_def by (metis snd_conv)

lemma shows_fail: "logs_ok L A (fail e)"
  by (simp add: logs_ok_def fail_def)

lemma and_then_ok:
  assumes "and_then m f s = (Inr x, s')"
  obtains y s1 where "m s = (Inr y, s1)" "f y s1 = (Inr x, s')"
  using assms by (cases "m s"; cases "fst (m s)") (auto simp: and_then_def tried_def fail_def)

lemma wrap_ok: "wrap k m s = (Inr x, s') \<longleftrightarrow> m s = (Inr x, s')"
  by (cases "m s"; cases "fst (m s)") (auto simp: wrap_def tried_def fail_def ret_def)

lemma shows_wrap: "logs_ok L A m \<Longrightarrow> logs_ok L A (wrap k m)"
  by (simp add: logs_ok_def wrap_ok)

lemma shows_first:
  assumes "logs_ok L A m" "\<And>x. logs_within L (\<lambda>_. True) (f x)"
  shows "logs_ok L A (and_then m f)"
  unfolding logs_ok_def
proof (intro allI impI)
  fix s x s'
  assume "and_then m f s = (Inr x, s')"
  then obtain y s1 where 1: "m s = (Inr y, s1)" and 2: "f y s1 = (Inr x, s')" by (rule and_then_ok)
  obtain t1 where t1: "L s1 = L s @ t1" "list_ex A t1" using assms(1) 1 unfolding logs_ok_def by blast
  obtain t2 where "L s' = L s1 @ t2" using within_log [OF assms(2) 2] by blast
  then show "\<exists>tr. L s' = L s @ tr \<and> list_ex A tr" using t1 by (intro exI [of _ "t1 @ t2"]) simp
qed

lemma shows_second:
  assumes "logs_within L (\<lambda>_. True) m" "\<And>x. logs_ok L A (f x)"
  shows "logs_ok L A (and_then m f)"
  unfolding logs_ok_def
proof (intro allI impI)
  fix s x s'
  assume "and_then m f s = (Inr x, s')"
  then obtain y s1 where 1: "m s = (Inr y, s1)" and 2: "f y s1 = (Inr x, s')" by (rule and_then_ok)
  obtain t1 where t1: "L s1 = L s @ t1" using within_log [OF assms(1) 1] by blast
  obtain t2 where "L s' = L s1 @ t2" "list_ex A t2" using assms(2) 2 unfolding logs_ok_def by blast
  then show "\<exists>tr. L s' = L s @ tr \<and> list_ex A tr" using t1 by (intro exI [of _ "t1 @ t2"]) simp
qed

lemma shows_if: "(c \<Longrightarrow> logs_ok L A m) \<Longrightarrow> (\<not> c \<Longrightarrow> logs_ok L A k) \<Longrightarrow> logs_ok L A (if c then m else k)"
  by simp

subsection \<open>What an action leaves alone\<close>

definition keeps :: "('s \<Rightarrow> 'b) \<Rightarrow> ('s, 'a) act \<Rightarrow> bool" where
  "keeps f m \<longleftrightarrow> (\<forall>s. f (snd (m s)) = f s)"

named_theorems keeps_intros \<open>one rule for each combinator\<close>

lemma keepsD: "keeps f m \<Longrightarrow> m s = (r, s') \<Longrightarrow> f s' = f s"
  unfolding keeps_def by (metis snd_conv)

lemma keeps_ret [keeps_intros]: "keeps f (ret x)" and keeps_fail [keeps_intros]: "keeps f (fail e)"
  by (simp_all add: keeps_def ret_def fail_def)

lemma keeps_tried [keeps_intros]: "keeps f m \<Longrightarrow> (\<And>r. keeps f (g r)) \<Longrightarrow> keeps f (tried m g)"
  by (simp add: keeps_def tried_def split: prod.split) (metis snd_conv)

lemma keeps_case_sum [keeps_intros]: "(\<And>e. keeps f (g e)) \<Longrightarrow> (\<And>x. keeps f (h x)) \<Longrightarrow> keeps f (case_sum g h r)"
  by (cases r) auto

lemma keeps_and_then [keeps_intros]: "keeps f m \<Longrightarrow> (\<And>x. keeps f (g x)) \<Longrightarrow> keeps f (and_then m g)"
  unfolding and_then_def by (intro keeps_intros)

lemma keeps_wrap [keeps_intros]: "keeps f m \<Longrightarrow> keeps f (wrap k m)"
  unfolding wrap_def by (intro keeps_intros)

lemma keeps_if [keeps_intros]: "(c \<Longrightarrow> keeps f m) \<Longrightarrow> (\<not> c \<Longrightarrow> keeps f k) \<Longrightarrow> keeps f (if c then m else k)"
  by simp

lemma keeps_option [keeps_intros]:
  "(x = None \<Longrightarrow> keeps f m) \<Longrightarrow> (\<And>y. x = Some y \<Longrightarrow> keeps f (g y)) \<Longrightarrow> keeps f (case x of None \<Rightarrow> m | Some y \<Rightarrow> g y)"
  by (cases x) auto

lemma keeps_changing: "(\<And>s. f (g s) = f s) \<Longrightarrow> keeps f (changing g)"
  by (simp add: keeps_def changing_def)

end
