(* ===== verification/InstanceRun.thy ===== *)
theory InstanceRun
  imports InstanceConfig Act
begin

text \<open>
  The actions on one instance (\<open>client/resource_instance.go\<close>): ensuring, creating,
  starting, stopping, pausing and deleting it.  The server is a parameter: how it
  answers a read of an instance and every other request, in a state of its own
  that nothing here looks into.  An action is a function on the client's state,
  which keeps the log of what was asked and answered; an error is the chain of
  its causes, the outermost first.  Waits are bounded by a number of rounds, the
  deadline's worth of them.
\<close>

subsection \<open>The server\<close>

datatype vm_status = Running | Frozen | Stopped | OtherStatus nat

record vm =
  vm_status :: vm_status
  vm_config :: cfg
  vm_container :: bool
  vm_devices :: "(string \<times> cfg) list"
  vm_location :: string

datatype request =
    GetState string
  | WaitBusy string
  | PatchConfig string cfg
  | PutState string string bool int
  | CreateInstance string cfg "(string \<times> cfg) list" string
  | DeleteInstance string
  | DeleteVolume string string string
  | GetImage string
  | EnsureVolume string
  | EnsureTools
  | HealthdRunning
  | OpenFiles string
  | PushFile string string
  | ExecInstance string "string list"

record 'w incus =
  in_get :: "string \<Rightarrow> 'w \<Rightarrow> (chain + vm) \<times> 'w"
  in_send :: "request \<Rightarrow> 'w \<Rightarrow> chain option \<times> 'w"

datatype entry = Got string "chain + vm" | Sent request "chain option"

subsection \<open>The client\<close>

record inst =
  i_service :: string
  i_image :: string
  i_container :: bool
  i_hash :: string
  i_resources :: "string list"
  i_profile_roots :: "bool list"  \<comment> \<open>of its profiles, whether each has a root device\<close>
  i_devices :: "device list"
  i_extra :: "(string \<times> cfg) list option"
  i_noroot :: bool
  i_files :: "string list"
  i_ext :: cfg
  i_deps :: "string list"
  i_entrypoint :: "string list option"
  i_command :: "string list"
  i_noauto :: bool
  i_owner :: "(nat \<times> nat) option"
  i_user :: string
  i_target :: string
  i_cwd :: string
  i_ignore :: bool
  i_marked :: bool
  i_created :: bool
  i_state :: "(vm \<times> nat \<times> nat) option"   \<comment> \<open>as of the last fetch, with the ids it runs as\<close>

record 'w st =
  st_world :: 'w
  st_log :: "entry list"
  st_insts :: "string \<Rightarrow> inst"
  st_held :: "string list"
  st_volumes :: "string list"   \<comment> \<open>the names of the volumes the store holds\<close>

definition of_inst :: "string \<Rightarrow> (inst \<Rightarrow> ('w st, 'a) act) \<Rightarrow> ('w st, 'a) act" where
  "of_inst n f = reading (\<lambda>s. f (st_insts s n))"

definition set_inst :: "string \<Rightarrow> (inst \<Rightarrow> inst) \<Rightarrow> ('w st, unit) act" where
  "set_inst n f = changing (\<lambda>s. s\<lparr>st_insts := (st_insts s)(n := f (st_insts s n))\<rparr>)"

definition send :: "'w incus \<Rightarrow> request \<Rightarrow> ('w st, unit) act" where
  "send srv q s =
     (case in_send srv q (st_world s) of
        (e, w) \<Rightarrow> (case e of None \<Rightarrow> Inr () | Some c \<Rightarrow> Inl c, s\<lparr>st_world := w, st_log := st_log s @ [Sent q e]\<rparr>))"

definition get_vm :: "'w incus \<Rightarrow> string \<Rightarrow> ('w st, vm) act" where
  "get_vm srv n s = (case in_get srv n (st_world s) of (r, w) \<Rightarrow> (r, s\<lparr>st_world := w, st_log := st_log s @ [Got n r]\<rparr>))"

record image =
  im_name :: string
  im_entrypoint :: string
  im_user :: string
  im_uid :: nat
  im_gid :: nat
  im_health :: cfg            \<comment> \<open>the health keys the image brings\<close>
  im_native :: bool
  im_target :: string
  im_volumes :: "string list"

record 'w setting =
  se_srv :: "'w incus"
  se_before :: "action_kind \<Rightarrow> string \<Rightarrow> chain option"
  se_ignored :: "(action_kind \<times> sentinel) list"
  se_fingerprint :: "string \<Rightarrow> string"              \<comment> \<open>the alias of a fingerprint\<close>
  se_images :: "string \<Rightarrow> image option"              \<comment> \<open>those that are ensured\<close>
  se_resolve :: "string \<Rightarrow> string \<Rightarrow> chain + nat \<times> nat"  \<comment> \<open>a user of an image\<close>
  se_ensured :: "string \<Rightarrow> bool"
  se_pool :: string
  se_tools :: device          \<comment> \<open>the mount of the tools volume\<close>
  se_tools_entry :: string
  se_slug :: "string \<Rightarrow> string"
  se_incus_name :: "string \<Rightarrow> string"
  se_hooks_fixed :: bool      \<comment> \<open>the server has the extension 76\<close>
  se_quote :: "string list \<Rightarrow> string"               \<comment> \<open>\<open>shellquote.Join\<close>\<close>
  se_isTrue :: "string \<Rightarrow> bool"                 \<comment> \<open>\<open>util.IsTrue\<close> and \<open>util.IsFalse\<close> of the Incus client\<close>
  se_isFalse :: "string \<Rightarrow> bool"
  se_rounds :: nat

record options =
  op_create :: bool
  op_force :: bool
  op_volumes :: bool
  op_timeout :: int
  op_healthd :: bool
  op_external :: bool

definition new_options :: options where
  "new_options = \<lparr>op_create = False, op_force = False, op_volumes = False, op_timeout = 2 * 60 * second, op_healthd = True, op_external = False\<rparr>"

definition incusTimeout :: "options \<Rightarrow> int" where
  "incusTimeout o1 = (if op_timeout o1 = 0 then -1 else max 1 (op_timeout o1 div second))"

definition after :: "'w setting \<Rightarrow> action_kind \<Rightarrow> chain + 'a \<Rightarrow> 'a \<Rightarrow> ('w st, 'a) act" where
  \<comment> \<open>\<open>hookAfter\<close>: an ignored error is none, any other goes to the innermost hook.\<close>
  "after se a r x =
     (case r of
        Inr y \<Rightarrow> ret y
      | Inl e \<Rightarrow> if list_ex (\<lambda>(b, s). b = a \<and> is_err s e) (se_ignored se) then ret x else fail (default_after e))"

definition finish :: "'w setting \<Rightarrow> action_kind \<Rightarrow> ('w st, unit) act \<Rightarrow> ('w st, unit) act" where
  "finish se a m = tried m (\<lambda>r. after se a r ())"

definition guarded :: "'w setting \<Rightarrow> action_kind \<Rightarrow> string \<Rightarrow> ('w st, 'a) act \<Rightarrow> ('w st, 'a) act" where
  \<comment> \<open>\<open>hookBefore\<close>, whose error is returned as it is.\<close>
  "guarded se a n m = (case se_before se a n of Some e \<Rightarrow> fail e | None \<Rightarrow> m)"

subsection \<open>Reading the instance\<close>

definition is_running :: "inst \<Rightarrow> bool" where
  "is_running i \<longleftrightarrow> (case i_state i of None \<Rightarrow> False | Some (v, ids) \<Rightarrow> vm_status v = Running)"

definition is_frozen :: "inst \<Rightarrow> bool" where
  "is_frozen i \<longleftrightarrow> (case i_state i of None \<Rightarrow> False | Some (v, ids) \<Rightarrow> vm_status v = Frozen)"

definition info_config :: "inst \<Rightarrow> cfg" where
  "info_config i = (case i_state i of None \<Rightarrow> [] | Some (v, ids) \<Rightarrow> vm_config v)"

definition extractUIDGID :: "vm \<Rightarrow> (nat \<times> nat) option" where
  "extractUIDGID v =
     (if \<not> vm_container v then Some (0, 0)
      else case (map_of (vm_config v) ''oci.uid'', map_of (vm_config v) ''oci.gid'') of
             (Some u, Some g) \<Rightarrow>
               (case (parse_uint32 u, parse_uint32 g) of (Some a, Some b) \<Rightarrow> Some (a, b) | _ \<Rightarrow> None)
           | _ \<Rightarrow> Some (0, 0))"

definition fetch_state :: "'w setting \<Rightarrow> string \<Rightarrow> ('w st, vm \<times> nat \<times> nat) act" where
  \<comment> \<open>\<open>fetch\<close> into a state of the caller's.\<close>
  "fetch_state se n =
     and_then (get_vm (se_srv se) n) (\<lambda>v. of_inst n (\<lambda>i.
       case (case i_owner i of Some ids \<Rightarrow> Some ids | None \<Rightarrow> extractUIDGID v) of
         None \<Rightarrow> fail [ErrInvalidFormat]
       | Some ids \<Rightarrow> and_then (send (se_srv se) (GetState n)) (\<lambda>_. ret (v, ids))))"

definition fetch :: "'w setting \<Rightarrow> string \<Rightarrow> ('w st, unit) act" where
  \<comment> \<open>\<open>fetch\<close> that publishes.\<close>
  "fetch se n = and_then (fetch_state se n) (\<lambda>x. set_inst n (\<lambda>i. i\<lparr>i_state := Some x\<rparr>))"

subsection \<open>Writing\<close>

definition waitBusyOperation :: "'w setting \<Rightarrow> string \<Rightarrow> ('w st, unit) act" where
  "waitBusyOperation se n = wrap ErrOperation (send (se_srv se) (WaitBusy n))"

fun retryBusy :: "nat \<Rightarrow> 'w setting \<Rightarrow> string \<Rightarrow> ('w st, unit) act \<Rightarrow> ('w st, unit) act" where
  \<comment> \<open>Ten attempts in all, only as long as the instance is busy.\<close>
  "retryBusy 0 se n write = and_then (waitBusyOperation se n) (\<lambda>_. write)"
| "retryBusy (Suc k) se n write =
     tried (and_then (waitBusyOperation se n) (\<lambda>_. write))
       (\<lambda>r. case r of Inr u \<Rightarrow> ret u | Inl e \<Rightarrow> if is_err InstanceBusy e then retryBusy k se n write else fail e)"

definition patchConfig :: "'w setting \<Rightarrow> string \<Rightarrow> cfg \<Rightarrow> ('w st, unit) act" where
  "patchConfig se n config = and_then (retryBusy 9 se n (send (se_srv se) (PatchConfig n config))) (\<lambda>_. fetch se n)"

definition setHealthCheckingStopped :: "'w setting \<Rightarrow> string \<Rightarrow> bool \<Rightarrow> ('w st, unit) act" where
  "setHealthCheckingStopped se n stopped =
     and_then (fetch se n) (\<lambda>_. of_inst n (\<lambda>i.
       let v = (if stopped then ''true'' else ''false'') in
       if cfg_get (info_config i) HealthStoppedKey = v then ret () else patchConfig se n [(HealthStoppedKey, v)]))"

definition missing_config :: "inst \<Rightarrow> cfg" where
  "missing_config i = filter (\<lambda>(k, v). map_of (info_config i) k = None) (i_ext i)"

definition addMissingConfig :: "'w setting \<Rightarrow> string \<Rightarrow> ('w st, unit) act" where
  "addMissingConfig se n =
     of_inst n (\<lambda>i. if missing_config i = [] then ret () else patchConfig se n (missing_config i))"

definition AddConfigs :: "'w setting \<Rightarrow> string \<Rightarrow> cfg \<Rightarrow> ('w st, unit) act" where
  "AddConfigs se n config =
     of_inst n (\<lambda>i.
       let existing = (if i_state i = None then i_ext i else info_config i);
           toPatch = filter (\<lambda>(k, v). cfg_get existing k = []) config
       in if toPatch = [] then ret ()
          else and_then (set_inst n (\<lambda>i. i\<lparr>i_ext := copy_into (i_ext i) toPatch\<rparr>)) (\<lambda>_. patchConfig se n toPatch))"

subsection \<open>Stopping, pausing, deleting\<close>

definition requestStop :: "'w setting \<Rightarrow> string \<Rightarrow> options \<Rightarrow> bool \<Rightarrow> ('w st, unit) act" where
  "requestStop se n o1 force =
     retryBusy 9 se n (wrap ErrOperation (send (se_srv se) (PutState n ''stop'' force (incusTimeout o1))))"

definition stop :: "'w setting \<Rightarrow> string \<Rightarrow> options \<Rightarrow> ('w st, unit) act" where
  "stop se n o1 =
     of_inst n (\<lambda>i. if \<not> is_running i then ret ()
       else and_then (waitBusyOperation se n) (\<lambda>_. and_then (fetch se n) (\<lambda>_. of_inst n (\<lambda>i.
         if \<not> is_running i then ret ()
         else tried (requestStop se n o1 (op_force o1)) (\<lambda>r. case r of
                Inr u \<Rightarrow> fetch se n
              | Inl e \<Rightarrow>
                  if op_force o1 then fail e
                  else tried (fetch se n) (\<lambda>r2. case r2 of
                         Inl e2 \<Rightarrow> fail (e @ e2)
                       | Inr u \<Rightarrow> of_inst n (\<lambda>i.
                           if \<not> is_running i then ret ()
                           else and_then (requestStop se n o1 True) (\<lambda>_. fetch se n))))))))"

definition Stop :: "'w setting \<Rightarrow> string \<Rightarrow> options \<Rightarrow> ('w st, unit) act" where
  "Stop se n o1 =
     guarded se ActionStop n (of_inst n (\<lambda>i.
       finish se ActionStop
         (if i_state i = None then fail [ErrNotEnsured]
          else and_then (setHealthCheckingStopped se n True)
                 (\<lambda>_. if \<not> is_running i then fail [ErrNotRunning] else stop se n o1))))"

definition freeze :: "'w setting \<Rightarrow> string \<Rightarrow> bool \<Rightarrow> ('w st, unit) act" where
  "freeze se n thaw =
     and_then (waitBusyOperation se n) (\<lambda>_.
       and_then (retryBusy 9 se n
           (wrap ErrOperation (send (se_srv se) (PutState n (if thaw then ''unfreeze'' else ''freeze'') False 0))))
         (\<lambda>_. fetch se n))"

definition Pause :: "'w setting \<Rightarrow> string \<Rightarrow> options \<Rightarrow> ('w st, unit) act" where
  "Pause se n o1 =
     guarded se ActionPause n (of_inst n (\<lambda>i.
       finish se ActionPause
         (if i_state i = None then fail [ErrNotEnsured]
          else if is_frozen i then fail [ErrPaused]
          else if \<not> is_running i then fail [ErrNotRunning]
          else and_then (setHealthCheckingStopped se n True) (\<lambda>_. freeze se n False))))"

definition Unpause :: "'w setting \<Rightarrow> string \<Rightarrow> options \<Rightarrow> ('w st, unit) act" where
  "Unpause se n o1 =
     guarded se ActionUnpause n (of_inst n (\<lambda>i.
       finish se ActionUnpause
         (if i_state i = None then fail [ErrNotEnsured]
          else if \<not> is_frozen i then fail [ErrNotPaused]
          else and_then (freeze se n True) (\<lambda>_. setHealthCheckingStopped se n False))))"

definition forget :: "string \<Rightarrow> ('w st, unit) act" where
  "forget n =
     and_then (set_inst n (\<lambda>i. i\<lparr>i_state := None\<rparr>))
       (\<lambda>_. changing (\<lambda>s. s\<lparr>st_held := filter (\<lambda>m. m \<noteq> n) (st_held s)\<rparr>))"

fun delete_volumes :: "'w setting \<Rightarrow> string \<Rightarrow> cfg list \<Rightarrow> ('w st, unit) act" where
  \<comment> \<open>What goes wrong with one is logged and left.\<close>
  "delete_volumes se target [] = ret ()"
| "delete_volumes se target (d # ds) =
     tried (send (se_srv se) (DeleteVolume (cfg_get d ''pool'') (cfg_get d ''source'') target)) (\<lambda>_. delete_volumes se target ds)"

definition Delete :: "'w setting \<Rightarrow> string \<Rightarrow> options \<Rightarrow> ('w st, unit) act" where
  "Delete se n o1 =
     (case se_before se ActionDelete n of
        Some e \<Rightarrow> and_then (forget n) (\<lambda>_. fail e)
      | None \<Rightarrow> of_inst n (\<lambda>i.
          if i_state i = None then and_then (forget n) (\<lambda>_. finish se ActionDelete (fail [ErrNotEnsured]))
          else tried (finish se ActionDelete (retryBusy 9 se n (send (se_srv se) (DeleteInstance n)))) (\<lambda>r. case r of
                 Inl e \<Rightarrow> and_then (forget n) (\<lambda>_. fail e)
               | Inr u \<Rightarrow> of_inst n (\<lambda>i.
                   let at = (case i_state i of None \<Rightarrow> i_target i
                             | Some (v, ids) \<Rightarrow> if vm_location v \<noteq> [] \<and> vm_location v \<noteq> ''none'' then vm_location v else i_target i);
                       devs = (case i_state i of None \<Rightarrow> [] | Some (v, ids) \<Rightarrow> prefetchDevices (vm_devices v))
                   in and_then (if op_volumes o1 then delete_volumes se at devs else ret ()) (\<lambda>_. forget n)))))"

subsection \<open>Creating\<close>

definition resolveEntrypoint :: "(string list \<Rightarrow> string) \<Rightarrow> string \<Rightarrow> string list option \<Rightarrow> string list \<Rightarrow> string" where
  "resolveEntrypoint quote imageEntrypoint entrypoint command =
     (case entrypoint of
        Some e \<Rightarrow> quote (e @ command)
      | None \<Rightarrow>
          if command = [] then []
          else if imageEntrypoint = [] then quote command
          else imageEntrypoint @ '' '' @ quote command)"

definition ConfigHashKey :: string where "ConfigHashKey = ''user.label.incus-compose.config-hash''"

definition hook_line :: string where
  "hook_line = ''lxc.environment.hooks = PATH=/usr/local/sbin:/usr/local/bin:/usr/sbin:/usr/bin:/sbin:/bin'' @ [CHR 0x0A]"

fun go_contains :: "string \<Rightarrow> string \<Rightarrow> bool" where
  "go_contains [] sub = (sub = [])"
| "go_contains (c # cs) sub = (has_prefix (c # cs) sub \<or> go_contains cs sub)"

definition hook_shim :: "cfg \<Rightarrow> cfg" where
  "hook_shim m =
     (let raw = cfg_get m ''raw.lxc'' in
      if go_contains raw ''lxc.environment.hooks'' then m
      else AList.update ''raw.lxc''
             ((if raw \<noteq> [] \<and> \<not> has_suffix raw [CHR 0x0A] then raw @ [CHR 0x0A] else raw) @ hook_line) m)"

definition create_config :: "'w setting \<Rightarrow> image \<Rightarrow> nat \<times> nat \<Rightarrow> options \<Rightarrow> inst \<Rightarrow> cfg" where
  \<comment> \<open>The configuration a new instance is sent with.\<close>
  "create_config se im ids o1 i =
     (let entry = resolveEntrypoint (se_quote se) (im_entrypoint im) (i_entrypoint i) (i_command i);
          m1 = (if entry \<noteq> [] then [(''oci.entrypoint'', entry)] else []);
          m2 = (if i_cwd i \<noteq> [] then AList.update ''oci.cwd'' (i_cwd i) m1 else m1);
          m3 = (if \<not> im_native im then
                  (let u = (if fst ids \<noteq> im_uid im then AList.update ''oci.uid'' (itoa (fst ids)) m2 else m2)
                   in if snd ids \<noteq> im_gid im then AList.update ''oci.gid'' (itoa (snd ids)) u else u)
                else m2);
          m4 = AList.update ''user.image_alias'' (im_name im) m3;
          m5 = (if i_hash i \<noteq> [] then AList.update ConfigHashKey (i_hash i) m4 else m4);
          composeTest = (map_of (i_ext i) (HealthKeyPrefix @ ''test'') \<noteq> None);
          m6 = (if \<not> composeTest \<and> \<not> se_isFalse se (cfg_get (i_ext i) HealthEnabledKey) then copy_into m5 (im_health im) else m5);
          m7 = copy_into m6 (i_ext i);
          m8 = (if \<not> se_hooks_fixed se \<and> i_container i then hook_shim m7 else m7)
      in if op_healthd o1 then AList.update HealthStoppedKey ''true'' m8
         else if map_of m8 HealthStatusKey = None then AList.update HealthStatusKey HealthStatusUnknown m8 else m8)"

definition ensured :: "'w setting \<Rightarrow> string \<Rightarrow> ('w st, unit) act" where
  "ensured se n =
     set_inst n (\<lambda>i.
       if i_image i \<noteq> [] then i
       else i\<lparr>i_image :=
         (case map_of (info_config i) ''user.image_alias'' of
            Some alias \<Rightarrow> alias
          | None \<Rightarrow> se_fingerprint se (cfg_get (info_config i) ''volatile.base_image''))\<rparr>)"

definition with_tools :: "'w setting \<Rightarrow> string \<Rightarrow> ('w st, unit) act" where
  \<comment> \<open>The tools volume is mounted, unless it is already, and its helper is the entrypoint.\<close>
  "with_tools se n =
     and_then (send (se_srv se) EnsureTools) (\<lambda>_. set_inst n (\<lambda>i.
       i\<lparr>i_devices := (if list_ex (\<lambda>d. dv_name d = dv_name (se_tools se)) (i_devices i) then i_devices i
                       else i_devices i @ [se_tools se]),
         i_entrypoint := Some [se_tools_entry se]\<rparr>))"

definition run_as :: "'w setting \<Rightarrow> image \<Rightarrow> inst \<Rightarrow> ('w st, nat \<times> nat) act" where
  "run_as se im i =
     (case i_owner i of
        Some ids \<Rightarrow> ret ids
      | None \<Rightarrow>
          (let user = (if i_user i = [] then im_user im else i_user i) in
           if user \<noteq> [] then (case se_resolve se (im_name im) user of Inl e \<Rightarrow> fail e | Inr ids \<Rightarrow> ret ids)
           else ret (im_uid im, im_gid im)))"

definition hold_volume :: "string \<Rightarrow> ('w st, unit) act" where
  \<comment> \<open>\<open>client.Resource\<close> of a volume, which is taken from the store or joins it.\<close>
  "hold_volume v = changing (\<lambda>s. s\<lparr>st_volumes := (if v \<in> set (st_volumes s) then st_volumes s else st_volumes s @ [v])\<rparr>)"

fun make_volumes :: "'w setting \<Rightarrow> string \<Rightarrow> device list \<Rightarrow> ('w st, unit) act" where
  "make_volumes se n [] = ret ()"
| "make_volumes se n (d # ds) =
     and_then (of_inst n (\<lambda>i. hold_volume (prefetchVolumeName (se_slug se) (i_service i) (dk_path (dv_disk d))))) (\<lambda>_.
     and_then (send (se_srv se) (EnsureVolume (dk_source (dv_disk d)))) (\<lambda>_.
     and_then (set_inst n (\<lambda>i. i\<lparr>i_devices := i_devices i @ [d]\<rparr>)) (\<lambda>_. make_volumes se n ds)))"

definition prefetch_all :: "'w setting \<Rightarrow> image \<Rightarrow> string \<Rightarrow> ('w st, unit) act" where
  \<comment> \<open>\<open>prefetchVolumes\<close>: which volumes are needed depends on the devices alone.\<close>
  "prefetch_all se im n =
     of_inst n (\<lambda>i.
       if i_noauto i then ret ()
       else case prefetchVolumes (se_slug se) (se_incus_name se) (se_pool se) (i_service i) (\<lambda>_. None :: unit option)
                   (case i_extra i of None \<Rightarrow> [] | Some m \<Rightarrow> m) (im_volumes im) (i_devices i) of
              Inl e \<Rightarrow> ret ()
            | Inr devs \<Rightarrow> make_volumes se n (drop (length (i_devices i)) devs))"

definition create :: "'w setting \<Rightarrow> string \<Rightarrow> options \<Rightarrow> ('w st, unit) act" where
  "create se n o1 =
     of_inst n (\<lambda>i.
       if i_image i = [] then fail [ErrImageRequired]
       else if \<not> list_all (se_ensured se) (i_resources i) then fail [ErrDependencyNotEnsured]
       else case se_images se (i_image i) of
              None \<Rightarrow> fail [ErrDependencyNotEnsured]
            | Some im \<Rightarrow>
                and_then (if i_ignore i \<and> i_command i \<noteq> [] then with_tools se n else ret ()) (\<lambda>_.
                and_then (of_inst n (run_as se im)) (\<lambda>ids.
                and_then (prefetch_all se im n) (\<lambda>_. of_inst n (\<lambda>i.
                  case buildDevices (i_devices i) (i_extra i) (i_profile_roots i) (i_noroot i) (se_pool se) of
                    Inl e \<Rightarrow> fail [ErrBadDevice]
                  | Inr devices \<Rightarrow>
                      and_then (wrap ErrNotFound (send (se_srv se) (GetImage (im_target im)))) (\<lambda>_.
                      and_then (send (se_srv se) (CreateInstance n (create_config se im ids o1 i) devices (i_target i))) (\<lambda>_.
                      and_then (wrap ErrCreate (fetch se n)) (\<lambda>_.
                      and_then (ensured se n) (\<lambda>_. set_inst n (\<lambda>i. i\<lparr>i_created := True\<rparr>))))))))))"

subsection \<open>Ensuring\<close>

fun adopt_all :: "'w setting \<Rightarrow> string \<Rightarrow> cfg list \<Rightarrow> ('w st, unit) act" where
  "adopt_all se service [] = ret ()"
| "adopt_all se service (d # ds) =
     and_then (hold_volume (prefetchVolumeName (se_slug se) service (cfg_get d ''path''))) (\<lambda>_. adopt_all se service ds)"

definition adopt_volumes :: "'w setting \<Rightarrow> string \<Rightarrow> ('w st, unit) act" where
  \<comment> \<open>The volumes it carries join the store.\<close>
  "adopt_volumes se n =
     of_inst n (\<lambda>i. adopt_all se (i_service i)
       (case i_state i of None \<Rightarrow> [] | Some (v, ids) \<Rightarrow> prefetchDevices (vm_devices v)))"

definition ensure :: "'w setting \<Rightarrow> string \<Rightarrow> options \<Rightarrow> ('w st, bool) act" where
  \<comment> \<open>Whether the instance is one too many and has to be torn down.\<close>
  "ensure se n o1 =
     guarded se ActionEnsure n (tried (fetch se n) (\<lambda>r. case r of
       Inr u \<Rightarrow>
         tried (and_then (addMissingConfig se n) (\<lambda>_. and_then (adopt_volumes se n) (\<lambda>_. ensured se n))) (\<lambda>r2. case r2 of
           Inl e \<Rightarrow> after se ActionEnsure (Inl e) False
         | Inr u \<Rightarrow> of_inst n (\<lambda>i. ret (i_marked i)))
     | Inl e \<Rightarrow>
         if \<not> op_create o1 then
           tried (after se ActionEnsure (Inl (ErrNotFound # e)) False) (\<lambda>r2. of_inst n (\<lambda>i.
             and_then (if i_marked i then changing (\<lambda>s. s\<lparr>st_held := filter (\<lambda>m. m \<noteq> n) (st_held s)\<rparr>) else ret ())
               (\<lambda>_. case r2 of Inl e2 \<Rightarrow> fail e2 | Inr b \<Rightarrow> ret b)))
         else and_then (finish se ActionEnsure (create se n o1)) (\<lambda>_. ret False)))"

definition Ensure :: "'w setting \<Rightarrow> string \<Rightarrow> options \<Rightarrow> ('w st, unit) act" where
  "Ensure se n o1 =
     and_then (ensure se n o1) (\<lambda>scaleDown.
       if \<not> scaleDown then ret ()
       else and_then (Stop se n (new_options\<lparr>op_timeout := op_timeout o1, op_force := True\<rparr>))
              (\<lambda>_. Delete se n new_options))"

subsection \<open>Starting\<close>

definition healthy :: "(vm \<times> nat \<times> nat) option \<Rightarrow> bool" where
  "healthy x = (case x of None \<Rightarrow> False | Some (v, ids) \<Rightarrow> cfg_get (vm_config v) HealthStatusKey = HealthStatusHealthy)"

definition timed_out :: chain where "timed_out = [Plain 0]"

fun health_rounds :: "nat \<Rightarrow> 'w setting \<Rightarrow> string \<Rightarrow> ('w st, unit) act" where
  "health_rounds 0 se n = fail timed_out"
| "health_rounds (Suc k) se n =
     of_inst n (\<lambda>i. if healthy (i_state i) then ret ()
       else tried (fetch_state se n) (\<lambda>r. case r of
              Inr x \<Rightarrow> if healthy (Some x) then ret () else health_rounds k se n
            | Inl e \<Rightarrow> health_rounds k se n))"

definition waitForHealthCheck :: "'w setting \<Rightarrow> string \<Rightarrow> ('w st, unit) act" where
  "waitForHealthCheck se n =
     tried (fetch_state se n) (\<lambda>r. case r of
       Inr x \<Rightarrow> if healthy (Some x) then ret () else health_rounds (se_rounds se) se n
     | Inl e \<Rightarrow> health_rounds (se_rounds se) se n)"

fun waitForDependencies :: "'w setting \<Rightarrow> string list \<Rightarrow> ('w st, unit) act" where
  \<comment> \<open>An instance that is not there is added to the store; giving up tells the cause in words only.\<close>
  "waitForDependencies se [] = ret ()"
| "waitForDependencies se (d # ds) =
     and_then (changing (\<lambda>s. s\<lparr>st_held := (if d \<in> set (st_held s) then st_held s else st_held s @ [d])\<rparr>)) (\<lambda>_.
     tried (waitForHealthCheck se d) (\<lambda>r. case r of Inl e \<Rightarrow> fail [Plain 1] | Inr u \<Rightarrow> waitForDependencies se ds))"

fun push_files :: "'w setting \<Rightarrow> string \<Rightarrow> string list \<Rightarrow> ('w st, unit) act" where
  "push_files se n [] = ret ()"
| "push_files se n (f # fs) = and_then (wrap ErrCreate (send (se_srv se) (PushFile n f))) (\<lambda>_. push_files se n fs)"

fun open_files :: "nat \<Rightarrow> 'w setting \<Rightarrow> string \<Rightarrow> ('w st, unit) act" where
  \<comment> \<open>Three attempts.\<close>
  "open_files 0 se n = send (se_srv se) (OpenFiles n)"
| "open_files (Suc k) se n = tried (send (se_srv se) (OpenFiles n)) (\<lambda>r. case r of Inr u \<Rightarrow> ret u | Inl e \<Rightarrow> open_files k se n)"

definition start :: "'w setting \<Rightarrow> string \<Rightarrow> options \<Rightarrow> ('w st, unit) act" where
  "start se n o1 =
     of_inst n (\<lambda>i. if is_running i then ret ()
       else and_then
         (if op_healthd o1 \<and> map_of (info_config i) (HealthKeyPrefix @ ''daemon'') = None
          then waitForDependencies se (i_deps i) else ret ()) (\<lambda>_.
         and_then (fetch se n) (\<lambda>_.
         and_then (wrap ErrCreate (open_files 2 se n)) (\<lambda>_.
         and_then (push_files se n (i_files i)) (\<lambda>_. of_inst n (\<lambda>i.
           if is_running i then fail [ErrRunning]
           else and_then (waitBusyOperation se n) (\<lambda>_.
                and_then (fetch se n) (\<lambda>_. of_inst n (\<lambda>i.
                  if is_running i then fail [ErrRunning]
                  else and_then (wrap ErrOperation (retryBusy 9 se n
                           (wrap ErrOperation (send (se_srv se) (PutState n ''start'' False (incusTimeout o1)))))) (\<lambda>_.
                       and_then (wrap ErrOperation (fetch se n)) (\<lambda>_. of_inst n (\<lambda>i.
                         if is_running i then ret () else fail [ErrNotRunning]))))))))))))"

fun healthd_up :: "nat \<Rightarrow> 'w setting \<Rightarrow> ('w st, unit) act" where
  "healthd_up 0 se = send (se_srv se) HealthdRunning"
| "healthd_up (Suc k) se = tried (send (se_srv se) HealthdRunning) (\<lambda>r. case r of Inr u \<Rightarrow> ret u | Inl e \<Rightarrow> healthd_up k se)"

fun all_of :: "('w st, unit) act list \<Rightarrow> ('w st, unit) act" where
  "all_of [] = ret ()"
| "all_of (m # ms) = and_then m (\<lambda>_. all_of ms)"

definition Start :: "'w setting \<Rightarrow> string \<Rightarrow> options \<Rightarrow> ('w st, unit) act list \<Rightarrow> ('w st, unit) act list \<Rightarrow> ('w st, unit) act" where
  \<comment> \<open>\<open>pre\<close> and \<open>post\<close>: the containers run before and the commands after, in order.\<close>
  "Start se n o1 pre post =
     guarded se ActionStart n (of_inst n (\<lambda>i.
       finish se ActionStart
         (if i_state i = None then fail [ErrNotEnsured]
          else if is_running i then and_then (setHealthCheckingStopped se n False) (\<lambda>_. fail [ErrRunning])
          else
            (let hasTest = (map_of (info_config i) (HealthKeyPrefix @ ''test'') \<noteq> None);
                 restart = (cfg_get (info_config i) (HealthKeyPrefix @ ''restart'') \<in> set RestartPolicies);
                 isHealthd = se_isTrue se (cfg_get (info_config i) (HealthKeyPrefix @ ''daemon''));
                 watched = (\<not> isHealthd \<and> (hasTest \<or> restart) \<and> op_healthd o1)
             in and_then (if watched \<and> \<not> op_external o1 then healthd_up 5 se else ret ()) (\<lambda>_.
                and_then (setHealthCheckingStopped se n False) (\<lambda>_.
                and_then (all_of pre) (\<lambda>_.
                and_then (start se n o1) (\<lambda>_.
                and_then (all_of post) (\<lambda>_.
                  if watched then tried (waitForHealthCheck se n) (case_sum (\<lambda>e. fail [Plain 2]) ret) else ret ())))))))))"

definition Run :: "'w setting \<Rightarrow> string \<Rightarrow> options \<Rightarrow> ('w st, unit) act" where
  \<comment> \<open>A container that runs one command to its end; its exit code is the answer to the exec, \<open>fail\<close> for any but zero.\<close>
  "Run se n o1 =
     and_then (with_tools se n) (\<lambda>_.
     and_then (Ensure se n (new_options\<lparr>op_create := True, op_healthd := False\<rparr>)) (\<lambda>_.
     tried (Start se n (o1\<lparr>op_healthd := False\<rparr>) [] []) (\<lambda>r.
       case (case r of Inr u \<Rightarrow> None | Inl e \<Rightarrow> if is_err ErrRunning e then None else Some e) of
         Some e \<Rightarrow> fail e
       | None \<Rightarrow> of_inst n (\<lambda>i.
           let cleanup = (\<lambda>m. tried (Stop se n (new_options\<lparr>op_force := True, op_healthd := False\<rparr>)) (\<lambda>_. m))
           in if i_command i = [] then cleanup (fail [Plain 3])
              else tried (send (se_srv se) (ExecInstance n (i_command i))) (\<lambda>r2. case r2 of
                     Inl e \<Rightarrow> cleanup (fail e)
                   | Inr u \<Rightarrow> cleanup (tried (Delete se n (new_options\<lparr>op_force := True, op_healthd := False\<rparr>)) (\<lambda>_. ret ())))))))"

end
