(* ===== verification/InstanceTrace.thy ===== *)
theory InstanceTrace
  imports InstanceRun
begin

text \<open>
  What the actions on an instance (\<open>client/resource_instance.go\<close>) do to the server, read off
  the log.  A predicate per question with one rule for each combinator: what every
  new entry of the log satisfies (\<open>within\<close>) and what a success has put there (\<open>shows\<close>).
\<close>

subsection \<open>What an action adds to the log\<close>

abbreviation within :: "(entry \<Rightarrow> bool) \<Rightarrow> ('w st, 'a) act \<Rightarrow> bool" where "within \<equiv> logs_within st_log"

abbreviation shows_ok :: "(entry \<Rightarrow> bool) \<Rightarrow> ('w st, 'a) act \<Rightarrow> bool" where "shows_ok \<equiv> logs_ok st_log"

lemma within_of_inst [within_intros]: "(\<And>i. within A (f i)) \<Longrightarrow> within A (of_inst n f)"
  unfolding of_inst_def by (intro within_intros)

lemma within_set_inst [within_intros]: "within A (set_inst n f)"
  unfolding set_inst_def by (rule within_changing) simp

lemma within_send [within_intros]: "(\<And>e. A (Sent q e)) \<Longrightarrow> within A (send srv q)"
  by (simp add: logs_within_def send_def split: prod.split)

lemma within_get_vm [within_intros]: "(\<And>r. A (Got n r)) \<Longrightarrow> within A (get_vm srv n)"
  by (simp add: logs_within_def get_vm_def split: prod.split)

lemma within_after [within_intros]: "within A (after se a r x)"
  unfolding after_def by (cases r) (auto intro: within_intros)

lemma within_finish [within_intros]: "within A m \<Longrightarrow> within A (finish se a m)"
  unfolding finish_def by (intro within_intros)

lemma within_guarded [within_intros]: "within A m \<Longrightarrow> within A (guarded se a n m)"
  unfolding guarded_def by (intro within_intros)

subsection \<open>The parts\<close>

lemma within_fetch_state [within_intros]:
  "(\<And>r. A (Got n r)) \<Longrightarrow> (\<And>e. A (Sent (GetState n) e)) \<Longrightarrow> within A (fetch_state se n)"
  unfolding fetch_state_def by (intro within_intros)

lemma within_fetch [within_intros]:
  "(\<And>r. A (Got n r)) \<Longrightarrow> (\<And>e. A (Sent (GetState n) e)) \<Longrightarrow> within A (fetch se n)"
  unfolding fetch_def by (intro within_intros)

lemma within_waitBusy [within_intros]:
  "(\<And>e. A (Sent (WaitBusy n) e)) \<Longrightarrow> within A (waitBusyOperation se n)"
  unfolding waitBusyOperation_def by (intro within_intros)

lemma within_retryBusy [within_intros]:
  "(\<And>e. A (Sent (WaitBusy n) e)) \<Longrightarrow> within A write \<Longrightarrow> within A (retryBusy k se n write)"
  by (induction k) (auto intro!: within_intros)

lemma within_patchConfig [within_intros]:
  "(\<And>r. A (Got n r)) \<Longrightarrow> (\<And>e. A (Sent (GetState n) e)) \<Longrightarrow> (\<And>e. A (Sent (WaitBusy n) e)) \<Longrightarrow>
   (\<And>e. A (Sent (PatchConfig n c) e)) \<Longrightarrow> within A (patchConfig se n c)"
  unfolding patchConfig_def by (intro within_intros)

subsection \<open>What a success has put into the log\<close>

lemma shows_send: "A (Sent q None) \<Longrightarrow> shows_ok A (send srv q)"
  by (auto simp: logs_ok_def send_def split: prod.splits option.splits)

lemma shows_of_inst: "(\<And>i. shows_ok A (f i)) \<Longrightarrow> shows_ok A (of_inst n f)"
  unfolding logs_ok_def of_inst_def reading_def by blast



lemma shows_retryBusy:
  assumes "shows_ok A write" "within (\<lambda>_. True) write"
  shows "shows_ok A (retryBusy k se n write)"
proof (induction k)
  case 0
  show ?case unfolding retryBusy.simps by (intro shows_second within_intros assms TrueI)
next
  case (Suc k)
  let ?once = "and_then (waitBusyOperation se n) (\<lambda>_. write)"
  have once: "shows_ok A ?once" by (intro shows_second within_intros assms TrueI)
  have all: "within (\<lambda>_. True) ?once" by (intro within_intros assms TrueI)
  show ?case unfolding logs_ok_def
  proof (intro allI impI)
    fix s x s'
    assume r: "retryBusy (Suc k) se n write s = (Inr x, s')"
    obtain r1 s1 where t: "?once s = (r1, s1)" by fastforce
    show "\<exists>tr. st_log s' = st_log s @ tr \<and> list_ex A tr"
    proof (cases r1)
      case (Inr u)
      then show ?thesis using r t once unfolding logs_ok_def by (auto simp: tried_def ret_def)
    next
      case (Inl e)
      then have "retryBusy k se n write s1 = (Inr x, s')" using r t by (auto simp: tried_def fail_def split: if_splits)
      then obtain t2 where "st_log s' = st_log s1 @ t2" "list_ex A t2" using Suc unfolding logs_ok_def by blast
      moreover obtain t1 where "st_log s1 = st_log s @ t1" using within_log [OF all t] by blast
      ultimately show ?thesis by (intro exI [of _ "t1 @ t2"]) simp
    qed
  qed
qed

lemma fetch_state_ok:
  assumes "fetch_state se n s = (Inr x, s')"
  shows "st_log s' = st_log s @ [Got n (Inr (fst x)), Sent (GetState n) None] \<and> st_insts s' = st_insts s"
proof -
  obtain r w where g: "in_get (se_srv se) n (st_world s) = (r, w)" by fastforce
  obtain v where r: "r = Inr v"
    using assms g by (cases r) (auto simp: fetch_state_def and_then_def tried_def get_vm_def fail_def)
  show ?thesis using assms g r
    by (auto simp: fetch_state_def and_then_def tried_def get_vm_def fail_def of_inst_def reading_def ret_def send_def
        split: option.splits prod.splits if_splits sum.splits)
qed

lemma fetch_ok:
  assumes "fetch se n s = (Inr u, s')"
  obtains v ids where "st_log s' = st_log s @ [Got n (Inr v), Sent (GetState n) None]"
    "st_insts s' = (st_insts s)(n := (st_insts s n)\<lparr>i_state := Some (v, ids)\<rparr>)"
proof -
  obtain x s1 where 1: "fetch_state se n s = (Inr x, s1)"
    and 2: "set_inst n (\<lambda>i. i\<lparr>i_state := Some x\<rparr>) s1 = (Inr u, s')"
    using assms unfolding fetch_def by (rule and_then_ok)
  show ?thesis using fetch_state_ok [OF 1] 2 that [of "fst x" "snd x"] by (auto simp: set_inst_def changing_def)
qed

subsection \<open>A stop is marked as meant before it is asked for\<close>

fun asks_halt :: "string \<Rightarrow> entry \<Rightarrow> bool" where
  "asks_halt n (Sent (PutState m a forced t) e) \<longleftrightarrow> m = n \<and> (a = ''stop'' \<or> a = ''freeze'')"
| "asks_halt n e \<longleftrightarrow> False"

fun says_marked :: "string \<Rightarrow> entry \<Rightarrow> bool" where
  "says_marked n (Got m (Inr v)) \<longleftrightarrow> m = n \<and> cfg_get (vm_config v) HealthStoppedKey = ''true''"
| "says_marked n (Sent (PatchConfig m c) None) \<longleftrightarrow> m = n \<and> cfg_get c HealthStoppedKey = ''true''"
| "says_marked n e \<longleftrightarrow> False"

fun marked_first :: "string \<Rightarrow> entry list \<Rightarrow> bool" where
  \<comment> \<open>Nothing asks for a halt before something has said that it is meant.\<close>
  "marked_first n [] \<longleftrightarrow> True"
| "marked_first n (e # es) \<longleftrightarrow> \<not> asks_halt n e \<and> (says_marked n e \<or> marked_first n es)"

definition marks :: "string \<Rightarrow> ('w st, 'a) act \<Rightarrow> bool" where
  "marks n m \<longleftrightarrow> (\<forall>s. \<exists>tr. st_log (snd (m s)) = st_log s @ tr \<and> marked_first n tr)"

lemma marked_first_quiet: "list_all (\<lambda>e. \<not> asks_halt n e) tr \<Longrightarrow> marked_first n tr"
  by (induction tr) auto

lemma marked_first_append:
  "list_all (\<lambda>e. \<not> asks_halt n e) t1 \<Longrightarrow> list_ex (says_marked n) t1 \<or> marked_first n t2 \<Longrightarrow> marked_first n (t1 @ t2)"
  by (induction t1) auto

lemma marks_quiet: "within (\<lambda>e. \<not> asks_halt n e) m \<Longrightarrow> marks n m"
  unfolding logs_within_def marks_def using marked_first_quiet by blast

lemma marks_and_then:
  assumes quiet: "within (\<lambda>e. \<not> asks_halt n e) m" and marked: "shows_ok (says_marked n) m"
    and rest: "\<And>x. within (\<lambda>_. True) (f x)"
  shows "marks n (and_then m f)"
  unfolding marks_def
proof
  fix s
  obtain r s1 where m: "m s = (r, s1)" by fastforce
  obtain t1 where t1: "st_log s1 = st_log s @ t1" "list_all (\<lambda>e. \<not> asks_halt n e) t1"
    using within_log [OF quiet m] by blast
  show "\<exists>tr. st_log (snd (and_then m f s)) = st_log s @ tr \<and> marked_first n tr"
  proof (cases r)
    case (Inl e)
    then show ?thesis using m t1 marked_first_quiet by (auto simp: and_then_def tried_def fail_def)
  next
    case (Inr x)
    obtain t2 where t2: "st_log (snd (f x s1)) = st_log s1 @ t2" using rest [of x] unfolding logs_within_def by blast
    have "list_ex (says_marked n) t1" using marked m Inr t1(1) unfolding logs_ok_def by force
    then show ?thesis using m Inr t1 t2
      by (intro exI [of _ "t1 @ t2"]) (simp add: and_then_def tried_def marked_first_append)
  qed
qed

lemma marks_of_inst: "(\<And>i. marks n (f i)) \<Longrightarrow> marks n (of_inst m f)"
  unfolding marks_def of_inst_def reading_def by blast

lemma marks_finish: "marks n m \<Longrightarrow> marks n (finish se a m)"
  unfolding marks_def finish_def tried_def after_def fail_def ret_def
  by (auto split: prod.splits sum.splits if_splits) (metis snd_conv)+

lemma marks_guarded: "marks n m \<Longrightarrow> marks n (guarded se a k m)"
  unfolding guarded_def by (auto split: option.split intro: marks_quiet within_fail)

lemma marks_if: "(c \<Longrightarrow> marks n m) \<Longrightarrow> (\<not> c \<Longrightarrow> marks n k) \<Longrightarrow> marks n (if c then m else k)"
  by simp

lemmas marks_intros = marks_guarded marks_of_inst marks_finish marks_if marks_and_then

lemma setHealthCheckingStopped_quiet: "within (\<lambda>e. \<not> asks_halt n e) (setHealthCheckingStopped se n b)"
  unfolding setHealthCheckingStopped_def Let_def by (intro within_intros) auto

lemma setHealthCheckingStopped_marks: "shows_ok (says_marked n) (setHealthCheckingStopped se n True)"
  unfolding logs_ok_def
proof (intro allI impI)
  fix s s' :: "'a st" and u :: unit
  assume "setHealthCheckingStopped se n True s = (Inr u, s')"
  then obtain y s1 where f: "fetch se n s = (Inr y, s1)"
    and rest: "(if cfg_get (info_config (st_insts s1 n)) HealthStoppedKey = ''true'' then ret ()
                else patchConfig se n [(HealthStoppedKey, ''true'')]) s1 = (Inr u, s')"
    unfolding setHealthCheckingStopped_def by (rule and_then_ok) (simp add: of_inst_def reading_def Let_def)
  obtain v ids where s1: "st_log s1 = st_log s @ [Got n (Inr v), Sent (GetState n) None]"
    "st_insts s1 = (st_insts s)(n := (st_insts s n)\<lparr>i_state := Some (v, ids)\<rparr>)" using f by (rule fetch_ok)
  show "\<exists>tr. st_log s' = st_log s @ tr \<and> list_ex (says_marked n) tr"
  proof (cases "cfg_get (vm_config v) HealthStoppedKey = ''true''")
    case True
    then show ?thesis using rest s1 by (simp add: info_config_def ret_def)
  next
    case False
    have "shows_ok (says_marked n) (patchConfig se n [(HealthStoppedKey, ''true'')])"
      unfolding patchConfig_def
      by (intro shows_first shows_retryBusy shows_send within_intros TrueI) (simp add: cfg_get_def)
    moreover have "patchConfig se n [(HealthStoppedKey, ''true'')] s1 = (Inr u, s')"
      using rest s1 False by (simp add: info_config_def)
    ultimately obtain t2 where "st_log s' = st_log s1 @ t2" "list_ex (says_marked n) t2"
      unfolding logs_ok_def by blast
    then show ?thesis using s1 by (intro exI [of _ "[Got n (Inr v), Sent (GetState n) None] @ t2"]) simp
  qed
qed

lemma within_stop [within_intros]:
  "(\<And>r. A (Got n r)) \<Longrightarrow> (\<And>e. A (Sent (GetState n) e)) \<Longrightarrow> (\<And>e. A (Sent (WaitBusy n) e)) \<Longrightarrow>
   (\<And>f t e. A (Sent (PutState n ''stop'' f t) e)) \<Longrightarrow> within A (stop se n o1)"
  unfolding stop_def requestStop_def by (intro within_intros) (auto split: sum.split intro!: within_intros)

lemma within_freeze [within_intros]:
  "(\<And>r. A (Got n r)) \<Longrightarrow> (\<And>e. A (Sent (GetState n) e)) \<Longrightarrow> (\<And>e. A (Sent (WaitBusy n) e)) \<Longrightarrow>
   (\<And>t e. A (Sent (PutState n (if thaw then ''unfreeze'' else ''freeze'') False t) e)) \<Longrightarrow> within A (freeze se n thaw)"
  unfolding freeze_def by (intro within_intros)

text \<open>
  C5.  Whatever the server answers, \<open>Stop\<close> and \<open>Pause\<close> ask for no halt of the instance before
  the server has shown or accepted the mark that says the halt is meant, so the health daemon
  never sees an instance go that it has to take for a crash.
\<close>
theorem halt_is_marked_before_it_is_asked:
  "(\<exists>tr. st_log (snd (Stop se n o1 s)) = st_log s @ tr \<and> marked_first n tr) \<and>
   (\<exists>tr. st_log (snd (Pause se n o1 s)) = st_log s @ tr \<and> marked_first n tr)"
proof -
  have "marks n (Stop se n o1)" unfolding Stop_def
    by (intro marks_intros setHealthCheckingStopped_quiet setHealthCheckingStopped_marks within_if within_fail within_stop TrueI
        marks_quiet [OF within_fail])
  moreover have "marks n (Pause se n o1)" unfolding Pause_def
    by (intro marks_intros setHealthCheckingStopped_quiet setHealthCheckingStopped_marks within_fail within_freeze TrueI
        marks_quiet [OF within_fail])
  ultimately show ?thesis unfolding marks_def by blast
qed

subsection \<open>What a stop that succeeds has seen\<close>

fun stop_seen :: "string \<Rightarrow> entry \<Rightarrow> bool" where
  \<comment> \<open>The server took a request to stop, or answered that the instance does not run.\<close>
  "stop_seen n (Sent (PutState m a forced t) None) \<longleftrightarrow> m = n \<and> a = ''stop''"
| "stop_seen n (Got m (Inr v)) \<longleftrightarrow> m = n \<and> vm_status v \<noteq> Running"
| "stop_seen n e \<longleftrightarrow> False"

lemma shows_requestStop: "shows_ok (stop_seen n) (requestStop se n o1 forced)"
  unfolding requestStop_def by (intro shows_retryBusy shows_wrap shows_send within_intros TrueI) simp

lemma within_requestStop [within_intros]:
  "(\<And>e. A (Sent (WaitBusy n) e)) \<Longrightarrow> (\<And>t e. A (Sent (PutState n ''stop'' forced t) e)) \<Longrightarrow> within A (requestStop se n o1 forced)"
  unfolding requestStop_def by (intro within_intros)

lemma shows_fetch_unless_running:
  assumes "\<And>x. shows_ok (stop_seen n) (f x)" "\<And>x. within (\<lambda>_. True) (f x)"
  shows "shows_ok (stop_seen n)
    (and_then (fetch se n) (\<lambda>_. of_inst n (\<lambda>i. if \<not> is_running i then ret () else f i)))"
  unfolding logs_ok_def
proof (intro allI impI)
  fix s s' :: "'a st" and u :: unit
  assume "and_then (fetch se n) (\<lambda>_. of_inst n (\<lambda>i. if \<not> is_running i then ret () else f i)) s = (Inr u, s')"
  then obtain y s1 where y: "fetch se n s = (Inr y, s1)"
    and rest: "(if \<not> is_running (st_insts s1 n) then ret () else f (st_insts s1 n)) s1 = (Inr u, s')"
    by (rule and_then_ok) (simp add: of_inst_def reading_def)
  obtain v ids where s1: "st_log s1 = st_log s @ [Got n (Inr v), Sent (GetState n) None]"
    "st_insts s1 = (st_insts s)(n := (st_insts s n)\<lparr>i_state := Some (v, ids)\<rparr>)" using y by (rule fetch_ok)
  show "\<exists>tr. st_log s' = st_log s @ tr \<and> list_ex (stop_seen n) tr"
  proof (cases "is_running (st_insts s1 n)")
    case False
    then show ?thesis using rest s1 by (auto simp: ret_def is_running_def)
  next
    case True
    then have r: "f (st_insts s1 n) s1 = (Inr u, s')" using rest by simp
    then obtain t2 where "st_log s' = st_log s1 @ t2" "list_ex (stop_seen n) t2"
      using assms(1) [of "st_insts s1 n"] unfolding logs_ok_def by blast
    then show ?thesis using s1 by (intro exI [of _ "[Got n (Inr v), Sent (GetState n) None] @ t2"]) simp
  qed
qed

lemma shows_tried:
  assumes "within (\<lambda>_. True) m" "\<And>e. shows_ok A (f (Inl e))" "shows_ok A m" "\<And>x. within (\<lambda>_. True) (f (Inr x))"
  shows "shows_ok A (tried m f)"
  unfolding logs_ok_def
proof (intro allI impI)
  fix s x s'
  assume t: "tried m f s = (Inr x, s')"
  obtain r s1 where m: "m s = (r, s1)" by fastforce
  then have f: "f r s1 = (Inr x, s')" using t by (simp add: tried_def)
  obtain t1 where t1: "st_log s1 = st_log s @ t1" using within_log [OF assms(1) m] by blast
  show "\<exists>tr. st_log s' = st_log s @ tr \<and> list_ex A tr"
  proof (cases r)
    case (Inl e)
    then obtain t2 where "st_log s' = st_log s1 @ t2" "list_ex A t2"
      using assms(2) [of e] f unfolding logs_ok_def by blast
    then show ?thesis using t1 by (intro exI [of _ "t1 @ t2"]) simp
  next
    case (Inr y)
    obtain t0 where "st_log s1 = st_log s @ t0" "list_ex A t0" using assms(3) m Inr unfolding logs_ok_def by blast
    moreover obtain t2 where "st_log s' = st_log s1 @ t2" using within_log [OF assms(4) f [unfolded Inr]] by blast
    ultimately show ?thesis by (intro exI [of _ "t0 @ t2"]) simp
  qed
qed

definition graceful :: "'w setting \<Rightarrow> string \<Rightarrow> options \<Rightarrow> ('w st, unit) act" where
  \<comment> \<open>The rest of \<open>stop\<close> once the instance was read as running.\<close>
  "graceful se n o1 =
     tried (requestStop se n o1 (op_force o1)) (\<lambda>r. case r of
       Inr u \<Rightarrow> fetch se n
     | Inl e \<Rightarrow>
         if op_force o1 then fail e
         else tried (fetch se n) (\<lambda>r2. case r2 of
                Inl e2 \<Rightarrow> fail (e @ e2)
              | Inr u \<Rightarrow> of_inst n (\<lambda>i.
                  if \<not> is_running i then ret ()
                  else and_then (requestStop se n o1 True) (\<lambda>_. fetch se n))))"

lemma tried_fetch_then:
  "tried m (\<lambda>r. case r of Inl e2 \<Rightarrow> fail (e @ e2) | Inr u \<Rightarrow> f u) s = (Inr x, s') \<longleftrightarrow>
   and_then m f s = (Inr x, s')"
  by (cases "m s"; cases "fst (m s)") (auto simp: tried_def and_then_def fail_def)

lemma shows_graceful: "shows_ok (stop_seen n) (graceful se n o1)"
proof -
  let ?kill = "\<lambda>_ :: unit. of_inst n (\<lambda>i. if \<not> is_running i then ret () else and_then (requestStop se n o1 True) (\<lambda>_. fetch se n))"
  have "shows_ok (stop_seen n) (and_then (fetch se n) ?kill)"
    by (rule shows_fetch_unless_running; intro shows_first shows_requestStop within_intros TrueI)
  then have "shows_ok (stop_seen n) (tried (fetch se n) (\<lambda>r2. case r2 of Inl e2 \<Rightarrow> fail (e @ e2) | Inr u \<Rightarrow> ?kill u))" for e
    unfolding logs_ok_def tried_fetch_then .
  then show ?thesis unfolding graceful_def
    by (intro shows_tried) (auto intro!: shows_requestStop shows_fail within_requestStop within_fetch simp: shows_if)
qed

lemma within_graceful: "within (\<lambda>_. True) (graceful se n o1)"
  unfolding graceful_def by (intro within_intros TrueI)

lemma stop_graceful:
  "stop se n o1 = of_inst n (\<lambda>i. if \<not> is_running i then ret ()
     else and_then (waitBusyOperation se n) (\<lambda>_. and_then (fetch se n) (\<lambda>_. of_inst n (\<lambda>i.
       if \<not> is_running i then ret () else graceful se n o1))))"
  unfolding stop_def graceful_def ..

lemma of_inst_apply: "of_inst n f s = f (st_insts s n) s"
  by (simp add: of_inst_def reading_def)

lemma stop_ok:
  assumes "stop se n o1 s = (Inr u, s')"
  shows "(\<not> is_running (st_insts s n) \<and> s' = s) \<or> (\<exists>tr. st_log s' = st_log s @ tr \<and> list_ex (stop_seen n) tr)"
proof (cases "is_running (st_insts s n)")
  case False
  then show ?thesis using assms by (simp add: stop_def of_inst_def reading_def ret_def)
next
  case True
  let ?busy = "and_then (waitBusyOperation se n) (\<lambda>_. and_then (fetch se n) (\<lambda>_. of_inst n (\<lambda>i.
    if \<not> is_running i then ret () else graceful se n o1)))"
  have "?busy s = (Inr u, s')"
    using assms True unfolding stop_graceful of_inst_apply by (simp add: True)
  moreover have "shows_ok (stop_seen n) ?busy"
    by (intro shows_second shows_fetch_unless_running shows_graceful within_graceful within_waitBusy TrueI)
  ultimately show ?thesis unfolding logs_ok_def by blast
qed

definition published :: "string \<Rightarrow> 'w st \<Rightarrow> 'w st \<Rightarrow> bool" where
  \<comment> \<open>The instance's state is one the server answered in between.\<close>
  "published n s s' \<longleftrightarrow>
     (\<exists>tr v ids. st_log s' = st_log s @ tr \<and> Got n (Inr v) \<in> set tr \<and> i_state (st_insts s' n) = Some (v, ids))"

lemma fetch_published: "fetch se n s = (Inr u, s') \<Longrightarrow> published n s s'"
  unfolding published_def by (erule fetch_ok) auto

lemma published_after:
  assumes "within (\<lambda>_. True) m" "m s = (r, s1)" "published n s1 s'"
  shows "published n s s'"
proof -
  obtain t1 where "st_log s1 = st_log s @ t1" using within_log [OF assms(1,2)] by blast
  then show ?thesis using assms(3) unfolding published_def by (metis Un_iff append.assoc set_append)
qed

lemma patchConfig_published:
  assumes "patchConfig se n c s = (Inr u, s')"
  shows "published n s s'"
proof -
  obtain y s1 where m: "retryBusy 9 se n (send (se_srv se) (PatchConfig n c)) s = (Inr y, s1)"
    and f: "fetch se n s1 = (Inr u, s')" using assms unfolding patchConfig_def by (rule and_then_ok)
  have "within (\<lambda>_. True) (retryBusy 9 se n (send (se_srv se) (PatchConfig n c)))" by (intro within_intros TrueI)
  then show ?thesis using m fetch_published [OF f] by (rule published_after)
qed

lemma setHealthCheckingStopped_published:
  assumes "setHealthCheckingStopped se n b s = (Inr u, s')"
  shows "published n s s'"
proof -
  obtain y s1 where f: "fetch se n s = (Inr y, s1)"
    and rest: "(let v = if b then ''true'' else ''false'' in
      if cfg_get (info_config (st_insts s1 n)) HealthStoppedKey = v then ret ()
      else patchConfig se n [(HealthStoppedKey, v)]) s1 = (Inr u, s')"
    using assms unfolding setHealthCheckingStopped_def by (rule and_then_ok) (simp add: of_inst_apply)
  show ?thesis
  proof (cases "cfg_get (info_config (st_insts s1 n)) HealthStoppedKey = (if b then ''true'' else ''false'')")
    case True
    then show ?thesis using rest fetch_published [OF f] by (simp add: Let_def ret_def)
  next
    case False
    then have "published n s1 s'" using rest by (intro patchConfig_published) (simp add: Let_def)
    moreover have "within (\<lambda>_. True) (fetch se n)" by (intro within_intros TrueI)
    ultimately show ?thesis using f published_after by blast
  qed
qed

lemma finish_ok:
  assumes "finish se a m s = (Inr u, s')" "\<forall>(b, k) \<in> set (se_ignored se). b \<noteq> a"
  shows "m s = (Inr (), s')"
proof -
  obtain r s1 where m: "m s = (r, s1)" by fastforce
  have "\<not> list_ex (\<lambda>(b, k). b = a \<and> is_err k e) (se_ignored se)" for e
    using assms(2) by (auto simp: list_ex_iff)
  then show ?thesis using assms(1) m
    by (cases r) (auto simp: finish_def tried_def after_def ret_def fail_def)
qed

definition vm_of :: "vm_status \<Rightarrow> cfg \<Rightarrow> vm" where
  "vm_of status config = \<lparr>vm_status = status, vm_config = config, vm_container = True, vm_devices = [], vm_location = []\<rparr>"

definition agreeable :: "vm_status \<Rightarrow> unit incus" where
  \<comment> \<open>A server that has every instance, in one status, and does what it is asked.\<close>
  "agreeable status = \<lparr>in_get = (\<lambda>n w. (Inr (vm_of status []), w)), in_send = (\<lambda>q w. (None, w))\<rparr>"

definition demo_setting_of :: "'w incus \<Rightarrow> (action_kind \<times> sentinel) list \<Rightarrow> 'w setting" where
  "demo_setting_of srv ignored =
     \<lparr>se_srv = srv, se_before = (\<lambda>a n. None), se_ignored = ignored, se_fingerprint = (\<lambda>f. f),
      se_images = (\<lambda>n. None), se_resolve = (\<lambda>n u. Inr (0, 0)), se_ensured = (\<lambda>n. True), se_pool = ''default'',
      se_tools = bare_device ''tools'' ''disk'', se_tools_entry = ''/tools/sleep'', se_slug = (\<lambda>s. s), se_incus_name = (\<lambda>s. s),
      se_hooks_fixed = True, se_quote = concat, se_isTrue = (\<lambda>s. s = ''true''), se_isFalse = (\<lambda>s. s = ''false''), se_rounds = 3\<rparr>"

abbreviation demo_setting :: "vm_status \<Rightarrow> (action_kind \<times> sentinel) list \<Rightarrow> unit setting" where
  "demo_setting status \<equiv> demo_setting_of (agreeable status)"

definition demo_inst :: "vm_status option \<Rightarrow> bool \<Rightarrow> inst" where
  "demo_inst status marked =
     \<lparr>i_service = ''web'', i_image = ''docker.io/nginx'', i_container = True, i_hash = [], i_resources = [], i_profile_roots = [],
      i_devices = [], i_extra = None, i_noroot = False, i_files = [], i_ext = [], i_deps = [], i_entrypoint = None,
      i_command = [], i_noauto = True, i_owner = Some (0, 0), i_user = [], i_target = [], i_cwd = [], i_ignore = False,
      i_marked = marked, i_created = False, i_state = map_option (\<lambda>x. (vm_of x [], 0, 0)) status\<rparr>"

definition demo_state_of :: "'w \<Rightarrow> vm_status option \<Rightarrow> bool \<Rightarrow> 'w st" where
  "demo_state_of world status marked =
     \<lparr>st_world = world, st_log = [], st_insts = (\<lambda>n. demo_inst status marked), st_held = [''web-1'', ''web-2''], st_volumes = []\<rparr>"

abbreviation demo_state :: "vm_status option \<Rightarrow> bool \<Rightarrow> unit st" where "demo_state \<equiv> demo_state_of ()"

text \<open>
  C10.  A \<open>Stop\<close> that answers success, where no error is ignored, has evidence for it: the server
  took a request to stop the instance, or answered that it does not run.
\<close>
theorem stop_has_evidence:
  assumes "\<forall>(b, k) \<in> set (se_ignored se). b \<noteq> ActionStop" "Stop se n o1 s = (Inr u, s')"
  shows "\<exists>tr. st_log s' = st_log s @ tr \<and> list_ex (stop_seen n) tr"
proof -
  let ?i = "st_insts s n"
  have g: "finish se ActionStop (if i_state ?i = None then fail [ErrNotEnsured]
      else and_then (setHealthCheckingStopped se n True)
        (\<lambda>_. if \<not> is_running ?i then fail [ErrNotRunning] else stop se n o1)) s = (Inr u, s')"
    using assms(2) unfolding Stop_def guarded_def of_inst_apply by (auto simp: fail_def of_inst_apply split: option.splits)
  then have "and_then (setHealthCheckingStopped se n True)
      (\<lambda>_. if \<not> is_running ?i then fail [ErrNotRunning] else stop se n o1) s = (Inr (), s')"
    using finish_ok [OF g assms(1)] by (auto simp: fail_def split: if_splits)
  then obtain y s1 where m: "setHealthCheckingStopped se n True s = (Inr y, s1)" and st: "stop se n o1 s1 = (Inr (), s')"
    by (rule and_then_ok) (auto simp: fail_def split: if_splits)
  obtain t1 v ids where t1: "st_log s1 = st_log s @ t1" "Got n (Inr v) \<in> set t1" "i_state (st_insts s1 n) = Some (v, ids)"
    using setHealthCheckingStopped_published [OF m] unfolding published_def by blast
  from stop_ok [OF st] show ?thesis
  proof
    assume "\<not> is_running (st_insts s1 n) \<and> s' = s1"
    then show ?thesis using t1 by (intro exI [of _ t1]) (force simp: is_running_def list_ex_iff)
  next
    assume "\<exists>tr. st_log s' = st_log s1 @ tr \<and> list_ex (stop_seen n) tr"
    then show ?thesis using t1 by auto
  qed
qed

lemma stop_has_evidence_witness:
  "\<exists>tr. st_log (snd (Stop (demo_setting Running []) ''web-1'' new_options (demo_state (Some Running) False))) = tr \<and>
     list_ex (stop_seen ''web-1'') tr"
proof -
  let ?s = "demo_state (Some Running) False"
  let ?m = "Stop (demo_setting Running []) ''web-1'' new_options ?s"
  have "fst ?m = Inr ()" by code_simp
  then have r: "?m = (Inr (), snd ?m)" by (metis prod.collapse)
  have i: "\<forall>(b, k) \<in> set (se_ignored (demo_setting Running [])). b \<noteq> ActionStop" by (simp add: demo_setting_of_def)
  show ?thesis using stop_has_evidence [OF i r] by (simp add: demo_state_of_def)
qed

text \<open>
  C14.  A paused instance is left as it is by \<open>Stop\<close>: once the mark is set, the action answers
  \<open>ErrNotRunning\<close>, which \<open>stop\<close> and \<open>down\<close> ignore, so it counts as stopped though no stop was asked
  for and its processes stay in memory.
\<close>
theorem paused_instance_is_left_by_stop:
  assumes "is_frozen (st_insts s n)" "se_before se ActionStop n = None" "(ActionStop, ErrNotRunning) \<in> set (se_ignored se)"
    "fst (setHealthCheckingStopped se n True s) = Inr ()"
  shows "fst (Stop se n o1 s) = Inr () \<and>
    (\<exists>tr. st_log (snd (Stop se n o1 s)) = st_log s @ tr \<and> list_all (\<lambda>e. \<not> asks_halt n e) tr)"
proof -
  let ?m = "setHealthCheckingStopped se n True"
  obtain v ids where i: "i_state (st_insts s n) = Some (v, ids)" "vm_status v = Frozen"
    using assms(1) by (auto simp: is_frozen_def split: option.splits prod.splits)
  then have nr: "\<not> is_running (st_insts s n)" by (simp add: is_running_def)
  obtain s1 where m: "?m s = (Inr (), s1)" using assms(4) by (metis prod.collapse)
  have ig: "list_ex (\<lambda>(b, k). b = ActionStop \<and> is_err k [ErrNotRunning]) (se_ignored se)"
    using assms(3) by (auto simp: list_ex_iff is_err_def)
  have "Stop se n o1 s = (Inr (), s1)"
    using assms(2) i nr m ig
    by (simp add: Stop_def guarded_def of_inst_apply finish_def tried_def and_then_def fail_def after_def ret_def)
  moreover obtain tr where "st_log s1 = st_log s @ tr" "list_all (\<lambda>e. \<not> asks_halt n e) tr"
    using within_log [OF setHealthCheckingStopped_quiet m] by blast
  ultimately show ?thesis by simp
qed

lemma paused_instance_is_left_by_stop_witness:
  "fst (Stop (demo_setting Frozen [(ActionStop, ErrNotRunning)]) ''web-1'' new_options (demo_state (Some Frozen) False)) = Inr ()"
  using paused_instance_is_left_by_stop [of "demo_state (Some Frozen) False" "''web-1''"
      "demo_setting Frozen [(ActionStop, ErrNotRunning)]" new_options, THEN conjunct1] by code_simp

subsection \<open>What an action leaves as it was\<close>

lemma keeps_of_inst [keeps_intros]: "(\<And>i. keeps f (g i)) \<Longrightarrow> keeps f (of_inst n g)"
  by (simp add: keeps_def of_inst_apply)

lemma keeps_send [keeps_intros]: "(\<And>s w l. f (s\<lparr>st_world := w, st_log := l\<rparr>) = f s) \<Longrightarrow> keeps f (send srv q)"
  by (simp add: keeps_def send_def split: prod.split)

lemma keeps_get_vm [keeps_intros]: "(\<And>s w l. f (s\<lparr>st_world := w, st_log := l\<rparr>) = f s) \<Longrightarrow> keeps f (get_vm srv n)"
  by (simp add: keeps_def get_vm_def split: prod.split)

lemma keeps_set_inst: "(\<And>s. f (s\<lparr>st_insts := (st_insts s)(n := g (st_insts s n))\<rparr>) = f s) \<Longrightarrow> keeps f (set_inst n g)"
  unfolding set_inst_def by (rule keeps_changing)

lemma keeps_after [keeps_intros]: "keeps f (after se a r x)"
  unfolding after_def by (cases r) (auto intro: keeps_intros)

lemma keeps_finish [keeps_intros]: "keeps f m \<Longrightarrow> keeps f (finish se a m)"
  unfolding finish_def by (intro keeps_intros)

lemma keeps_guarded [keeps_intros]: "keeps f m \<Longrightarrow> keeps f (guarded se a n m)"
  unfolding guarded_def by (intro keeps_intros)

lemma keeps_retryBusy [keeps_intros]:
  "(\<And>s w l. f (s\<lparr>st_world := w, st_log := l\<rparr>) = f s) \<Longrightarrow> keeps f write \<Longrightarrow> keeps f (retryBusy k se n write)"
  by (induction k) (auto intro!: keeps_intros simp: waitBusyOperation_def)

definition mark_of :: "string \<Rightarrow> 'w st \<Rightarrow> bool" where "mark_of n s = i_marked (st_insts s n)"

lemma mark_of_irrelevant [simp]:
  "mark_of n (s\<lparr>st_world := w, st_log := l\<rparr>) = mark_of n s" "mark_of n (s\<lparr>st_volumes := vs\<rparr>) = mark_of n s"
  "mark_of n (s\<lparr>st_held := hs\<rparr>) = mark_of n s"
  by (simp_all add: mark_of_def)

lemma keeps_mark_set [keeps_intros]: "(\<And>i. i_marked (g i) = i_marked i) \<Longrightarrow> keeps (mark_of n) (set_inst m g)"
  by (rule keeps_set_inst) (simp add: mark_of_def)

lemma keeps_mark_fetch [keeps_intros]: "keeps (mark_of n) (fetch se m)"
  unfolding fetch_def fetch_state_def by (intro keeps_intros) auto

lemma keeps_mark_addMissingConfig: "keeps (mark_of n) (addMissingConfig se m)"
  unfolding addMissingConfig_def patchConfig_def by (intro keeps_intros) auto

lemma keeps_mark_adopt: "keeps (mark_of n) (adopt_volumes se m)"
proof -
  have "keeps (mark_of n) (adopt_all se v ds)" for v and ds :: "cfg list"
    by (induction ds) (auto intro!: keeps_intros keeps_changing simp: hold_volume_def)
  then show ?thesis unfolding adopt_volumes_def by (intro keeps_intros)
qed

lemma keeps_mark_ensured: "keeps (mark_of n) (ensured se m)"
  unfolding ensured_def by (intro keeps_intros) simp

subsection \<open>Forgetting and deleting\<close>

lemma forget_state:
  "forget n s = (Inr (), s\<lparr>st_insts := (st_insts s)(n := (st_insts s n)\<lparr>i_state := None\<rparr>),
                            st_held := filter (\<lambda>m. m \<noteq> n) (st_held s)\<rparr>)"
  by (simp add: forget_def set_inst_def changing_def and_then_def tried_def)

definition forgotten :: "string \<Rightarrow> 'w st \<Rightarrow> bool" where
  "forgotten n s \<longleftrightarrow> i_state (st_insts s n) = None \<and> n \<notin> set (st_held s)"

lemma forgotten_forget: "forgotten n (snd (forget n s))"
  by (simp add: forget_state forgotten_def)

lemma within_delete_volumes: "(\<And>p v t e. A (Sent (DeleteVolume p v t) e)) \<Longrightarrow> within A (delete_volumes se target ds)"
  by (induction ds) (auto intro!: within_intros)

lemma Delete_forgotten: "forgotten n (snd (Delete se n o1 s))"
proof -
  have f: "forgotten n (snd (and_then (forget n) (\<lambda>_. k) s1))" if "keeps (forgotten n) k" for s1 :: "'a st" and k :: "('a st, unit) act"
    using that forgotten_forget [of n s1] unfolding keeps_def by (simp add: forget_state and_then_def tried_def)
  have v: "snd (and_then (delete_volumes se t ds) (\<lambda>_. forget n) s1) = snd (forget n (snd (delete_volumes se t ds s1)))" for t ds and s1 :: "'a st"
  proof -
    have "fst (delete_volumes se t ds s1) = Inr ()" for s1 :: "'a st"
      by (induction ds arbitrary: s1) (auto simp: ret_def tried_def split: prod.split)
    then show ?thesis by (cases "delete_volumes se t ds s1") (simp add: and_then_def tried_def, metis fst_conv old.sum.simps(6))
  qed
  show ?thesis
    by (auto simp: Delete_def of_inst_apply tried_def v Let_def forgotten_forget ret_def and_then_def [of "ret ()"]
        split: option.splits prod.splits sum.splits intro!: f keeps_intros)
qed

text \<open>
  However it ends, \<open>Delete\<close> leaves nothing of the instance in the client: its state is cleared
  and the store no longer holds it, so a later action starts from what the server has.
\<close>
theorem delete_always_forgets:
  "i_state (st_insts (snd (Delete se n o1 s)) n) = None \<and> n \<notin> set (st_held (snd (Delete se n o1 s)))"
  using Delete_forgotten by (simp add: forgotten_def)

subsection \<open>Ensuring an instance that is one too many\<close>

lemma tried_apply: "m s = (r, s1) \<Longrightarrow> tried m f s = f r s1"
  by (simp add: tried_def)

lemma Delete_asked:
  assumes "Delete se n o1 s = (Inr u, s')" "\<forall>(b, k) \<in> set (se_ignored se). b \<noteq> ActionDelete"
  shows "\<exists>tr. st_log s' = st_log s @ tr \<and> Sent (DeleteInstance n) None \<in> set tr"
proof -
  let ?ask = "retryBusy 9 se n (send (se_srv se) (DeleteInstance n))"
  let ?fin = "finish se ActionDelete ?ask"
  have b: "se_before se ActionDelete n = None"
    using assms(1) by (auto simp: Delete_def and_then_def tried_def forget_state fail_def split: option.splits)
  have i: "i_state (st_insts s n) \<noteq> None"
  proof
    assume "i_state (st_insts s n) = None"
    then have "\<exists>s1. finish se ActionDelete (fail [ErrNotEnsured]) s1 = (Inr u, s')"
      using assms(1) b by (auto simp: Delete_def of_inst_apply and_then_def tried_def forget_state)
    then show False using finish_ok [OF _ assms(2)] by (fastforce simp: fail_def)
  qed
  obtain r s1 where r: "?fin s = (r, s1)" by fastforce
  have "\<exists>y. r = Inr y"
    using assms(1) b i r
    by (cases r) (auto simp: Delete_def of_inst_apply tried_def and_then_def forget_state fail_def split: option.splits)
  then obtain y where y: "r = Inr y" ..
  have ok: "?ask s = (Inr (), s1)" by (rule finish_ok [OF r [unfolded y] assms(2)])
  have "shows_ok (\<lambda>e. e = Sent (DeleteInstance n) None) ?ask"
    by (intro shows_retryBusy shows_send within_intros TrueI refl)
  then obtain t1 where t1: "st_log s1 = st_log s @ t1" "Sent (DeleteInstance n) None \<in> set t1"
    using ok unfolding logs_ok_def list_ex_iff by blast
  define rest where "rest = (\<lambda>i :: inst. let at = (case i_state i of None \<Rightarrow> i_target i
        | Some (v, ids) \<Rightarrow> if vm_location v \<noteq> [] \<and> vm_location v \<noteq> ''none'' then vm_location v else i_target i);
      devs = (case i_state i of None \<Rightarrow> [] | Some (v, ids) \<Rightarrow> prefetchDevices (vm_devices v))
    in and_then (if op_volumes o1 then delete_volumes se at devs else ret ()) (\<lambda>_. forget n :: ('a st, unit) act))"
  have o: "of_inst n rest s1 = (Inr u, s')"
    using assms(1) b i r y by (auto simp: Delete_def of_inst_apply tried_apply [where m = ?fin, OF r] rest_def)
  have w: "within (\<lambda>_. True) (of_inst n rest)"
    unfolding rest_def Let_def forget_def by (intro within_intros within_delete_volumes TrueI within_changing) simp
  obtain t2 where "st_log s' = st_log s1 @ t2" using within_log [OF w o] by blast
  then show ?thesis using t1 by (intro exI [of _ "t1 @ t2"]) simp
qed

lemma within_ensured [within_intros]: "within A (ensured se n)"
  unfolding ensured_def by (intro within_intros)

lemma within_adopt [within_intros]: "within A (adopt_volumes se n)"
proof -
  have "within A (adopt_all se v ds)" for v and ds :: "cfg list"
    by (induction ds) (auto intro!: within_intros within_changing simp: hold_volume_def)
  then show ?thesis unfolding adopt_volumes_def by (intro within_intros)
qed

lemma within_addMissingConfig [within_intros]: "within (\<lambda>_. True) (addMissingConfig se n)"
  unfolding addMissingConfig_def by (intro within_intros TrueI)

lemma within_Stop: "within (\<lambda>_. True) (Stop se n o1)"
  unfolding Stop_def setHealthCheckingStopped_def Let_def by (intro within_intros TrueI)

fun plain_request :: "request \<Rightarrow> bool" where
  \<comment> \<open>One call of the Incus client, about an instance that is there.\<close>
  "plain_request (WaitBusy n) = True"
| "plain_request (GetState n) = True"
| "plain_request (PatchConfig n c) = True"
| "plain_request q = False"

definition server_errors :: "'w incus \<Rightarrow> bool" where
  \<comment> \<open>The errors the server answers are its own, none of the client's sentinels.\<close>
  "server_errors srv \<longleftrightarrow>
     (\<forall>q w c. plain_request q \<longrightarrow> fst (in_send srv q w) = Some c \<longrightarrow> (\<forall>e \<in> set c. \<not> of_client e)) \<and>
     (\<forall>n w c. fst (in_get srv n w) = Inl c \<longrightarrow> (\<forall>e \<in> set c. \<not> of_client e))"

definition never :: "sentinel \<Rightarrow> ('s, 'a) act \<Rightarrow> bool" where
  \<comment> \<open>It does not fail with this error.\<close>
  "never k m \<longleftrightarrow> (\<forall>s e s'. m s = (Inl e, s') \<longrightarrow> \<not> is_err k e)"

named_theorems never_intros

lemma never_ret [never_intros]: "never k (ret x)" by (simp add: never_def ret_def)

lemma never_changing [never_intros]: "never k (changing f)" by (simp add: never_def changing_def)

lemma never_set_inst [never_intros]: "never k (set_inst n f)" unfolding set_inst_def by (rule never_changing)

lemma never_fail [never_intros]: "\<not> is_err k e \<Longrightarrow> never k (fail e)" by (simp add: never_def fail_def)

lemma neverD: "never k m \<Longrightarrow> m s = (Inl e, s') \<Longrightarrow> \<not> is_err k e"
  unfolding never_def by blast

lemma never_and_then [never_intros]:
  assumes "never k m" "\<And>x. never k (f x)"
  shows "never k (and_then m f)"
  unfolding never_def
proof (intro allI impI)
  fix s e s'
  assume r: "and_then m f s = (Inl e, s')"
  obtain r1 s1 where 1: "m s = (r1, s1)" by fastforce
  show "\<not> is_err k e"
  proof (cases r1)
    case (Inl e1)
    then show ?thesis using r 1 neverD [OF assms(1)] by (auto simp: and_then_def tried_def fail_def)
  next
    case (Inr x)
    then have "f x s1 = (Inl e, s')" using r 1 by (simp add: and_then_def tried_def)
    then show ?thesis using neverD [OF assms(2)] by blast
  qed
qed

lemma never_of_inst [never_intros]: "(\<And>i. never k (f i)) \<Longrightarrow> never k (of_inst n f)"
  by (simp add: never_def of_inst_def reading_def)

lemma never_if [never_intros]: "(c \<Longrightarrow> never k a) \<Longrightarrow> (\<not> c \<Longrightarrow> never k b) \<Longrightarrow> never k (if c then a else b)"
  by simp

lemma never_send:
  assumes "server_errors srv" "of_client k" "plain_request q"
  shows "never k (send srv q)"
  unfolding never_def
proof (intro allI impI)
  fix s e s'
  assume "send srv q s = (Inl e, s')"
  then have "fst (in_send srv q (st_world s)) = Some e" by (auto simp: send_def split: prod.splits option.splits)
  then show "\<not> is_err k e" using assms unfolding server_errors_def is_err_def by blast
qed

lemma never_get_vm:
  assumes "server_errors srv" "of_client k"
  shows "never k (get_vm srv n)"
  unfolding never_def
proof (intro allI impI)
  fix s e s'
  assume "get_vm srv n s = (Inl e, s')"
  then have "fst (in_get srv n (st_world s)) = Inl e" by (auto simp: get_vm_def split: prod.splits)
  then show "\<not> is_err k e" using assms unfolding server_errors_def is_err_def by blast
qed

lemma never_wrap [never_intros]: "k \<noteq> s0 \<Longrightarrow> never k m \<Longrightarrow> never k (wrap s0 m)"
  unfolding never_def wrap_def tried_def
  by (auto simp: fail_def ret_def is_err_def split: prod.splits sum.splits)

lemma never_retryBusy:
  assumes "server_errors (se_srv se)" "of_client k" "k \<noteq> ErrOperation" "never k write"
  shows "never k (retryBusy j se n write)"
proof -
  have once: "never k (and_then (waitBusyOperation se n) (\<lambda>_. write))"
    unfolding waitBusyOperation_def using assms by (intro never_intros never_send) simp_all
  show ?thesis
  proof (induction j)
    case 0
    then show ?case using once by simp
  next
    case (Suc j)
    show ?case unfolding never_def
    proof (intro allI impI)
      fix s e s'
      assume r: "retryBusy (Suc j) se n write s = (Inl e, s')"
      obtain r1 s1 where 1: "and_then (waitBusyOperation se n) (\<lambda>_. write) s = (r1, s1)" by fastforce
      show "\<not> is_err k e"
      proof (cases r1)
        case (Inl e1)
        show ?thesis
        proof (cases "is_err InstanceBusy e1")
          case True
          then have "retryBusy j se n write s1 = (Inl e, s')" using r 1 Inl by (simp add: tried_def)
          then show ?thesis by (rule neverD [OF Suc])
        next
          case False
          then have "e = e1" using r 1 Inl by (simp add: tried_def fail_def)
          then show ?thesis using neverD [OF once 1 [unfolded Inl]] by simp
        qed
      next
        case (Inr u)
        then show ?thesis using r 1 by (simp add: tried_def ret_def)
      qed
    qed
  qed
qed

lemma never_fetch:
  assumes "server_errors (se_srv se)" "of_client k" "k \<noteq> ErrInvalidFormat"
  shows "never k (fetch se n)"
proof -
  have "never k (case ids of None \<Rightarrow> fail [ErrInvalidFormat] | Some ids \<Rightarrow> and_then (send (se_srv se) (GetState n)) (\<lambda>_. ret (v, ids)))"
    for ids :: "(nat \<times> nat) option" and v
    using assms by (cases ids) (auto intro!: never_intros never_send simp: is_err_def)
  then show ?thesis unfolding fetch_def fetch_state_def using assms by (intro never_intros never_get_vm)
qed

lemma never_NotFound_then:
  assumes "server_errors (se_srv se)"
  shows "never ErrNotFound (and_then (addMissingConfig se n) (\<lambda>_. and_then (adopt_volumes se n) (\<lambda>_. ensured se n)))"
proof -
  have "never k (adopt_all se v ds)" for k v and ds :: "cfg list"
    by (induction ds) (auto intro!: never_intros simp: hold_volume_def)
  then show ?thesis
    unfolding addMissingConfig_def patchConfig_def adopt_volumes_def ensured_def using assms
    by (intro never_intros never_retryBusy never_fetch never_send) simp_all
qed

lemma ensure_marked:
  assumes "ensure se n o1 s = (Inr b, s')" "fst (fetch se n s) = Inr ()" "i_marked (st_insts s n)"
    "\<forall>(b, k) \<in> set (se_ignored se). b = ActionEnsure \<longrightarrow> k = ErrNotFound" "server_errors (se_srv se)"
  shows "b \<and> (\<exists>tr. st_log s' = st_log s @ tr)"
proof -
  let ?more = "and_then (addMissingConfig se n) (\<lambda>_. and_then (adopt_volumes se n) (\<lambda>_. ensured se n))"
  obtain s1 where f: "fetch se n s = (Inr (), s1)" using assms(2) by (metis prod.collapse)
  obtain r s2 where m: "?more s1 = (r, s2)" by fastforce
  have k: "keeps (mark_of n) ?more"
    by (intro keeps_intros keeps_mark_addMissingConfig keeps_mark_adopt keeps_mark_ensured)
  have marked: "i_marked (st_insts s2 n)"
    using keepsD [OF keeps_mark_fetch [of n se n] f] keepsD [OF k m] assms(3) by (simp add: mark_of_def)
  have none: "se_before se ActionEnsure n = None"
    using assms(1) by (auto simp: ensure_def guarded_def fail_def split: option.splits)
  have ign: "\<not> list_ex (\<lambda>(b, k). b = ActionEnsure \<and> is_err k e) (se_ignored se)" if "r = Inl e" for e
    using assms(4) never_NotFound_then [OF assms(5)] m that unfolding never_def by (fastforce simp: list_ex_iff)
  have "(case r of Inl e \<Rightarrow> after se ActionEnsure (Inl e) False | Inr u \<Rightarrow> of_inst n (\<lambda>i. ret (i_marked i))) s2 = (Inr b, s')"
    using assms(1) none by (simp add: ensure_def guarded_def tried_apply [where m = "fetch se n", OF f] tried_apply [where m = ?more, OF m])
  then have "b \<and> s' = s2" using marked ign by (cases r) (auto simp: after_def of_inst_apply ret_def fail_def split: if_splits)
  moreover obtain t1 where "st_log s1 = st_log s @ t1"
    using within_log [OF within_fetch [of "\<lambda>_. True" n se] f] by blast
  moreover have w: "within (\<lambda>_. True) ?more" by (intro within_intros)
  moreover obtain t2 where "st_log s2 = st_log s1 @ t2" using within_log [OF w m] by blast
  ultimately show ?thesis by simp
qed

lemma Ensure_tears_down:
  assumes "Ensure se n o1 s = (Inr u, s')" "fst (fetch se n s) = Inr ()" "i_marked (st_insts s n)"
    "\<forall>(b, k) \<in> set (se_ignored se). (b = ActionEnsure \<longrightarrow> k = ErrNotFound) \<and> b \<noteq> ActionDelete" "server_errors (se_srv se)"
  shows "\<exists>tr. st_log s' = st_log s @ tr \<and> Sent (DeleteInstance n) None \<in> set tr \<and> n \<notin> set (st_held s')"
proof -
  obtain b s1 where e: "ensure se n o1 s = (Inr b, s1)"
    and rest: "(if \<not> b then ret () else and_then (Stop se n (new_options\<lparr>op_timeout := op_timeout o1, op_force := True\<rparr>))
       (\<lambda>_. Delete se n new_options)) s1 = (Inr u, s')"
    using assms(1) unfolding Ensure_def by (rule and_then_ok)
  obtain t1 where b: "b" and t1: "st_log s1 = st_log s @ t1" using ensure_marked [OF e assms(2,3) _ assms(5)] assms(4) by fastforce
  have "and_then (Stop se n (new_options\<lparr>op_timeout := op_timeout o1, op_force := True\<rparr>)) (\<lambda>_. Delete se n new_options) s1 = (Inr u, s')"
    using rest b by simp
  then obtain y s2 where st: "Stop se n (new_options\<lparr>op_timeout := op_timeout o1, op_force := True\<rparr>) s1 = (Inr y, s2)"
    and d: "Delete se n new_options s2 = (Inr u, s')" by (rule and_then_ok)
  obtain t2 where "st_log s2 = st_log s1 @ t2" using within_log [OF within_Stop st] by blast
  moreover obtain t3 where "st_log s' = st_log s2 @ t3" "Sent (DeleteInstance n) None \<in> set t3"
    using Delete_asked [OF d] assms(4) by fastforce
  moreover have "n \<notin> set (st_held s')" using Delete_forgotten [of n se new_options s2] d by (simp add: forgotten_def)
  ultimately show ?thesis using t1 by (intro exI [of _ "t1 @ t2 @ t3"]) simp
qed

text \<open>
  C12.  A command that plans a service without its scale, the ones that only list included,
  deletes what \<open>up --scale\<close> added: a replica beyond the declared count that such a
  plan ensures, without \<open>OptionCreate\<close> or any other option to do so, and that the server shows, is answered
  successfully only once the server has taken the request to delete it, and the store has dropped it.
  The command may ignore that an instance is not found, as \<open>start\<close>, \<open>stop\<close>, \<open>pause\<close> and
  \<open>run\<close> do, and any error of the other actions; only errors of \<open>ActionDelete\<close> are not ignored (as in \<open>down\<close>,
  which deletes everything anyway).  The server's errors are taken to be its own, no sentinel of the client's.
\<close>
theorem listing_deletes_scaled_replicas:
  assumes plan: "service_resources env sv None al exists = Some (Inr ps)"
      "resolveServicePlacementEnv env sv None al = Inr (desired, targets, w)" "0 \<le> desired"
    and p: "p \<in> set ps" "desired < pl_index p" "i_marked (st_insts s (pl_name p)) = pl_delete p"
    and ok: "Ensure se (pl_name p) new_options s = (Inr u, s')" "fst (fetch se (pl_name p) s) = Inr ()"
      "\<forall>(b, k) \<in> set (se_ignored se). (b = ActionEnsure \<longrightarrow> k = ErrNotFound) \<and> b \<noteq> ActionDelete" "server_errors (se_srv se)"
  shows "\<exists>tr. st_log s' = st_log s @ tr \<and> Sent (DeleteInstance (pl_name p)) None \<in> set tr \<and> pl_name p \<notin> set (st_held s')"
proof -
  obtain scale where "ps = map (\<lambda>i. (replica env sv targets scale i)\<lparr>pl_delete := (desired < i)\<rparr>) [1..scale]"
    using plan by (auto simp: service_resources_def marked_replicas split: option.splits)
  then have "pl_delete p" using p(1,2) by (auto simp: replica_def)
  then show ?thesis using Ensure_tears_down [OF ok(1,2) _ ok(3,4)] p(3) by simp
qed

lemma listing_deletes_scaled_replicas_witness:
  "\<exists>tr. st_log (snd (Ensure (demo_setting Running [(ActionEnsure, ErrNotFound)]) ''web-2'' new_options (demo_state None True))) = tr \<and>
     Sent (DeleteInstance ''web-2'') None \<in> set tr"
proof -
  let ?ex = "\<lambda>n. n = ''web-2''"
  let ?sv = "plain_service ''web'' []"
  let ?s = "demo_state None True"
  let ?m = "Ensure (demo_setting Running [(ActionEnsure, ErrNotFound)]) ''web-2'' new_options ?s"
  have "grown (\<lambda>i. ?ex (''web-'' @ show_int i)) 1 = Some 2"
    by (subst grown.simps, subst grown.simps) (simp add: show_int_def itoa.simps digit_char_def)
  then have plan: "service_resources lone_host ?sv None False ?ex =
      Some (Inr (map (\<lambda>i. (replica lone_host ?sv [[]] 2 i)\<lparr>pl_delete := (1 < i)\<rparr>) [1..2]))"
    by (simp add: service_resources_def plain_resolves marked_replicas)
  let ?p = "(replica lone_host ?sv [[]] 2 2)\<lparr>pl_delete := True\<rparr>"
  have n: "pl_name ?p = ''web-2''" by (simp add: replica_def instanceName_def show_int_def itoa.simps digit_char_def)
  have "fst ?m = Inr ()" by code_simp
  then have r: "?m = (Inr (), snd ?m)" by (metis prod.collapse)
  have f: "fst (fetch (demo_setting Running [(ActionEnsure, ErrNotFound)]) ''web-2'' ?s) = Inr ()" by code_simp
  have se: "server_errors (se_srv (demo_setting Running [(ActionEnsure, ErrNotFound)]))"
    by (simp add: server_errors_def demo_setting_of_def agreeable_def)
  have "?p \<in> set (map (\<lambda>i. (replica lone_host ?sv [[]] 2 i)\<lparr>pl_delete := (1 < i)\<rparr>) [1..2])"
    by (auto simp: image_iff intro!: bexI [of _ "2 :: int"])
  from listing_deletes_scaled_replicas [OF plan plain_resolves _ this, of ?s "demo_setting Running [(ActionEnsure, ErrNotFound)]" "()" "snd ?m"]
  show ?thesis using r f n se
    by (auto simp: demo_setting_of_def demo_state_of_def demo_inst_def) (simp_all add: replica_def)
qed

subsection \<open>Creating only as asked, and unwatched\<close>

fun rightly_created :: "options \<Rightarrow> entry \<Rightarrow> bool" where
  "rightly_created o1 (Sent (CreateInstance n config devices target) e) \<longleftrightarrow>
     op_create o1 \<and> (op_healthd o1 \<longrightarrow> map_of config HealthStoppedKey = Some ''true'')"
| "rightly_created o1 e \<longleftrightarrow> True"

lemma create_config_stopped: "op_healthd o1 \<Longrightarrow> map_of (create_config se im ids o1 i) HealthStoppedKey = Some ''true''"
  by (simp add: create_config_def Let_def update_conv')

lemma within_make_volumes:
  "(\<And>v e. A (Sent (EnsureVolume v) e)) \<Longrightarrow> within A (make_volumes se n ds)"
  by (induction ds) (auto intro!: within_intros within_changing simp: hold_volume_def)

lemma within_with_tools [within_intros]: "(\<And>e. A (Sent EnsureTools e)) \<Longrightarrow> within A (with_tools se n)"
  unfolding with_tools_def by (intro within_intros)

lemma within_run_as [within_intros]: "within A (run_as se im i)"
  unfolding run_as_def Let_def by (auto intro!: within_intros split: option.split sum.split)

lemma within_prefetch_all [within_intros]:
  "(\<And>v e. A (Sent (EnsureVolume v) e)) \<Longrightarrow> within A (prefetch_all se im n)"
  unfolding prefetch_all_def by (intro within_intros within_make_volumes)

lemma create_rightly:
  assumes "op_create o1"
  shows "within (rightly_created o1) (create se n o1)"
  unfolding create_def using assms
  by (intro within_intros) (simp_all add: create_config_stopped)

lemma within_Delete:
  "(\<And>e. A (Sent (WaitBusy n) e)) \<Longrightarrow> (\<And>e. A (Sent (DeleteInstance n) e)) \<Longrightarrow>
   (\<And>p v t e. A (Sent (DeleteVolume p v t) e)) \<Longrightarrow> within A (Delete se n o1)"
  unfolding Delete_def forget_def Let_def by (intro within_intros within_delete_volumes within_changing) simp_all

lemma within_Stop_any:
  "(\<And>r. A (Got n r)) \<Longrightarrow> (\<And>e. A (Sent (GetState n) e)) \<Longrightarrow> (\<And>e. A (Sent (WaitBusy n) e)) \<Longrightarrow>
   (\<And>c e. A (Sent (PatchConfig n c) e)) \<Longrightarrow> (\<And>f t e. A (Sent (PutState n ''stop'' f t) e)) \<Longrightarrow> within A (Stop se n o1)"
  unfolding Stop_def setHealthCheckingStopped_def Let_def by (intro within_intros)

lemma within_addMissingConfig_any [within_intros]:
  "(\<And>r. A (Got n r)) \<Longrightarrow> (\<And>e. A (Sent (GetState n) e)) \<Longrightarrow> (\<And>e. A (Sent (WaitBusy n) e)) \<Longrightarrow>
   (\<And>c e. A (Sent (PatchConfig n c) e)) \<Longrightarrow> within A (addMissingConfig se n)"
  unfolding addMissingConfig_def by (intro within_intros)

lemma ensure_rightly: "within (rightly_created o1) (ensure se n o1)"
  unfolding ensure_def
  by (intro within_intros create_rightly within_changing) simp_all

text \<open>
  C13.  Ensuring an instance, marked or not and whatever the server answers, creates one only where
  \<open>OptionCreate\<close> was given, and where the health daemon is in use every one it creates carries the
  mark that keeps the daemon away until the start takes it off.
\<close>
theorem created_only_as_asked_and_unwatched:
  "\<exists>tr. st_log (snd (Ensure se n o1 s)) = st_log s @ tr \<and> list_all (rightly_created o1) tr"
proof -
  have "within (rightly_created o1) (Ensure se n o1)"
    unfolding Ensure_def by (intro within_intros ensure_rightly within_Stop_any within_Delete) simp_all
  then show ?thesis by (simp add: logs_within_def)
qed

subsection \<open>Adding what is missing\<close>

fun adds_only :: "cfg \<Rightarrow> cfg \<Rightarrow> entry \<Rightarrow> bool" where
  \<comment> \<open>A patch writes declared values, and none over a key that is there.\<close>
  "adds_only declared held (Sent (PatchConfig n c) e) \<longleftrightarrow> (\<forall>(k, v) \<in> set c. (k, v) \<in> set declared \<and> map_of held k = None)"
| "adds_only declared held e \<longleftrightarrow> True"

text \<open>
  What ensuring writes to an instance that exists is the declared keys it does not have yet: no
  value the instance already carries is changed, whoever set it.
\<close>
theorem missing_config_is_only_added:
  "\<exists>tr. st_log (snd (addMissingConfig se n s)) = st_log s @ tr \<and>
     list_all (adds_only (i_ext (st_insts s n)) (info_config (st_insts s n))) tr"
proof -
  let ?i = "st_insts s n"
  have "within (adds_only (i_ext ?i) (info_config ?i)) (if missing_config ?i = [] then ret () else patchConfig se n (missing_config ?i))"
    by (intro within_intros) (auto simp: missing_config_def)
  then show ?thesis by (simp add: logs_within_def addMissingConfig_def of_inst_apply)
qed

subsection \<open>A start that succeeds\<close>



lemma keeps_insts_fetch_state [keeps_intros]: "keeps st_insts (fetch_state se n)"
  unfolding fetch_state_def by (intro keeps_intros) simp_all

lemma keeps_insts_wait [keeps_intros]: "keeps st_insts (waitForHealthCheck se n)"
proof -
  have "keeps st_insts (health_rounds k se n)" for k
    by (induction k) (auto intro!: keeps_intros)
  then show ?thesis unfolding waitForHealthCheck_def by (intro keeps_intros)
qed




end
