(* ===== verification/Stack.thy ===== *)
theory Stack
  imports InstanceRun
begin

text \<open>
  Running an action on many resources: the store that holds each resource once
  (\<open>client/resource.go\<close>), the stack that orders them by priority (\<open>client/stack.go\<close>) and the
  pool of workers a batch of equal priority goes through (\<open>client/pool.go\<close>).  A resource is known
  by its identity, the pointer.  The workers are a step relation: a step is one worker's, in any order.
\<close>

subsection \<open>Resources and their store\<close>

datatype kind = KindProject | KindProfile | KindImage | KindStorageVolume | KindNetwork | KindInstance

record resource =
  rs_id :: nat                       \<comment> \<open>the pointer\<close>
  rs_kind :: kind
  rs_name :: string
  rs_incus :: string
  rs_priority :: int
  rs_ignored :: bool                 \<comment> \<open>\<open>IgnoreAble\<close> and ignored\<close>
  rs_able :: "action_kind list"      \<comment> \<open>the interfaces it implements\<close>

definition all_actions :: "action_kind list" where
  "all_actions = [ActionEnsure, ActionDelete, ActionStart, ActionStop, ActionPause, ActionUnpause, ActionBackup, ActionRestore]"

definition SupportsAction :: "resource \<Rightarrow> action_kind \<Rightarrow> bool" where
  "SupportsAction r a \<longleftrightarrow> a \<in> set all_actions \<and> a \<in> set (rs_able r)"

datatype run_error = UnsupportedAction action_kind nat | Failed chain

definition RunAction :: "(resource \<Rightarrow> action_kind \<Rightarrow> chain option) \<Rightarrow> resource \<Rightarrow> action_kind \<Rightarrow> run_error option" where
  \<comment> \<open>\<open>perform\<close> is the resource's own method.\<close>
  "RunAction perform r a =
     (if a \<in> set all_actions then
        (if a \<in> set (rs_able r) then map_option Failed (perform r a) else Some (UnsupportedAction a (rs_id r)))
      else Some (UnsupportedAction a (rs_id r)))"





definition ByKind :: "kind \<Rightarrow> resource list \<Rightarrow> resource list" where
  "ByKind k rs = filter (\<lambda>r. rs_kind r = k) rs"

subsection \<open>The stack\<close>

record stack_options =
  so_workers :: int
  so_descending :: bool
  so_failfast :: bool

definition Add :: "resource list \<Rightarrow> resource list \<Rightarrow> resource list" where
  \<comment> \<open>The stack's resources; \<open>seen\<close> is the set of their identities.\<close>
  "Add rs held = fold (\<lambda>r acc. if rs_id r \<in> rs_id ` set acc then acc else acc @ [r]) rs held"

fun AddOrdered :: "string list \<Rightarrow> (string \<times> resource list) list \<Rightarrow> resource list \<Rightarrow> resource list" where
  "AddOrdered [] resources held = held"
| "AddOrdered (k # order) resources held =
     AddOrdered order resources (case map_of resources k of None \<Rightarrow> held | Some rs \<Rightarrow> Add rs held)"

definition sorted_stack :: "bool \<Rightarrow> resource list \<Rightarrow> resource list" where
  \<comment> \<open>\<open>sort.SliceStable\<close>\<close>
  "sorted_stack descending rs = sort_key (if descending then (\<lambda>r. - rs_priority r) else rs_priority) rs"

fun group_loop :: "resource list \<Rightarrow> int \<Rightarrow> resource list \<Rightarrow> resource list list" where
  "group_loop [] p batch = (if batch \<noteq> [] then [batch] else [])"
| "group_loop (r # rs) p batch =
     (if rs_priority r \<noteq> p then batch # group_loop rs (rs_priority r) [r] else group_loop rs p (batch @ [r]))"

definition groupByPriority :: "resource list \<Rightarrow> resource list list" where
  "groupByPriority rs = (case rs of [] \<Rightarrow> [] | r # _ \<Rightarrow> group_loop rs (rs_priority r) [])"

definition ForActionF :: "action_kind \<Rightarrow> (resource \<Rightarrow> bool) \<Rightarrow> resource list \<Rightarrow> resource list" where
  "ForActionF a keep rs = Add (filter (\<lambda>r. \<not> rs_ignored r \<and> SupportsAction r a \<and> keep r) rs) []"

definition ForAction :: "action_kind \<Rightarrow> resource list \<Rightarrow> resource list" where
  "ForAction a rs = Add (filter (\<lambda>r. \<not> rs_ignored r \<and> SupportsAction r a) rs) []"

definition submitted :: "resource list \<Rightarrow> resource list" where
  \<comment> \<open>What \<open>runBatch\<close> gives to the pool.\<close>
  "submitted batch = filter (\<lambda>r. \<not> rs_ignored r) batch"

fun run_batches :: "bool \<Rightarrow> (resource list \<Rightarrow> run_error list) \<Rightarrow> resource list list \<Rightarrow> resource list list \<times> run_error list" where
  \<comment> \<open>The batches given to the pool, and the errors; \<open>pool\<close> is what running one batch answers.\<close>
  "run_batches failFast pool [] = ([], [])"
| "run_batches failFast pool (b # bs) =
     (let errs = pool (submitted b) in
      if errs \<noteq> [] \<and> failFast then ([b], errs)
      else (let (ran, rest) = run_batches failFast pool bs in (b # ran, errs @ rest)))"

definition stack_Run :: "stack_options \<Rightarrow> (resource list \<Rightarrow> run_error list) \<Rightarrow> resource list \<Rightarrow> resource list list \<times> run_error list" where
  "stack_Run o1 pool rs = run_batches (so_failfast o1) pool (groupByPriority (sorted_stack (so_descending o1) rs))"

subsection \<open>The pool\<close>

datatype worker = Idle | Took nat | Works nat | Cancels | Gone

record pool =
  pl_queue :: "nat list"             \<comment> \<open>the channel of tasks, closed; a task is its place in the order of submission\<close>
  pl_workers :: "worker list"
  pl_errs :: "(nat \<times> run_error) list"   \<comment> \<open>what was sent to the channel of errors\<close>
  pl_room :: nat                     \<comment> \<open>the capacity of that channel\<close>
  pl_taken :: nat                    \<comment> \<open>how many of them the caller has received\<close>
  pl_cancelled :: bool
  pl_finished :: "nat list"
  pl_dropped :: "nat list"           \<comment> \<open>taken from the channel after a failure, and not run\<close>

definition new_pool :: "int \<Rightarrow> nat \<Rightarrow> pool" where
  "new_pool workers tasks =
     \<lparr>pl_queue = [0..<tasks], pl_workers = replicate (nat (max 1 workers)) Idle, pl_errs = [], pl_room = tasks, pl_taken = 0,
      pl_cancelled = False, pl_finished = [], pl_dropped = []\<rparr>"

datatype pool_act = Take nat | Check nat | Finish nat | Cancel nat | Leave nat   \<comment> \<open>by a worker\<close>
  | Receive                                                                      \<comment> \<open>by the caller\<close>

definition put_worker :: "nat \<Rightarrow> worker \<Rightarrow> pool \<Rightarrow> pool" where
  "put_worker w x p = p\<lparr>pl_workers := (pl_workers p)[w := x]\<rparr>"

fun pool_step :: "bool \<Rightarrow> (nat \<Rightarrow> run_error option) \<Rightarrow> pool_act \<Rightarrow> pool \<Rightarrow> pool option" where
  \<comment> \<open>No step where the worker or the caller cannot make it: a send blocks while the channel of errors is full.\<close>
  "pool_step failFast outcome (Take w) p =
     (if w < length (pl_workers p) \<and> pl_workers p ! w = Idle then
        (case pl_queue p of [] \<Rightarrow> None | t # ts \<Rightarrow> Some ((put_worker w (Took t) p)\<lparr>pl_queue := ts\<rparr>))
      else None)"
| "pool_step failFast outcome (Leave w) p =
     (if w < length (pl_workers p) \<and> pl_workers p ! w = Idle \<and> pl_queue p = [] then Some (put_worker w Gone p) else None)"
| "pool_step failFast outcome (Check w) p =
     (if w < length (pl_workers p) then
        (case pl_workers p ! w of
           Took t \<Rightarrow>
             if pl_cancelled p then Some ((put_worker w Gone p)\<lparr>pl_dropped := pl_dropped p @ [t]\<rparr>)
             else Some (put_worker w (Works t) p)
         | _ \<Rightarrow> None)
      else None)"
| "pool_step failFast outcome (Finish w) p =
     (if w < length (pl_workers p) then
        (case pl_workers p ! w of
           Works t \<Rightarrow>
             (let q = p\<lparr>pl_finished := pl_finished p @ [t]\<rparr> in
              case outcome t of
                None \<Rightarrow> Some (put_worker w Idle q)
              | Some e \<Rightarrow>
                  if \<not> length (pl_errs p) - pl_taken p < pl_room p then None
                  else Some ((put_worker w (if failFast then Cancels else Idle) q)\<lparr>pl_errs := pl_errs p @ [(t, e)]\<rparr>))
         | _ \<Rightarrow> None)
      else None)"
| "pool_step failFast outcome (Cancel w) p =
     (if w < length (pl_workers p) \<and> pl_workers p ! w = Cancels then Some ((put_worker w Gone p)\<lparr>pl_cancelled := True\<rparr>) else None)"
| "pool_step failFast outcome Receive p =
     (if pl_taken p < length (pl_errs p) \<and> (failFast \<longrightarrow> pl_taken p = 0) then Some (p\<lparr>pl_taken := Suc (pl_taken p)\<rparr>) else None)"

fun pool_run :: "bool \<Rightarrow> (nat \<Rightarrow> run_error option) \<Rightarrow> pool_act list \<Rightarrow> pool \<Rightarrow> pool option" where
  "pool_run failFast outcome [] p = Some p"
| "pool_run failFast outcome (a # as) p =
     (case pool_step failFast outcome a p of None \<Rightarrow> None | Some q \<Rightarrow> pool_run failFast outcome as q)"

definition pool_over :: "pool \<Rightarrow> bool" where "pool_over p \<longleftrightarrow> set (pl_workers p) \<subseteq> {Gone}"

definition pool_answer :: "bool \<Rightarrow> pool \<Rightarrow> run_error list option" where
  \<comment> \<open>What \<open>Run\<close> answers, once it does: the first error received where it fails fast, otherwise all, once every worker is gone and the channel of errors closed.\<close>
  "pool_answer failFast p =
     (if failFast then
        (if 0 < pl_taken p then Some [snd (hd (pl_errs p))] else if pool_over p \<and> pl_errs p = [] then Some [] else None)
      else if pool_over p \<and> pl_taken p = length (pl_errs p) then Some (map snd (pl_errs p)) else None)"

subsection \<open>The store holds each resource once\<close>















definition demo_resource :: "nat \<Rightarrow> string \<Rightarrow> int \<Rightarrow> resource" where
  "demo_resource k n p = \<lparr>rs_id = k, rs_kind = KindInstance, rs_name = n, rs_incus = n, rs_priority = p, rs_ignored = False,
     rs_able = [ActionEnsure, ActionDelete, ActionStart, ActionStop, ActionPause, ActionUnpause]\<rparr>"


subsection \<open>Batches\<close>

lemma group_loop_concat: "concat (group_loop rs p batch) = batch @ rs"
  by (induction rs p batch rule: group_loop.induct) auto

lemma group_loop_uniform:
  "\<forall>r \<in> set batch. rs_priority r = p \<Longrightarrow> b \<in> set (group_loop rs p batch) \<Longrightarrow> \<exists>q. \<forall>r \<in> set b. rs_priority r = q"
proof (induction rs p batch rule: group_loop.induct)
  case (1 p batch)
  then show ?case by (auto split: if_splits)
next
  case (2 r rs p batch)
  show ?case
  proof (cases "rs_priority r = p")
    case True
    then show ?thesis using 2(2,3,4) by simp
  next
    case False
    then have "b = batch \<or> b \<in> set (group_loop rs (rs_priority r) [r])" using 2(4) by simp
    then show ?thesis using 2(1) [OF False] 2(3) by auto
  qed
qed

lemma group_loop_nonempty: "batch \<noteq> [] \<or> rs = [] \<or> rs_priority (hd rs) = p \<Longrightarrow> b \<in> set (group_loop rs p batch) \<Longrightarrow> b \<noteq> []"
  by (induction rs p batch rule: group_loop.induct) (auto split: if_splits)

lemma group_loop_ordered:
  fixes f :: "int \<Rightarrow> int"
  assumes "sorted (map (f \<circ> rs_priority) rs)" "\<forall>r \<in> set rs. f p \<le> f (rs_priority r)" "\<forall>r \<in> set batch. rs_priority r = p" "inj f"
  shows "sorted_wrt (\<lambda>a b. \<forall>r \<in> set a. \<forall>q \<in> set b. f (rs_priority r) < f (rs_priority q)) (group_loop rs p batch)"
  using assms
proof (induction rs p batch rule: group_loop.induct)
  case (1 p batch)
  then show ?case by simp
next
  case (2 r rs p batch)
  show ?case
  proof (cases "rs_priority r = p")
    case True
    then show ?thesis using 2 by simp
  next
    case False
    have lt: "f p < f (rs_priority r)"
      using 2(4) False 2(6) by (simp add: order.strict_iff_order inj_eq)
    have up: "f (rs_priority r) \<le> f (rs_priority q)" if "q \<in> set rs" for q using 2(3) that by auto
    have "sorted_wrt (\<lambda>a b. \<forall>r \<in> set a. \<forall>q \<in> set b. f (rs_priority r) < f (rs_priority q)) (group_loop rs (rs_priority r) [r])"
      using 2(3) up 2(6) by (intro 2(1) [OF False]) simp_all
    moreover have "f (rs_priority q) < f (rs_priority x)" if "q \<in> set batch" "b \<in> set (group_loop rs (rs_priority r) [r])" "x \<in> set b" for q b x
    proof -
      have "x \<in> set ([r] @ rs)" using that(2,3) group_loop_concat [of rs "rs_priority r" "[r]"] by (metis UN_I set_concat)
      then show ?thesis using lt up that(1) 2(5) by force
    qed
    ultimately show ?thesis using False by simp
  qed
qed

definition before :: "bool \<Rightarrow> resource \<Rightarrow> resource \<Rightarrow> bool" where
  "before descending r q \<longleftrightarrow> (if descending then rs_priority q < rs_priority r else rs_priority r < rs_priority q)"

lemma groups_ordered:
  fixes d :: bool and rs :: "resource list"
  defines "gs \<equiv> groupByPriority (sorted_stack d rs)"
  shows "concat gs = sorted_stack d rs" and "\<And>b. b \<in> set gs \<Longrightarrow> b \<noteq> []"
    and "\<And>b r q. b \<in> set gs \<Longrightarrow> r \<in> set b \<Longrightarrow> q \<in> set b \<Longrightarrow> rs_priority r = rs_priority q"
    and "sorted_wrt (\<lambda>a b. \<forall>r \<in> set a. \<forall>q \<in> set b. before d r q) gs"
proof -
  define f :: "int \<Rightarrow> int" where "f = (if d then uminus else id)"
  have srt: "sorted (map (f \<circ> rs_priority) (sorted_stack d rs))"
    unfolding sorted_stack_def f_def by (auto simp: comp_def id_def sorted_sort_key)
  have inj: "inj f" by (simp add: f_def)
  show "concat gs = sorted_stack d rs" by (simp add: gs_def groupByPriority_def group_loop_concat split: list.split)
  have loop: "gs = [] \<or> gs = group_loop (sorted_stack d rs) (rs_priority (hd (sorted_stack d rs))) []"
    by (cases "sorted_stack d rs") (simp_all add: gs_def groupByPriority_def)
  show "b \<noteq> []" if "b \<in> set gs" for b
    using that loop group_loop_nonempty [of "[]" "sorted_stack d rs" "rs_priority (hd (sorted_stack d rs))" b] by auto
  show "rs_priority r = rs_priority q" if "b \<in> set gs" "r \<in> set b" "q \<in> set b" for b r q
  proof -
    have "\<exists>x. \<forall>r \<in> set b. rs_priority r = x"
      using that(1) loop group_loop_uniform [of "[]" "rs_priority (hd (sorted_stack d rs))" b "sorted_stack d rs"] by auto
    then show ?thesis using that(2,3) by auto
  qed
  have "sorted_wrt (\<lambda>a b. \<forall>r \<in> set a. \<forall>q \<in> set b. f (rs_priority r) < f (rs_priority q)) gs"
  proof (cases "sorted_stack d rs")
    case Nil
    then show ?thesis by (simp add: gs_def groupByPriority_def)
  next
    case (Cons x xs)
    have "gs = group_loop (x # xs) (rs_priority x) []" by (simp add: gs_def groupByPriority_def Cons)
    then show ?thesis using group_loop_ordered [of f "x # xs" "rs_priority x" "[]"] srt inj by (simp add: Cons)
  qed
  then show "sorted_wrt (\<lambda>a b. \<forall>r \<in> set a. \<forall>q \<in> set b. before d r q) gs"
    by (rule sorted_wrt_mono_rel [rotated]) (auto simp: before_def f_def split: if_splits)
qed

lemma run_batches_prefix:
  "\<exists>rest. bs = fst (run_batches ff pool bs) @ rest \<and>
     (rest \<noteq> [] \<longrightarrow> ff \<and> snd (run_batches ff pool bs) \<noteq> []) \<and>
     (ff \<longrightarrow> (\<forall>b \<in> set (butlast (fst (run_batches ff pool bs))). pool (submitted b) = [])) \<and>
     snd (run_batches ff pool bs) = concat (map (pool \<circ> submitted) (fst (run_batches ff pool bs)))"
proof (induction bs)
  case Nil
  then show ?case by simp
next
  case (Cons b bs)
  show ?case
  proof (cases "pool (submitted b) \<noteq> [] \<and> ff")
    case True
    then show ?thesis by (intro exI [of _ bs]) simp
  next
    case False
    obtain ran errs where r: "run_batches ff pool bs = (ran, errs)" by fastforce
    from Cons [unfolded r fst_conv snd_conv] obtain rest where "bs = ran @ rest" "rest \<noteq> [] \<longrightarrow> ff \<and> errs \<noteq> []"
      "ff \<longrightarrow> (\<forall>b \<in> set (butlast ran). pool (submitted b) = [])" "errs = concat (map (pool \<circ> submitted) ran)"
      by blast
    note p = this
    have step: "run_batches ff pool (b # bs) = (b # ran, pool (submitted b) @ errs)"
      using False by (auto simp: r Let_def)
    have "ff \<longrightarrow> (\<forall>x \<in> set (butlast (b # ran)). pool (submitted x) = [])" using p(3) False by auto
    then show ?thesis unfolding step fst_conv snd_conv using p(1,2,4) by (intro exI [of _ rest]) (simp add: comp_def)
  qed
qed

text \<open>
  C17.  A stack runs its resources in the order of their priorities: the batches it gives to the pool
  are, one after the other, the stable sort of the resources by priority, every batch is of one
  priority and every resource of a batch has one before (descending, after) those of the batches that
  follow.  A batch is left out only where the stack fails fast and the last batch it ran failed, and
  then no batch but the last has.  The errors are those of the batches that ran.
\<close>
theorem stack_runs_by_priority:
  "let ran = fst (stack_Run o1 pool rs); errs = snd (stack_Run o1 pool rs);
       order = sort_key (if so_descending o1 then (\<lambda>r. - rs_priority r) else rs_priority) rs
   in (\<exists>rest. order = concat ran @ rest \<and> (so_failfast o1 \<and> errs \<noteq> [] \<or> rest = [])) \<and>
      (\<forall>b \<in> set ran. b \<noteq> [] \<and> (\<forall>r \<in> set b. \<forall>q \<in> set b. rs_priority r = rs_priority q)) \<and>
      sorted_wrt (\<lambda>a b. \<forall>r \<in> set a. \<forall>q \<in> set b. before (so_descending o1) r q) ran \<and>
      (so_failfast o1 \<longrightarrow> (\<forall>b \<in> set (butlast ran). pool (submitted b) = [])) \<and>
      errs = concat (map (pool \<circ> submitted) ran)"
proof -
  let ?gs = "groupByPriority (sorted_stack (so_descending o1) rs)"
  obtain ran errs where r: "run_batches (so_failfast o1) pool ?gs = (ran, errs)" by fastforce
  obtain rest where p: "?gs = ran @ rest" "rest \<noteq> [] \<longrightarrow> so_failfast o1 \<and> errs \<noteq> []"
    "so_failfast o1 \<longrightarrow> (\<forall>b \<in> set (butlast ran). pool (submitted b) = [])" "errs = concat (map (pool \<circ> submitted) ran)"
    using run_batches_prefix [of ?gs "so_failfast o1" pool] unfolding r fst_conv snd_conv by blast
  have s: "stack_Run o1 pool rs = (ran, errs)" by (simp add: stack_Run_def r)
  have "sort_key (if so_descending o1 then (\<lambda>r. - rs_priority r) else rs_priority) rs = concat ran @ concat rest"
    using groups_ordered(1) [of "so_descending o1" rs] p(1) by (simp add: sorted_stack_def)
  moreover have "so_failfast o1 \<and> errs \<noteq> [] \<or> concat rest = []" using p(2) by auto
  moreover have "b \<in> set ?gs" if "b \<in> set ran" for b using that p(1) by simp
  moreover have "sorted_wrt (\<lambda>a b. \<forall>r \<in> set a. \<forall>q \<in> set b. before (so_descending o1) r q) ran"
    using groups_ordered(4) [of "so_descending o1" rs] p(1) by (simp add: sorted_wrt_append)
  ultimately show ?thesis
    using groups_ordered(2,3) [where d = "so_descending o1" and rs = rs] p(3,4) by (simp add: s Let_def) blast
qed

lemma stack_runs_by_priority_witness:
  "let o1 = \<lparr>so_workers = 4, so_descending = False, so_failfast = True\<rparr>; a = demo_resource 0 ''web'' 20; b = demo_resource 1 ''net'' 10;
       ran = fst (stack_Run o1 (\<lambda>b. []) [a, b])
   in concat ran = [b, a] \<and> sorted_wrt (\<lambda>x y. \<forall>r \<in> set x. \<forall>q \<in> set y. before False r q) ran"
proof -
  let ?o = "\<lparr>so_workers = 4, so_descending = False, so_failfast = True\<rparr>"
  let ?rs = "[demo_resource 0 ''web'' 20, demo_resource 1 ''net'' 10]"
  let ?ran = "fst (stack_Run ?o (\<lambda>b. []) ?rs)"
  note p = stack_runs_by_priority [of ?o "\<lambda>b. []" ?rs, unfolded Let_def]
  have "snd (stack_Run ?o (\<lambda>b. []) ?rs) = concat (map ((\<lambda>b. []) \<circ> submitted) ?ran)" using p by blast
  then have "snd (stack_Run ?o (\<lambda>b. []) ?rs) = []" by (auto simp: concat_eq_Nil_conv)
  then have "concat ?ran = sort_key rs_priority ?rs" using p by auto
  moreover have "sort_key rs_priority ?rs = [demo_resource 1 ''net'' 10, demo_resource 0 ''web'' 20]" by (simp add: demo_resource_def)
  moreover have "sorted_wrt (\<lambda>x y. \<forall>r \<in> set x. \<forall>q \<in> set y. before False r q) ?ran" using p by auto
  ultimately show ?thesis by (simp add: Let_def)
qed

subsection \<open>The pool runs every task once\<close>

fun task_of :: "worker \<Rightarrow> nat list" where
  "task_of (Took t) = [t]"
| "task_of (Works t) = [t]"
| "task_of w = []"

definition in_hand :: "pool \<Rightarrow> nat multiset" where
  "in_hand p = (\<Sum>w \<leftarrow> pl_workers p. mset (task_of w))"

definition failures :: "(nat \<Rightarrow> run_error option) \<Rightarrow> nat list \<Rightarrow> (nat \<times> run_error) list" where
  "failures outcome ts = concat (map (\<lambda>t. case outcome t of None \<Rightarrow> [] | Some e \<Rightarrow> [(t, e)]) ts)"

definition pool_ok :: "bool \<Rightarrow> (nat \<Rightarrow> run_error option) \<Rightarrow> nat \<Rightarrow> pool \<Rightarrow> bool" where
  \<comment> \<open>Every task is in one place; the errors are those of what has finished; only a failure cancels, and only then is a task dropped or a worker gone with tasks left.\<close>
  "pool_ok failFast outcome n p \<longleftrightarrow>
     mset (pl_queue p) + in_hand p + mset (pl_finished p) + mset (pl_dropped p) = mset [0..<n] \<and>
     pl_errs p = failures outcome (pl_finished p) \<and> pl_taken p \<le> length (pl_errs p) \<and> pl_room p = n \<and>
     (pl_cancelled p \<or> Cancels \<in> set (pl_workers p) \<longrightarrow> failFast \<and> pl_errs p \<noteq> []) \<and>
     (failFast \<and> pl_errs p \<noteq> [] \<longrightarrow> pl_cancelled p \<or> Cancels \<in> set (pl_workers p)) \<and>
     (pl_dropped p \<noteq> [] \<longrightarrow> pl_cancelled p) \<and>
     (Gone \<in> set (pl_workers p) \<longrightarrow> pl_queue p = [] \<or> pl_cancelled p) \<and>
     pl_workers p \<noteq> []"

lemma in_hand_put:
  assumes "w < length (pl_workers p)"
  shows "in_hand (put_worker w x p) + mset (task_of (pl_workers p ! w)) = in_hand p + mset (task_of x)"
proof -
  have "(\<Sum>v \<leftarrow> ws[w := x]. mset (task_of v)) + mset (task_of (ws ! w)) = (\<Sum>v \<leftarrow> ws. mset (task_of v)) + mset (task_of x)"
    if "w < length ws" for ws
    using that
  proof (induction ws arbitrary: w)
    case (Cons v ws)
    then show ?case by (cases w) (auto simp: ac_simps)
  qed simp
  then show ?thesis using assms by (simp add: in_hand_def put_worker_def)
qed

lemma in_hand_other [simp]:
  "in_hand (p\<lparr>pl_queue := q\<rparr>) = in_hand p" "in_hand (p\<lparr>pl_errs := es\<rparr>) = in_hand p"
  "in_hand (p\<lparr>pl_cancelled := c\<rparr>) = in_hand p" "in_hand (p\<lparr>pl_finished := fs\<rparr>) = in_hand p"
  "in_hand (p\<lparr>pl_dropped := ds\<rparr>) = in_hand p" "in_hand (p\<lparr>pl_taken := k\<rparr>) = in_hand p"
  by (simp_all add: in_hand_def)

lemma put_worker_fields [simp]:
  "pl_queue (put_worker w x p) = pl_queue p" "pl_errs (put_worker w x p) = pl_errs p"
  "pl_cancelled (put_worker w x p) = pl_cancelled p" "pl_finished (put_worker w x p) = pl_finished p"
  "pl_taken (put_worker w x p) = pl_taken p" "pl_room (put_worker w x p) = pl_room p"
  "pl_dropped (put_worker w x p) = pl_dropped p" "pl_workers (put_worker w x p) = (pl_workers p)[w := x]"
  by (simp_all add: put_worker_def)

lemma failures_snoc: "failures outcome (ts @ [t]) = failures outcome ts @ (case outcome t of None \<Rightarrow> [] | Some e \<Rightarrow> [(t, e)])"
  by (simp add: failures_def)

lemma pool_ok_new: "pool_ok failFast outcome n (new_pool workers n)"
proof -
  have "(\<Sum>w \<leftarrow> replicate k Idle. mset (task_of w)) = {#}" for k by (induction k) auto
  then show ?thesis by (auto simp: pool_ok_def new_pool_def in_hand_def failures_def)
qed

lemma set_update_other: "w < length ws \<Longrightarrow> ws ! w \<noteq> y \<Longrightarrow> y \<in> set (ws[w := x]) \<longleftrightarrow> y \<in> set ws \<or> y = x"
proof (induction ws arbitrary: w)
  case (Cons v ws)
  then show ?case by (cases w) auto
qed simp

lemma pool_ok_step:
  assumes "pool_ok failFast outcome n p" "pool_step failFast outcome a p = Some q"
  shows "pool_ok failFast outcome n q"
proof (cases a)
  case (Take w)
  then obtain t ts where s: "w < length (pl_workers p)" "pl_workers p ! w = Idle" "pl_queue p = t # ts"
    "q = (put_worker w (Took t) p)\<lparr>pl_queue := ts\<rparr>"
    using assms(2) by (auto split: if_splits list.splits)
  then show ?thesis using assms(1) in_hand_put [of w p "Took t"]
    by (auto simp: pool_ok_def set_update_other)
next
  case (Leave w)
  then have s: "w < length (pl_workers p)" "pl_workers p ! w = Idle" "pl_queue p = []" "q = put_worker w Gone p"
    using assms(2) by (auto split: if_splits)
  then show ?thesis using assms(1) in_hand_put [of w p Gone] by (auto simp: pool_ok_def set_update_other)
next
  case (Check w)
  then obtain t where s: "w < length (pl_workers p)" "pl_workers p ! w = Took t"
    "q = (if pl_cancelled p then (put_worker w Gone p)\<lparr>pl_dropped := pl_dropped p @ [t]\<rparr> else put_worker w (Works t) p)"
    using assms(2) by (auto split: if_splits worker.splits)
  have g: "in_hand p = add_mset t (in_hand (put_worker w Gone p))" and k: "in_hand (put_worker w (Works t) p) = in_hand p"
    using in_hand_put [of w p Gone] in_hand_put [of w p "Works t"] s by simp_all
  show ?thesis
  proof (cases "pl_cancelled p")
    case True
    then show ?thesis using assms(1) s by (auto simp: pool_ok_def g set_update_other)
  next
    case False
    then show ?thesis using assms(1) s k by (auto simp: pool_ok_def set_update_other)
  qed
next
  case (Finish w)
  then obtain t where s: "w < length (pl_workers p)" "pl_workers p ! w = Works t" using assms(2) by (auto split: if_splits worker.splits)
  show ?thesis
  proof (cases "outcome t")
    case None
    then have q: "q = put_worker w Idle (p\<lparr>pl_finished := pl_finished p @ [t]\<rparr>)" using assms(2) Finish s by simp
    have h: "in_hand p = add_mset t (in_hand q)" using in_hand_put [of w p Idle] s by (simp add: q put_worker_def in_hand_def)
    have fields: "pl_queue q = pl_queue p" "pl_errs q = pl_errs p" "pl_taken q = pl_taken p" "pl_room q = pl_room p"
      "pl_cancelled q = pl_cancelled p" "pl_dropped q = pl_dropped p" "pl_finished q = pl_finished p @ [t]"
      "Cancels \<in> set (pl_workers q) \<longleftrightarrow> Cancels \<in> set (pl_workers p)" "Gone \<in> set (pl_workers q) \<longleftrightarrow> Gone \<in> set (pl_workers p)"
      "pl_workers q = [] \<longleftrightarrow> pl_workers p = []"
      using s by (simp_all add: q set_update_other)
    show ?thesis using assms(1) None unfolding pool_ok_def fields h by (auto simp: failures_snoc)
  next
    case (Some e)
    let ?p = "p\<lparr>pl_finished := pl_finished p @ [t]\<rparr>"
    have q: "q = (put_worker w (if failFast then Cancels else Idle) ?p)\<lparr>pl_errs := pl_errs p @ [(t, e)]\<rparr>"
      using assms(2) Finish s Some by (simp add: Let_def split: if_splits)
    have h: "in_hand p = add_mset t (in_hand q)"
      using in_hand_put [of w ?p "if failFast then Cancels else Idle"] s by (simp add: q split: if_splits)
    have fields: "pl_queue q = pl_queue p" "pl_errs q = pl_errs p @ [(t, e)]" "pl_taken q = pl_taken p" "pl_room q = pl_room p"
      "pl_cancelled q = pl_cancelled p" "pl_dropped q = pl_dropped p" "pl_finished q = pl_finished p @ [t]"
      "Cancels \<in> set (pl_workers q) \<longleftrightarrow> Cancels \<in> set (pl_workers p) \<or> failFast" "Gone \<in> set (pl_workers q) \<longleftrightarrow> Gone \<in> set (pl_workers p)"
      "pl_workers q = [] \<longleftrightarrow> pl_workers p = []"
      using s by (simp_all add: q set_update_other)
    show ?thesis using assms(1) Some unfolding pool_ok_def fields h by (auto simp: failures_snoc)
  qed
next
  case (Cancel w)
  then have s: "w < length (pl_workers p)" "pl_workers p ! w = Cancels" "q = (put_worker w Gone p)\<lparr>pl_cancelled := True\<rparr>"
    using assms(2) by (simp_all split: if_splits)
  have c: "Cancels \<in> set (pl_workers p)" using s(1,2) by (metis nth_mem)
  have h: "in_hand q = in_hand p" using in_hand_put [OF s(1), of Gone] s(2) by (simp add: s(3))
  have fields: "pl_queue q = pl_queue p" "pl_errs q = pl_errs p" "pl_taken q = pl_taken p" "pl_room q = pl_room p"
    "pl_cancelled q" "pl_dropped q = pl_dropped p" "pl_finished q = pl_finished p" "pl_workers q = [] \<longleftrightarrow> pl_workers p = []"
    by (simp_all add: s(3))
  have "failFast \<and> pl_errs p \<noteq> []" using assms(1) c unfolding pool_ok_def by blast
  then show ?thesis using assms(1) fields(5) unfolding pool_ok_def fields(1-4,6-8) h by blast
next
  case Receive
  then have "pl_taken p < length (pl_errs p)" and q: "q = p\<lparr>pl_taken := Suc (pl_taken p)\<rparr>" using assms(2) by (simp_all split: if_splits)
  then have t: "pl_taken q \<le> length (pl_errs p)" by simp
  have fields: "pl_queue q = pl_queue p" "pl_errs q = pl_errs p" "pl_room q = pl_room p" "pl_cancelled q = pl_cancelled p"
    "pl_dropped q = pl_dropped p" "pl_finished q = pl_finished p" "pl_workers q = pl_workers p" "in_hand q = in_hand p"
    by (simp_all add: q)
  show ?thesis using assms(1) t unfolding pool_ok_def fields by blast
qed

lemma pool_ok_run:
  "pool_run failFast outcome as p = Some q \<Longrightarrow> pool_ok failFast outcome n p \<Longrightarrow> pool_ok failFast outcome n q"
  by (induction as arbitrary: p) (auto split: option.splits dest: pool_ok_step)

lemma over_in_hand:
  assumes "pool_over p"
  shows "in_hand p = {#}"
proof -
  have "(\<Sum>w \<leftarrow> ws. mset (task_of w)) = {#}" if "set ws \<subseteq> {Gone}" for ws using that by (induction ws) auto
  then show ?thesis using assms by (simp add: in_hand_def pool_over_def)
qed

text \<open>
  C16.  However the workers of a pool take turns, no task is run twice, and what the pool answers is
  what became of its tasks: where it does not fail fast the answer comes once every task has been run
  and holds each one's error, and where it does an answer without error means that every task has been
  run and succeeded, and any other is a task's own error.
\<close>
theorem pool_answers_for_every_task:
  assumes "pool_run failFast outcome as (new_pool workers n) = Some p"
  shows "distinct (pl_finished p) \<and> set (pl_finished p) \<subseteq> {..<n} \<and>
    (\<forall>errs. pool_answer failFast p = Some errs \<longrightarrow>
       (if failFast then (errs = [] \<longrightarrow> set (pl_finished p) = {..<n} \<and> (\<forall>t < n. outcome t = None)) \<and>
                         (\<forall>e \<in> set errs. \<exists>t < n. outcome t = Some e)
        else set (pl_finished p) = {..<n} \<and> mset errs = mset (map snd (failures outcome [0..<n]))))"
proof -
  have ok: "pool_ok failFast outcome n p" using assms pool_ok_new by (rule pool_ok_run)
  let ?fin = "pl_finished p"
  have sub: "mset ?fin \<subseteq># mset [0..<n]" using ok unfolding pool_ok_def
    by (metis mset_subset_eq_add_left union_assoc union_commute)
  then obtain ys where "mset [0..<n] = mset (?fin @ ys)" by (metis ex_mset mset_append mset_subset_eq_exists_conv)
  then have "distinct (?fin @ ys)" by (metis distinct_upt mset_eq_imp_distinct_iff)
  then have "distinct ?fin" by simp
  moreover have inside: "set ?fin \<subseteq> {..<n}" using set_mset_mono [OF sub] by auto
  moreover have all: "mset ?fin = mset [0..<n]" if "pool_over p" "\<not> pl_cancelled p"
  proof -
    have "Gone \<in> set (pl_workers p)" using ok that(1) unfolding pool_ok_def pool_over_def by (cases "pl_workers p") auto
    then show ?thesis using ok that over_in_hand unfolding pool_ok_def by auto
  qed
  moreover have errs: "pl_errs p = failures outcome ?fin" using ok by (simp add: pool_ok_def)
  moreover have fail: "outcome t = None" if "failures outcome ts = []" "t \<in> set ts" for t ts
    using that by (induction ts) (auto simp: failures_def split: option.splits)
  moreover have src: "\<exists>t \<in> set ts. outcome t = Some e" if "e \<in> snd ` set (failures outcome ts)" for e ts
    using that by (auto simp: failures_def split: option.splits)
  moreover have perm: "mset (map snd (failures outcome ?fin)) = mset (map snd (failures outcome [0..<n]))" if "mset ?fin = mset [0..<n]"
  proof -
    have "mset (failures outcome ts) = (\<Sum>t \<in># mset ts. mset (case outcome t of None \<Rightarrow> [] | Some e \<Rightarrow> [(t, e)]))" for ts
      by (induction ts) (auto simp: failures_def)
    from this [of ?fin] this [of "[0..<n]"] have "mset (failures outcome ?fin) = mset (failures outcome [0..<n])"
      by (simp add: that)
    then show ?thesis by (simp only: mset_map)
  qed
moreover have "if failFast then (errs = [] \<longrightarrow> set ?fin = {..<n} \<and> (\<forall>t < n. outcome t = None)) \<and>
                         (\<forall>e \<in> set errs. \<exists>t < n. outcome t = Some e)
        else set ?fin = {..<n} \<and> mset errs = mset (map snd (failures outcome [0..<n]))"
    if a: "pool_answer failFast p = Some errs" for errs
  proof (cases "failFast \<and> pl_errs p \<noteq> []")
    case True
    then have "errs = [snd (hd (pl_errs p))]" using a by (auto simp: pool_answer_def split: if_splits)
    moreover have "snd (hd (pl_errs p)) \<in> snd ` set (failures outcome ?fin)" using True errs by simp
    then have "\<exists>t < n. outcome t = Some (snd (hd (pl_errs p)))" using src inside by blast
    ultimately show ?thesis using True by simp
  next
    case False
    then have over: "pool_over p" and e: "errs = map snd (pl_errs p)"
      using a ok by (auto simp: pool_answer_def pool_ok_def split: if_splits)
    have m: "mset ?fin = mset [0..<n]" using all [OF over] False ok by (auto simp: pool_ok_def)
    then have fin: "set ?fin = {..<n}" by (metis atLeast_upt mset_eq_setD)
    show ?thesis
    proof (cases failFast)
      case True
      then have "pl_errs p = []" using False by simp
      then show ?thesis using True fin e errs fail [of ?fin] by auto
    next
      case f: False
      then show ?thesis using fin e errs perm [OF m] by simp
    qed
  qed
  ultimately show ?thesis by blast
qed

fun worker_weight :: "worker \<Rightarrow> nat" where
  "worker_weight Idle = 1"
| "worker_weight (Took t) = 4"
| "worker_weight (Works t) = 3"
| "worker_weight Cancels = 1"
| "worker_weight Gone = 0"

definition pool_weight :: "pool \<Rightarrow> nat" where
  "pool_weight p = 4 * length (pl_queue p) + sum_list (map worker_weight (pl_workers p)) + (length (pl_errs p) - pl_taken p)"

lemma weight_put:
  "w < length ws \<Longrightarrow> sum_list (map worker_weight (ws[w := x])) + worker_weight (ws ! w) = sum_list (map worker_weight ws) + worker_weight x"
proof (induction ws arbitrary: w)
  case (Cons v ws)
  then show ?case by (cases w) auto
qed simp

lemma pool_step_weight:
  assumes "pool_step failFast outcome a p = Some q"
  shows "pool_weight q < pool_weight p"
proof (cases a)
  case (Take w)
  then obtain t ts where "w < length (pl_workers p)" "pl_workers p ! w = Idle" "pl_queue p = t # ts"
    "q = (put_worker w (Took t) p)\<lparr>pl_queue := ts\<rparr>" using assms by (auto split: if_splits list.splits)
  then show ?thesis using weight_put [of w "pl_workers p" "Took t"] by (simp add: pool_weight_def)
next
  case (Leave w)
  then have "w < length (pl_workers p)" "pl_workers p ! w = Idle" "q = put_worker w Gone p"
    using assms by (auto split: if_splits)
  then show ?thesis using weight_put [of w "pl_workers p" Gone] by (simp add: pool_weight_def)
next
  case (Check w)
  then obtain t where "w < length (pl_workers p)" "pl_workers p ! w = Took t"
    "q = (put_worker w Gone p)\<lparr>pl_dropped := pl_dropped p @ [t]\<rparr> \<or> q = put_worker w (Works t) p"
    using assms by (auto split: if_splits worker.splits)
  then show ?thesis using weight_put [of w "pl_workers p" Gone] weight_put [of w "pl_workers p" "Works t"]
    by (auto simp: pool_weight_def)
next
  case (Finish w)
  then obtain t where t: "w < length (pl_workers p)" "pl_workers p ! w = Works t" using assms by (auto split: if_splits worker.splits)
  then have "\<exists>x. (x = Cancels \<or> x = Idle) \<and> pl_workers q = (pl_workers p)[w := x] \<and> pl_queue q = pl_queue p \<and>
    pl_taken q = pl_taken p \<and> length (pl_errs q) \<le> Suc (length (pl_errs p))"
    using assms Finish by (cases "outcome t") (auto simp: Let_def split: if_splits)
  then obtain x where "x = Cancels \<or> x = Idle" "pl_workers q = (pl_workers p)[w := x]" "pl_queue q = pl_queue p"
    "pl_taken q = pl_taken p" "length (pl_errs q) \<le> Suc (length (pl_errs p))" by blast
  then show ?thesis using t weight_put [of w "pl_workers p" x] by (auto simp: pool_weight_def)
next
  case (Cancel w)
  then have "w < length (pl_workers p)" "pl_workers p ! w = Cancels" "q = (put_worker w Gone p)\<lparr>pl_cancelled := True\<rparr>"
    using assms by (auto split: if_splits)
  then show ?thesis using weight_put [of w "pl_workers p" Gone] by (simp add: pool_weight_def)
next
  case Receive
  then show ?thesis using assms by (auto simp: pool_weight_def split: if_splits)
qed

lemma failures_length: "length (failures outcome ts) \<le> length ts"
  by (induction ts) (auto simp: failures_def split: option.split)

lemma room_for_an_error:
  assumes "pool_ok failFast outcome n p" "w < length (pl_workers p)" "pl_workers p ! w = Works t"
  shows "length (pl_errs p) - pl_taken p < pl_room p"
proof -
  have "in_hand p = add_mset t (in_hand (put_worker w Gone p))" using in_hand_put [of w p Gone] assms(2,3) by simp
  moreover have "size (mset (pl_queue p) + in_hand p + mset (pl_finished p) + mset (pl_dropped p)) = n"
    using assms(1) by (simp add: pool_ok_def)
  ultimately have "length (pl_finished p) < n" by simp
  then show ?thesis using assms(1) failures_length [of outcome "pl_finished p"] by (simp add: pool_ok_def)
qed

lemma pool_step_enabled:
  assumes "pool_ok failFast outcome n p" "w < length (pl_workers p)" "pl_workers p ! w \<noteq> Gone"
  shows "\<exists>a \<in> {Take w, Check w, Finish w, Cancel w, Leave w}. pool_step failFast outcome a p \<noteq> None"
proof (cases "pl_workers p ! w")
  case (Works t)
  then show ?thesis using assms(2) room_for_an_error [OF assms(1,2)] by (simp add: Let_def split: option.split)
qed (use assms in \<open>simp_all split: list.split\<close>)

lemma pool_run_weight: "pool_run failFast outcome as p = Some q \<Longrightarrow> length as + pool_weight q \<le> pool_weight p"
proof (induction as arbitrary: p)
  case (Cons a as)
  then obtain p1 where "pool_step failFast outcome a p = Some p1" "pool_run failFast outcome as p1 = Some q"
    by (auto split: option.splits)
  then show ?case using Cons.IH pool_step_weight by fastforce
qed simp

text \<open>
  C37.  A pool whose tasks return always ends, and leaves no worker behind.  Every worker that is not gone can go
  on, whatever the others and the caller do: also where the caller has left with the first error, no worker waits for ever for
  room in the channel of errors.  While \<open>Run\<close> has no answer some step can be made, and no run is
  longer than four steps for each task and one for each worker.
\<close>
theorem pool_always_ends:
  assumes "pool_run failFast outcome as (new_pool workers n) = Some p"
  shows "length as \<le> 4 * n + nat (max 1 workers) \<and>
    (\<forall>w < length (pl_workers p). pl_workers p ! w \<noteq> Gone \<longrightarrow>
       (\<exists>a \<in> {Take w, Check w, Finish w, Cancel w, Leave w}. pool_step failFast outcome a p \<noteq> None)) \<and>
    (pool_answer failFast p = None \<longrightarrow> (\<exists>a. pool_step failFast outcome a p \<noteq> None))"
proof -
  have ok: "pool_ok failFast outcome n p" using assms pool_ok_new by (rule pool_ok_run)
  have "length as \<le> pool_weight (new_pool workers n)" using pool_run_weight [OF assms] by simp
  also have "\<dots> = 4 * n + nat (max 1 workers)" by (simp add: pool_weight_def new_pool_def sum_list_replicate)
  finally have "length as \<le> 4 * n + nat (max 1 workers)" .
  moreover note on = pool_step_enabled [OF ok]
  moreover have "\<exists>a. pool_step failFast outcome a p \<noteq> None" if none: "pool_answer failFast p = None"
  proof (cases "pool_over p")
    case False
    then obtain w where "w < length (pl_workers p)" "pl_workers p ! w \<noteq> Gone"
      by (fastforce simp: pool_over_def in_set_conv_nth)
    then show ?thesis using on by blast
  next
    case True
    then have "pool_step failFast outcome Receive p \<noteq> None"
      using none ok by (auto simp: pool_answer_def pool_ok_def split: if_splits)
    then show ?thesis by blast
  qed
  ultimately show ?thesis by blast
qed

definition demo_turns :: "pool_act list" where
  "demo_turns = [Take 0, Take 1, Check 1, Check 0, Finish 1, Take 1, Finish 0, Check 1, Finish 1, Receive, Leave 0, Leave 1]"

definition demo_failing :: "pool_act list" where
  \<comment> \<open>Three tasks that fail, on three workers; the caller takes the first error and leaves.\<close>
  "demo_failing = [Take 0, Take 1, Take 2, Check 0, Check 1, Check 2, Finish 0, Receive, Cancel 0, Finish 1, Cancel 1]"

lemma pool_answers_for_every_task_witness:
  "\<exists>p. pool_run False (\<lambda>t. if t = 1 then Some (Failed [ErrUnknown]) else None) demo_turns (new_pool 2 3) = Some p \<and>
     set (pl_finished p) = {..<3}"
proof -
  let ?out = "\<lambda>t :: nat. if t = 1 then Some (Failed [ErrUnknown]) else None"
  let ?p = "the (pool_run False ?out demo_turns (new_pool 2 3))"
  have r: "pool_run False ?out demo_turns (new_pool 2 3) = Some ?p" by code_simp
  have "pool_answer False ?p = Some [Failed [ErrUnknown]]" by code_simp
  then show ?thesis using pool_answers_for_every_task [OF r] r by auto
qed

lemma pool_always_ends_witness:
  "\<exists>p. pool_run True (\<lambda>t. Some (Failed [ErrUnknown])) demo_failing (new_pool 3 3) = Some p \<and> pl_workers p ! 2 = Works 2 \<and>
     (\<exists>a \<in> {Take 2, Check 2, Finish 2, Cancel 2, Leave 2}. pool_step True (\<lambda>t. Some (Failed [ErrUnknown])) a p \<noteq> None)"
proof -
  let ?p = "the (pool_run True (\<lambda>t. Some (Failed [ErrUnknown])) demo_failing (new_pool 3 3))"
  have r: "pool_run True (\<lambda>t. Some (Failed [ErrUnknown])) demo_failing (new_pool 3 3) = Some ?p" by code_simp
  have w: "2 < length (pl_workers ?p)" "pl_workers ?p ! 2 = Works 2" by code_simp+
  have "\<exists>a \<in> {Take 2, Check 2, Finish 2, Cancel 2, Leave 2}. pool_step True (\<lambda>t. Some (Failed [ErrUnknown])) a ?p \<noteq> None"
  proof -
    have "pl_workers ?p ! 2 \<noteq> Gone" unfolding w(2) by simp
    with pool_always_ends [OF r] w(1) show ?thesis by blast
  qed
  then show ?thesis using r w(2) by blast
qed

end
