(* ===== verification/NetworkAcl.thy ===== *)
theory NetworkAcl
  imports DnsNames Placement InstanceDevices
begin

text \<open>
  The access rules of a project's networks (\<open>project/network_acl.go\<close>): the rules of
  \<open>x-incus-compose.acl\<close> compiled to those of Incus, their port specifications grouped by
  protocol, their targets resolved.  Making the network a target names and looking up another
  project's are parameters.
\<close>

subsection \<open>Ports\<close>

datatype acl_error =
    EmptySpec | InvalidSpec string | BadPorts string | WildcardOnly string | UnsupportedProtocol string
  | WrongSide string | BadAction string | BadState string | OnlyOnOVN string | BadDefault string
  | BadReference string | UnknownTarget string | Unresolved string

definition parse_uint16 :: "string \<Rightarrow> nat option" where
  \<comment> \<open>\<open>strconv.ParseUint(s, 10, 16)\<close>\<close>
  "parse_uint16 s = (case parse_uint32 s of Some n \<Rightarrow> if n < 2 ^ 16 then Some n else None | None \<Rightarrow> None)"

definition port_part :: "string \<Rightarrow> (nat \<times> nat) option" where
  \<comment> \<open>One element of the list: a port or a range, by its bounds.\<close>
  "port_part raw =
     (let part = trim_space raw in
      if part = [] then None
      else case go_cut part ''-'' of
             None \<Rightarrow> (case parse_uint16 part of Some n \<Rightarrow> if n = 0 then None else Some (n, n) | None \<Rightarrow> None)
           | Some (a, b) \<Rightarrow>
               (case (parse_uint16 (trim_space a), parse_uint16 (trim_space b)) of
                  (Some x, Some y) \<Rightarrow> if x = 0 \<or> y = 0 \<or> y < x then None else Some (x, y)
                | _ \<Rightarrow> None))"

definition validatePortOrRange :: "string \<Rightarrow> bool" where
  "validatePortOrRange s \<longleftrightarrow> list_all (\<lambda>part. port_part part \<noteq> None) (split_on CHR '','' s)"

record port_group =
  pg_protocol :: string
  pg_ports :: string

record port_table =
  pt_order :: "string list"
  pt_by :: "(string \<times> string list) list"   \<comment> \<open>\<open>byProto\<close>\<close>
  pt_wild :: "string list"                   \<comment> \<open>\<open>wildcard\<close>\<close>

definition ports_of :: "port_table \<Rightarrow> string \<Rightarrow> string list" where
  "ports_of t proto = (case map_of (pt_by t) proto of None \<Rightarrow> [] | Some ps \<Rightarrow> ps)"

definition spec_parts :: "string \<Rightarrow> acl_error + string \<times> string" where
  \<comment> \<open>The port part of a specification and its protocol.\<close>
  "spec_parts raw =
     (let spec = trim_space raw in
      if spec = [] then Inl EmptySpec
      else if 1 < length (filter (\<lambda>c. c = CHR ''/'') spec) then Inl (InvalidSpec raw)
      else let (portPart, proto) =
             (case go_cut spec ''/'' of None \<Rightarrow> (spec, ''tcp'') | Some (a, b) \<Rightarrow> (trim_space a, to_lower (trim_space b)))
           in if portPart = [] \<or> proto = [] then Inl (InvalidSpec raw) else Inr (portPart, proto))"

definition port_spec :: "string \<Rightarrow> port_table \<Rightarrow> acl_error + port_table" where
  \<comment> \<open>One round of \<open>parsePortSpecs\<close>.\<close>
  "port_spec raw t =
     (case spec_parts raw of
        Inl e \<Rightarrow> Inl e
      | Inr (portPart, proto) \<Rightarrow>
          (let wild = t\<lparr>pt_wild := List.insert proto (pt_wild t)\<rparr>;
               taken =
                 (if proto = ''tcp'' \<or> proto = ''udp'' then
                    (if portPart = ''*'' then Inr wild
                     else if \<not> validatePortOrRange portPart then Inl (BadPorts raw)
                     else Inr (t\<lparr>pt_by := AList.update proto (ports_of t proto @ [portPart]) (pt_by t)\<rparr>))
                  else if proto = ''icmp4'' \<or> proto = ''icmp6'' then
                    (if portPart \<noteq> ''*'' then Inl (WildcardOnly raw) else Inr wild)
                  else Inl (UnsupportedProtocol proto))
           in case taken of
                Inl e \<Rightarrow> Inl e
              | Inr u \<Rightarrow> Inr (if proto \<in> set (pt_order u) then u else u\<lparr>pt_order := pt_order u @ [proto]\<rparr>)))"

fun port_specs :: "string list \<Rightarrow> port_table \<Rightarrow> acl_error + port_table" where
  "port_specs [] t = Inr t"
| "port_specs (s # ss) t = (case port_spec s t of Inl e \<Rightarrow> Inl e | Inr u \<Rightarrow> port_specs ss u)"

definition parsePortSpecs :: "string list \<Rightarrow> acl_error + port_group list" where
  "parsePortSpecs specs =
     (if specs = [] then Inr [\<lparr>pg_protocol = [], pg_ports = []\<rparr>]
      else case port_specs specs \<lparr>pt_order = [], pt_by = [], pt_wild = []\<rparr> of
             Inl e \<Rightarrow> Inl e
           | Inr t \<Rightarrow>
               Inr (map (\<lambda>proto. \<lparr>pg_protocol = proto,
                      pg_ports = (if proto \<in> set (pt_wild t) then [] else go_join '','' (ports_of t proto))\<rparr>) (pt_order t)))"

subsection \<open>Targets\<close>

definition ip_part :: "string \<Rightarrow> bool" where
  "ip_part raw \<longleftrightarrow>
     (let part = trim_space raw in
      part \<noteq> [] \<and>
      (ParsePrefix part \<noteq> None \<or> ParseAddr part \<noteq> None \<or>
       (case go_cut part ''-'' of
          None \<Rightarrow> False
        | Some (a, b) \<Rightarrow>
            (case (ParseAddr (trim_space a), ParseAddr (trim_space b)) of
               (Some x, Some y) \<Rightarrow> Is4 x = Is4 y \<and> \<not> addr_less y x
             | _ \<Rightarrow> False))))"

definition isIPLiteral :: "string \<Rightarrow> bool" where
  "isIPLiteral s \<longleftrightarrow> list_all ip_part (split_on CHR '','' s)"

record acl_env =
  ae_networks :: "string list option"      \<comment> \<open>the project's networks, where there is a project\<close>
  ae_ensure :: "string \<Rightarrow> bool"         \<comment> \<open>\<open>ensureProjectNetwork\<close> succeeds\<close>
  ae_other :: "string \<Rightarrow> string \<Rightarrow> bool"  \<comment> \<open>another project's network is found\<close>
  ae_format :: "string \<Rightarrow> string"       \<comment> \<open>\<open>DescriptionFormat\<close>\<close>

definition resolveACLTarget :: "acl_env \<Rightarrow> bool \<Rightarrow> string \<Rightarrow> string list \<Rightarrow> acl_error + string \<times> string list" where
  \<comment> \<open>The subject and the networks it refers to.\<close>
  "resolveACLTarget env isOVN target nets =
     (if target = [] \<or> target = ''any'' then Inr ([], nets)
      else if target = ''@internal'' \<or> target = ''@external'' then
        (if isOVN then Inr (target, nets) else Inl (OnlyOnOVN target))
      else if (case ae_networks env of None \<Rightarrow> False | Some ns \<Rightarrow> target \<in> set ns) then
        (if ae_ensure env target then Inr (target, List.insert target nets) else Inl (Unresolved target))
      else if isIPLiteral target then Inr (target, nets)
      else case go_cut target '':'' of
             None \<Rightarrow> Inl (UnknownTarget target)
           | Some (owner, netName) \<Rightarrow>
               if owner = [] \<or> netName = [] \<or> CHR '':'' \<in> set netName then Inl (BadReference target)
               else if ae_other env owner netName then Inr (target, List.insert target nets)
               else Inl (Unresolved target))"

subsection \<open>Rules\<close>

record acl_rule =
  ar_from :: string
  ar_to :: string
  ar_ports :: "string list"
  ar_action :: string
  ar_state :: string
  ar_description :: string

record incus_rule =
  ir_action :: string
  ir_state :: string
  ir_source :: string
  ir_destination :: string
  ir_protocol :: string
  ir_ports :: string
  ir_description :: string

definition validACLDefaultActions :: "string list" where "validACLDefaultActions = [''allow'', ''reject'', ''drop'']"
definition validACLRuleActions :: "string list" where "validACLRuleActions = [''allow'', ''reject'', ''drop'', ''allow-stateless'']"
definition validACLRuleStates :: "string list" where "validACLRuleStates = [''enabled'', ''logged'', ''disabled'']"

definition rule_description :: "acl_env \<Rightarrow> bool \<Rightarrow> string \<Rightarrow> acl_rule \<Rightarrow> port_group \<Rightarrow> string" where
  "rule_description env ingress rawTarget rule pg =
     (if ar_description rule \<noteq> [] then ar_description rule
      else
        (let direction = (if ingress then ''ingress'' else ''egress'');
             prep = (if ingress then ''from'' else ''to'');
             label = (if rawTarget = [] then ''any'' else rawTarget);
             base = direction @ '' '' @ prep @ '' '' @ label
         in ae_format env
              (if pg_protocol pg = [] then base
               else if pg_ports pg = [] then base @ '' ('' @ pg_protocol pg @ '')''
               else base @ '' ('' @ pg_protocol pg @ ''/'' @ pg_ports pg @ '')'')))"

definition compile_rule :: "acl_env \<Rightarrow> bool \<Rightarrow> bool \<Rightarrow> acl_rule \<Rightarrow> string list \<Rightarrow> acl_error + incus_rule list \<times> string list" where
  "compile_rule env ingress isOVN rule nets =
     (let other = (if ingress then ar_to rule else ar_from rule);
          rawTarget = trim_space (if ingress then ar_from rule else ar_to rule);
          action = (if ar_action rule = [] then ''allow'' else ar_action rule);
          state = (if ar_state rule = [] then ''enabled'' else ar_state rule)
      in if other \<noteq> [] then Inl (WrongSide other)
         else if action \<notin> set validACLRuleActions then Inl (BadAction (ar_action rule))
         else if \<not> isOVN \<and> action \<noteq> ''allow'' then Inl (OnlyOnOVN (ar_action rule))
         else if state \<notin> set validACLRuleStates then Inl (BadState (ar_state rule))
         else if \<not> isOVN \<and> state \<noteq> ''enabled'' then Inl (OnlyOnOVN (ar_state rule))
         else case resolveACLTarget env isOVN rawTarget nets of
                Inl e \<Rightarrow> Inl e
              | Inr (subject, nets1) \<Rightarrow>
                  (case parsePortSpecs (ar_ports rule) of
                     Inl e \<Rightarrow> Inl e
                   | Inr groups \<Rightarrow>
                       Inr (map (\<lambda>pg. \<lparr>ir_action = action, ir_state = state,
                              ir_source = (if ingress then subject else []),
                              ir_destination = (if ingress then [] else subject),
                              ir_protocol = pg_protocol pg, ir_ports = pg_ports pg,
                              ir_description = rule_description env ingress rawTarget rule pg\<rparr>) groups, nets1)))"

fun compileACLRules :: "acl_env \<Rightarrow> bool \<Rightarrow> bool \<Rightarrow> acl_rule list \<Rightarrow> string list \<Rightarrow> acl_error + incus_rule list \<times> string list" where
  "compileACLRules env ingress isOVN [] nets = Inr ([], nets)"
| "compileACLRules env ingress isOVN (r # rs) nets =
     (case compile_rule env ingress isOVN r nets of
        Inl e \<Rightarrow> Inl e
      | Inr (out, nets1) \<Rightarrow>
          (case compileACLRules env ingress isOVN rs nets1 of
             Inl e \<Rightarrow> Inl e
           | Inr (rest, nets2) \<Rightarrow> Inr (out @ rest, nets2)))"

record acl_config =
  ac_default_ingress :: string
  ac_default_egress :: string
  ac_ingress :: "acl_rule list"
  ac_egress :: "acl_rule list"

record network_config =
  nc_type :: string
  nc_ext :: cfg
  nc_acl :: "(incus_rule list \<times> incus_rule list) option"
  nc_acl_networks :: "string list"

definition configureNetworkACL :: "acl_env \<Rightarrow> bool \<Rightarrow> acl_config option \<Rightarrow> network_config \<Rightarrow> acl_error option \<times> network_config" where
  \<comment> \<open>\<open>supported\<close>: the server has the extension 75.  The network keeps what was set before an error.\<close>
  "configureNetworkACL env supported acl nc =
     (case acl of
        None \<Rightarrow> (None, nc)
      | Some a \<Rightarrow>
          if \<not> supported then (None, nc)
          else
            (let isOVN = (nc_type nc = ''ovn'') in
             if \<not> isOVN \<and> (ac_default_ingress a \<noteq> [] \<or> ac_default_egress a \<noteq> []) then (Some (OnlyOnOVN ''acl.default''), nc)
             else if ac_default_ingress a \<noteq> [] \<and> ac_default_ingress a \<notin> set validACLDefaultActions
               then (Some (BadDefault (ac_default_ingress a)), nc)
             else if ac_default_egress a \<noteq> [] \<and> ac_default_egress a \<notin> set validACLDefaultActions
               then (Some (BadDefault (ac_default_egress a)), nc)
             else
               (let e1 = (if ac_default_ingress a \<noteq> [] then AList.update ''security.acls.default.ingress.action'' (ac_default_ingress a) (nc_ext nc) else nc_ext nc);
                    e2 = (if ac_default_egress a \<noteq> [] then AList.update ''security.acls.default.egress.action'' (ac_default_egress a) e1 else e1);
                    set_ext = nc\<lparr>nc_ext := e2\<rparr>
                in case compileACLRules env True isOVN (ac_ingress a) [] of
                     Inl e \<Rightarrow> (Some e, set_ext\<lparr>nc_acl := None\<rparr>)
                   | Inr (ingress, nets1) \<Rightarrow>
                       (case compileACLRules env False isOVN (ac_egress a) nets1 of
                          Inl e \<Rightarrow> (Some e, set_ext\<lparr>nc_acl := None\<rparr>)
                        | Inr (egress, nets2) \<Rightarrow>
                            (None, set_ext\<lparr>nc_acl := Some (ingress, egress),
                                            nc_acl_networks := (if nets2 \<noteq> [] then nets2 else nc_acl_networks nc)\<rparr>)))))"

subsection \<open>What a specification allows\<close>

definition port_in :: "string \<Rightarrow> nat \<Rightarrow> bool" where
  \<comment> \<open>A list of ports and ranges names a port.\<close>
  "port_in s n \<longleftrightarrow> (\<exists>part \<in> set (split_on CHR '','' s). case port_part part of None \<Rightarrow> False | Some (a, b) \<Rightarrow> a \<le> n \<and> n \<le> b)"

definition spec_allows :: "string \<Rightarrow> string \<Rightarrow> nat \<Rightarrow> bool" where
  "spec_allows s proto n \<longleftrightarrow> (\<exists>p. spec_parts s = Inr (p, proto) \<and> (p = ''*'' \<or> port_in p n))"

definition group_allows :: "port_group \<Rightarrow> string \<Rightarrow> nat \<Rightarrow> bool" where
  \<comment> \<open>No ports are all of them.\<close>
  "group_allows g proto n \<longleftrightarrow> pg_protocol g = proto \<and> (pg_ports g = [] \<or> port_in (pg_ports g) n)"

lemma split_on_nonempty: "split_on c s \<noteq> []"
  by (cases s) (auto split: list.split)

lemma split_on_both: "split_on c (x @ c # y) = split_on c x @ split_on c y"
proof (induction x)
  case (Cons a x)
  then show ?case using split_on_nonempty [of c x] by (cases "split_on c x") auto
qed simp

lemma port_in_join: "ps \<noteq> [] \<Longrightarrow> port_in (go_join '','' ps) n \<longleftrightarrow> (\<exists>p \<in> set ps. port_in p n)"
proof (induction "'',''" ps rule: go_join.induct)
  case (3 x y xs)
  then show ?case by (auto simp: port_in_def split_on_both)
qed simp_all

lemma join_nonempty: "ps \<noteq> [] \<Longrightarrow> [] \<notin> set ps \<Longrightarrow> go_join '','' ps \<noteq> []"
  by (induction "'',''" ps rule: go_join.induct) auto

definition explicit :: "string \<Rightarrow> string list \<Rightarrow> string list" where
  \<comment> \<open>The port parts given for a protocol, the wildcards aside.\<close>
  "explicit proto ss = concat (map (\<lambda>s. case spec_parts s of Inr (p, q) \<Rightarrow> if q = proto \<and> p \<noteq> ''*'' then [p] else [] | Inl e \<Rightarrow> []) ss)"

definition gathered :: "string list \<Rightarrow> port_table \<Rightarrow> bool" where
  "gathered ss t \<longleftrightarrow>
     distinct (pt_order t) \<and> (\<forall>s \<in> set ss. \<exists>p proto. spec_parts s = Inr (p, proto)) \<and>
     (\<forall>proto. proto \<in> set (pt_order t) \<longleftrightarrow> (\<exists>s \<in> set ss. \<exists>p. spec_parts s = Inr (p, proto))) \<and>
     (\<forall>proto. proto \<in> set (pt_wild t) \<longleftrightarrow> (\<exists>s \<in> set ss. spec_parts s = Inr (''*'', proto))) \<and>
     (\<forall>proto. ports_of t proto = explicit proto ss)"

lemma port_spec_cases:
  assumes "port_spec s t = Inr u"
  obtains p proto where "spec_parts s = Inr (p, proto)" "p = ''*''"
      "u = t\<lparr>pt_wild := List.insert proto (pt_wild t), pt_order := (if proto \<in> set (pt_order t) then pt_order t else pt_order t @ [proto])\<rparr>"
  | p proto where "spec_parts s = Inr (p, proto)" "p \<noteq> ''*''" "validatePortOrRange p"
      "u = t\<lparr>pt_by := AList.update proto (ports_of t proto @ [p]) (pt_by t), pt_order := (if proto \<in> set (pt_order t) then pt_order t else pt_order t @ [proto])\<rparr>"
  using assms unfolding port_spec_def
  by (cases "spec_parts s") (auto simp: Let_def split: if_splits sum.splits)

lemma gathered_step:
  assumes "gathered ss t" "port_spec s t = Inr u"
  shows "gathered (ss @ [s]) u"
  using assms(2)
proof (cases rule: port_spec_cases)
  case (1 p proto)
  then show ?thesis using assms(1) by (auto simp: gathered_def explicit_def ports_of_def)
next
  case (2 p proto)
  have "ports_of u q = (if q = proto then ports_of t proto @ [p] else ports_of t q)" for q
    by (simp add: 2 ports_of_def update_conv')
  then show ?thesis using assms(1) 2 by (auto simp: gathered_def explicit_def)
qed

lemma gathered_all: "gathered ss t \<Longrightarrow> port_specs rest t = Inr u \<Longrightarrow> gathered (ss @ rest) u"
proof (induction rest arbitrary: ss t)
  case (Cons s rest)
  then obtain t1 where "port_spec s t = Inr t1" "port_specs rest t1 = Inr u" by (auto split: sum.splits)
  then show ?case using Cons.IH [of "ss @ [s]" t1] gathered_step [OF Cons.prems(1)] by simp
qed simp

lemma explicit_nonempty: "[] \<notin> set (explicit proto ss)"
  by (auto simp: explicit_def spec_parts_def Let_def split: sum.splits if_splits prod.splits)

lemma explicit_mem: "p \<in> set (explicit proto ss) \<longleftrightarrow> p \<noteq> ''*'' \<and> (\<exists>s \<in> set ss. spec_parts s = Inr (p, proto))"
  by (force simp: explicit_def split: sum.splits if_splits)

text \<open>
  C19.  Grouping the ports of a rule by protocol changes nothing about what it allows: of the groups,
  one for each protocol, one allows a port exactly if one of the specifications does, whether it is
  named alone, in a list, by a range or by a wildcard.
\<close>
theorem port_groups_allow_the_same:
  assumes "parsePortSpecs specs = Inr groups" "specs \<noteq> []"
  shows "distinct (map pg_protocol groups) \<and>
    ((\<exists>g \<in> set groups. group_allows g proto n) \<longleftrightarrow> (\<exists>s \<in> set specs. spec_allows s proto n))"
proof -
  obtain t where t: "port_specs specs \<lparr>pt_order = [], pt_by = [], pt_wild = []\<rparr> = Inr t"
    and g: "groups = map (\<lambda>proto. \<lparr>pg_protocol = proto,
      pg_ports = (if proto \<in> set (pt_wild t) then [] else go_join '','' (ports_of t proto))\<rparr>) (pt_order t)"
    using assms by (auto simp: parsePortSpecs_def split: sum.splits)
  have "gathered [] \<lparr>pt_order = [], pt_by = [], pt_wild = []\<rparr>" by (simp add: gathered_def explicit_def ports_of_def)
  from gathered_all [OF this t] have t: "gathered specs t" by simp
  have ports: "(if proto \<in> set (pt_wild t) then [] else go_join '','' (ports_of t proto)) = [] \<or>
      port_in (if proto \<in> set (pt_wild t) then [] else go_join '','' (ports_of t proto)) n
      \<longleftrightarrow> (\<exists>s \<in> set specs. spec_allows s proto n)" if m: "proto \<in> set (pt_order t)"
  proof (cases "proto \<in> set (pt_wild t)")
    case True
    then have "\<exists>s \<in> set specs. spec_parts s = Inr (''*'', proto)" using t by (simp add: gathered_def)
    then show ?thesis using True by (auto simp: spec_allows_def)
  next
    case False
    then have "\<forall>s \<in> set specs. spec_parts s \<noteq> Inr (''*'', proto)" using t by (simp add: gathered_def)
    moreover obtain s p where "s \<in> set specs" "spec_parts s = Inr (p, proto)" using m t by (auto simp: gathered_def)
    ultimately have "p \<in> set (explicit proto specs)" by (auto simp: explicit_mem)
    then have ne: "explicit proto specs \<noteq> []" by auto
    have "port_in (go_join '','' (explicit proto specs)) n \<longleftrightarrow> (\<exists>s \<in> set specs. spec_allows s proto n)"
      unfolding port_in_join [OF ne] spec_allows_def
      using \<open>\<forall>s \<in> set specs. spec_parts s \<noteq> Inr (''*'', proto)\<close> explicit_mem [of _ proto specs] by blast
    then show ?thesis using False join_nonempty [OF ne explicit_nonempty] t by (simp add: gathered_def)
  qed
  have none: "\<not> (\<exists>s \<in> set specs. spec_allows s proto n)" if "proto \<notin> set (pt_order t)"
    using that t by (auto simp: gathered_def spec_allows_def)
  have "(\<exists>g \<in> set groups. group_allows g proto n) \<longleftrightarrow> proto \<in> set (pt_order t) \<and>
      ((if proto \<in> set (pt_wild t) then [] else go_join '','' (ports_of t proto)) = [] \<or>
       port_in (if proto \<in> set (pt_wild t) then [] else go_join '','' (ports_of t proto)) n)"
    unfolding g by (auto simp: group_allows_def)
  then have "(\<exists>g \<in> set groups. group_allows g proto n) \<longleftrightarrow> (\<exists>s \<in> set specs. spec_allows s proto n)"
    using ports none by blast
  moreover have "distinct (map pg_protocol groups)" using t by (simp add: g comp_def gathered_def)
  ultimately show ?thesis by blast
qed

lemma parse_80: "parse_uint16 ''80'' = Some 80"
  by (simp add: parse_uint16_def parse_uint32_def is_digit_def digits_value_def digit_def code_def)

lemma demo_specs: "parsePortSpecs [''80'', ''*/icmp4''] =
    Inr [\<lparr>pg_protocol = ''tcp'', pg_ports = ''80''\<rparr>, \<lparr>pg_protocol = ''icmp4'', pg_ports = []\<rparr>]"
  by (simp add: parsePortSpecs_def port_spec_def spec_parts_def trim_space_def is_space_def code_def has_prefix_def
      validatePortOrRange_def port_part_def parse_80 ports_of_def to_lower_def lower_char_def List.insert_def)

lemma port_groups_allow_the_same_witness:
  "\<exists>groups. parsePortSpecs [''80'', ''*/icmp4''] = Inr groups \<and>
     ((\<exists>g \<in> set groups. group_allows g ''tcp'' 80) \<longleftrightarrow> (\<exists>s \<in> set [''80'', ''*/icmp4'']. spec_allows s ''tcp'' 80))"
  using port_groups_allow_the_same [OF demo_specs, of "''tcp''" 80] demo_specs by blast

subsection \<open>Rules of a bridge\<close>

lemma resolved_subject:
  "resolveACLTarget env isOVN target nets = Inr (subject, nets1) \<Longrightarrow> \<not> isOVN \<Longrightarrow> subject \<noteq> ''@internal'' \<and> subject \<noteq> ''@external''"
  unfolding resolveACLTarget_def by (auto split: if_splits option.splits prod.splits)

lemma compile_rule_out:
  assumes "compile_rule env ingress isOVN r nets = Inr (out, nets1)" "x \<in> set out"
  shows "ir_action x \<in> set validACLRuleActions \<and> ir_state x \<in> set validACLRuleStates \<and>
    (\<not> isOVN \<longrightarrow> ir_action x = ''allow'' \<and> ir_state x = ''enabled'' \<and>
       {ir_source x, ir_destination x} \<inter> {''@internal'', ''@external''} = {}) \<and>
    (if ingress then ir_destination x = [] else ir_source x = [])"
proof -
  define target where "target = trim_space (if ingress then ar_from r else ar_to r)"
  define action where "action = (if ar_action r = [] then ''allow'' else ar_action r)"
  define state where "state = (if ar_state r = [] then ''enabled'' else ar_state r)"
  have act: "action \<in> set validACLRuleActions" "\<not> isOVN \<longrightarrow> action = ''allow''"
    and st: "state \<in> set validACLRuleStates" "\<not> isOVN \<longrightarrow> state = ''enabled''"
    using assms(1) unfolding compile_rule_def Let_def action_def [symmetric] state_def [symmetric]
    by (simp_all split: if_splits) blast+
  have "\<exists>subject groups. resolveACLTarget env isOVN target nets = Inr (subject, nets1) \<and>
      out = map (\<lambda>pg. \<lparr>ir_action = action, ir_state = state, ir_source = (if ingress then subject else []),
        ir_destination = (if ingress then [] else subject), ir_protocol = pg_protocol pg, ir_ports = pg_ports pg,
        ir_description = rule_description env ingress target r pg\<rparr>) groups"
    using assms(1) unfolding compile_rule_def Let_def action_def [symmetric] state_def [symmetric] target_def [symmetric]
    by (simp only: split: if_splits sum.splits prod.splits) auto
  then obtain subject where "resolveACLTarget env isOVN target nets = Inr (subject, nets1)"
    "ir_action x = action" "ir_state x = state" "ir_source x = (if ingress then subject else [])"
    "ir_destination x = (if ingress then [] else subject)" using assms(2) by auto
  then show ?thesis using act st resolved_subject [of env isOVN target nets subject nets1] by auto
qed

text \<open>
  C38.  The rules compiled for a network are ones Incus knows, and each speaks of one side: a rule of
  the one direction has no subject on the other.  On a network that is not OVN every rule only allows,
  is enabled and refers to no selector, which is all such a network can do.
\<close>
theorem compiled_rules_suit_the_network:
  assumes "compileACLRules env ingress isOVN rules nets = Inr (out, nets1)"
  shows "\<forall>x \<in> set out. ir_action x \<in> set validACLRuleActions \<and> ir_state x \<in> set validACLRuleStates \<and>
    (\<not> isOVN \<longrightarrow> ir_action x = ''allow'' \<and> ir_state x = ''enabled'' \<and>
       {ir_source x, ir_destination x} \<inter> {''@internal'', ''@external''} = {}) \<and>
    (if ingress then ir_destination x = [] else ir_source x = [])"
  using assms
proof (induction rules arbitrary: nets out)
  case (Cons r rules)
  then obtain o1 n1 o2 where "compile_rule env ingress isOVN r nets = Inr (o1, n1)"
    "compileACLRules env ingress isOVN rules n1 = Inr (o2, nets1)" "out = o1 @ o2"
    by (auto split: sum.splits)
  then show ?case using Cons.IH compile_rule_out by fastforce
qed simp

definition demo_acl_env :: acl_env where
  "demo_acl_env = \<lparr>ae_networks = Some [''back''], ae_ensure = (\<lambda>n. True), ae_other = (\<lambda>p n. False), ae_format = (\<lambda>s. s)\<rparr>"

definition demo_acl_rule :: acl_rule where
  "demo_acl_rule = \<lparr>ar_from = '' back '', ar_to = [], ar_ports = [], ar_action = [], ar_state = [], ar_description = []\<rparr>"

lemma demo_rules: "\<exists>out nets. compileACLRules demo_acl_env True False [demo_acl_rule] [] = Inr (out, nets)"
  by (simp add: compile_rule_def Let_def demo_acl_env_def demo_acl_rule_def trim_space_def is_space_def code_def resolveACLTarget_def
      parsePortSpecs_def validACLRuleActions_def validACLRuleStates_def)

lemma compiled_rules_suit_the_network_witness:
  "\<exists>out nets. compileACLRules demo_acl_env True False [demo_acl_rule] [] = Inr (out, nets) \<and>
     (\<forall>x \<in> set out. ir_action x = ''allow'' \<and> ir_destination x = [])"
proof -
  obtain out nets where c: "compileACLRules demo_acl_env True False [demo_acl_rule] [] = Inr (out, nets)"
    using demo_rules by blast
  show ?thesis using compiled_rules_suit_the_network [OF c] c by auto
qed

end
