(* ===== verification/Dnsmasq.thy ===== *)
theory Dnsmasq
  imports NetworkAcl
begin

text \<open>
  The name records incus-compose keeps in a bridge's \<open>raw.dnsmasq\<close>: reading them, writing them and
  the merge one update makes (\<open>client/client_dnswatcher.go\<close> and \<open>updateDNSAliases\<close> of
  \<open>client/resource_network.go\<close>).  Several projects share one value, so what an update leaves alone
  matters as much as what it writes.  Go's maps are association lists in the order they are ranged over.
\<close>

subsection \<open>Reading and writing\<close>

definition NL :: char where "NL = CHR 0x0A"

type_synonym records = "(string \<times> string list) list"

record dnsmasq =
  dm_addresses :: records
  dm_cnames :: records
  dm_extra :: string

definition no_records :: dnsmasq where "no_records = \<lparr>dm_addresses = [], dm_cnames = [], dm_extra = []\<rparr>"

definition values_of :: "records \<Rightarrow> string \<Rightarrow> string list" where
  "values_of m k = (case map_of m k of None \<Rightarrow> [] | Some vs \<Rightarrow> vs)"

definition keep_line :: "string \<Rightarrow> dnsmasq \<Rightarrow> dnsmasq" where
  "keep_line l d = d\<lparr>dm_extra := dm_extra d @ l @ [NL]\<rparr>"

definition parse_line :: "string \<Rightarrow> dnsmasq \<Rightarrow> dnsmasq" where
  "parse_line l d =
     (if has_prefix l ''address=/'' then
        (let rest = drop 9 l in
         case index_byte rest CHR ''/'' of
           None \<Rightarrow> d
         | Some slash \<Rightarrow>
             if slash < 1 then d
             else (let svc = take slash rest; ip = drop (Suc slash) rest in
                   if ip \<noteq> [] then d\<lparr>dm_addresses := AList.update svc (values_of (dm_addresses d) svc @ [ip]) (dm_addresses d)\<rparr> else d))
      else if has_prefix l ''local=/'' then
        (let rest = drop 7 l in
         case index_byte rest CHR ''/'' of
           None \<Rightarrow> keep_line l d
         | Some slash \<Rightarrow> if slash < 1 \<or> drop (Suc slash) rest \<noteq> [] then keep_line l d else d)
      else if has_prefix l ''cname='' then
        (let parts = split_on CHR '','' (drop 6 l) in
         if length parts < 2 then d else d\<lparr>dm_cnames := AList.update (last parts) (butlast parts) (dm_cnames d)\<rparr>)
      else if 1 < length l then keep_line l d else d)"

definition parse_lines :: "string list \<Rightarrow> dnsmasq \<Rightarrow> dnsmasq" where
  "parse_lines ls d = fold (\<lambda>l. parse_line (trim_space l)) ls d"

definition DNSmasqParse :: "string \<Rightarrow> dnsmasq" where
  "DNSmasqParse raw = parse_lines (split_on NL raw) no_records"

definition address_line :: "string \<Rightarrow> string \<Rightarrow> string" where
  "address_line service ip = ''address=/'' @ service @ ''/'' @ ip @ [NL]"

definition service_records :: "records \<Rightarrow> string \<Rightarrow> string" where
  \<comment> \<open>One round of \<open>dnsmasqRecords\<close>.\<close>
  "service_records m service =
     (let ips = values_of m service in
      if ips = [] then [] else concat (map (address_line service) ips) @ ''local=/'' @ service @ ''/'' @ [NL])"

definition dnsmasqRecords :: "records \<Rightarrow> string" where
  "dnsmasqRecords m = concat (map (service_records m) (sort (map fst m)))"

subsection \<open>One update\<close>

definition cname_line :: "string list \<Rightarrow> string \<Rightarrow> string" where
  "cname_line names target = ''cname='' @ go_join '','' names @ '','' @ target @ [NL]"

definition gain :: "string list \<Rightarrow> string list \<Rightarrow> string list" where
  \<comment> \<open>The names, and the old ones they do not have.\<close>
  "gain olds names = fold (\<lambda>c acc. if c \<in> set acc then acc else acc @ [c]) olds names"

definition merged_cnames :: "records \<Rightarrow> string \<Rightarrow> string list \<Rightarrow> string list" where
  "merged_cnames old target names =
     (case map_of old target of
        None \<Rightarrow> names
      | Some olds \<Rightarrow> gain olds names)"

definition cname_lines :: "records \<Rightarrow> records \<Rightarrow> string" where
  "cname_lines old mine =
     concat (map (\<lambda>(target, names). cname_line names target) (filter (\<lambda>(target, names). map_of mine target = None) old)) @
     concat (map (\<lambda>(target, names). cname_line (merged_cnames old target names) target) mine)"

definition filled_lines :: "string \<Rightarrow> string list" where
  "filled_lines s = filter (\<lambda>l. l \<noteq> []) (map trim_space (split_on NL s))"

definition user_lines :: "string \<Rightarrow> string \<Rightarrow> string list" where
  \<comment> \<open>The lines of the user's own value that the network does not have yet.\<close>
  "user_lines extra userRaw = filter (\<lambda>l. l \<notin> set (filled_lines extra)) (filled_lines userRaw)"

definition new_raw :: "string list \<Rightarrow> records \<Rightarrow> records \<Rightarrow> string option \<Rightarrow> (records \<Rightarrow> records) \<Rightarrow> string \<Rightarrow> string" where
  \<comment> \<open>The value an update writes: \<open>mine\<close> are the network's \<open>CNames\<close>, \<open>ranged\<close> is the order in which the parsed ones come.\<close>
  "new_raw owned newIPs mine userRaw ranged raw =
     (let d = DNSmasqParse raw;
          addresses = fold (\<lambda>(k, v). AList.update k v) newIPs (filter (\<lambda>(k, v). k \<notin> set owned) (dm_addresses d))
      in dnsmasqRecords addresses @
         (if dm_extra d \<noteq> [] then dm_extra d @ [NL] else []) @
         cname_lines (ranged (dm_cnames d)) mine @
         (case userRaw of None \<Rightarrow> [] | Some u \<Rightarrow> concat (map (\<lambda>l. l @ [NL]) (user_lines (dm_extra d) u))))"


subsection \<open>Lines\<close>

definition lines :: "string list \<Rightarrow> string" where "lines ls = concat (map (\<lambda>l. l @ [NL]) ls)"

lemma lines_simps [simp]: "lines [] = []" "lines (l # ls) = l @ NL # lines ls" "lines (as @ bs) = lines as @ lines bs"
  by (simp_all add: lines_def)

lemma split_lines: "\<forall>l \<in> set ls. NL \<notin> set l \<Longrightarrow> split_on NL (lines ls) = ls @ [[]]"
  by (induction ls) (simp_all add: split_on_append)

lemma parse_lines_simps [simp]:
  "parse_lines [] d = d" "parse_lines (l # ls) d = parse_lines ls (parse_line (trim_space l) d)"
  "parse_lines (as @ bs) d = parse_lines bs (parse_lines as d)"
  by (simp_all add: parse_lines_def)

lemma parse_line_Nil [simp]: "parse_line [] d = d" by (simp add: parse_line_def has_prefix_def)

lemma trim_Nil [simp]: "trim_space [] = []" by (simp add: trim_space_def)

lemma trim_id: "s \<noteq> [] \<Longrightarrow> \<not> is_space (hd s) \<Longrightarrow> \<not> is_space (last s) \<Longrightarrow> trim_space s = s"
proof -
  assume a: "s \<noteq> []" "\<not> is_space (hd s)" "\<not> is_space (last s)"
  have "dropWhile is_space s = s" using a by (cases s) auto
  moreover have "dropWhile is_space (rev s) = rev s" using a by (cases s rule: rev_cases) auto
  ultimately show ?thesis by (simp add: trim_space_def)
qed

lemma trim_last: "trim_space s \<noteq> [] \<Longrightarrow> \<not> is_space (last (trim_space s))"
  unfolding trim_space_def by (simp add: last_rev hd_dropWhile)

lemma trim_hd: "trim_space s \<noteq> [] \<Longrightarrow> \<not> is_space (hd (trim_space s))"
proof -
  assume a: "trim_space s \<noteq> []"
  let ?t = "dropWhile is_space s"
  have "prefix (trim_space s) ?t"
    unfolding trim_space_def by (metis rev_rev_ident suffix_dropWhile suffix_to_prefix)
  then obtain u where u: "?t = trim_space s @ u" by (auto simp: prefix_def)
  then have "hd (trim_space s) = hd ?t" "?t \<noteq> []" using a by (simp_all del: dropWhile_eq_Nil_conv)
  then show ?thesis by (metis hd_dropWhile)
qed

lemma trim_set: "set (trim_space s) \<subseteq> set s"
  unfolding trim_space_def by (auto dest!: set_dropWhileD)

lemma parse_text: "\<forall>l \<in> set ls. NL \<notin> set l \<Longrightarrow> DNSmasqParse (lines ls) = parse_lines ls no_records"
  by (simp add: DNSmasqParse_def split_lines)

definition good_service :: "string \<Rightarrow> bool" where
  "good_service s \<longleftrightarrow> s \<noteq> [] \<and> CHR ''/'' \<notin> set s \<and> NL \<notin> set s"

definition good_value :: "string \<Rightarrow> bool" where
  "good_value v \<longleftrightarrow> v \<noteq> [] \<and> NL \<notin> set v \<and> \<not> is_space (last v)"

definition good_target :: "string \<Rightarrow> bool" where
  "good_target t \<longleftrightarrow> CHR '','' \<notin> set t \<and> NL \<notin> set t \<and> (t \<noteq> [] \<longrightarrow> \<not> is_space (last t))"

definition good_names :: "string list \<Rightarrow> bool" where
  "good_names ns \<longleftrightarrow> ns \<noteq> [] \<and> (\<forall>n \<in> set ns. CHR '','' \<notin> set n \<and> NL \<notin> set n)"

definition kept :: "string \<Rightarrow> bool" where
  \<comment> \<open>A line that is none of the records, as the parser keeps it.\<close>
  "kept l \<longleftrightarrow> NL \<notin> set l \<and> trim_space l = l \<and> dm_extra (parse_line l no_records) = l @ [NL]"

lemma kept_line: "kept l \<Longrightarrow> parse_line (trim_space l) d = keep_line l d"
  unfolding kept_def parse_line_def
  by (auto simp: Let_def keep_line_def no_records_def split: if_splits option.splits)

lemma index_byte_first: "c \<notin> set a \<Longrightarrow> index_byte (a @ c # b) c = Some (length a)"
  by (induction a) auto

lemma trim_line:
  assumes "b \<noteq> []" "\<not> is_space (hd a)" "a \<noteq> []" "\<not> is_space (last b)"
  shows "trim_space (a @ b) = a @ b"
  using assms by (intro trim_id) auto

lemma parse_address:
  assumes "good_service s" "good_value v"
  shows "parse_line (trim_space (''address=/'' @ s @ ''/'' @ v)) d =
    d\<lparr>dm_addresses := AList.update s (values_of (dm_addresses d) s @ [v]) (dm_addresses d)\<rparr>"
proof -
  have "trim_space (''address=/'' @ s @ ''/'' @ v) = ''address=/'' @ s @ ''/'' @ v"
    using assms by (intro trim_line) (auto simp: good_service_def good_value_def is_space_def code_def)
  then show ?thesis using assms index_byte_first [of "CHR ''/''" s v]
    by (simp add: parse_line_def has_prefix_def good_service_def good_value_def Let_def)
qed

lemma parse_local: "good_service s \<Longrightarrow> parse_line (trim_space (''local=/'' @ s @ ''/'')) d = d"
proof -
  assume a: "good_service s"
  have "trim_space (''local=/'' @ s @ ''/'') = ''local=/'' @ s @ ''/''"
    by (intro trim_line) (auto simp: is_space_def code_def)
  then show ?thesis using a index_byte_first [of "CHR ''/''" s "[]"]
    by (simp add: parse_line_def has_prefix_def good_service_def Let_def)
qed

lemma split_names: "ns \<noteq> [] \<Longrightarrow> \<forall>n \<in> set ns. c \<notin> set n \<Longrightarrow> split_on c (go_join [c] ns) = ns"
  by (induction "[c]" ns rule: go_join.induct) (auto simp: split_on_append split_on_none)

lemma join_snoc: "ns \<noteq> [] \<Longrightarrow> go_join sep (ns @ [t]) = go_join sep ns @ sep @ t"
  by (induction sep ns rule: go_join.induct) auto

lemma parse_cname:
  assumes "good_names ns" "good_target t"
  shows "parse_line (trim_space (''cname='' @ go_join '','' ns @ '','' @ t)) d = d\<lparr>dm_cnames := AList.update t ns (dm_cnames d)\<rparr>"
proof -
  have "trim_space (''cname='' @ go_join '','' ns @ '','' @ t) = ''cname='' @ go_join '','' ns @ '','' @ t"
    using assms by (intro trim_line) (auto simp: good_target_def is_space_def code_def)
  moreover have "split_on CHR '','' (go_join '','' ns @ '','' @ t) = ns @ [t]"
    using assms split_names [of "ns @ [t]" "CHR '',''"] join_snoc [of ns "'',''" t]
    by (auto simp: good_names_def good_target_def)
  ultimately show ?thesis using assms by (simp add: parse_line_def has_prefix_def good_names_def Let_def Suc_le_eq)
qed


subsection \<open>What is read is well formed\<close>

definition kept_text :: "string \<Rightarrow> bool" where
  "kept_text e \<longleftrightarrow> (\<exists>ls. e = lines ls \<and> (\<forall>l \<in> set ls. kept l))"

lemma kept_text_Nil: "kept_text []"
  unfolding kept_text_def by (rule exI [of _ "[]"]) simp

lemma kept_text_snoc: "kept_text e \<Longrightarrow> kept l \<Longrightarrow> kept_text (e @ l @ [NL])"
proof -
  assume "kept_text e" "kept l"
  then obtain ls where "e = lines ls" "\<forall>l \<in> set ls. kept l" by (auto simp: kept_text_def)
  then have "e @ l @ [NL] = lines (ls @ [l]) \<and> (\<forall>x \<in> set (ls @ [l]). kept x)" using \<open>kept l\<close> by simp
  then show ?thesis unfolding kept_text_def by blast
qed

definition address_ok :: "string \<times> string list \<Rightarrow> bool" where
  "address_ok r \<longleftrightarrow> good_service (fst r) \<and> (\<forall>v \<in> set (snd r). good_value v)"

definition cname_ok :: "string \<times> string list \<Rightarrow> bool" where "cname_ok r \<longleftrightarrow> good_target (fst r) \<and> good_names (snd r)"

definition sane :: "dnsmasq \<Rightarrow> bool" where
  "sane d \<longleftrightarrow>
     list_all address_ok (dm_addresses d) \<and> distinct (map fst (dm_addresses d)) \<and>
     list_all cname_ok (dm_cnames d) \<and> distinct (map fst (dm_cnames d)) \<and> kept_text (dm_extra d)"

lemma sane_none: "sane no_records"
  by (simp add: sane_def no_records_def kept_text_Nil)

lemma update_all: "list_all P m \<Longrightarrow> P (k, v) \<Longrightarrow> list_all P (AList.update k v m)"
  by (induction m) auto

lemma index_byte_split:
  assumes "index_byte s c = Some i"
  shows "s = take i s @ c # drop (Suc i) s" "c \<notin> set (take i s)"
proof -
  have "s = take i s @ c # drop (Suc i) s \<and> c \<notin> set (take i s)"
    using assms by (induction s c arbitrary: i rule: index_byte.induct) (auto split: if_splits option.splits)
  then show "s = take i s @ c # drop (Suc i) s" "c \<notin> set (take i s)" by simp_all
qed

lemma values_good: "list_all address_ok m \<Longrightarrow> v \<in> set (values_of m s) \<Longrightarrow> good_value v"
  by (cases "map_of m s") (auto simp: values_of_def list_all_iff address_ok_def dest!: map_of_SomeD)

lemma sane_keep: "sane d \<Longrightarrow> kept l \<Longrightarrow> sane (keep_line l d)"
  by (simp add: sane_def keep_line_def kept_text_snoc)

lemma trim_trim [simp]: "trim_space (trim_space s) = trim_space s"
  by (cases "trim_space s = []") (simp_all add: trim_id trim_hd trim_last)

lemma kept_of_line:
  assumes "NL \<notin> set l0" "l = trim_space l0" "parse_line l d = keep_line l d"
  shows "kept l"
proof -
  have e: "dm_extra (parse_line l d) = dm_extra d @ l @ [NL]" using assms(3) by (simp add: keep_line_def)
  have "dm_extra (parse_line l no_records) = l @ [NL]"
    using e unfolding parse_line_def by (auto simp: Let_def keep_line_def no_records_def split: if_splits option.splits)
  moreover have "NL \<notin> set l" using assms(1,2) trim_set by auto
  ultimately show ?thesis by (simp add: kept_def assms(2))
qed

lemma sane_address:
  assumes "sane d" "NL \<notin> set l" "l \<noteq> []" "\<not> is_space (last l)" "has_prefix l ''address=/''"
  shows "sane (parse_line l d)"
proof -
  obtain rest where l: "l = ''address=/'' @ rest" using assms(5) by (auto simp: has_prefix_def prefix_def)
  show ?thesis
  proof (cases "index_byte rest CHR ''/''")
    case None
    then show ?thesis using assms(1) by (simp add: parse_line_def has_prefix_def l)
  next
    case (Some i)
    note sp = index_byte_split [OF Some]
    let ?ip = "drop (Suc i) rest"
    show ?thesis
    proof (cases "i < 1 \<or> ?ip = []")
      case True
      then show ?thesis using assms(1) Some by (auto simp: parse_line_def has_prefix_def l)
    next
      case False
      have ne: "rest \<noteq> []" using False by auto
      have r: "NL \<notin> set rest" "\<not> is_space (last rest)" using assms(2,4) ne by (simp_all add: l)
      have v: "good_value ?ip" using False r in_set_dropD [of NL "Suc i" rest] by (auto simp: good_value_def)
      have "take i rest \<noteq> []" using False by auto
      then have s: "good_service (take i rest)" using sp r in_set_takeD [of NL i rest] by (auto simp: good_service_def)
      let ?u = "AList.update (take i rest) (values_of (dm_addresses d) (take i rest) @ [?ip]) (dm_addresses d)"
      have "list_all address_ok ?u"
        using assms(1) s v by (intro update_all) (auto simp: sane_def address_ok_def dest: values_good)
      moreover have "distinct (map fst ?u)" using assms(1) by (simp add: sane_def distinct_update)
      moreover have "parse_line l d = d\<lparr>dm_addresses := ?u\<rparr>"
        using False Some by (simp add: parse_line_def has_prefix_def l Let_def)
      ultimately show ?thesis using assms(1) by (simp add: sane_def)
    qed
  qed
qed

lemma split_members_sub: "p \<in> set (split_on c s) \<Longrightarrow> set p \<subseteq> set s"
  by (induction s arbitrary: p) (fastforce split: if_splits list.splits)+

lemma last_last_split: "last (split_on c s) \<noteq> [] \<Longrightarrow> s \<noteq> [] \<and> last (last (split_on c s)) = last s"
proof (induction s)
  case (Cons x s)
  obtain y ys where y: "split_on c s = y # ys" using split_on_nonempty [of c s] by (cases "split_on c s") auto
  show ?case
  proof (cases "last (split_on c s) = []")
    case True
    then have "ys = [] \<and> y = [] \<or> ys \<noteq> [] \<and> last ys = []" by (auto simp: y split: if_splits)
    moreover have "ys = [] \<and> y = [] \<Longrightarrow> s = []" using y by (cases s) (auto simp: split_on_nonempty split: if_splits list.splits)
    ultimately show ?thesis using Cons.prems y by (auto split: if_splits)
  next
    case False
    then have "s \<noteq> []" "last (last (split_on c s)) = last s" using Cons.IH by simp_all
    then show ?thesis using Cons.prems y False by (auto split: if_splits)
  qed
qed simp

lemma sane_cname:
  assumes "sane d" "NL \<notin> set l" "l \<noteq> []" "\<not> is_space (last l)" "has_prefix l ''cname=''"
  shows "sane (parse_line l d)"
proof -
  obtain rest where l: "l = ''cname='' @ rest" using assms(5) by (auto simp: has_prefix_def prefix_def)
  let ?ps = "split_on CHR '','' rest"
  show ?thesis
  proof (cases "length ?ps < 2")
    case True
    then show ?thesis using assms(1) by (simp add: parse_line_def has_prefix_def l Let_def)
  next
    case False
    have m: "CHR '','' \<notin> set p \<and> NL \<notin> set p" if "p \<in> set ?ps" for p
      using that split_on_members [OF that] split_members_sub [OF that] assms(2) by (auto simp: l)
    have "\<not> is_space (last (last ?ps))" if "last ?ps \<noteq> []"
      using last_last_split [OF that] assms(4) by (auto simp: l)
    then have "good_target (last ?ps)"
      using m [of "last ?ps"] split_on_nonempty [of "CHR '',''" rest] by (auto simp: good_target_def)
    moreover have "good_names (butlast ?ps)"
      using False m by (auto simp: good_names_def dest: in_set_butlastD) (cases ?ps; force)
    ultimately have "list_all cname_ok (AList.update (last ?ps) (butlast ?ps) (dm_cnames d))"
      using assms(1) by (intro update_all) (auto simp: sane_def cname_ok_def)
    then show ?thesis using assms(1) False by (simp add: parse_line_def has_prefix_def l Let_def sane_def distinct_update)
  qed
qed


lemma sane_line:
  assumes "sane d" "NL \<notin> set l"
  shows "sane (parse_line (trim_space l) d)"
proof -
  let ?l = "trim_space l"
  have nl: "NL \<notin> set ?l" using assms(2) trim_set by blast
  consider "?l = []" | "?l \<noteq> []" "has_prefix ?l ''address=/''" | "?l \<noteq> []" "has_prefix ?l ''cname=''"
    | "\<not> has_prefix ?l ''address=/''" "\<not> has_prefix ?l ''cname=''" by blast
  then show ?thesis
  proof cases
    case 1
    then show ?thesis using assms(1) by simp
  next
    case 2
    then show ?thesis using assms(1) nl trim_last by (intro sane_address) auto
  next
    case 3
    then show ?thesis using assms(1) nl trim_last by (intro sane_cname) auto
  next
    case 4
    have "parse_line ?l d = d \<or> parse_line ?l d = keep_line ?l d"
      using 4 unfolding parse_line_def by (auto simp: Let_def split: option.split)
    then show ?thesis using assms kept_of_line [OF assms(2) refl, of d] sane_keep by auto
  qed
qed

lemma sane_lines: "sane d \<Longrightarrow> \<forall>l \<in> set ls. NL \<notin> set l \<Longrightarrow> sane (parse_lines ls d)"
  by (induction ls arbitrary: d) (simp_all add: sane_line)

lemma sane_parse: "sane (DNSmasqParse raw)"
  unfolding DNSmasqParse_def by (intro sane_lines) (auto simp: sane_none dest: split_on_members)

subsection \<open>What is written is read back\<close>

lemma values_update [simp]: "values_of (AList.update k v m) s = (if s = k then v else values_of m s)"
  by (simp add: values_of_def update_conv')

definition record_lines :: "records \<Rightarrow> string \<Rightarrow> string list" where
  "record_lines m s = (if values_of m s = [] then [] else
     map (\<lambda>v. ''address=/'' @ s @ ''/'' @ v) (values_of m s) @ [''local=/'' @ s @ ''/''])"

lemma records_lines: "dnsmasqRecords m = lines (concat (map (record_lines m) (sort (map fst m))))"
proof -
  have "service_records m s = lines (record_lines m s)" for s
    by (simp add: service_records_def record_lines_def Let_def lines_def address_line_def [abs_def] comp_def)
  then have "concat (map (service_records m) ks) = lines (concat (map (record_lines m) ks))" for ks
    by (induction ks) simp_all
  then show ?thesis by (simp add: dnsmasqRecords_def)
qed

lemma parse_values:
  assumes "good_service s" "\<forall>v \<in> set vs. good_value v"
  shows "dm_cnames (parse_lines (map (\<lambda>v. ''address=/'' @ s @ ''/'' @ v) vs) d) = dm_cnames d \<and>
    dm_extra (parse_lines (map (\<lambda>v. ''address=/'' @ s @ ''/'' @ v) vs) d) = dm_extra d \<and>
    values_of (dm_addresses (parse_lines (map (\<lambda>v. ''address=/'' @ s @ ''/'' @ v) vs) d)) k =
      values_of (dm_addresses d) k @ (if k = s then vs else [])"
  using assms(2)
proof (induction vs arbitrary: d)
  case (Cons v vs)
  then show ?case using parse_address [OF assms(1), of v] by simp
qed simp

lemma parse_record:
  assumes "list_all address_ok m" "s \<in> fst ` set m"
  shows "dm_cnames (parse_lines (record_lines m s) d) = dm_cnames d \<and> dm_extra (parse_lines (record_lines m s) d) = dm_extra d \<and>
    values_of (dm_addresses (parse_lines (record_lines m s) d)) k =
      values_of (dm_addresses d) k @ (if k = s then values_of m s else [])"
proof -
  have s: "good_service s" using assms by (auto simp: list_all_iff address_ok_def)
  have "\<forall>v \<in> set (values_of m s). good_value v" using values_good [OF assms(1)] by blast
  from parse_values [OF s this, of d k] show ?thesis using parse_local [OF s] by (auto simp: record_lines_def)
qed

lemma parse_records:
  assumes "list_all address_ok m" "set ks \<subseteq> fst ` set m" "distinct ks"
  shows "dm_cnames (parse_lines (concat (map (record_lines m) ks)) d) = dm_cnames d \<and>
    dm_extra (parse_lines (concat (map (record_lines m) ks)) d) = dm_extra d \<and>
    values_of (dm_addresses (parse_lines (concat (map (record_lines m) ks)) d)) k =
      values_of (dm_addresses d) k @ (if k \<in> set ks then values_of m k else [])"
  using assms(2,3)
proof (induction ks arbitrary: d)
  case (Cons s ks)
  then show ?case using parse_record [OF assms(1), of s d] by auto
qed simp

lemma values_absent: "k \<notin> fst ` set m \<Longrightarrow> values_of m k = []"
  by (simp add: values_of_def map_of_eq_None_iff [symmetric])

lemma update_fresh: "k \<notin> fst ` set m \<Longrightarrow> AList.update k v m = m @ [(k, v)]"
  by (induction m) auto

lemma parse_cname_lines:
  assumes "list_all cname_ok ms" "distinct (map fst (dm_cnames d @ ms))"
  shows "dm_addresses (parse_lines (map (\<lambda>(t, ns). ''cname='' @ go_join '','' ns @ '','' @ t) ms) d) = dm_addresses d \<and>
    dm_extra (parse_lines (map (\<lambda>(t, ns). ''cname='' @ go_join '','' ns @ '','' @ t) ms) d) = dm_extra d \<and>
    dm_cnames (parse_lines (map (\<lambda>(t, ns). ''cname='' @ go_join '','' ns @ '','' @ t) ms) d) = dm_cnames d @ ms"
  using assms
proof (induction ms arbitrary: d)
  case (Cons m ms)
  obtain t ns where m: "m = (t, ns)" by fastforce
  have "t \<notin> fst ` set (dm_cnames d)" using Cons.prems(2) by (auto simp: m)
  then show ?case using Cons parse_cname [of ns t d] by (simp add: m cname_ok_def update_fresh)
qed simp

lemma parse_kept: "\<forall>l \<in> set ls. kept l \<Longrightarrow>
   dm_addresses (parse_lines ls d) = dm_addresses d \<and> dm_cnames (parse_lines ls d) = dm_cnames d \<and>
   dm_extra (parse_lines ls d) = dm_extra d @ lines ls"
  by (induction ls arbitrary: d) (simp_all add: kept_line keep_line_def)


lemma fold_update_values: "values_of (fold (\<lambda>(k, v). AList.update k v) xs m) s = (case map_of (rev xs) s of None \<Rightarrow> values_of m s | Some v \<Rightarrow> v)"
  by (induction xs arbitrary: m) (auto simp: map_add_def split: option.splits)

lemma fold_update_all: "list_all P xs \<Longrightarrow> list_all P m \<Longrightarrow> list_all P (fold (\<lambda>(k, v). AList.update k v) xs m)"
  by (induction xs arbitrary: m) (auto simp: update_all)

lemma fold_update_distinct: "distinct (map fst m) \<Longrightarrow> distinct (map fst (fold (\<lambda>(k, v). AList.update k v) xs m))"
  by (induction xs arbitrary: m) (auto simp: distinct_update)

lemma map_of_filter_keys: "map_of (filter (\<lambda>(k, v). P k) m) k = (if P k then map_of m k else None)"
  by (induction m) auto

definition added_lines :: "string \<Rightarrow> string option \<Rightarrow> string list" where
  "added_lines extra userRaw = (case userRaw of None \<Rightarrow> [] | Some u \<Rightarrow> user_lines extra u)"

definition all_cnames :: "records \<Rightarrow> records \<Rightarrow> records" where
  \<comment> \<open>The alias records an update writes.\<close>
  "all_cnames old mine =
     filter (\<lambda>(t, ns). map_of mine t = None) old @ map (\<lambda>(t, ns). (t, merged_cnames old t ns)) mine"

lemma cname_lines_text: "cname_lines old mine = lines (map (\<lambda>(t, ns). ''cname='' @ go_join '','' ns @ '','' @ t) (all_cnames old mine))"
  by (simp add: cname_lines_def all_cnames_def lines_def cname_line_def comp_def case_prod_unfold)

lemma merged_good: "good_names ns \<Longrightarrow> list_all cname_ok old \<Longrightarrow> good_names (merged_cnames old t ns)"
proof -
  assume a: "good_names ns" "list_all cname_ok old"
  have "good_names (gain olds ns)" if "\<forall>n \<in> set olds. CHR '','' \<notin> set n \<and> NL \<notin> set n" for olds
    using a(1) that
    unfolding gain_def
  proof (induction olds arbitrary: ns)
    case (Cons c olds)
    have "good_names (if c \<in> set ns then ns else ns @ [c])" using Cons.prems by (simp add: good_names_def)
    then show ?case using Cons.IH Cons.prems(2) by simp
  qed simp
  note ext = this
  show ?thesis
  proof (cases "map_of old t")
    case None
    then show ?thesis using a(1) by (simp add: merged_cnames_def)
  next
    case (Some olds)
    then have "cname_ok (t, olds)" using a(2) by (auto simp: list_all_iff dest: map_of_SomeD)
    then show ?thesis using ext [of olds] Some by (simp add: merged_cnames_def cname_ok_def good_names_def)
  qed
qed

lemma all_cnames_ok:
  assumes "list_all cname_ok old" "distinct (map fst old)" "list_all cname_ok mine" "distinct (map fst mine)"
  shows "list_all cname_ok (all_cnames old mine)" "distinct (map fst (all_cnames old mine))"
    "map_of (all_cnames old mine) t = (case map_of mine t of None \<Rightarrow> map_of old t | Some ns \<Rightarrow> Some (merged_cnames old t ns))"
proof -
  show "list_all cname_ok (all_cnames old mine)"
    using assms merged_good by (auto simp: all_cnames_def list_all_iff cname_ok_def)
  have f: "map fst (map (\<lambda>(t, ns). (t, merged_cnames old t ns)) mine) = map fst mine" by (simp add: case_prod_unfold comp_def)
  show "distinct (map fst (all_cnames old mine))"
    unfolding all_cnames_def map_append f using assms(2,4)
    by (auto simp: distinct_map_filter map_of_eq_None_iff rev_image_eqI)
  have "map_of (map (\<lambda>(t, ns). (t, merged_cnames old t ns)) mine) t = map_option (merged_cnames old t) (map_of mine t)"
    by (induction mine) auto
  then show "map_of (all_cnames old mine) t = (case map_of mine t of None \<Rightarrow> map_of old t | Some ns \<Rightarrow> Some (merged_cnames old t ns))"
    by (auto simp: all_cnames_def map_add_def map_of_filter_keys split: option.split)
qed


lemma record_no_newline:
  assumes "list_all address_ok m" "l \<in> set (concat (map (record_lines m) (sort (map fst m))))"
  shows "NL \<notin> set l"
proof -
  obtain s where s: "s \<in> fst ` set m" "l \<in> set (record_lines m s)" using assms(2) by auto
  have "good_service s" using s(1) assms(1) by (auto simp: list_all_iff address_ok_def)
  then show ?thesis using s(2) values_good [OF assms(1), of _ s]
    by (auto simp: record_lines_def good_service_def good_value_def NL_def split: if_splits)
qed

lemma join_no_newline: "\<forall>n \<in> set ns. NL \<notin> set n \<Longrightarrow> NL \<notin> set sep \<Longrightarrow> NL \<notin> set (go_join sep ns)"
  by (induction sep ns rule: go_join.induct) auto

lemma cname_no_newline:
  assumes "list_all cname_ok ms" "l \<in> set (map (\<lambda>(t, ns). ''cname='' @ go_join '','' ns @ '','' @ t) ms)"
  shows "NL \<notin> set l"
proof -
  obtain t ns where m: "(t, ns) \<in> set ms" "l = ''cname='' @ go_join '','' ns @ '','' @ t" using assms(2) by auto
  then have "good_target t" "good_names ns" using assms(1) by (auto simp: list_all_iff cname_ok_def)
  then show ?thesis using join_no_newline [of ns "'',''"] by (auto simp: m(2) good_target_def good_names_def NL_def)
qed

definition merged_values :: "string list \<Rightarrow> records \<Rightarrow> records \<Rightarrow> string \<Rightarrow> string list" where
  \<comment> \<open>The addresses a service has after an update.\<close>
  "merged_values owned newIPs old s =
     (if s \<in> fst ` set newIPs then values_of newIPs s else if s \<in> set owned then [] else values_of old s)"

definition merged_names :: "records \<Rightarrow> records \<Rightarrow> string \<Rightarrow> string list option" where
  "merged_names old mine t = (case map_of mine t of None \<Rightarrow> map_of old t | Some ns \<Rightarrow> Some (merged_cnames old t ns))"

lemma values_after_update:
  assumes "distinct (map fst newIPs)"
  shows "values_of (fold (\<lambda>(k, v). AList.update k v) newIPs (filter (\<lambda>(k, v). k \<notin> set owned) old)) s = merged_values owned newIPs old s"
proof -
  have r: "map_of (rev newIPs) s = map_of newIPs s" using assms by (subst map_of_inject_set [THEN iffD2]) (simp_all add: rev_map [symmetric])
  have f: "values_of (filter (\<lambda>(k, v). k \<notin> set owned) old) s = (if s \<in> set owned then [] else values_of old s)"
    by (simp add: values_of_def map_of_filter_keys)
  show ?thesis
  proof (cases "map_of newIPs s")
    case None
    then have "s \<notin> fst ` set newIPs" by (simp add: map_of_eq_None_iff)
    then show ?thesis unfolding fold_update_values r f merged_values_def by (simp add: None)
  next
    case (Some v)
    then have "s \<in> fst ` set newIPs" by (auto dest: map_of_SomeD intro: rev_image_eqI)
    then show ?thesis unfolding fold_update_values r f merged_values_def by (simp add: Some values_of_def)
  qed
qed

lemma added_no_newline: "l \<in> set (added_lines extra userRaw) \<Longrightarrow> NL \<notin> set l"
  using trim_set by (fastforce simp: added_lines_def user_lines_def filled_lines_def split: option.splits dest: split_on_members)

lemma update_before_user:
  assumes "list_all address_ok newIPs" "distinct (map fst newIPs)" "list_all cname_ok mine" "distinct (map fst mine)"
    and "mset (ranged (dm_cnames (DNSmasqParse raw))) = mset (dm_cnames (DNSmasqParse raw))"
  obtains x where "DNSmasqParse (new_raw owned newIPs mine userRaw ranged raw) = parse_lines (added_lines (dm_extra (DNSmasqParse raw)) userRaw) x"
    "\<forall>s. values_of (dm_addresses x) s = merged_values owned newIPs (dm_addresses (DNSmasqParse raw)) s"
    "\<forall>t. map_of (dm_cnames x) t = merged_names (dm_cnames (DNSmasqParse raw)) mine t"
    "dm_extra x = dm_extra (DNSmasqParse raw)" "dm_cnames x = all_cnames (ranged (dm_cnames (DNSmasqParse raw))) mine"
proof -
  define d where "d = DNSmasqParse raw"
  note that1 = that
  let ?a = "fold (\<lambda>(k, v). AList.update k v) newIPs (filter (\<lambda>(k, v). k \<notin> set owned) (dm_addresses d))"
  let ?old = "ranged (dm_cnames d)"
  have sd: "sane d" unfolding d_def by (rule sane_parse)
  then obtain es where es: "dm_extra d = lines es" "\<forall>l \<in> set es. kept l" by (auto simp: sane_def kept_text_def)
  let ?rs = "concat (map (record_lines ?a) (sort (map fst ?a)))"
  let ?cs = "map (\<lambda>(t, ns). ''cname='' @ go_join '','' ns @ '','' @ t) (all_cnames ?old mine)"
  let ?us = "added_lines (dm_extra d) userRaw"
  let ?es = "es @ (if dm_extra d \<noteq> [] then [[]] else [])"
  have u: "(case userRaw of None \<Rightarrow> [] | Some u \<Rightarrow> concat (map (\<lambda>l. l @ [NL]) (user_lines (dm_extra d) u))) = lines ?us"
    by (simp add: added_lines_def lines_def split: option.split)
  have raw': "new_raw owned newIPs mine userRaw ranged raw = lines (?rs @ ?es @ ?cs @ ?us)"
    unfolding new_raw_def d_def [symmetric] Let_def u records_lines cname_lines_text by (simp add: es(1))
  have a_ok: "list_all address_ok ?a" "distinct (map fst ?a)"
    using sd assms(1)
    by (intro fold_update_all fold_update_distinct; auto simp: sane_def list_all_iff distinct_map_filter)+
  have mo: "mset ?old = mset (dm_cnames d)" using assms(5) by (simp add: d_def)
  have "mset (map fst ?old) = mset (map fst (dm_cnames d))" by (simp add: mo)
  from mset_eq_imp_distinct_iff [OF this] have old_ok: "list_all cname_ok ?old" "distinct (map fst ?old)"
    using sd mset_eq_setD [OF mo] by (simp_all add: sane_def list_all_iff)
  have old_map: "map_of ?old = map_of (dm_cnames d)"
    using mo old_ok(2) sd by (intro map_of_eqI) (auto simp: sane_def dest: mset_eq_setD)
  note cs = all_cnames_ok [OF old_ok assms(3,4)]
  have nl: "\<forall>l \<in> set (?rs @ ?es @ ?cs @ ?us). NL \<notin> set l"
    using record_no_newline [OF a_ok(1)] cname_no_newline [OF cs(1)] es(2) added_no_newline
    by (auto simp: kept_def simp del: lines_simps)
  define x where "x = parse_lines (?rs @ ?es @ ?cs) no_records"
  have d': "DNSmasqParse (new_raw owned newIPs mine userRaw ranged raw) = parse_lines ?us x"
    unfolding raw' x_def parse_text [OF nl] by simp
  have rs: "dm_cnames (parse_lines ?rs no_records) = [] \<and> dm_extra (parse_lines ?rs no_records) = [] \<and>
      values_of (dm_addresses (parse_lines ?rs no_records)) k = values_of ?a k" for k
    using parse_records [OF a_ok(1), of "sort (map fst ?a)" no_records k] a_ok(2) values_absent [of k ?a]
    by (auto simp: no_records_def values_of_def)
  have va: "values_of ?a s = merged_values owned newIPs (dm_addresses d) s" for s
    by (rule values_after_update [OF assms(2)])
  have cp: "dm_addresses (parse_lines ?cs y) = dm_addresses y \<and> dm_extra (parse_lines ?cs y) = dm_extra y \<and>
      dm_cnames (parse_lines ?cs y) = all_cnames ?old mine" if "dm_cnames y = []" for y
    using parse_cname_lines [OF cs(1), of y] cs(2) that by simp
  note parts = parse_kept [OF es(2)] rs
  have addr: "\<forall>s. values_of (dm_addresses x) s = merged_values owned newIPs (dm_addresses d) s"
    unfolding x_def va [symmetric] using parts cp by simp
  have mc: "merged_cnames ?old t ns = merged_cnames (dm_cnames d) t ns" for t ns by (simp add: merged_cnames_def old_map)
  have cl: "dm_cnames x = all_cnames ?old mine"
    unfolding x_def using parts cp by simp
  then have cn: "\<forall>t. map_of (dm_cnames x) t = merged_names (dm_cnames d) mine t"
    by (auto simp: cs(3) merged_names_def old_map mc split: option.split)
  have ex: "dm_extra x = dm_extra d"
    unfolding x_def using parts cp by (simp add: es(1))
  show ?thesis by (rule that1 [OF d' [unfolded d_def] addr [unfolded d_def] cn [unfolded d_def] ex [unfolded d_def] cl [unfolded d_def]])
qed

subsection \<open>The user's own value\<close>

definition user_records :: "string option \<Rightarrow> dnsmasq" where
  \<comment> \<open>What the reader makes of the value the user gives for the network.\<close>
  "user_records userRaw = (case userRaw of None \<Rightarrow> no_records | Some u \<Rightarrow> DNSmasqParse u)"

lemma values_none [simp]: "values_of [] k = []" by (simp add: values_of_def)

lemma values_one [simp]: "values_of [(j, v)] k = (if k = j then v else [])" by (simp add: values_of_def)

lemma has_prefix_length: "has_prefix l p \<Longrightarrow> length p \<le> length l"
  by (simp add: has_prefix_def prefix_length_le)

lemma parse_line_parts:
  "values_of (dm_addresses (parse_line l d)) s = values_of (dm_addresses d) s @ values_of (dm_addresses (parse_line l no_records)) s"
  "map_of (dm_cnames (parse_line l d)) = map_of (dm_cnames d) ++ map_of (dm_cnames (parse_line l no_records))"
  "dm_extra (parse_line l d) = dm_extra d @ dm_extra (parse_line l no_records)"
  by (auto simp: parse_line_def Let_def no_records_def keep_line_def map_add_def update_conv' fun_eq_iff split: option.splits)

lemma parse_lines_parts:
  "values_of (dm_addresses (parse_lines ls d)) s = values_of (dm_addresses d) s @ values_of (dm_addresses (parse_lines ls no_records)) s"
  "map_of (dm_cnames (parse_lines ls d)) = map_of (dm_cnames d) ++ map_of (dm_cnames (parse_lines ls no_records))"
  "dm_extra (parse_lines ls d) = dm_extra d @ dm_extra (parse_lines ls no_records)"
proof -
  have "values_of (dm_addresses (parse_lines ls d)) s = values_of (dm_addresses d) s @ values_of (dm_addresses (parse_lines ls no_records)) s \<and>
    map_of (dm_cnames (parse_lines ls d)) = map_of (dm_cnames d) ++ map_of (dm_cnames (parse_lines ls no_records)) \<and>
    dm_extra (parse_lines ls d) = dm_extra d @ dm_extra (parse_lines ls no_records)"
  proof (induction ls arbitrary: d)
    case (Cons l ls)
    let ?l = "parse_line (trim_space l)"
    show ?case using Cons.IH [of "?l d"] Cons.IH [of "?l no_records"]
      by (simp add: parse_line_parts [of _ d])
  qed (simp add: no_records_def)
  then show "values_of (dm_addresses (parse_lines ls d)) s = values_of (dm_addresses d) s @ values_of (dm_addresses (parse_lines ls no_records)) s"
    "map_of (dm_cnames (parse_lines ls d)) = map_of (dm_cnames d) ++ map_of (dm_cnames (parse_lines ls no_records))"
    "dm_extra (parse_lines ls d) = dm_extra d @ dm_extra (parse_lines ls no_records)" by blast+
qed

lemma kept_parts: "kept l \<Longrightarrow> dm_addresses (parse_line l no_records) = [] \<and> dm_cnames (parse_line l no_records) = []"
  using kept_line [of l no_records] by (simp add: kept_def keep_line_def no_records_def)

lemma parse_filled:
  assumes "\<And>l. \<not> P l \<Longrightarrow> kept l"
  shows "values_of (dm_addresses (parse_lines (filter P (filter (\<lambda>l. l \<noteq> []) (map trim_space ls))) no_records)) s =
      values_of (dm_addresses (parse_lines ls no_records)) s"
    "map_of (dm_cnames (parse_lines (filter P (filter (\<lambda>l. l \<noteq> []) (map trim_space ls))) no_records)) =
      map_of (dm_cnames (parse_lines ls no_records))"
proof -
  let ?f = "\<lambda>ls. filter P (filter (\<lambda>l. l \<noteq> []) (map trim_space ls))"
  have "values_of (dm_addresses (parse_lines (?f ls) no_records)) s = values_of (dm_addresses (parse_lines ls no_records)) s \<and>
    map_of (dm_cnames (parse_lines (?f ls) no_records)) = map_of (dm_cnames (parse_lines ls no_records))"
  proof (induction ls)
    case (Cons l ls)
    have none: "values_of (dm_addresses (parse_line (trim_space l) no_records)) s = [] \<and> dm_cnames (parse_line (trim_space l) no_records) = []"
      if "\<not> P (trim_space l) \<or> trim_space l = []"
      using that kept_parts [OF assms] by (auto simp: no_records_def)
    show ?case using Cons.IH none
      by (auto simp: parse_lines_parts(1) [of _ "parse_line _ no_records"] parse_lines_parts(2) [of _ "parse_line _ no_records"])
  qed simp
  then show "values_of (dm_addresses (parse_lines (?f ls) no_records)) s = values_of (dm_addresses (parse_lines ls no_records)) s"
    "map_of (dm_cnames (parse_lines (?f ls) no_records)) = map_of (dm_cnames (parse_lines ls no_records))" by blast+
qed

lemma extra_of_added:
  "\<forall>l \<in> set ls. NL \<notin> set l \<and> trim_space l = l \<Longrightarrow> dm_extra (parse_lines ls no_records) = lines (filter kept ls)"
proof (induction ls)
  case (Cons l ls)
  have "dm_extra (parse_line l no_records) = (if kept l then l @ [NL] else [])"
  proof (cases "kept l")
    case True
    then show ?thesis by (simp add: kept_def)
  next
    case False
    then show ?thesis using Cons.prems unfolding kept_def
      by (auto simp: parse_line_def Let_def keep_line_def no_records_def split: if_splits option.splits dest: has_prefix_length)
  qed
  then show ?case using Cons by (simp add: parse_lines_parts(3) [of _ "parse_line _ no_records"])
qed (simp add: no_records_def)

lemma extra_lines_kept: "l \<in> set (filled_lines (dm_extra (DNSmasqParse raw))) \<Longrightarrow> kept l"
proof -
  assume m: "l \<in> set (filled_lines (dm_extra (DNSmasqParse raw)))"
  obtain es where es: "dm_extra (DNSmasqParse raw) = lines es" "\<forall>l \<in> set es. kept l"
    using sane_parse by (auto simp: sane_def kept_text_def)
  then have "l \<in> trim_space ` set es" using m by (auto simp: filled_lines_def split_lines kept_def)
  then show "kept l" using es(2) by (auto simp: kept_def)
qed

lemma added_records:
  fixes raw :: string and userRaw :: "string option"
  defines "added \<equiv> added_lines (dm_extra (DNSmasqParse raw)) userRaw"
  shows "values_of (dm_addresses (parse_lines added no_records)) s = values_of (dm_addresses (user_records userRaw)) s"
    "map_of (dm_cnames (parse_lines added no_records)) = map_of (dm_cnames (user_records userRaw))"
    "dm_extra (parse_lines added no_records) = lines (filter kept added)"
proof -
  have k: "\<not> l \<notin> set (filled_lines (dm_extra (DNSmasqParse raw))) \<Longrightarrow> kept l" for l using extra_lines_kept by blast
  note f = parse_filled [where P = "\<lambda>l. l \<notin> set (filled_lines (dm_extra (DNSmasqParse raw)))", OF k]
  show "values_of (dm_addresses (parse_lines added no_records)) s = values_of (dm_addresses (user_records userRaw)) s"
    "map_of (dm_cnames (parse_lines added no_records)) = map_of (dm_cnames (user_records userRaw))"
    using f by (auto simp: added_def added_lines_def user_records_def user_lines_def filled_lines_def DNSmasqParse_def split: option.split)
  have "\<forall>l \<in> set added. NL \<notin> set l \<and> trim_space l = l"
    using added_no_newline unfolding added_def
    by (fastforce simp: added_lines_def user_lines_def filled_lines_def split: option.splits)
  then show "dm_extra (parse_lines added no_records) = lines (filter kept added)" by (rule extra_of_added)
qed

lemma update_read_back:
  assumes "list_all address_ok newIPs" "distinct (map fst newIPs)" "list_all cname_ok mine" "distinct (map fst mine)"
    and "mset (ranged (dm_cnames (DNSmasqParse raw))) = mset (dm_cnames (DNSmasqParse raw))"
  shows "values_of (dm_addresses (DNSmasqParse (new_raw owned newIPs mine userRaw ranged raw))) s =
      merged_values owned newIPs (dm_addresses (DNSmasqParse raw)) s @ values_of (dm_addresses (user_records userRaw)) s"
    "map_of (dm_cnames (DNSmasqParse (new_raw owned newIPs mine userRaw ranged raw))) =
      merged_names (dm_cnames (DNSmasqParse raw)) mine ++ map_of (dm_cnames (user_records userRaw))"
    "dm_extra (DNSmasqParse (new_raw owned newIPs mine userRaw ranged raw)) =
      dm_extra (DNSmasqParse raw) @ lines (filter kept (added_lines (dm_extra (DNSmasqParse raw)) userRaw))"
proof -
  obtain x where x: "DNSmasqParse (new_raw owned newIPs mine userRaw ranged raw) = parse_lines (added_lines (dm_extra (DNSmasqParse raw)) userRaw) x"
    "\<forall>s. values_of (dm_addresses x) s = merged_values owned newIPs (dm_addresses (DNSmasqParse raw)) s"
    "\<forall>t. map_of (dm_cnames x) t = merged_names (dm_cnames (DNSmasqParse raw)) mine t"
    "dm_extra x = dm_extra (DNSmasqParse raw)"
    by (rule update_before_user [where ranged = ranged and raw = raw, OF assms])
  then have c: "map_of (dm_cnames x) = merged_names (dm_cnames (DNSmasqParse raw)) mine" by (simp add: fun_eq_iff)
  note p = parse_lines_parts [of "added_lines (dm_extra (DNSmasqParse raw)) userRaw" x] added_records [of raw userRaw]
  show "values_of (dm_addresses (DNSmasqParse (new_raw owned newIPs mine userRaw ranged raw))) s =
      merged_values owned newIPs (dm_addresses (DNSmasqParse raw)) s @ values_of (dm_addresses (user_records userRaw)) s"
    unfolding x(1) p using x(2) by simp
  show "map_of (dm_cnames (DNSmasqParse (new_raw owned newIPs mine userRaw ranged raw))) =
      merged_names (dm_cnames (DNSmasqParse raw)) mine ++ map_of (dm_cnames (user_records userRaw))"
    unfolding x(1) p c by (rule refl)
  show "dm_extra (DNSmasqParse (new_raw owned newIPs mine userRaw ranged raw)) =
      dm_extra (DNSmasqParse raw) @ lines (filter kept (added_lines (dm_extra (DNSmasqParse raw)) userRaw))"
    unfolding x(1) p x(4) by (rule refl)
qed

text \<open>
  C9.  What an update makes of the records the network has.  The old and the new value are compared as
  the reader takes them: addresses by service, names by alias target, and the lines it keeps.  A
  service given new addresses has just those, one the run owns and has none for has none, and any
  other those it had, each followed by the addresses the user's own value gives it; a target the network
  has no alias for keeps its names, one it has gains the old ones after its own, and one the user's
  value names has the user's; the lines the reader keeps are all still there, followed by the user's that
  were missing.  So projects that share a network do not touch each other's names.  What the reader
  does not keep is not preserved: a bare \<open>local=/name/\<close> without addresses, a line of one character, a
  malformed record, and of several alias lines with one target all but the last.
\<close>
theorem update_leaves_the_rest:
  assumes "list_all address_ok newIPs" "distinct (map fst newIPs)" "list_all cname_ok mine" "distinct (map fst mine)"
    and "mset (ranged (dm_cnames (DNSmasqParse raw))) = mset (dm_cnames (DNSmasqParse raw))"
  shows "let d = DNSmasqParse raw; d' = DNSmasqParse (new_raw owned newIPs mine userRaw ranged raw); user = user_records userRaw in
    (\<forall>s. values_of (dm_addresses d') s = merged_values owned newIPs (dm_addresses d) s @ values_of (dm_addresses user) s) \<and>
    (\<forall>t. map_of (dm_cnames d') t =
       (case map_of (dm_cnames user) t of None \<Rightarrow> merged_names (dm_cnames d) mine t | Some ns \<Rightarrow> Some ns)) \<and>
    dm_extra d' = dm_extra d @ lines (filter kept (added_lines (dm_extra d) userRaw))"
  using update_read_back [where ranged = ranged and raw = raw, OF assms]
  by (simp add: Let_def map_add_def split: option.split)

lemma update_leaves_the_rest_witness:
  "values_of (dm_addresses (DNSmasqParse (new_raw [''web''] [(''web'', [''10.0.0.3''])] [(''web-1'', [''www''])]
      (Some (''address=/nas/10.0.0.7'')) (\<lambda>m. m) (''address=/web/10.0.0.2'' @ [NL] @ ''address=/nas/10.0.0.9'')))) ''nas'' =
    [''10.0.0.9'', ''10.0.0.7'']"
proof -
  have g: "list_all address_ok [(''web'', [''10.0.0.3''])]" "list_all cname_ok [(''web-1'', [''www''])]"
    by (simp_all add: address_ok_def cname_ok_def good_service_def good_value_def good_target_def good_names_def NL_def is_space_def code_def)
  have u: "values_of (dm_addresses (user_records (Some (''address=/nas/10.0.0.7'')))) ''nas'' = [''10.0.0.7'']" by code_simp
  have d: "values_of (dm_addresses (DNSmasqParse (''address=/web/10.0.0.2'' @ [NL] @ ''address=/nas/10.0.0.9''))) ''nas'' = [''10.0.0.9'']" by code_simp
  show ?thesis
    using update_leaves_the_rest [OF g(1) _ g(2), of "\<lambda>m. m" "''address=/web/10.0.0.2'' @ [NL] @ ''address=/nas/10.0.0.9''" "[''web'']" "Some (''address=/nas/10.0.0.7'')"] u d
    by (simp add: Let_def merged_values_def del: append_Cons append_Nil)
qed

type_synonym name_update = "string list \<times> records \<times> records \<times> (records \<Rightarrow> records)"

definition updated :: "string option \<Rightarrow> name_update list \<Rightarrow> string \<Rightarrow> string" where
  \<comment> \<open>The value after these updates, one after the other.\<close>
  "updated userRaw us raw = fold (\<lambda>(owned, newIPs, mine, ranged). new_raw owned newIPs mine userRaw ranged) us raw"

definition update_ok :: "name_update \<Rightarrow> bool" where
  "update_ok u = (case u of (owned, newIPs, mine, ranged) \<Rightarrow>
     list_all address_ok newIPs \<and> distinct (map fst newIPs) \<and> list_all cname_ok mine \<and> distinct (map fst mine) \<and>
     (\<forall>m. mset (ranged m) = mset m))"

text \<open>
  C40.  The address records in the user's own value grow without bound for a name that is no service
  of the run: whatever the updates otherwise write, each adds every address the value gives the name
  once more, since the lines to add are compared only with the lines that are not records.  (The name of a service
  the run owns is written anew on each update, its addresses followed once by the user's, and does not grow.)
\<close>
theorem user_address_grows:
  assumes "\<forall>u \<in> set us. update_ok u \<and> s \<notin> set (fst u) \<and> s \<notin> fst ` set (fst (snd u))"
  shows "values_of (dm_addresses (DNSmasqParse (updated (Some userRaw) us raw))) s =
    values_of (dm_addresses (DNSmasqParse raw)) s @ concat (replicate (length us) (values_of (dm_addresses (DNSmasqParse userRaw)) s))"
  using assms
proof (induction us arbitrary: raw)
  case (Cons u us)
  obtain owned newIPs mine ranged where u: "u = (owned, newIPs, mine, ranged)" by (cases u)
  have g: "list_all address_ok newIPs" "distinct (map fst newIPs)" "list_all cname_ok mine" "distinct (map fst mine)"
    "mset (ranged (dm_cnames (DNSmasqParse raw))) = mset (dm_cnames (DNSmasqParse raw))" and n: "s \<notin> set owned" "s \<notin> fst ` set newIPs"
    using Cons.prems by (auto simp: u update_ok_def)
  have "values_of (dm_addresses (DNSmasqParse (new_raw owned newIPs mine (Some userRaw) ranged raw))) s =
      values_of (dm_addresses (DNSmasqParse raw)) s @ values_of (dm_addresses (DNSmasqParse userRaw)) s"
    using n by (simp add: update_read_back(1) [where ranged = ranged and raw = raw, OF g] merged_values_def user_records_def)
  then show ?case using Cons by (simp add: u updated_def)
qed (simp add: updated_def)

lemma user_address_grows_witness:
  "values_of (dm_addresses (DNSmasqParse (updated (Some (''address=/nas/10.0.0.7''))
      [([''web''], [(''web'', [''10.0.0.3''])], [], \<lambda>m. m), ([''web''], [], [], rev)] []))) ''nas'' = [''10.0.0.7'', ''10.0.0.7'']"
proof -
  have u: "values_of (dm_addresses (DNSmasqParse (''address=/nas/10.0.0.7''))) ''nas'' = [''10.0.0.7'']"
    "values_of (dm_addresses (DNSmasqParse [])) ''nas'' = []" by code_simp+
  have g: "\<forall>u \<in> set [([''web''], [(''web'', [''10.0.0.3''])], [], \<lambda>m :: records. m), ([''web''], [], [], rev)].
      update_ok u \<and> ''nas'' \<notin> set (fst u) \<and> ''nas'' \<notin> fst ` set (fst (snd u))"
    by (simp add: update_ok_def address_ok_def good_service_def good_value_def NL_def is_space_def code_def)
  show ?thesis unfolding user_address_grows [OF g] u by (simp add: eval_nat_numeral)
qed


text \<open>
  C39.  The address records written for a set of services are read back as those, and as nothing else.
\<close>
theorem records_round_trip:
  assumes "list_all address_ok m" "distinct (map fst m)"
  shows "(\<forall>s. values_of (dm_addresses (DNSmasqParse (dnsmasqRecords m))) s = values_of m s) \<and>
    dm_cnames (DNSmasqParse (dnsmasqRecords m)) = [] \<and> dm_extra (DNSmasqParse (dnsmasqRecords m)) = []"
proof -
  have "\<forall>l \<in> set (concat (map (record_lines m) (sort (map fst m)))). NL \<notin> set l"
    using record_no_newline [OF assms(1)] by blast
  note t = parse_text [OF this]
  show ?thesis
    using parse_records [OF assms(1), of "sort (map fst m)" no_records] assms(2) values_absent [of _ m]
    unfolding records_lines t by (auto simp: no_records_def values_of_def)
qed

lemma records_round_trip_witness:
  "values_of (dm_addresses (DNSmasqParse (dnsmasqRecords [(''web'', [''10.0.0.3'', ''fd00::3'']), (''db'', [''10.0.0.9''])]))) ''web''
     = [''10.0.0.3'', ''fd00::3'']"
proof -
  have "list_all address_ok [(''web'', [''10.0.0.3'', ''fd00::3'']), (''db'', [''10.0.0.9''])]"
    by (simp add: address_ok_def good_service_def good_value_def NL_def is_space_def code_def)
  from records_round_trip [OF this] show ?thesis by (simp add: values_of_def)
qed

subsection \<open>Updating again\<close>

lemma service_records_cong: "values_of m = values_of m' \<Longrightarrow> service_records m = service_records m'"
  by (simp add: service_records_def fun_eq_iff)

lemma concat_nonempty: "concat (map f xs) = concat (map f (filter (\<lambda>x. f x \<noteq> []) xs))"
  by (induction xs) auto

lemma records_by_values:
  assumes "distinct (map fst m)"
  shows "dnsmasqRecords m = concat (map (service_records m) (sorted_list_of_set {s. values_of m s \<noteq> []}))"
proof -
  have "set (filter (\<lambda>s. values_of m s \<noteq> []) (map fst m)) = {s. values_of m s \<noteq> []}"
    using values_absent [of _ m] by (force simp: image_iff)
  then have "sort (filter (\<lambda>s. values_of m s \<noteq> []) (map fst m)) = sorted_list_of_set {s. values_of m s \<noteq> []}"
    using assms by (metis distinct_filter sorted_list_of_set_sort_remdups distinct_remdups_id)
  moreover have "filter (\<lambda>s. service_records m s \<noteq> []) (sort (map fst m)) = sort (filter (\<lambda>s. values_of m s \<noteq> []) (map fst m))"
    by (simp add: filter_sort service_records_def Let_def)
  ultimately show ?thesis unfolding dnsmasqRecords_def by (subst concat_nonempty) simp
qed

lemma records_cong:
  assumes "distinct (map fst m)" "distinct (map fst m')" "values_of m = values_of m'"
  shows "dnsmasqRecords m = dnsmasqRecords m'"
  using assms records_by_values service_records_cong by metis

lemma joined_again:
  "\<exists>u. gain xs ns = ns @ u \<and> distinct u \<and> set u \<inter> set ns = {}"
  unfolding gain_def
proof (induction xs arbitrary: ns rule: rev_induct)
  case (snoc x xs)
  then obtain u where "fold (\<lambda>c acc. if c \<in> set acc then acc else acc @ [c]) xs ns = ns @ u" "distinct u" "set u \<inter> set ns = {}" by blast
  then show ?case by (cases "x \<in> set (ns @ u)") (auto intro: exI [of _ "u @ [x]"])
qed simp

lemma join_known: "set xs \<subseteq> set ns \<Longrightarrow> gain xs ns = ns"
  unfolding gain_def by (induction xs) auto

lemma join_fresh: "distinct u \<Longrightarrow> set u \<inter> set ns = {} \<Longrightarrow> gain u ns = ns @ u"
  unfolding gain_def by (induction u arbitrary: ns) auto

lemma joined_twice:
  "gain (gain xs ns) ns =
   gain xs ns"
proof -
  obtain u where u: "gain xs ns = ns @ u" "distinct u" "set u \<inter> set ns = {}"
    using joined_again by blast
  have "gain (ns @ u) ns = gain u (gain ns ns)" by (simp add: gain_def)
  then show ?thesis unfolding u(1) using join_known [of ns ns] join_fresh [OF u(2,3)] by simp
qed

lemma all_cnames_twice:
  assumes "distinct (map fst old)" "distinct (map fst mine)" "list_all cname_ok old" "list_all cname_ok mine"
  shows "all_cnames (all_cnames old mine) mine = all_cnames old mine"
proof -
  let ?new = "all_cnames old mine"
  have m: "merged_cnames ?new t ns = merged_cnames old t ns" if "(t, ns) \<in> set mine" for t ns
  proof -
    have "map_of mine t = Some ns" using that assms(2) by simp
    then have "map_of ?new t = Some (merged_cnames old t ns)" using all_cnames_ok(3) [OF assms(3,1,4,2)] by simp
    then show ?thesis using join_known [of ns ns] by (simp add: merged_cnames_def joined_twice split: option.split)
  qed
  have "filter (\<lambda>(t, ns). map_of mine t = None) ?new = filter (\<lambda>(t, ns). map_of mine t = None) old"
  proof -
    have "filter (\<lambda>(t, ns). map_of mine t = None) (map (\<lambda>(t, ns). (t, merged_cnames old t ns)) mine) = []"
      by (auto simp: filter_empty_conv map_of_eq_None_iff intro: rev_image_eqI)
    then show ?thesis by (simp add: all_cnames_def)
  qed
  moreover have "map (\<lambda>(t, ns). (t, merged_cnames ?new t ns)) mine = map (\<lambda>(t, ns). (t, merged_cnames old t ns)) mine"
    using m by auto
  ultimately have "all_cnames ?new mine = filter (\<lambda>(t, ns). map_of mine t = None) old @ map (\<lambda>(t, ns). (t, merged_cnames old t ns)) mine"
    unfolding all_cnames_def [of ?new mine] by (simp only:)
  then show ?thesis by (simp only: all_cnames_def [of old mine])
qed


lemma same_parts_same_raw:
  assumes "dnsmasqRecords (fold (\<lambda>(k, v). AList.update k v) newIPs (filter (\<lambda>(k, v). k \<notin> set owned) (dm_addresses (DNSmasqParse raw')))) =
      dnsmasqRecords (fold (\<lambda>(k, v). AList.update k v) newIPs (filter (\<lambda>(k, v). k \<notin> set owned) (dm_addresses (DNSmasqParse raw))))"
    and "cname_lines (dm_cnames (DNSmasqParse raw')) mine = cname_lines (dm_cnames (DNSmasqParse raw)) mine"
    and "dm_extra (DNSmasqParse raw') = dm_extra (DNSmasqParse raw)"
  shows "new_raw owned newIPs mine None (\<lambda>m. m) raw' = new_raw owned newIPs mine None (\<lambda>m. m) raw"
  unfolding new_raw_def Let_def assms by simp

text \<open>
  Where the user gives no value of their own and the records come in the order they stand in, an
  update made again writes what is there already, so nothing is sent and \<open>dnsmasq\<close> is not restarted.
\<close>
theorem second_update_changes_nothing:
  assumes "list_all address_ok newIPs" "distinct (map fst newIPs)" "list_all cname_ok mine" "distinct (map fst mine)"
  shows "let update = new_raw owned newIPs mine None (\<lambda>m. m) in update (update raw) = update raw"
proof -
  let ?r = "new_raw owned newIPs mine None (\<lambda>m. m)"
  let ?d = "DNSmasqParse raw" and ?d' = "DNSmasqParse (?r raw)"
  have sd: "sane ?d" "sane ?d'" by (rule sane_parse)+
  obtain x where "?d' = parse_lines (added_lines (dm_extra ?d) None) x"
    "\<forall>s. values_of (dm_addresses x) s = merged_values owned newIPs (dm_addresses ?d) s"
    "dm_extra x = dm_extra ?d" "dm_cnames x = all_cnames (dm_cnames ?d) mine"
    by (rule update_before_user [where ranged = "\<lambda>m. m" and raw = raw, OF assms refl])
  then have x: "\<forall>s. values_of (dm_addresses ?d') s = merged_values owned newIPs (dm_addresses ?d) s"
    "dm_extra ?d' = dm_extra ?d" "dm_cnames ?d' = all_cnames (dm_cnames ?d) mine" by (simp_all add: added_lines_def)
  let ?a = "\<lambda>old. fold (\<lambda>(k, v). AList.update k v) newIPs (filter (\<lambda>(k, v). k \<notin> set owned) old)"
  have va: "values_of (?a old) = merged_values owned newIPs old" for old
    by (rule ext) (rule values_after_update [OF assms(2)])
  have "merged_values owned newIPs (dm_addresses ?d') = merged_values owned newIPs (dm_addresses ?d)"
    using x(1) by (auto simp: merged_values_def fun_eq_iff)
  then have "dnsmasqRecords (?a (dm_addresses ?d')) = dnsmasqRecords (?a (dm_addresses ?d))"
    using sd by (intro records_cong fold_update_distinct) (simp_all add: va sane_def distinct_map_filter)
  moreover have "cname_lines (dm_cnames ?d') mine = cname_lines (dm_cnames ?d) mine"
    using sd assms(3,4) by (simp add: cname_lines_text x(3) all_cnames_twice sane_def)
  ultimately show ?thesis unfolding Let_def by (rule same_parts_same_raw [OF _ _ x(2)])
qed

lemma second_update_changes_nothing_witness:
  "let update = new_raw [''web''] [(''web'', [''10.0.0.3''])] [(''web-1'', [''www''])] None (\<lambda>m. m) in update (update []) = update []"
  by (rule second_update_changes_nothing)
    (simp_all add: address_ok_def cname_ok_def good_service_def good_value_def good_target_def good_names_def NL_def is_space_def code_def)

end
