(* ===== verification/DnsWatcher.thy ===== *)
theory DnsWatcher
  imports Dnsmasq InstanceRun
begin

text \<open>
  The hook that keeps the service names of a run in its networks (\<open>RegisterDNSWatcher\<close> of
  \<open>client/client_dnswatcher.go\<close>): what it remembers of the networks and instances it saw ensured,
  started and stopped, and the updates it asks of each network.  The maps are association lists; the
  order in which one call ranges over them is an argument of it, for Go's is a new one each time.
  \<open>None\<close> is the panic of an instance that is not there.
\<close>

subsection \<open>The hook\<close>

record watched_net =
  wn_type :: string                        \<comment> \<open>of its configuration\<close>
  wn_fetched :: "(string \<times> bool) option"   \<comment> \<open>its type and whether it is managed, as fetched\<close>
  wn_cnames :: records

record iface =
  if_network :: string
  if_v4 :: "string list"
  if_v6 :: "string list"

record watched_inst =
  wi_incus :: string
  wi_service :: string
  wi_created :: bool
  wi_running :: bool
  wi_ips :: "chain + iface list"           \<comment> \<open>what \<open>WaitIPs\<close> answers\<close>

datatype subject = NetworkHook string | InstanceHook watched_inst | OtherHook

record watcher =
  wt_networks :: "string list"
  wt_instances :: "(string \<times> string) list"  \<comment> \<open>the service of each\<close>
  wt_ips :: "(string \<times> iface list) list"
  wt_owned :: "string list"

record ranges =
  \<comment> \<open>The orders in which a call ranges over the networks and, for each of them, over the instances.\<close>
  rg_nets :: "string list \<Rightarrow> string list"
  rg_ips :: "string \<Rightarrow> (string \<times> iface list) list \<Rightarrow> (string \<times> iface list) list"

definition new_watcher :: watcher where
  "new_watcher = \<lparr>wt_networks = [], wt_instances = [], wt_ips = [], wt_owned = []\<rparr>"

definition iface_ips :: "string \<Rightarrow> iface list \<Rightarrow> string list" where
  "iface_ips net ifs = concat (map (\<lambda>i. if if_network i \<noteq> net then [] else if_v4 i @ if_v6 i) ifs)"

fun net_services :: "string \<Rightarrow> (string \<times> string) list \<Rightarrow> (string \<times> iface list) list \<Rightarrow> records \<Rightarrow> records option" where
  "net_services net insts [] acc = Some acc"
| "net_services net insts ((inc, ifs) # rest) acc =
     (case map_of insts inc of
        None \<Rightarrow> None
      | Some s \<Rightarrow>
          (let ips = iface_ips net ifs in
           net_services net insts rest (if ips \<noteq> [] then AList.update s (values_of acc s @ ips) acc else acc)))"

type_synonym net_update = "string \<times> string list \<times> records"

fun net_updates :: "(string \<Rightarrow> watched_net) \<Rightarrow> ranges \<Rightarrow> watcher \<Rightarrow> string list \<Rightarrow> net_update list option" where
  "net_updates look g w [] = Some []"
| "net_updates look g w (net # nets) =
     (if wn_type (look net) \<noteq> ''bridge'' \<or> (case wn_fetched (look net) of None \<Rightarrow> False | Some (typ, m) \<Rightarrow> typ \<noteq> ''bridge'')
      then net_updates look g w nets
      else case net_services net (wt_instances w) (rg_ips g net (wt_ips w)) [] of
             None \<Rightarrow> None
           | Some services \<Rightarrow>
               map_option (\<lambda>rest. (net, wt_owned w, services) # rest) (net_updates look g w nets))"

definition hold :: "watched_inst \<Rightarrow> iface list \<Rightarrow> watcher \<Rightarrow> watcher" where
  "hold i ifs w = w\<lparr>wt_instances := AList.update (wi_incus i) (wi_service i) (wt_instances w),
                    wt_ips := AList.update (wi_incus i) ifs (wt_ips w)\<rparr>"

definition unhold :: "watched_inst \<Rightarrow> watcher \<Rightarrow> watcher" where
  "unhold i w = w\<lparr>wt_instances := AList.delete (wi_incus i) (wt_instances w), wt_ips := AList.delete (wi_incus i) (wt_ips w)\<rparr>"

definition note_instance :: "action_kind \<Rightarrow> watched_inst \<Rightarrow> bool \<Rightarrow> watcher \<Rightarrow> chain + (bool \<times> watcher)" where
  \<comment> \<open>Whether something changed; the error is that of waiting for addresses.\<close>
  "note_instance a i needIPs w =
     (if a = ActionStart \<or> a = ActionEnsure \<and> \<not> wi_created i \<and> wi_running i then
        (if needIPs then (case wi_ips i of Inl e \<Rightarrow> Inl e | Inr ifs \<Rightarrow> Inr (True, hold i ifs w)) else Inr (True, w))
      else if a = ActionStop then Inr (True, if needIPs then unhold i w else w)
      else Inr (False, w))"

record watch_result =
  wr_error :: "chain option"
  wr_watcher :: watcher
  wr_updates :: "net_update list"

definition quiet :: "watcher \<Rightarrow> watch_result" where "quiet w = \<lparr>wr_error = None, wr_watcher = w, wr_updates = []\<rparr>"

definition watch_network :: "(string \<Rightarrow> watched_net) \<Rightarrow> action_kind \<Rightarrow> string \<Rightarrow> watcher \<Rightarrow> watcher" where
  "watch_network look a net w =
     (if a = ActionEnsure \<and> wn_type (look net) = ''bridge'' \<and>
         (case wn_fetched (look net) of None \<Rightarrow> True | Some (typ, m) \<Rightarrow> \<not> (typ = ''ovn'' \<or> \<not> m))
      then w\<lparr>wt_networks := List.insert net (wt_networks w)\<rparr> else w)"

definition watch_instance :: "(string \<Rightarrow> watched_net) \<Rightarrow> ranges \<Rightarrow> action_kind \<Rightarrow> watched_inst \<Rightarrow> watcher \<Rightarrow> watch_result option" where
  "watch_instance look g a i w =
     (let hasCNames = list_ex (\<lambda>net. wn_cnames (look net) \<noteq> []) (wt_networks w);
          needIPs = (wi_service i \<noteq> wi_incus i)
      in if wi_service i = [] \<or> \<not> needIPs \<and> \<not> hasCNames then Some (quiet w)
         else
           (let w1 = (if needIPs then w\<lparr>wt_owned := List.insert (wi_service i) (wt_owned w)\<rparr> else w) in
            case note_instance a i needIPs w1 of
              Inl e \<Rightarrow> Some \<lparr>wr_error = Some e, wr_watcher = w1, wr_updates = []\<rparr>
            | Inr (changed, w2) \<Rightarrow>
                if \<not> changed then Some (quiet w2)
                else map_option (\<lambda>us. \<lparr>wr_error = None, wr_watcher = w2, wr_updates = us\<rparr>) (net_updates look g w2 (rg_nets g (wt_networks w2)))))"

definition watch :: "(string \<Rightarrow> watched_net) \<Rightarrow> ranges \<Rightarrow> bool \<Rightarrow> action_kind \<Rightarrow> subject \<Rightarrow> watcher \<Rightarrow> watch_result option" where
  \<comment> \<open>\<open>proceed\<close>: no error came before and the resource is ensured.\<close>
  "watch look g proceed a x w =
     (if \<not> proceed then Some (quiet w)
      else case x of
             NetworkHook net \<Rightarrow> Some (quiet (watch_network look a net w))
           | InstanceHook i \<Rightarrow> watch_instance look g a i w
           | OtherHook \<Rightarrow> Some (quiet w))"

type_synonym hook_call = "bool \<times> action_kind \<times> subject \<times> (string \<Rightarrow> watched_net) \<times> ranges"

fun watch_all :: "hook_call list \<Rightarrow> watcher \<Rightarrow> (watcher \<times> net_update list) option" where
  \<comment> \<open>The calls of a run, one after the other, and every update asked for.\<close>
  "watch_all [] w = Some (w, [])"
| "watch_all ((proceed, a, x, look, g) # calls) w =
     (case watch look g proceed a x w of
        None \<Rightarrow> None
      | Some r \<Rightarrow> map_option (\<lambda>(w', us). (w', wr_updates r @ us)) (watch_all calls (wr_watcher r)))"


subsection \<open>What it holds\<close>

definition good_ifaces :: "iface list \<Rightarrow> bool" where
  "good_ifaces ifs \<longleftrightarrow> list_all (\<lambda>i. list_all good_value (if_v4 i) \<and> list_all good_value (if_v6 i)) ifs"

definition permutes_ranges :: "ranges \<Rightarrow> bool" where
  \<comment> \<open>A range visits each entry once, in some order.\<close>
  "permutes_ranges g \<longleftrightarrow> (\<forall>ns. mset (rg_nets g ns) = mset ns) \<and> (\<forall>net xs. mset (rg_ips g net xs) = mset xs)"

definition good_call :: "hook_call \<Rightarrow> bool" where
  \<comment> \<open>The names of services and the addresses are such as a record can hold.\<close>
  "good_call c = (case c of (p, a, x, l, g) \<Rightarrow> permutes_ranges g \<and>
     (case x of InstanceHook i \<Rightarrow>
        (wi_service i \<noteq> [] \<longrightarrow> good_service (wi_service i)) \<and> (\<forall>ifs. wi_ips i = Inr ifs \<longrightarrow> good_ifaces ifs) | _ \<Rightarrow> True))"

definition watcher_ok :: "watcher \<Rightarrow> bool" where
  "watcher_ok w \<longleftrightarrow>
     fst ` set (wt_ips w) = fst ` set (wt_instances w) \<and> distinct (map fst (wt_ips w)) \<and> distinct (map fst (wt_instances w)) \<and>
     (\<forall>(inc, s) \<in> set (wt_instances w). s \<in> set (wt_owned w) \<and> good_service s) \<and>
     (\<forall>(inc, ifs) \<in> set (wt_ips w). good_ifaces ifs) \<and> distinct (wt_networks w)"

lemma watcher_ok_new: "watcher_ok new_watcher"
  by (simp add: watcher_ok_def new_watcher_def)

lemma update_members: "\<forall>(k, v) \<in> set m. P k v \<Longrightarrow> P key val \<Longrightarrow> \<forall>(k, v) \<in> set (AList.update key val m). P k v"
  by (induction m) auto

lemma ok_hold:
  assumes "watcher_ok w" "wi_service i \<in> set (wt_owned w)" "good_service (wi_service i)" "good_ifaces ifs"
  shows "watcher_ok (hold i ifs w)"
  using assms update_members [where m = "wt_instances w" and P = "\<lambda>inc s. s \<in> set (wt_owned w) \<and> good_service s" and val = "wi_service i" and key = "wi_incus i"]
    update_members [where m = "wt_ips w" and P = "\<lambda>inc ifs. good_ifaces ifs" and val = ifs and key = "wi_incus i"]
  by (simp add: watcher_ok_def hold_def distinct_update dom_update)

lemma ok_unhold: "watcher_ok w \<Longrightarrow> watcher_ok (unhold i w)"
proof -
  have k: "fst ` set (AList.delete k m) = fst ` set m - {k}" for k and m :: "(string \<times> 'x) list" by (auto simp: AList.delete_eq)
  have s: "set (AList.delete k m) \<subseteq> set m" for k and m :: "(string \<times> 'x) list" by (auto simp: AList.delete_eq)
  have d: "distinct (map fst m) \<Longrightarrow> distinct (map fst (AList.delete k m))" for k and m :: "(string \<times> 'x) list"
    by (simp add: AList.delete_eq distinct_map_filter)
  assume "watcher_ok w"
  then show ?thesis using s [of "wi_incus i" "wt_instances w"] s [of "wi_incus i" "wt_ips w"]
    by (auto simp: watcher_ok_def unhold_def k d)
qed

lemma ok_owned: "watcher_ok w \<Longrightarrow> watcher_ok (w\<lparr>wt_owned := List.insert s (wt_owned w)\<rparr>)"
  by (auto simp: watcher_ok_def)

lemma ok_networks: "watcher_ok w \<Longrightarrow> watcher_ok (w\<lparr>wt_networks := List.insert net (wt_networks w)\<rparr>)"
  by (simp add: watcher_ok_def distinct_insert)

definition held_addresses :: "string \<Rightarrow> watcher \<Rightarrow> string \<Rightarrow> string list" where
  \<comment> \<open>The addresses on a network of the instances of a service.\<close>
  "held_addresses net w s = concat (map (\<lambda>(inc, ifs). if map_of (wt_instances w) inc = Some s then iface_ips net ifs else []) (wt_ips w))"

lemma net_services_ok:
  assumes "\<forall>(inc, ifs) \<in> set xs. good_ifaces ifs \<and> (\<exists>s. map_of insts inc = Some s \<and> good_service s)"
    and "list_all address_ok acc" "distinct (map fst acc)"
  shows "\<exists>m. net_services net insts xs acc = Some m \<and> list_all address_ok m \<and> distinct (map fst m) \<and>
    (\<forall>s. values_of m s = values_of acc s @ concat (map (\<lambda>(inc, ifs). if map_of insts inc = Some s then iface_ips net ifs else []) xs))"
  using assms
proof (induction xs arbitrary: acc)
  case (Cons x xs)
  obtain inc ifs where x: "x = (inc, ifs)" by fastforce
  obtain s where s: "map_of insts inc = Some s" "good_service s" "good_ifaces ifs" using Cons.prems(1) by (auto simp: x)
  let ?ips = "iface_ips net ifs"
  let ?acc = "if ?ips \<noteq> [] then AList.update s (values_of acc s @ ?ips) acc else acc"
  have g: "\<forall>v \<in> set ?ips. good_value v" using s(3) by (auto simp: iface_ips_def good_ifaces_def list_all_iff)
  have "list_all address_ok ?acc"
  proof -
    have "address_ok (s, values_of acc s @ ?ips)" using g s(2) values_good [OF Cons.prems(2)] by (auto simp: address_ok_def)
    then show ?thesis using update_all [OF Cons.prems(2), of s "values_of acc s @ ?ips"] Cons.prems(2) by simp
  qed
  moreover have "distinct (map fst ?acc)" using Cons.prems(3) by (simp add: distinct_update)
  moreover have "values_of ?acc t = values_of acc t @ (if s = t then ?ips else [])" for t by auto
  ultimately show ?case using Cons.IH [of ?acc] Cons.prems(1) by (simp add: x s(1) Let_def)
qed simp

lemma mset_concat_map: "mset xs = mset ys \<Longrightarrow> mset (concat (map f xs)) = mset (concat (map f ys))"
proof -
  have "mset (concat (map f zs)) = (\<Sum>x \<in># mset zs. mset (f x))" for zs by (induction zs) simp_all
  then show "mset xs = mset ys \<Longrightarrow> mset (concat (map f xs)) = mset (concat (map f ys))" by simp
qed

lemma net_services_held:
  assumes "watcher_ok w" "permutes_ranges g"
  obtains m where "net_services net (wt_instances w) (rg_ips g net (wt_ips w)) [] = Some m" "list_all address_ok m" "distinct (map fst m)"
    "\<forall>s. mset (values_of m s) = mset (held_addresses net w s)"
proof -
  note that1 = that
  let ?xs = "rg_ips g net (wt_ips w)"
  have m: "mset ?xs = mset (wt_ips w)" using assms(2) by (simp add: permutes_ranges_def)
  note st = mset_eq_setD [OF m]
  have "\<exists>s. map_of (wt_instances w) inc = Some s \<and> good_service s" if "(inc, ifs) \<in> set ?xs" for inc ifs
  proof -
    have "inc \<in> fst ` set (wt_ips w)" using that unfolding st by (rule rev_image_eqI) simp
    then have "inc \<in> fst ` set (wt_instances w)" using assms(1) by (simp add: watcher_ok_def)
    then obtain s where "map_of (wt_instances w) inc = Some s" by (metis map_of_eq_None_iff not_None_eq)
    then show ?thesis using assms(1) by (auto simp: watcher_ok_def dest!: map_of_SomeD)
  qed
  then have "\<forall>(inc, ifs) \<in> set ?xs. good_ifaces ifs \<and> (\<exists>s. map_of (wt_instances w) inc = Some s \<and> good_service s)"
    using assms(1) unfolding st by (auto simp: watcher_ok_def)
  from net_services_ok [OF this, of "[]" net] obtain m where "net_services net (wt_instances w) ?xs [] = Some m"
    "list_all address_ok m" "distinct (map fst m)"
    "\<forall>s. values_of m s = concat (map (\<lambda>(inc, ifs). if map_of (wt_instances w) inc = Some s then iface_ips net ifs else []) ?xs)" by auto
  then show ?thesis using that1 mset_concat_map [OF m] by (auto simp: held_addresses_def)
qed

definition takes_names :: "(string \<Rightarrow> watched_net) \<Rightarrow> string \<Rightarrow> bool" where
  \<comment> \<open>A bridge, by its configuration and as far as it was fetched.\<close>
  "takes_names look net \<longleftrightarrow> wn_type (look net) = ''bridge'' \<and> (case wn_fetched (look net) of None \<Rightarrow> True | Some (typ, m) \<Rightarrow> typ = ''bridge'')"

definition updates_ok :: "watcher \<Rightarrow> net_update list \<Rightarrow> bool" where
  \<comment> \<open>Each update carries what is owned and, for every service, the addresses held.\<close>
  "updates_ok w us \<longleftrightarrow> (\<forall>(net, owned, m) \<in> set us. owned = wt_owned w \<and> list_all address_ok m \<and> distinct (map fst m) \<and>
     (\<forall>s. mset (values_of m s) = mset (held_addresses net w s)))"

lemma updates_ok_Nil [simp]: "updates_ok w []" by (simp add: updates_ok_def)

lemma net_updates_held:
  assumes "watcher_ok w" "permutes_ranges g"
  obtains us where "net_updates look g w nets = Some us" "updates_ok w us" "map fst us = filter (takes_names look) nets"
proof -
  have "\<exists>us. net_updates look g w nets = Some us \<and> updates_ok w us \<and> map fst us = filter (takes_names look) nets"
  proof (induction nets)
    case (Cons net nets)
    obtain m where "net_services net (wt_instances w) (rg_ips g net (wt_ips w)) [] = Some m" "list_all address_ok m" "distinct (map fst m)"
      "\<forall>s. mset (values_of m s) = mset (held_addresses net w s)" by (rule net_services_held [OF assms])
    then have m: "net_services net (wt_instances w) (rg_ips g net (wt_ips w)) [] = Some m" and u: "\<And>us. updates_ok w us \<Longrightarrow> updates_ok w ((net, wt_owned w, m) # us)"
      by (simp_all add: updates_ok_def)
    have t: "wn_type (look net) \<noteq> ''bridge'' \<or> (case wn_fetched (look net) of None \<Rightarrow> False | Some (typ, m) \<Rightarrow> typ \<noteq> ''bridge'') \<longleftrightarrow> \<not> takes_names look net"
      by (auto simp: takes_names_def split: option.split)
    obtain us where "net_updates look g w nets = Some us" "updates_ok w us" "map fst us = filter (takes_names look) nets" using Cons.IH by blast
    moreover have "net_updates look g w (net # nets) = (if \<not> takes_names look net then net_updates look g w nets
        else map_option (\<lambda>rest. (net, wt_owned w, m) # rest) (net_updates look g w nets))"
      by (simp only: net_updates.simps t m option.case)
    ultimately show ?case using u by (cases "takes_names look net") (simp_all del: net_updates.simps)
  qed (simp add: updates_ok_def)
  then show ?thesis using that by blast
qed

lemma watch_step:
  assumes "watcher_ok w" "good_call (proceed, a, x, look, g)"
  obtains r where "watch look g proceed a x w = Some r" "watcher_ok (wr_watcher r)"
    "updates_ok (wr_watcher r) (wr_updates r)"
proof -
  note that1 = that
  have pr: "permutes_ranges g" using assms(2) by (simp add: good_call_def)
  consider "\<not> proceed" | "x = OtherHook" | net where "proceed" "x = NetworkHook net" | i where "proceed" "x = InstanceHook i"
    by (cases x) auto
  then show ?thesis
  proof cases
    case 1
    then show ?thesis using assms(1) by (intro that1) (auto simp: watch_def quiet_def)
  next
    case 2
    then show ?thesis using assms(1) by (intro that1) (auto simp: watch_def quiet_def)
  next
    case 3
    then show ?thesis using assms(1) by (intro that1) (auto simp: watch_def quiet_def watch_network_def ok_networks)
  next
    case 4
    show ?thesis
    proof (cases "wi_service i = [] \<or> wi_service i = wi_incus i \<and> \<not> list_ex (\<lambda>net. wn_cnames (look net) \<noteq> []) (wt_networks w)")
      case True
      then show ?thesis using assms(1) 4 by (intro that1) (auto simp: watch_def watch_instance_def quiet_def Let_def)
    next
      case False
      let ?need = "wi_service i \<noteq> wi_incus i"
      let ?w1 = "if ?need then w\<lparr>wt_owned := List.insert (wi_service i) (wt_owned w)\<rparr> else w"
      have w1: "watcher_ok ?w1" using assms(1) ok_owned by simp
      have gd: "good_service (wi_service i)" "\<And>ifs. wi_ips i = Inr ifs \<Longrightarrow> good_ifaces ifs" using assms(2) False 4 by (auto simp: good_call_def)
      have step: "watch look g proceed a x w = (case note_instance a i ?need ?w1 of
          Inl e \<Rightarrow> Some \<lparr>wr_error = Some e, wr_watcher = ?w1, wr_updates = []\<rparr>
        | Inr (changed, w2) \<Rightarrow> if \<not> changed then Some (quiet w2)
            else map_option (\<lambda>us. \<lparr>wr_error = None, wr_watcher = w2, wr_updates = us\<rparr>) (net_updates look g w2 (rg_nets g (wt_networks w2))))"
        using False 4 by (auto simp: watch_def watch_instance_def Let_def)
      show ?thesis
      proof (cases "note_instance a i ?need ?w1")
        case (Inl e)
        then show ?thesis using w1 by (intro that1) (auto simp: step)
      next
        case (Inr p)
        obtain changed w2 where p: "p = (changed, w2)" by fastforce
        have w2: "watcher_ok w2"
          using Inr w1 gd ok_unhold [OF w1] ok_hold [OF w1, of i]
          by (auto simp: p note_instance_def split: if_splits sum.splits)
        show ?thesis
        proof (cases changed)
          case False
          then show ?thesis using w2 Inr by (intro that1) (auto simp: step p quiet_def)
        next
          case True
          obtain us where "net_updates look g w2 (rg_nets g (wt_networks w2)) = Some us" "updates_ok w2 us"
            by (rule net_updates_held [OF w2 pr])
          then show ?thesis using w2 Inr True by (intro that1) (auto simp: step p)
        qed
      qed
    qed
  qed
qed


lemma watch_all_ok:
  assumes "list_all good_call calls" "watcher_ok w"
  obtains w' us where "watch_all calls w = Some (w', us)" "watcher_ok w'"
proof -
  have "\<exists>w' us. watch_all calls w = Some (w', us) \<and> watcher_ok w'"
    using assms
  proof (induction calls arbitrary: w)
    case (Cons c calls)
    obtain proceed a x look g where c: "c = (proceed, a, x, look, g)" by (cases c)
    obtain r where "watch look g proceed a x w = Some r" "watcher_ok (wr_watcher r)"
      using watch_step [OF Cons.prems(2), of proceed a x look g] Cons.prems(1) by (auto simp: c)
    then show ?case using Cons.IH [of "wr_watcher r"] Cons.prems(1) by (auto simp: c)
  qed simp
  then show ?thesis using that by blast
qed

definition held_of :: "watcher \<Rightarrow> string \<Rightarrow> (string \<times> iface list) option" where
  "held_of w inc = (case (map_of (wt_instances w) inc, map_of (wt_ips w) inc) of (Some s, Some ifs) \<Rightarrow> Some (s, ifs) | _ \<Rightarrow> None)"

definition says :: "hook_call \<Rightarrow> (string \<times> (string \<times> iface list) option) option" where
  \<comment> \<open>What a call says of an instance: the addresses it has from now on, or that it has stopped.\<close>
  "says c = (case c of (proceed, a, x, look, g) \<Rightarrow>
     (case x of
        InstanceHook i \<Rightarrow>
          if \<not> proceed \<or> wi_service i = [] \<or> wi_service i = wi_incus i then None
          else if a = ActionStop then Some (wi_incus i, None)
          else if a = ActionStart \<or> a = ActionEnsure \<and> \<not> wi_created i \<and> wi_running i
          then (case wi_ips i of Inl e \<Rightarrow> None | Inr ifs \<Rightarrow> Some (wi_incus i, Some (wi_service i, ifs)))
          else None
      | _ \<Rightarrow> None))"

definition said :: "hook_call list \<Rightarrow> string \<Rightarrow> (string \<times> iface list) option" where
  \<comment> \<open>The instances that run, as the last call that spoke of each has it.\<close>
  "said calls = fold (\<lambda>c m. case says c of None \<Rightarrow> m | Some (inc, v) \<Rightarrow> m(inc := v)) calls Map.empty"

lemma held_of_hold: "held_of (hold i ifs w) = (held_of w)(wi_incus i := Some (wi_service i, ifs))"
  by (rule ext) (simp add: held_of_def hold_def update_conv')

lemma held_of_unhold: "held_of (unhold i w) = (held_of w)(wi_incus i := None)"
  by (rule ext) (simp add: held_of_def unhold_def delete_conv')

lemma held_of_other [simp]:
  "held_of (w\<lparr>wt_owned := os\<rparr>) = held_of w" "held_of (w\<lparr>wt_networks := ns\<rparr>) = held_of w"
  by (simp_all add: held_of_def fun_eq_iff)

lemma held_of_note:
  assumes "note_instance a i needIPs w = Inr (changed, w2)"
  shows "held_of w2 =
    (if needIPs \<and> a = ActionStop then (held_of w)(wi_incus i := None)
     else if needIPs \<and> (a = ActionStart \<or> a = ActionEnsure \<and> \<not> wi_created i \<and> wi_running i)
     then (case wi_ips i of Inl e \<Rightarrow> held_of w | Inr ifs \<Rightarrow> (held_of w)(wi_incus i := Some (wi_service i, ifs)))
     else held_of w)"
  using assms by (auto simp: note_instance_def held_of_hold held_of_unhold split: if_splits sum.splits)

lemma held_of_watch:
  assumes "watch look g proceed a x w = Some r"
  shows "held_of (wr_watcher r) = (case says (proceed, a, x, look, g) of None \<Rightarrow> held_of w | Some (inc, v) \<Rightarrow> (held_of w)(inc := v))"
proof (cases "\<exists>i. x = InstanceHook i \<and> proceed \<and> wi_service i \<noteq> []")
  case False
  then show ?thesis using assms
    by (cases x) (auto simp: watch_def watch_network_def watch_instance_def says_def quiet_def Let_def split: if_splits)
next
  case True
  then obtain i where x: "x = InstanceHook i" "proceed" "wi_service i \<noteq> []" by blast
  let ?need = "wi_service i \<noteq> wi_incus i"
  let ?w1 = "if ?need then w\<lparr>wt_owned := List.insert (wi_service i) (wt_owned w)\<rparr> else w"
  show ?thesis
  proof (cases "note_instance a i ?need ?w1")
    case (Inl e)
    then have "says (proceed, a, x, look, g) = None"
      by (auto simp: says_def x note_instance_def split: if_splits sum.splits)
    then show ?thesis using assms Inl by (auto simp: watch_def x watch_instance_def quiet_def Let_def split: if_splits)
  next
    case (Inr p)
    obtain changed w2 where p: "p = (changed, w2)" by fastforce
    have "held_of (wr_watcher r) = held_of w2 \<or> \<not> ?need \<and> held_of (wr_watcher r) = held_of w"
      using assms Inr by (auto simp: watch_def x watch_instance_def quiet_def p Let_def split: if_splits)
    then show ?thesis using held_of_note [OF Inr [unfolded p]]
      by (auto simp: says_def x split: sum.splits)
  qed
qed

lemma held_of_all: "watch_all calls w = Some (w', us) \<Longrightarrow> held_of w' = fold (\<lambda>c m. case says c of None \<Rightarrow> m | Some (inc, v) \<Rightarrow> m(inc := v)) calls (held_of w)"
proof (induction calls arbitrary: w us)
  case (Cons c calls)
  obtain proceed a x look g where c: "c = (proceed, a, x, look, g)" by (cases c)
  obtain r us1 where r: "watch look g proceed a x w = Some r" "watch_all calls (wr_watcher r) = Some (w', us1)"
    using Cons.prems by (auto simp: c split: option.splits)
  then show ?case using Cons.IH [OF r(2)] held_of_watch [OF r(1)] by (simp add: c)
qed simp

definition watches :: "hook_call \<Rightarrow> string option" where
  \<comment> \<open>The network a call gives to the hook to look after.\<close>
  "watches c = (case c of (proceed, a, x, look, g) \<Rightarrow>
     (case x of
        NetworkHook net \<Rightarrow>
          if proceed \<and> a = ActionEnsure \<and> wn_type (look net) = ''bridge'' \<and>
             (case wn_fetched (look net) of None \<Rightarrow> True | Some (typ, m) \<Rightarrow> typ \<noteq> ''ovn'' \<and> m)
          then Some net else None
      | _ \<Rightarrow> None))"

definition serves :: "hook_call \<Rightarrow> string option" where
  \<comment> \<open>The service whose name a call makes the run's own.\<close>
  "serves c = (case c of (proceed, a, x, look, g) \<Rightarrow>
     (case x of
        InstanceHook i \<Rightarrow> if proceed \<and> wi_service i \<noteq> [] \<and> wi_service i \<noteq> wi_incus i then Some (wi_service i) else None
      | _ \<Rightarrow> None))"

lemma seen_of_watch:
  assumes "watch look g proceed a x w = Some r"
  shows "set (wt_networks (wr_watcher r)) = set (wt_networks w) \<union> set_option (watches (proceed, a, x, look, g)) \<and>
    set (wt_owned (wr_watcher r)) = set (wt_owned w) \<union> set_option (serves (proceed, a, x, look, g))"
proof (cases x)
  case (InstanceHook i)
  have "wt_networks w2 = wt_networks w1 \<and> wt_owned w2 = wt_owned w1" if "note_instance a i b w1 = Inr (c, w2)" for b c w1 w2
    using that by (auto simp: note_instance_def hold_def unhold_def split: if_splits sum.splits)
  then show ?thesis using assms
    by (auto simp: InstanceHook watch_def watch_instance_def watches_def serves_def quiet_def Let_def split: if_splits sum.splits prod.splits)
qed (use assms in \<open>auto simp: watch_def watch_network_def watches_def serves_def quiet_def split: if_splits option.splits\<close>)

lemma seen_of_all:
  "watch_all calls w = Some (w', us) \<Longrightarrow>
   set (wt_networks w') = set (wt_networks w) \<union> set (List.map_filter watches calls) \<and>
   set (wt_owned w') = set (wt_owned w) \<union> set (List.map_filter serves calls)"
proof (induction calls arbitrary: w us)
  case (Cons c calls)
  obtain proceed a x look g where c: "c = (proceed, a, x, look, g)" by (cases c)
  obtain r us1 where r: "watch look g proceed a x w = Some r" "watch_all calls (wr_watcher r) = Some (w', us1)"
    using Cons.prems by (auto simp: c split: option.splits)
  then show ?case using Cons.IH [OF r(2)] seen_of_watch [OF r(1)]
    by (auto simp: c List.map_filter_simps split: option.splits)
qed (simp add: List.map_filter_simps)

lemma updates_when_it_says:
  assumes "watch look g proceed a x w = Some r" "says (proceed, a, x, look, g) \<noteq> None" "permutes_ranges g" "watcher_ok (wr_watcher r)"
  shows "mset (map fst (wr_updates r)) = mset (filter (takes_names look) (wt_networks (wr_watcher r)))"
proof -
  obtain i where i: "x = InstanceHook i" "proceed" "wi_service i \<noteq> []" "wi_service i \<noteq> wi_incus i"
    using assms(2) by (auto simp: says_def split: subject.splits if_splits)
  let ?w1 = "w\<lparr>wt_owned := List.insert (wi_service i) (wt_owned w)\<rparr>"
  obtain w2 where n: "note_instance a i True ?w1 = Inr (True, w2)"
    using assms(2) i by (auto simp: says_def note_instance_def split: if_splits sum.splits)
  have r: "map_option (\<lambda>us. \<lparr>wr_error = None, wr_watcher = w2, wr_updates = us\<rparr>) (net_updates look g w2 (rg_nets g (wt_networks w2))) = Some r"
    using assms(1) i n by (simp add: watch_def watch_instance_def)
  then have w2: "wr_watcher r = w2" by auto
  obtain us where "net_updates look g w2 (rg_nets g (wt_networks w2)) = Some us" "map fst us = filter (takes_names look) (rg_nets g (wt_networks w2))"
    using net_updates_held [of w2 g look "rg_nets g (wt_networks w2)"] assms(3,4) w2 by blast
  moreover have "mset (filter P (rg_nets g (wt_networks w2))) = mset (filter P (wt_networks w2))" for P
    using assms(3) by (simp add: permutes_ranges_def)
  ultimately show ?thesis using r w2 by (auto simp del: mset_map mset_filter)
qed

text \<open>
  C8.  The names follow the instances.  Whatever actions a run makes, in whatever order, and in whatever
  order each call ranges over its maps: a call that says an instance runs, or that it stopped, asks for one update of each
  network the run gave to the hook that is a bridge, and for no other.  An update leaves every service the run has
  touched with the addresses of its instances that are held on that network, in some order, beside those
  the user's own value gives it, and no others.  The instances held are those the last call that
  spoke of them has as running, with the addresses they had then; and the hook never looks for an
  instance that is not there.
\<close>
theorem names_follow_the_instances:
  assumes "list_all good_call (calls @ [(proceed, a, x, look, g)])"
    and "list_all cname_ok mine" "distinct (map fst mine)"
    and "mset (ranged (dm_cnames (DNSmasqParse raw))) = mset (dm_cnames (DNSmasqParse raw))"
  shows "let all = calls @ [(proceed, a, x, look, g)] in
    \<exists>w us r. watch_all calls new_watcher = Some (w, us) \<and> watch look g proceed a x w = Some r \<and>
    held_of (wr_watcher r) = said all \<and>
    (says (proceed, a, x, look, g) \<noteq> None \<longrightarrow> distinct (map fst (wr_updates r)) \<and>
       set (map fst (wr_updates r)) = set (filter (takes_names look) (List.map_filter watches all))) \<and>
    (\<forall>(net, owned, services) \<in> set (wr_updates r). \<forall>s \<in> set (List.map_filter serves all).
       mset (values_of (dm_addresses (DNSmasqParse (new_raw owned services mine userRaw ranged raw))) s) =
         mset (held_addresses net (wr_watcher r) s) + mset (values_of (dm_addresses (user_records userRaw)) s))"
proof -
  let ?c = "(proceed, a, x, look, g)"
  obtain w us where w: "watch_all calls new_watcher = Some (w, us)" "watcher_ok w"
    using assms(1) watcher_ok_new by (auto intro: watch_all_ok)
  obtain r where r: "watch look g proceed a x w = Some r" "watcher_ok (wr_watcher r)" "updates_ok (wr_watcher r) (wr_updates r)"
    using watch_step [OF w(2), of proceed a x look g] assms(1) by auto
  have "held_of new_watcher = Map.empty" by (simp add: held_of_def new_watcher_def fun_eq_iff)
  then have h: "held_of (wr_watcher r) = said (calls @ [?c])"
    using held_of_watch [OF r(1)] held_of_all [OF w(1)] by (simp add: said_def split: option.split)
  have seen: "set (wt_networks (wr_watcher r)) = set (List.map_filter watches (calls @ [?c]))"
    "set (wt_owned (wr_watcher r)) = set (List.map_filter serves (calls @ [?c]))"
    using seen_of_watch [OF r(1)] seen_of_all [OF w(1)]
    by (auto simp: new_watcher_def List.map_filter_def split: option.splits)
  have nets: "distinct (map fst (wr_updates r)) \<and> set (map fst (wr_updates r)) = set (filter (takes_names look) (List.map_filter watches (calls @ [?c])))"
    if "says ?c \<noteq> None"
  proof -
    have m: "mset (map fst (wr_updates r)) = mset (filter (takes_names look) (wt_networks (wr_watcher r)))"
      using updates_when_it_says [OF r(1) that _ r(2)] assms(1) by (simp add: good_call_def)
    have "distinct (filter (takes_names look) (wt_networks (wr_watcher r)))" using r(2) by (simp add: watcher_ok_def)
    then show ?thesis using mset_eq_setD [OF m] mset_eq_imp_distinct_iff [OF m] seen(1) by simp
  qed
  have "mset (values_of (dm_addresses (DNSmasqParse (new_raw owned services mine userRaw ranged raw))) s) =
      mset (held_addresses net (wr_watcher r) s) + mset (values_of (dm_addresses (user_records userRaw)) s)"
    if m: "(net, owned, services) \<in> set (wr_updates r)" and s: "s \<in> set (wt_owned (wr_watcher r))" for net owned services s
  proof -
    have u: "owned = wt_owned (wr_watcher r)" "list_all address_ok services" "distinct (map fst services)"
      "mset (values_of services s) = mset (held_addresses net (wr_watcher r) s)" using r(3) m by (auto simp: updates_ok_def)
    show ?thesis unfolding update_read_back(1) [where ranged = ranged and raw = raw, OF u(2,3) assms(2-4)]
      using s u(1,4) values_absent [of s services] by (auto simp: merged_values_def)
  qed
  then show ?thesis using w(1) r(1) h nets seen(2) unfolding Let_def by blast
qed

definition demo_net :: "string \<Rightarrow> watched_net" where
  "demo_net n = \<lparr>wn_type = ''bridge'', wn_fetched = Some (''bridge'', True), wn_cnames = []\<rparr>"

definition demo_inst :: "string \<Rightarrow> string \<Rightarrow> watched_inst" where
  "demo_inst n ip = \<lparr>wi_incus = n, wi_service = ''web'', wi_created = False, wi_running = False,
     wi_ips = Inr [\<lparr>if_network = ''br'', if_v4 = [ip], if_v6 = []\<rparr>]\<rparr>"

definition demo_ranges :: ranges where
  "demo_ranges = \<lparr>rg_nets = rev, rg_ips = \<lambda>net. rev\<rparr>"

definition demo_calls :: "hook_call list" where
  "demo_calls = [(True, ActionEnsure, NetworkHook ''br'', demo_net, demo_ranges),
     (True, ActionStart, InstanceHook (demo_inst ''web-1'' ''10.0.0.2''), demo_net, demo_ranges),
     (True, ActionStart, InstanceHook (demo_inst ''web-2'' ''10.0.0.3''), demo_net, demo_ranges)]"

lemma names_follow_the_instances_witness:
  "\<exists>w us r owned services. watch_all demo_calls new_watcher = Some (w, us) \<and>
    watch demo_net demo_ranges True ActionStop (InstanceHook (demo_inst ''web-1'' ''10.0.0.2'')) w = Some r \<and>
    (''br'', owned, services) \<in> set (wr_updates r) \<and>
    mset (values_of (dm_addresses (DNSmasqParse (new_raw owned services [] (Some ''address=/web/10.0.0.9'') (\<lambda>m. m) ''address=/web/10.0.0.2''))) ''web'') =
      {#''10.0.0.3'', ''10.0.0.9''#}"
proof -
  let ?c = "(True, ActionStop, InstanceHook (demo_inst ''web-1'' ''10.0.0.2''), demo_net, demo_ranges)"
  have g: "list_all good_call (demo_calls @ [?c])"
    by (simp add: demo_calls_def demo_ranges_def permutes_ranges_def good_call_def demo_inst_def good_ifaces_def good_service_def good_value_def NL_def is_space_def code_def)
  have nets: "List.map_filter watches (demo_calls @ [?c]) = [''br'']"
    by (simp add: demo_calls_def watches_def demo_net_def List.map_filter_def)
  have srv: "''web'' \<in> set (List.map_filter serves (demo_calls @ [?c]))"
    by (simp add: demo_calls_def serves_def demo_inst_def List.map_filter_def)
  have br: "takes_names demo_net ''br''" and sy: "says ?c \<noteq> None" by (simp_all add: takes_names_def demo_net_def says_def demo_inst_def)
  have none: "list_all cname_ok []" "distinct (map fst ([] :: records))" by simp_all
  obtain w us r where r: "watch_all demo_calls new_watcher = Some (w, us)"
    "watch demo_net demo_ranges True ActionStop (InstanceHook (demo_inst ''web-1'' ''10.0.0.2'')) w = Some r"
    "says ?c \<noteq> None \<longrightarrow> distinct (map fst (wr_updates r)) \<and> set (map fst (wr_updates r)) = set (filter (takes_names demo_net) [''br''])"
    "\<forall>(net, owned, services) \<in> set (wr_updates r). \<forall>s \<in> set (List.map_filter serves (demo_calls @ [?c])).
       mset (values_of (dm_addresses (DNSmasqParse (new_raw owned services [] (Some ''address=/web/10.0.0.9'') (\<lambda>m. m) ''address=/web/10.0.0.2''))) s) =
         mset (held_addresses net (wr_watcher r) s) + mset (values_of (dm_addresses (user_records (Some ''address=/web/10.0.0.9''))) s)"
    using names_follow_the_instances [where ranged = "\<lambda>m. m" and raw = "''address=/web/10.0.0.2''" and userRaw = "Some ''address=/web/10.0.0.9''",
        OF g none refl, unfolded Let_def nets] by (elim exE conjE) (rule that)
  have "''br'' \<in> set (map fst (wr_updates r))" using mp [OF r(3) sy] br by simp
  then obtain up where up: "up \<in> set (wr_updates r)" "fst up = ''br''" unfolding set_map by (elim imageE) (rule that, assumption, rule sym)
  obtain n owned services where "up = (n, owned, services)" by (rule prod_cases3)
  then have u: "(''br'', owned, services) \<in> set (wr_updates r)" using up by simp
  have w: "w = \<lparr>wt_networks = [''br''], wt_instances = [(''web-1'', ''web''), (''web-2'', ''web'')],
      wt_ips = [(''web-1'', [\<lparr>if_network = ''br'', if_v4 = [''10.0.0.2''], if_v6 = []\<rparr>]),
        (''web-2'', [\<lparr>if_network = ''br'', if_v4 = [''10.0.0.3''], if_v6 = []\<rparr>])], wt_owned = [''web'']\<rparr>"
    using r(1) by (simp add: demo_calls_def demo_ranges_def watch_def watch_network_def demo_net_def demo_inst_def quiet_def watch_instance_def
        note_instance_def hold_def new_watcher_def iface_ips_def List.insert_def values_of_def)
  have h: "held_addresses ''br'' (wr_watcher r) ''web'' = [''10.0.0.3'']"
    using r(2) by (auto simp: w watch_def demo_net_def demo_ranges_def demo_inst_def watch_instance_def
        note_instance_def unhold_def iface_ips_def List.insert_def values_of_def held_addresses_def)
  have v: "values_of (dm_addresses (user_records (Some ''address=/web/10.0.0.9''))) ''web'' = [''10.0.0.9'']" by code_simp
  have "mset (values_of (dm_addresses (DNSmasqParse (new_raw owned services [] (Some ''address=/web/10.0.0.9'') (\<lambda>m. m) ''address=/web/10.0.0.2''))) ''web'') =
      {#''10.0.0.3'', ''10.0.0.9''#}"
    using bspec [OF r(4) u] srv h v by simp
  then show ?thesis using r(1,2) u by blast
qed

end
