(* ===== verification/Networks.thy ===== *)
theory Networks
  imports NetworkAcl Instances Dnsmasq
begin

text \<open>
  A network of the client (\<open>client/resource_network.go\<close>, \<open>client/resource_network_acl.go\<close>): its names,
  the configuration it is created with, the addresses handed out on it, and the access lists attached
  to it; with the address of the name server on it (\<open>cmd/incus-compose/dns.go\<close>).  Sums of addresses are
  made at their width.
\<close>

subsection \<open>Names\<close>

definition maxInterfaceNameLen :: nat where "maxInterfaceNameLen = 13"
definition networkNameHashLen :: nat where "networkNameHashLen = 10"

definition dashed :: "string \<Rightarrow> string" where "dashed s = map (\<lambda>c. if c = CHR ''_'' then CHR ''-'' else c) s"

definition shortNetworkName :: "(string \<Rightarrow> string) \<Rightarrow> string \<Rightarrow> string \<Rightarrow> string" where
  \<comment> \<open>\<open>digest\<close>: the SHA-256 of a text in lower-case base 32.\<close>
  "shortNetworkName digest prefix1 full = prefix1 @ take networkNameHashLen (digest full)"

definition SanitizeNetworkName :: "(string \<Rightarrow> string) \<Rightarrow> string \<Rightarrow> string \<Rightarrow> string \<Rightarrow> string" where
  "SanitizeNetworkName digest projectName prefix1 networkName =
     (let full = dashed (if projectName \<noteq> [] then projectName @ ''-'' @ networkName else networkName)
      in if length full \<le> maxInterfaceNameLen then full else shortNetworkName digest prefix1 full)"

record net_names =
  nn_project :: string
  nn_prefix :: string
  nn_compose :: string
  nn_override :: string
  nn_external :: bool

definition first_name :: "(string \<Rightarrow> string) \<Rightarrow> net_names \<Rightarrow> string" where
  \<comment> \<open>The name \<open>newNetwork\<close> gives.\<close>
  "first_name digest n =
     (if \<not> nn_external n then
        (if nn_override n = [] then SanitizeNetworkName digest (nn_project n) (nn_prefix n) (nn_compose n)
         else SanitizeNetworkName digest [] (nn_prefix n) (nn_override n))
      else if nn_override n \<noteq> [] then nn_override n else nn_compose n)"

definition add_name :: "string \<Rightarrow> string list \<Rightarrow> string list" where
  "add_name s out = (if s \<noteq> [] \<and> s \<notin> set out then out @ [s] else out)"

definition candidateNames :: "(string \<Rightarrow> string) \<Rightarrow> net_names \<Rightarrow> string list" where
  "candidateNames digest n =
     (let sanitized = SanitizeNetworkName digest (nn_project n) (nn_prefix n);
          o1 = (if nn_override n \<noteq> [] then add_name (sanitized (nn_override n)) (add_name (nn_override n) []) else [])
      in add_name (sanitized (nn_compose n)) (add_name (nn_compose n) o1))"

definition network_type :: "bool \<Rightarrow> string \<Rightarrow> string" where
  \<comment> \<open>\<open>features\<close>: the project has networks of its own.\<close>
  "network_type features typ = (if typ = [] \<or> typ = ''auto'' then (if features then ''ovn'' else ''bridge'') else typ)"

definition incusProject :: "bool \<Rightarrow> string \<Rightarrow> string" where
  "incusProject features project = (if features then project else ''default'')"

subsection \<open>Addresses\<close>

fun As16 :: "addr \<Rightarrow> 128 word" where
  "As16 (A4 w) = push_bit 32 0xffff OR ucast w"
| "As16 (A6 w z) = w"

definition addOffset :: "addr \<Rightarrow> 64 word \<Rightarrow> addr" where
  \<comment> \<open>Only the lower eight bytes are added to.\<close>
  "addOffset a offset =
     (let b = As16 a; v = (ucast b :: 64 word) + offset;
          result = A6 (push_bit 64 (drop_bit 64 b) OR ucast v) []
      in if Is4 a then Unmap result else result)"

datatype range_error = BadCIDR | TooSmall | NotIPv4

definition ipv4_range :: "prefix \<Rightarrow> range_error + addr \<times> addr" where
  "ipv4_range p0 =
     (let p = Masked p0 in
      if 30 < px_bits p then Inl TooSmall
      else (let hostBits = 32 - px_bits p;
                staticEnd = push_bit (hostBits - 2) (1 :: 64 word);
                lastUsable = push_bit hostBits (1 :: 64 word) - 2
            in Inr (addOffset (px_addr p) staticEnd, addOffset (px_addr p) lastUsable)))"

definition range_text :: "addr \<times> addr \<Rightarrow> string" where
  "range_text r = addr_String (fst r) @ ''-'' @ addr_String (snd r)"

definition CalcIPv4DHCPRange :: "string \<Rightarrow> range_error + string" where
  "CalcIPv4DHCPRange cidr =
     (case ParsePrefix cidr of None \<Rightarrow> Inl BadCIDR | Some p \<Rightarrow> map_sum id range_text (ipv4_range p))"

definition ipv6_range :: "prefix \<Rightarrow> addr \<times> addr" where
  "ipv6_range p0 = (let p = Masked p0 in (addOffset (px_addr p) 0x100, addOffset (px_addr p) 0xffff))"

definition CalcIPv6DHCPRange :: "string \<Rightarrow> range_error + string" where
  "CalcIPv6DHCPRange cidr = (case ParsePrefix cidr of None \<Rightarrow> Inl BadCIDR | Some p \<Rightarrow> Inr (range_text (ipv6_range p)))"

fun addIPv4Offset :: "addr \<Rightarrow> 64 word \<Rightarrow> addr option" where
  \<comment> \<open>\<open>As4\<close> panics on an address that is not mapped.\<close>
  "addIPv4Offset (A4 w) offset = Some (A4 (w + ucast offset))"
| "addIPv4Offset (A6 w z) offset = (if mapped w then Some (A4 (ucast w + ucast offset)) else None)"

fun Next :: "addr \<Rightarrow> addr option" where
  \<comment> \<open>No address after the last one.\<close>
  "Next (A4 w) = (if w = -1 then None else Some (A4 (w + 1)))"
| "Next (A6 w z) = (if w = -1 then None else Some (A6 (w + 1) z))"

definition dns_address :: "prefix \<Rightarrow> range_error + addr \<times> addr option" where
  \<comment> \<open>The address of the name server and the gateway.\<close>
  "dns_address p =
     (case px_addr p of
        A6 w z \<Rightarrow> Inl NotIPv4
      | A4 w \<Rightarrow>
          if 26 < px_bits p then Inl TooSmall
          else (case addIPv4Offset (px_addr (Masked p)) 53 of
                  None \<Rightarrow> Inl NotIPv4
                | Some a \<Rightarrow> Inr (a, if px_addr p = px_addr (Masked p) then Next (px_addr p) else Some (px_addr p))))"

definition calcIPv4DNSAddress :: "string \<Rightarrow> range_error + string \<times> string" where
  "calcIPv4DNSAddress cidr =
     (case ParsePrefix cidr of
        None \<Rightarrow> Inl BadCIDR
      | Some p \<Rightarrow>
          map_sum id (\<lambda>(a, gw). (addr_String a @ ''/'' @ show_dec (px_bits p),
                                 case gw of None \<Rightarrow> ''invalid IP'' | Some g \<Rightarrow> addr_String g)) (dns_address p))"

subsection \<open>The configuration\<close>

definition wants_range :: "cfg \<Rightarrow> string \<Rightarrow> string \<Rightarrow> bool" where
  "wants_range config address ranges \<longleftrightarrow>
     cfg_get config address \<noteq> [] \<and> cfg_get config address \<noteq> ''none'' \<and> cfg_get config address \<noteq> ''auto'' \<and> cfg_get config ranges = []"

definition networkCreateConfig :: "cfg \<Rightarrow> range_error + cfg" where
  "networkCreateConfig extensions =
     (if extensions = [] then Inr []
      else
        (case (if wants_range extensions ''ipv4.address'' ''ipv4.dhcp.ranges''
               then map_sum id (\<lambda>r. AList.update ''ipv4.dhcp.ranges'' r extensions) (CalcIPv4DHCPRange (cfg_get extensions ''ipv4.address''))
               else Inr extensions) of
           Inl e \<Rightarrow> Inl e
         | Inr c4 \<Rightarrow>
             if wants_range c4 ''ipv6.address'' ''ipv6.dhcp.ranges''
             then map_sum id (\<lambda>r.
                    let c6 = AList.update ''ipv6.dhcp.ranges'' r c4
                    in if cfg_get c6 ''ipv6.dhcp.stateful'' = [] then AList.update ''ipv6.dhcp.stateful'' ''true'' c6 else c6)
                  (CalcIPv6DHCPRange (cfg_get c4 ''ipv6.address''))
             else Inr c4))"

definition isNodeSpecificNetworkConfig :: "string \<Rightarrow> string \<Rightarrow> bool" where
  "isNodeSpecificNetworkConfig netType key \<longleftrightarrow>
     key \<in> {''bgp.ipv4.nexthop'', ''bgp.ipv6.nexthop'', ''bridge.external_interfaces''} \<or> key = ''parent'' \<and> netType \<noteq> ''ovn''"

definition node_config :: "string \<Rightarrow> cfg \<Rightarrow> cfg" where
  "node_config netType c = filter (\<lambda>(k, v). isNodeSpecificNetworkConfig netType k) c"

definition global_config :: "string \<Rightarrow> cfg \<Rightarrow> cfg" where
  "global_config netType c = filter (\<lambda>(k, v). \<not> isNodeSpecificNetworkConfig netType k) c"

record net_info =
  ni_name :: string
  ni_type :: string
  ni_managed :: bool
  ni_created :: bool         \<comment> \<open>its status is created\<close>
  ni_config :: cfg

definition uplinks :: "net_info list \<Rightarrow> string list" where
  \<comment> \<open>The networks an OVN network can be put on.\<close>
  "uplinks nets =
     map ni_name (filter (\<lambda>n. (ni_type n = ''bridge'' \<or> ni_type n = ''physical'') \<and>
        (cfg_get (ni_config n) ''ipv4.ovn.ranges'' \<noteq> [] \<or> cfg_get (ni_config n) ''ipv6.ovn.ranges'' \<noteq> [])) nets)"


subsection \<open>Sums of addresses\<close>

lemma or_low:
  assumes "(c :: nat) < 2 ^ n"
  shows "push_bit n a OR c = a * 2 ^ n + c"
proof -
  have c: "take_bit n c = c" using assms by (simp add: take_bit_nat_eq_self)
  have "push_bit n a AND take_bit n c = 0"
    by (rule bit_eqI) (auto simp: bit_simps)
  then have "push_bit n a + c = push_bit n a OR c" unfolding c by (rule disjunctive_add_eq_or)
  then show ?thesis by (simp add: push_bit_eq_mult)
qed

lemma unat_bound: "unat (w :: 'a::len word) < 2 ^ LENGTH('a)" by (rule unsigned_less)

lemma unat_As16: "unat (As16 (A4 w)) = 0xffff * 2 ^ 32 + unat w"
proof -
  have u: "unat (ucast w :: 128 word) = unat w" using unat_bound [of w] by (simp add: unsigned_ucast_eq take_bit_nat_eq_self)
  have "unat (push_bit 32 0xffff :: 128 word) = push_bit 32 (0xffff :: nat)" by (simp add: push_bit_eq_mult)
  then show ?thesis using or_low [of "unat w" 32 "0xffff"] unat_bound [of w] by (simp add: unsigned_or_eq u)
qed

lemma unat_sum:
  fixes b :: "128 word" and v :: "64 word"
  shows "unat (push_bit 64 (drop_bit 64 b) OR ucast v) = unat b div 2 ^ 64 * 2 ^ 64 + unat v"
proof -
  have u: "unat (ucast v :: 128 word) = unat v" using unat_bound [of v] by (simp add: unsigned_ucast_eq take_bit_nat_eq_self)
  have lt: "push_bit 64 (drop_bit 64 (unat b)) < 2 ^ 128"
    using unat_bound [of b] by (simp add: push_bit_eq_mult drop_bit_eq_div)
  have "unat (push_bit 64 (drop_bit 64 b)) = push_bit 64 (drop_bit 64 (unat b))"
    using lt by (simp add: unsigned_push_bit_eq unat_drop_bit_eq take_bit_nat_eq_self)
  then show ?thesis using or_low [of "unat v" 64 "drop_bit 64 (unat b)"] unat_bound [of v] by (simp add: unsigned_or_eq u drop_bit_eq_div)
qed


lemma addOffset_v4:
  assumes "unat w + unat off < 2 ^ 32"
  shows "\<exists>x. addOffset (A4 w) off = A4 x \<and> unat x = unat w + unat off"
proof -
  let ?b = "As16 (A4 w)" and ?v = "ucast (As16 (A4 w)) + off :: 64 word"
  have b: "unat ?b = 0xffff * 2 ^ 32 + unat w" by (rule unat_As16)
  have "unat (ucast ?b :: 64 word) = unat ?b mod 2 ^ 64" by (simp add: unsigned_ucast_eq take_bit_eq_mod del: As16.simps)
  then have "unat (ucast ?b :: 64 word) = unat ?b" using assms by (simp add: b del: As16.simps)
  then have v: "unat ?v = unat ?b + unat off" using assms b by (subst unat_add_lem [THEN iffD1]) simp_all
  define x where "x = (push_bit 64 (drop_bit 64 ?b) OR ucast ?v :: 128 word)"
  have r: "unat x = 0xffff * 2 ^ 32 + (unat w + unat off)"
    unfolding x_def unat_sum v b using assms by simp
  have d: "unat (drop_bit 32 x) = drop_bit 32 (unat x)" by (rule unat_drop_bit_eq)
  have "unat (drop_bit 32 x) = unat (0xffff :: 128 word)" by (subst d, subst r) (use assms in \<open>simp add: drop_bit_eq_div\<close>)
  then have "mapped x" unfolding mapped_def by (simp only: word_unat_eq_iff)
  moreover have "unat (ucast x :: 32 word) = unat w + unat off"
  proof -
    have "unat (ucast x :: 32 word) = (0xffff * 2 ^ 32 + (unat w + unat off)) mod 2 ^ 32"
      by (simp add: unsigned_ucast_eq take_bit_eq_mod r)
    also have "\<dots> = (unat w + unat off) mod 2 ^ 32" by (rule mod_mult_self3)
    finally show ?thesis using assms by simp
  qed
  ultimately show ?thesis unfolding addOffset_def Let_def x_def [symmetric] by simp
qed

lemma addOffset_v6:
  assumes "addOffset (A6 w z) off = y"
  shows "\<exists>x. y = A6 x [] \<and> unat x = unat w div 2 ^ 64 * 2 ^ 64 + (unat w + unat off) mod 2 ^ 64"
proof -
  have "unat (ucast w + off :: 64 word) = (unat w + unat off) mod 2 ^ 64"
    by (simp add: unat_word_ariths unsigned_ucast_eq take_bit_eq_mod mod_simps)
  then show ?thesis using assms unat_sum [of w "ucast w + off"] by (auto simp: addOffset_def Let_def)
qed


lemma unat_masked: "unat (push_bit h (drop_bit h (w :: 'a::len word))) = unat w div 2 ^ h * 2 ^ h"
proof -
  have lt: "push_bit h (drop_bit h (unat w)) < 2 ^ LENGTH('a)"
    unfolding push_bit_eq_mult drop_bit_eq_div by (rule le_less_trans [OF div_times_less_eq_dividend unat_bound])
  have "unat (push_bit h (drop_bit h w)) = push_bit h (drop_bit h (unat w))"
    using lt by (simp only: unsigned_push_bit_eq unat_drop_bit_eq take_bit_nat_eq_self)
  then show ?thesis by (simp add: push_bit_eq_mult drop_bit_eq_div)
qed

lemma same_block: "drop_bit h (x :: 'a::len word) = drop_bit h y \<longleftrightarrow> unat x div 2 ^ h = unat y div 2 ^ h"
proof -
  have "drop_bit h x = drop_bit h y \<longleftrightarrow> drop_bit h (unat x) = drop_bit h (unat y)"
    by (simp only: word_unat_eq_iff unat_drop_bit_eq)
  then show ?thesis by (simp add: drop_bit_eq_div)
qed

lemma ipv4_range_values:
  assumes "px_addr p = A4 w" "px_bits p \<le> 30"
  shows "\<exists>a b base. ipv4_range p = Inr (A4 a, A4 b) \<and> px_addr (Masked p) = A4 base \<and>
    Contains p (A4 a) \<and> Contains p (A4 b) \<and> unat a = unat base + 2 ^ (32 - px_bits p) div 4 \<and>
    unat b = unat base + 2 ^ (32 - px_bits p) - 2 \<and> unat a \<le> unat b"
proof -
  define h where "h = 32 - px_bits p"
  have h: "2 \<le> h" "h \<le> 32" using assms(2) by (auto simp: h_def)
  obtain k where k: "h = k + 2" using h(1) le_Suc_ex by (metis add.commute)
  let ?m = "push_bit h (drop_bit h w)"
  have base: "px_addr (Masked p) = A4 ?m" by (simp add: Masked_def assms(1) h_def)
  have um: "unat ?m = unat w div 2 ^ h * 2 ^ h" by (rule unat_masked)
  have top: "unat ?m + 2 ^ h \<le> 2 ^ 32"
  proof -
    have "unat w div 2 ^ h < 2 ^ (32 - h)"
      using unat_bound [of w] h(2) by (simp add: less_mult_imp_div_less flip: power_add)
    then have "Suc (unat w div 2 ^ h) * 2 ^ h \<le> 2 ^ (32 - h) * 2 ^ h" by (intro mult_le_mono1) simp
    then show ?thesis using h(2) by (simp add: um flip: power_add)
  qed
  let ?s = "push_bit (h - 2) (1 :: 64 word)" and ?e = "push_bit h (1 :: 64 word) - 2"
  have p64: "unat (push_bit j (1 :: 64 word)) = 2 ^ j" if "j \<le> 32" for j
  proof -
    have "(2 :: nat) ^ j \<le> 2 ^ 32" using that by (intro power_increasing) simp_all
    then have lt: "push_bit j (1 :: nat) < 2 ^ 64" by (simp add: push_bit_eq_mult)
    have "unat (push_bit j (1 :: 64 word)) = push_bit j 1"
      using lt by (simp only: unsigned_push_bit_eq unsigned_1 take_bit_nat_eq_self len_num1 len_bit0 len_bit1) (use that in simp)
    then show ?thesis by (simp add: push_bit_eq_mult)
  qed
  have s: "unat ?s = 2 ^ h div 4" using h p64 [of "h - 2"] by (simp add: k)
  have four: "(4 :: nat) \<le> 2 ^ h" by (simp add: k)
  have e: "unat ?e = 2 ^ h - 2" using h(2) p64 [of h] four by (simp add: unat_sub_if_size word_le_nat_alt)
  have sums: "unat ?m + unat ?s < 2 ^ 32" "unat ?m + unat ?e < 2 ^ 32" unfolding s e using top four by linarith+
  obtain a where a: "addOffset (A4 ?m) ?s = A4 a" "unat a = unat ?m + 2 ^ h div 4"
    using addOffset_v4 [OF sums(1)] unfolding s by blast
  obtain b where b: "addOffset (A4 ?m) ?e = A4 b" "unat b = unat ?m + (2 ^ h - 2)"
    using addOffset_v4 [OF sums(2)] unfolding e by blast
  have r: "ipv4_range p = Inr (A4 a, A4 b)"
    using assms(2) base a(1) b(1) by (simp add: ipv4_range_def Masked_def h_def [symmetric] Let_def)
  have inside: "Contains p (A4 x)" if "unat x = unat ?m + j" "j < 2 ^ h" for x :: "32 word" and j
    using that by (simp add: Contains_def assms(1) h_def [symmetric] same_block um)
  have small: "(2 :: nat) ^ h div 4 < 2 ^ h" "(2 :: nat) ^ h - 2 < 2 ^ h" "(2 :: nat) ^ h div 4 \<le> 2 ^ h - 2" using four by linarith+
  have "Contains p (A4 a)" "Contains p (A4 b)" by (rule inside [OF a(2) small(1)], rule inside [OF b(2) small(2)])
  moreover have "unat a \<le> unat b" unfolding a(2) b(2) using small(3) by simp
  moreover have "unat b = unat ?m + 2 ^ h - 2" unfolding b(2) using four by simp
  ultimately show ?thesis unfolding h_def [symmetric] using r base a(2) by blast
qed

text \<open>
  The addresses a bridge hands out over IPv4 lie in its network: the range starts a quarter into
  the hosts and ends before the last one, so neither the network's nor the broadcast address is in it
  and the first quarter is left for fixed addresses.
\<close>
theorem ipv4_range_is_the_upper_quarters:
  assumes "px_addr p = A4 w" "px_bits p \<le> 30"
  shows "\<exists>a b base. ipv4_range p = Inr (A4 a, A4 b) \<and> px_addr (Masked p) = A4 base \<and>
    Contains p (A4 a) \<and> Contains p (A4 b) \<and> unat a = unat base + 2 ^ (32 - px_bits p) div 4 \<and>
    unat b = unat base + 2 ^ (32 - px_bits p) - 2 \<and> unat a \<le> unat b"
  using assms by (rule ipv4_range_values)

lemma ipv4_range_is_the_upper_quarters_witness:
  "let p = \<lparr>px_addr = A4 0x0a000001, px_bits = 24\<rparr> in
   \<exists>a b. ipv4_range p = Inr (A4 a, A4 b) \<and> Contains p (A4 a) \<and> Contains p (A4 b) \<and> unat b = unat a + 190"
  using ipv4_range_is_the_upper_quarters [of "\<lparr>px_addr = A4 0x0a000001, px_bits = 24\<rparr>" "0x0a000001"] by (auto simp: Let_def)

lemma low_sum:
  fixes m :: nat
  assumes "2 ^ 16 dvd m"
  shows "m div 2 ^ 64 * 2 ^ 64 + (m + 0x100) mod 2 ^ 64 = m + 0x100"
    and "m div 2 ^ 64 * 2 ^ 64 + (m + 0xffff) mod 2 ^ 64 = m + 0xffff"
proof -
  obtain k where m: "m = 2 ^ 16 * k" using assms by (auto simp: dvd_def)
  have r: "m mod 2 ^ 64 = 2 ^ 16 * (k mod 2 ^ 48)" unfolding m by (simp add: mult_mod_right)
  have "m div 2 ^ 64 * 2 ^ 64 + (m + c) mod 2 ^ 64 = m + c" if "c < 2 ^ 16" for c :: nat
  proof -
    have "k mod 2 ^ 48 < 2 ^ 48" by simp
    then have "m mod 2 ^ 64 + c < 2 ^ 64" using that unfolding r by simp
    then have "(m + c) mod 2 ^ 64 = m mod 2 ^ 64 + c" by (subst mod_add_left_eq [symmetric]) (rule mod_less)
    then show ?thesis using div_mult_mod_eq [of m "2 ^ 64"] by simp
  qed
  note sum = this
  show "m div 2 ^ 64 * 2 ^ 64 + (m + 0x100) mod 2 ^ 64 = m + 0x100" by (rule sum) simp
  show "m div 2 ^ 64 * 2 ^ 64 + (m + 0xffff) mod 2 ^ 64 = m + 0xffff" by (rule sum) simp
qed

lemma same_quotient: "x div d = y div d \<Longrightarrow> 0 < d \<Longrightarrow> x < y + (d :: nat)"
  by (metis add.commute add_less_cancel_left dividend_less_div_times div_times_less_eq_dividend not_less order.strict_trans1)

lemma far_sum:
  fixes m :: nat
  defines "b \<equiv> m div 2 ^ 64 * 2 ^ 64 + (m + 0xffff) mod 2 ^ 64"
  shows "m + 2 ^ 15 \<le> b \<or> b + 2 ^ 15 \<le> m"
proof -
  have n: "m mod 2 ^ 64 < 2 ^ 64" by simp
  have m: "m div 2 ^ 64 * 2 ^ 64 + m mod 2 ^ 64 = m" by (rule div_mult_mod_eq)
  have l: "(m + 0xffff) mod 2 ^ 64 = (m mod 2 ^ 64 + 0xffff) mod 2 ^ 64" by (rule mod_add_left_eq [symmetric])
  show ?thesis
  proof (cases "m mod 2 ^ 64 + 0xffff < 2 ^ 64")
    case True
    then have "(m + 0xffff) mod 2 ^ 64 = m mod 2 ^ 64 + 0xffff" unfolding l by (rule mod_less)
    then have "b = m + 0xffff" unfolding b_def using m by linarith
    then show ?thesis by simp
  next
    case False
    then have "(m mod 2 ^ 64 + 0xffff) mod 2 ^ 64 = m mod 2 ^ 64 + 0xffff - 2 ^ 64"
      using n by (subst le_mod_geq) simp_all
    then have "b + 2 ^ 64 = m + 0xffff" unfolding b_def l using m False by linarith
    then show ?thesis by simp
  qed
qed

text \<open>
  Over IPv6 the range is always the same part of sixteen bits of hosts, whatever the length of the
  prefix: it lies in the network exactly if the prefix leaves those, so for a prefix longer than 112
  the addresses handed out are another network's.
\<close>
theorem ipv6_range_needs_sixteen_bits:
  assumes "px_addr p = A6 w z" "px_bits p \<le> 128"
  shows "Contains p (fst (ipv6_range p)) \<and> Contains p (snd (ipv6_range p)) \<longleftrightarrow> px_bits p \<le> 112"
proof -
  define h where "h = 128 - px_bits p"
  have h: "h \<le> 128" by (simp add: h_def)
  let ?m = "push_bit h (drop_bit h w)"
  have um: "unat ?m = unat w div 2 ^ h * 2 ^ h" by (rule unat_masked)
  have base: "px_addr (Masked p) = A6 ?m []" by (simp add: Masked_def assms(1) h_def)
  obtain a where a: "addOffset (A6 ?m []) 0x100 = A6 a []" "unat a = unat ?m div 2 ^ 64 * 2 ^ 64 + (unat ?m + 0x100) mod 2 ^ 64"
    using addOffset_v6 [OF refl, of ?m "[]" "0x100"] by auto
  obtain b where b: "addOffset (A6 ?m []) 0xffff = A6 b []" "unat b = unat ?m div 2 ^ 64 * 2 ^ 64 + (unat ?m + 0xffff) mod 2 ^ 64"
    using addOffset_v6 [OF refl, of ?m "[]" "0xffff"] by auto
  have r: "ipv6_range p = (A6 a [], A6 b [])" by (simp add: ipv6_range_def base a(1) b(1))
  have c: "Contains p (A6 x []) \<longleftrightarrow> unat x div 2 ^ h = unat ?m div 2 ^ h" for x
    by (simp add: Contains_def assms(1) h_def [symmetric] same_block um) auto
  show ?thesis
  proof (cases "px_bits p \<le> 112")
    case True
    then have h16: "16 \<le> h" by (simp add: h_def)
    then have dvd: "2 ^ 16 dvd unat ?m" unfolding um by (intro dvd_mult le_imp_power_dvd)
    have "unat a = unat ?m + 0x100" "unat b = unat ?m + 0xffff" unfolding a(2) b(2) by (simp_all only: low_sum [OF dvd])
    moreover have "(0xffff :: nat) < 2 ^ h" "(0x100 :: nat) < 2 ^ h"
      using power_increasing [OF h16, of "2 :: nat"] by simp_all
    ultimately show ?thesis using True by (simp add: r c um)
  next
    case False
    then have "h \<le> 15" by (simp add: h_def)
    then have d: "(2 :: nat) ^ h \<le> 2 ^ 15" by (intro power_increasing) simp_all
    have "unat b div 2 ^ h \<noteq> unat ?m div 2 ^ h"
    proof
      assume e: "unat b div 2 ^ h = unat ?m div 2 ^ h"
      have "unat b < unat ?m + 2 ^ 15" "unat ?m < unat b + 2 ^ 15"
        using same_quotient [OF e zero_less_power] same_quotient [OF e [symmetric] zero_less_power] d by linarith+
      then show False using far_sum [of "unat ?m"] unfolding b(2) [symmetric] by auto
    qed
    then show ?thesis using False by (simp add: r c)
  qed
qed


lemma ipv6_range_needs_sixteen_bits_witness:
  "\<not> (let p = \<lparr>px_addr = A6 (push_bit 112 0xfd00) [], px_bits = 120\<rparr> in Contains p (fst (ipv6_range p)) \<and> Contains p (snd (ipv6_range p)))"
  using ipv6_range_needs_sixteen_bits [of "\<lparr>px_addr = A6 (push_bit 112 0xfd00) [], px_bits = 120\<rparr>" "push_bit 112 0xfd00" "[]"]
  by (simp add: Let_def)

text \<open>
  The address of the name server is the fifty-third of its network.  It is kept out of the
  addresses handed out only where the prefix is at most 24 long; with 25 or 26, which are accepted, it
  lies in the range \<open>dnsmasq\<close> gives to other instances.
\<close>
theorem dns_address_is_fixed_up_to_24:
  assumes "px_addr p = A4 w" "px_bits p \<le> 26"
  shows "\<exists>x gw a b. dns_address p = Inr (A4 x, gw) \<and> ipv4_range p = Inr (A4 a, A4 b) \<and> Contains p (A4 x) \<and>
    (if px_bits p \<le> 24 then unat x < unat a else unat a \<le> unat x \<and> unat x \<le> unat b)"
proof -
  define h where "h = 32 - px_bits p"
  have h: "6 \<le> h" "h \<le> 32" "px_bits p \<le> 24 \<longleftrightarrow> 8 \<le> h" using assms(2) by (auto simp: h_def)
  have bits: "px_bits p \<le> 30" using assms(2) by simp
  obtain a b base where r: "ipv4_range p = Inr (A4 a, A4 b)" "px_addr (Masked p) = A4 base" "Contains p (A4 a)"
    "unat a = unat base + 2 ^ h div 4" "unat b = unat base + 2 ^ h - 2"
    using ipv4_range_values [OF assms(1) bits] unfolding h_def by blast
  have m: "base = push_bit h (drop_bit h w)" using r(2) by (simp add: Masked_def assms(1) h_def)
  have um: "unat base = unat w div 2 ^ h * 2 ^ h" unfolding m by (rule unat_masked)
  have b64: "(64 :: nat) \<le> 2 ^ h" using power_increasing [OF h(1), of "2 :: nat"] by simp
  have x: "unat (base + 53) = unat base + 53"
  proof -
    have "unat base + 2 ^ h - 2 < 2 ^ 32" using r(5) unat_bound [of b] by simp
    then have "unat base + unat (53 :: 32 word) < 2 ^ LENGTH(32)" using b64 by simp
    then show ?thesis by (subst unat_add_lem [THEN iffD1]) simp_all
  qed
  have d: "\<exists>gw. dns_address p = Inr (A4 (base + 53), gw)"
    using assms r(2) by (simp add: dns_address_def)
  have "Contains p (A4 (base + 53))"
    using b64 by (simp add: Contains_def assms(1) h_def [symmetric] same_block x um)
  moreover have "unat (base + 53) < unat a" if "8 \<le> h"
    using power_increasing [OF that, of "2 :: nat"] by (simp add: x r(4))
  moreover have "unat a \<le> unat (base + 53) \<and> unat (base + 53) \<le> unat b" if "\<not> 8 \<le> h"
  proof -
    have "h = 6 \<or> h = 7" using h(1) that by auto
    then show ?thesis using x by (auto simp: r(4,5))
  qed
  ultimately show ?thesis using d r(1) h(3) by auto
qed

lemma dns_address_is_fixed_up_to_24_witness:
  "let p = \<lparr>px_addr = A4 0x0a000001, px_bits = 25\<rparr> in
   \<exists>x gw a b. dns_address p = Inr (A4 x, gw) \<and> ipv4_range p = Inr (A4 a, A4 b) \<and> unat a \<le> unat x \<and> unat x \<le> unat b"
  using dns_address_is_fixed_up_to_24 [of "\<lparr>px_addr = A4 0x0a000001, px_bits = 25\<rparr>" "0x0a000001"] by (auto simp: Let_def)

subsection \<open>What a network is created with\<close>

definition filled_keys :: "string set" where
  "filled_keys = {''ipv4.dhcp.ranges'', ''ipv6.dhcp.ranges'', ''ipv6.dhcp.stateful''}"

lemma cfg_get_update: "cfg_get (AList.update k v m) x = (if x = k then v else cfg_get m x)"
  by (simp add: cfg_get_def update_conv')

definition grows_to :: "cfg \<Rightarrow> cfg \<Rightarrow> bool" where
  \<comment> \<open>Only keys that were empty are filled, and only those.\<close>
  "grows_to m m' \<longleftrightarrow> (\<forall>k. cfg_get m' k = cfg_get m k \<or> cfg_get m k = [] \<and> k \<in> filled_keys)"

lemma grows_refl: "grows_to m m" by (simp add: grows_to_def)

lemma grows_update: "grows_to m m' \<Longrightarrow> cfg_get m' k = [] \<Longrightarrow> k \<in> filled_keys \<Longrightarrow> grows_to m (AList.update k v m')"
  unfolding grows_to_def cfg_get_update by metis

text \<open>
  A network is created with all the user gave, unchanged: only a range of addresses and the flag
  that goes with it are filled in, only where the user left them empty, and a range only beside an
  explicit address of its family.
\<close>
theorem create_config_keeps_what_is_given:
  assumes "networkCreateConfig ext = Inr c"
  shows "grows_to ext c \<and>
    (cfg_get c ''ipv4.dhcp.ranges'' \<noteq> cfg_get ext ''ipv4.dhcp.ranges'' \<longrightarrow>
       cfg_get ext ''ipv4.address'' \<notin> {[], ''none'', ''auto''} \<and>
       CalcIPv4DHCPRange (cfg_get ext ''ipv4.address'') = Inr (cfg_get c ''ipv4.dhcp.ranges'')) \<and>
    (cfg_get c ''ipv6.dhcp.ranges'' \<noteq> cfg_get ext ''ipv6.dhcp.ranges'' \<longrightarrow>
       cfg_get ext ''ipv6.address'' \<notin> {[], ''none'', ''auto''} \<and>
       CalcIPv6DHCPRange (cfg_get ext ''ipv6.address'') = Inr (cfg_get c ''ipv6.dhcp.ranges'') \<and> cfg_get c ''ipv6.dhcp.stateful'' \<noteq> [])"
proof (cases "ext = []")
  case True
  then show ?thesis using assms by (simp add: networkCreateConfig_def grows_refl)
next
  case False
  obtain c4 where c4: "(if wants_range ext ''ipv4.address'' ''ipv4.dhcp.ranges''
      then map_sum id (\<lambda>r. AList.update ''ipv4.dhcp.ranges'' r ext) (CalcIPv4DHCPRange (cfg_get ext ''ipv4.address''))
      else Inr ext) = Inr c4"
    using assms False by (auto simp: networkCreateConfig_def split: sum.splits)
  then have four: "c4 = ext \<or> wants_range ext ''ipv4.address'' ''ipv4.dhcp.ranges'' \<and>
      (\<exists>r. CalcIPv4DHCPRange (cfg_get ext ''ipv4.address'') = Inr r \<and> c4 = AList.update ''ipv4.dhcp.ranges'' r ext)"
    by (cases "CalcIPv4DHCPRange (cfg_get ext ''ipv4.address'')") (auto split: if_splits)
  then have g4: "grows_to ext c4" by (auto simp: wants_range_def filled_keys_def intro: grows_refl grows_update)
  have v6: "cfg_get c4 k = cfg_get ext k" if "k \<noteq> ''ipv4.dhcp.ranges''" for k using four that by (auto simp: cfg_get_update)
  have six: "c = c4 \<or> wants_range c4 ''ipv6.address'' ''ipv6.dhcp.ranges'' \<and>
      (\<exists>r. CalcIPv6DHCPRange (cfg_get c4 ''ipv6.address'') = Inr r \<and>
         c = (let c6 = AList.update ''ipv6.dhcp.ranges'' r c4
              in if cfg_get c6 ''ipv6.dhcp.stateful'' = [] then AList.update ''ipv6.dhcp.stateful'' ''true'' c6 else c6))"
    using assms False c4
    by (cases "CalcIPv6DHCPRange (cfg_get c4 ''ipv6.address'')") (auto simp: networkCreateConfig_def simp del: Let_def split: if_splits)
  then have six': "c = c4 \<or> wants_range c4 ''ipv6.address'' ''ipv6.dhcp.ranges'' \<and>
      CalcIPv6DHCPRange (cfg_get c4 ''ipv6.address'') = Inr (cfg_get c ''ipv6.dhcp.ranges'') \<and>
      (\<forall>k. k \<noteq> ''ipv6.dhcp.ranges'' \<and> k \<noteq> ''ipv6.dhcp.stateful'' \<longrightarrow> cfg_get c k = cfg_get c4 k) \<and>
      cfg_get c ''ipv6.dhcp.stateful'' = (if cfg_get c4 ''ipv6.dhcp.stateful'' = [] then ''true'' else cfg_get c4 ''ipv6.dhcp.stateful'')"
    by (auto simp: Let_def cfg_get_update split: if_splits)
  then have gr: "grows_to ext c"
  proof
    assume a: "wants_range c4 ''ipv6.address'' ''ipv6.dhcp.ranges'' \<and>
      CalcIPv6DHCPRange (cfg_get c4 ''ipv6.address'') = Inr (cfg_get c ''ipv6.dhcp.ranges'') \<and>
      (\<forall>k. k \<noteq> ''ipv6.dhcp.ranges'' \<and> k \<noteq> ''ipv6.dhcp.stateful'' \<longrightarrow> cfg_get c k = cfg_get c4 k) \<and>
      cfg_get c ''ipv6.dhcp.stateful'' = (if cfg_get c4 ''ipv6.dhcp.stateful'' = [] then ''true'' else cfg_get c4 ''ipv6.dhcp.stateful'')"
    have "cfg_get c k = cfg_get ext k \<or> cfg_get ext k = [] \<and> k \<in> filled_keys" for k
      using a g4 v6 unfolding grows_to_def by (cases "k = ''ipv6.dhcp.ranges''"; cases "k = ''ipv6.dhcp.stateful''") (auto simp: wants_range_def filled_keys_def)
    then show ?thesis by (simp add: grows_to_def)
  qed (use g4 in simp)
  have c4c: "cfg_get c ''ipv4.dhcp.ranges'' = cfg_get c4 ''ipv4.dhcp.ranges''" using six' by fastforce
  have four': "c4 = ext \<or> wants_range ext ''ipv4.address'' ''ipv4.dhcp.ranges'' \<and>
      CalcIPv4DHCPRange (cfg_get ext ''ipv4.address'') = Inr (cfg_get c4 ''ipv4.dhcp.ranges'')"
    using four cfg_get_update by fastforce
  have n4: "wants_range ext ''ipv4.address'' ''ipv4.dhcp.ranges'' \<and> CalcIPv4DHCPRange (cfg_get ext ''ipv4.address'') = Inr (cfg_get c ''ipv4.dhcp.ranges'')"
    if "cfg_get c ''ipv4.dhcp.ranges'' \<noteq> cfg_get ext ''ipv4.dhcp.ranges''"
    using that four' unfolding c4c by fastforce
  have e6: "cfg_get c4 ''ipv6.address'' = cfg_get ext ''ipv6.address''" "cfg_get c4 ''ipv6.dhcp.ranges'' = cfg_get ext ''ipv6.dhcp.ranges''"
    by (rule v6, simp)+
  have n6: "wants_range ext ''ipv6.address'' ''ipv6.dhcp.ranges'' \<and> CalcIPv6DHCPRange (cfg_get ext ''ipv6.address'') = Inr (cfg_get c ''ipv6.dhcp.ranges'') \<and>
      cfg_get c ''ipv6.dhcp.stateful'' \<noteq> []" if "cfg_get c ''ipv6.dhcp.ranges'' \<noteq> cfg_get ext ''ipv6.dhcp.ranges''"
  proof -
    have ne: "c \<noteq> c4" using that e6(2) by metis
    have w: "wants_range c4 ''ipv6.address'' ''ipv6.dhcp.ranges''" using six' ne by blast
    have r: "CalcIPv6DHCPRange (cfg_get c4 ''ipv6.address'') = Inr (cfg_get c ''ipv6.dhcp.ranges'')" using six' ne by blast
    have "cfg_get c ''ipv6.dhcp.stateful'' = (if cfg_get c4 ''ipv6.dhcp.stateful'' = [] then ''true'' else cfg_get c4 ''ipv6.dhcp.stateful'')"
      using six' ne by blast
    then have "cfg_get c ''ipv6.dhcp.stateful'' \<noteq> []" by (simp split: if_splits)
    then show ?thesis using w r unfolding wants_range_def e6 by blast
  qed
  show ?thesis using gr n4 n6 unfolding wants_range_def by blast
qed

lemma create_config_keeps_what_is_given_witness:
  "\<exists>c. networkCreateConfig [(''ipv4.address'', ''auto''), (''ipv4.nat'', ''true'')] = Inr c \<and>
     cfg_get c ''ipv4.nat'' = ''true''"
proof -
  have "networkCreateConfig [(''ipv4.address'', ''auto''), (''ipv4.nat'', ''true'')] = Inr [(''ipv4.address'', ''auto''), (''ipv4.nat'', ''true'')]"
    by (simp add: networkCreateConfig_def wants_range_def cfg_get_def)
  from create_config_keeps_what_is_given [OF this] this show ?thesis by (auto simp: cfg_get_def)
qed

subsection \<open>Names of networks\<close>

lemma network_name_length: "length (SanitizeNetworkName digest projectName prefix1 networkName) \<le> max 13 (length prefix1 + 10)"
  by (auto simp: SanitizeNetworkName_def shortNetworkName_def Let_def maxInterfaceNameLen_def networkNameHashLen_def)

text \<open>
  A network's name does not tell where the project's name ends: a project \<open>p-q\<close> with a network \<open>n\<close>
  and a project \<open>p\<close> with a network \<open>q-n\<close> have one name for the two, and so have two that differ in
  dashes and underscores, so they share the bridge.
\<close>
theorem projects_share_a_network_name:
  assumes "p \<noteq> []"
  shows "SanitizeNetworkName digest (p @ ''-'' @ q) prefix1 n = SanitizeNetworkName digest p prefix1 (q @ ''-'' @ n) \<and>
    SanitizeNetworkName digest p prefix1 (dashed n) = SanitizeNetworkName digest p prefix1 n"
proof -
  have "dashed (dashed s) = dashed s" "dashed (a @ b) = dashed a @ dashed b"
    "dashed (CHR ''-'' # s) = CHR ''-'' # dashed s" for s a b by (simp_all add: dashed_def)
  then show ?thesis using assms by (simp add: SanitizeNetworkName_def Let_def)
qed

lemma projects_share_a_network_name_witness:
  "SanitizeNetworkName digest ''app-a'' ''ic-'' ''net'' = SanitizeNetworkName digest ''app'' ''ic-'' ''a-net''"
  using projects_share_a_network_name [of "''app''" digest "''a''" "''ic-''" "''net''"] by simp

end
