(* ===== verification/NetworkAttach.thy ===== *)
theory NetworkAttach
  imports Networks
begin

text \<open>
  What a network has attached to it (\<open>client/resource_network_acl.go\<close>): the access lists in its
  configuration and the peers it has with other networks.  The functions compute what the update of one
  attempt sends, or that there is nothing to send.
\<close>

subsection \<open>Access lists\<close>

definition aclNames :: "string \<Rightarrow> string list" where
  "aclNames value = filter (\<lambda>n. n \<noteq> []) (map trim_space (split_on CHR '','' value))"

definition Subnets :: "cfg \<Rightarrow> string list" where
  "Subnets config =
     concat (map (\<lambda>key. let value = cfg_get config key in
        if value = [] \<or> value = ''none'' then [] else [trim_space (case go_cut value '','' of None \<Rightarrow> value | Some (a, b) \<Rightarrow> a)])
      [''ipv4.address'', ''ipv6.address''])"

definition defaultACLName :: "string \<Rightarrow> string" where "defaultACLName incusName = incusName @ ''-default''"

record acl =
  al_name :: string
  al_ingress :: "incus_rule list"
  al_egress :: "incus_rule list"

definition defaultACL :: "string \<Rightarrow> acl" where
  "defaultACL incusName =
     \<lparr>al_name = defaultACLName incusName,
      al_ingress = [\<lparr>ir_action = ''allow'', ir_state = ''enabled'', ir_source = ''@internal'', ir_destination = [],
                    ir_protocol = [], ir_ports = [], ir_description = []\<rparr>],
      al_egress = []\<rparr>"

definition resolve :: "(string \<times> string) list \<Rightarrow> string \<Rightarrow> string" where
  "resolve resolved x = (case map_of resolved x of None \<Rightarrow> x | Some sub \<Rightarrow> sub)"

definition network_acls :: "(string \<Rightarrow> string) \<Rightarrow> string \<Rightarrow> string \<Rightarrow> acl option \<Rightarrow> (string \<times> string) list \<Rightarrow> acl list option" where
  \<comment> \<open>The lists a network of a type gets; none where the given one has no name.\<close>
  "network_acls sanitize typ incusName given resolved =
     (let defaults = (if typ = ''ovn'' then [defaultACL incusName] else []) in
      case given of
        None \<Rightarrow> Some defaults
      | Some a \<Rightarrow>
          if al_name a = [] then None
          else Some (defaults @
            [\<lparr>al_name = sanitize (al_name a),
              al_ingress = map (\<lambda>r. r\<lparr>ir_source := resolve resolved (ir_source r)\<rparr>) (al_ingress a),
              al_egress = map (\<lambda>r. r\<lparr>ir_destination := resolve resolved (ir_destination r)\<rparr>) (al_egress a)\<rparr>]))"

definition ingressKey :: string where "ingressKey = ''security.acls.default.ingress.action''"
definition egressKey :: string where "egressKey = ''security.acls.default.egress.action''"
definition aclsKey :: string where "aclsKey = ''security.acls''"

definition put_if :: "bool \<Rightarrow> string \<Rightarrow> string \<Rightarrow> bool \<times> cfg \<Rightarrow> bool \<times> cfg" where
  "put_if c k v x = (if c then (True, AList.update k v (snd x)) else x)"

definition set_action :: "cfg \<Rightarrow> string \<Rightarrow> bool \<times> cfg \<Rightarrow> bool \<times> cfg" where
  "set_action ext k x = (let v = cfg_get ext k in put_if (v \<noteq> [] \<and> cfg_get (snd x) k \<noteq> v) k v x)"

definition default_action :: "string \<Rightarrow> string \<Rightarrow> bool \<times> cfg \<Rightarrow> bool \<times> cfg" where
  "default_action k v x = put_if (cfg_get (snd x) k = []) k v x"

definition add_acls :: "string list \<Rightarrow> string list \<Rightarrow> string list" where
  "add_acls acls names = fold (\<lambda>n acc. if n \<in> set acc then acc else acc @ [n]) acls names"

definition attach :: "cfg \<Rightarrow> string list \<Rightarrow> cfg \<Rightarrow> cfg option" where
  \<comment> \<open>The configuration an attempt of \<open>ensureACLs\<close> sends.\<close>
  "attach ext acls config =
     (let names0 = aclNames (cfg_get config aclsKey); names = add_acls acls names0;
          (changed, c) = default_action egressKey ''allow'' (default_action ingressKey ''reject''
             (set_action ext egressKey (set_action ext ingressKey (names \<noteq> names0, config))))
      in if \<not> changed then None else Some (AList.update aclsKey (go_join '','' names) c))"

definition detach :: "string list \<Rightarrow> cfg \<Rightarrow> cfg option" where
  \<comment> \<open>The configuration an attempt of \<open>detachACLs\<close> sends.\<close>
  "detach names config =
     (let current = aclNames (cfg_get config aclsKey); rest = filter (\<lambda>n. n \<notin> set names) current in
      if length rest = length current then None
      else Some (if rest = [] then AList.delete egressKey (AList.delete ingressKey (AList.delete aclsKey config))
                 else AList.update aclsKey (go_join '', '' rest) config))"

definition acls_to_delete :: "(string \<Rightarrow> string) \<Rightarrow> string \<Rightarrow> string \<Rightarrow> acl option \<Rightarrow> string list" where
  \<comment> \<open>Of \<open>deleteACLs\<close>.\<close>
  "acls_to_delete sanitize typ incusName given =
     (if typ = ''ovn'' then [defaultACLName incusName] else []) @
     (case given of None \<Rightarrow> [] | Some a \<Rightarrow> if al_name a \<noteq> [] then [sanitize (al_name a)] else [])"

subsection \<open>Peers\<close>

record peer =
  pe_name :: string
  pe_project :: string
  pe_network :: string

record peering =
  pg_peer :: peer
  pg_errored :: bool

definition same_target :: "peer \<Rightarrow> peer \<Rightarrow> bool" where
  "same_target p q \<longleftrightarrow> pe_project p = pe_project q \<and> pe_network p = pe_network q"

definition extra_peer :: "peer list \<Rightarrow> peer \<Rightarrow> peer list \<Rightarrow> peer list" where
  \<comment> \<open>The peer with the target of a rule, unless the network has one with it.\<close>
  "extra_peer configured p extra =
     (if \<not> list_ex (\<lambda>q. same_target q p) configured \<and> \<not> list_ex (\<lambda>q. same_target q p) extra then extra @ [p] else extra)"

definition last_with :: "('a \<Rightarrow> bool) \<Rightarrow> 'a list \<Rightarrow> 'a option" where
  "last_with P xs = fold (\<lambda>x acc. if P x then Some x else acc) xs None"

datatype peer_request = DropPeer string | MakePeer peer

definition peer_plan :: "peer \<Rightarrow> peering list \<Rightarrow> peer_request list" where
  \<comment> \<open>What an attempt of \<open>ensurePeerOn\<close> asks, in its order.\<close>
  "peer_plan p existing =
     (let haveName = last_with (\<lambda>e. pe_name (pg_peer e) = pe_name p) existing;
          haveTarget = last_with (\<lambda>e. same_target (pg_peer e) p) existing
      in if (case (haveName, haveTarget) of
               (Some a, Some b) \<Rightarrow> pe_name (pg_peer a) = pe_name (pg_peer b) \<and> \<not> pg_errored a
             | _ \<Rightarrow> False) then []
         else (case haveTarget of
                 None \<Rightarrow> []
               | Some b \<Rightarrow> (case haveName of
                     None \<Rightarrow> [DropPeer (pe_name (pg_peer b))]
                   | Some a \<Rightarrow> if pe_name (pg_peer a) \<noteq> pe_name (pg_peer b) then [DropPeer (pe_name (pg_peer b))] else [])) @
              (if haveName \<noteq> None then [DropPeer (pe_name p)] else []) @ [MakePeer p])"

definition delete_plan :: "string \<Rightarrow> peering list \<Rightarrow> (string \<times> (string \<times> string \<times> string) option) list" where
  \<comment> \<open>Of \<open>deletePeers\<close>: each own peer, and the network whose peer with this one goes too.\<close>
  "delete_plan recipName existing =
     map (\<lambda>e. (pe_name (pg_peer e),
       if pe_project (pg_peer e) \<noteq> [] \<and> pe_network (pg_peer e) \<noteq> [] 
       then Some (pe_project (pg_peer e), pe_network (pg_peer e), recipName) else None)) existing"


subsection \<open>Attaching and detaching\<close>

definition good_acl :: "string \<Rightarrow> bool" where
  \<comment> \<open>A name the list of names can hold.\<close>
  "good_acl n \<longleftrightarrow> n \<noteq> [] \<and> CHR '','' \<notin> set n \<and> trim_space n = n"

lemma aclNames_good: "list_all good_acl (aclNames value)"
  using trim_set by (fastforce simp: aclNames_def list_all_iff good_acl_def dest: split_on_members)

lemma trim_blank: "trim_space (CHR '' '' # s) = trim_space s"
  by (simp add: trim_space_def is_space_def code_def)

lemma split_blank: "map trim_space (split_on CHR '','' (CHR '' '' # s)) = map trim_space (split_on CHR '','' s)"
  using split_on_nonempty [of "CHR '',''" s] by (auto simp: trim_blank split: list.split)

lemma aclNames_join:
  assumes "list_all good_acl ns"
  shows "aclNames (go_join '','' ns) = ns" "aclNames (go_join '', '' ns) = ns"
proof -
  have two: "map trim_space (split_on CHR '','' (go_join sep ns)) = ns"
    if "sep = '','' \<or> sep = '', ''" "ns \<noteq> []" "list_all good_acl ns" for sep ns
    using that
  proof (induction sep ns rule: go_join.induct)
    case (2 sep x)
    then show ?case by (simp add: good_acl_def split_on_none)
  next
    case (3 sep x y ys)
    then have ih: "map trim_space (split_on CHR '','' (go_join sep (y # ys))) = y # ys" by simp
    have x: "CHR '','' \<notin> set x" "trim_space x = x" using 3 by (simp_all add: good_acl_def)
    consider "sep = '',''" | "sep = '', ''" using 3 by blast
    then show ?case
    proof cases
      case 1
      then show ?thesis using ih x by (simp add: split_on_append)
    next
      case 2
      then show ?thesis using ih x split_blank [of "go_join '', '' (y # ys)"] by (simp add: split_on_append del: split_on.simps)
    qed
  qed simp
  have ne: "filter (\<lambda>n. n \<noteq> []) ns = ns" using assms by (simp add: filter_id_conv list_all_iff good_acl_def)
  show "aclNames (go_join '','' ns) = ns"
    using two [of "'',''" ns] assms ne by (cases ns) (simp_all add: aclNames_def)
  show "aclNames (go_join '', '' ns) = ns"
    using two [of "'', ''" ns] assms ne by (cases ns) (simp_all add: aclNames_def)
qed

lemma add_acls_good: "list_all good_acl acls \<Longrightarrow> list_all good_acl names \<Longrightarrow> list_all good_acl (add_acls acls names)"
  unfolding add_acls_def by (induction acls arbitrary: names) auto

lemma add_acls_Cons: "add_acls (n # acls) names = add_acls acls (if n \<in> set names then names else names @ [n])"
  by (simp add: add_acls_def)

lemma add_acls_set: "set (add_acls acls names) = set names \<union> set acls"
  by (induction acls arbitrary: names) (auto simp: add_acls_Cons, simp_all add: add_acls_def)

lemma add_acls_known: "set acls \<subseteq> set names \<Longrightarrow> add_acls acls names = names"
  by (induction acls) (auto simp: add_acls_def)

lemma add_acls_filter: "filter (\<lambda>n. n \<notin> A) (add_acls acls names) = filter (\<lambda>n. n \<notin> A) names" if "set acls \<subseteq> A"
  using that by (induction acls arbitrary: names) (auto simp: add_acls_Cons, simp_all add: add_acls_def)

definition action_after :: "cfg \<Rightarrow> cfg \<Rightarrow> string \<Rightarrow> string \<Rightarrow> string" where
  \<comment> \<open>The user's value, else the one there is, else the default.\<close>
  "action_after ext config k v =
     (if cfg_get ext k \<noteq> [] then cfg_get ext k else if cfg_get config k \<noteq> [] then cfg_get config k else v)"

lemma keys_differ [simp]: "ingressKey \<noteq> egressKey" "egressKey \<noteq> ingressKey" "ingressKey \<noteq> aclsKey" "aclsKey \<noteq> ingressKey"
  "egressKey \<noteq> aclsKey" "aclsKey \<noteq> egressKey"
  by (simp_all add: ingressKey_def egressKey_def aclsKey_def)

lemma attach_some:
  assumes "attach ext acls config = Some c"
  shows "cfg_get c aclsKey = go_join '','' (add_acls acls (aclNames (cfg_get config aclsKey)))"
    and "cfg_get c ingressKey = action_after ext config ingressKey ''reject''"
    and "cfg_get c egressKey = action_after ext config egressKey ''allow''"
    and "k \<notin> {aclsKey, ingressKey, egressKey} \<Longrightarrow> cfg_get c k = cfg_get config k"
  using assms
  by (auto simp: attach_def Let_def set_action_def default_action_def put_if_def cfg_get_update action_after_def split: if_splits)

lemma attach_none:
  "attach ext acls config = None \<longleftrightarrow>
     add_acls acls (aclNames (cfg_get config aclsKey)) = aclNames (cfg_get config aclsKey) \<and>
     cfg_get config ingressKey = action_after ext config ingressKey ''reject'' \<and>
     cfg_get config egressKey = action_after ext config egressKey ''allow''"
  by (auto simp: attach_def Let_def set_action_def default_action_def put_if_def cfg_get_update action_after_def split: if_splits)

text \<open>
  Attaching a network's access lists adds their names after those that are there and sets the two
  default actions, to the user's where they gave one, else keeping what is there; nothing else of the
  configuration changes, and a second attempt on the result has nothing to send.
\<close>
theorem attaching_settles:
  assumes "list_all good_acl acls" "attach ext acls config = Some c"
  shows "aclNames (cfg_get c aclsKey) = add_acls acls (aclNames (cfg_get config aclsKey)) \<and>
    set acls \<subseteq> set (aclNames (cfg_get c aclsKey)) \<and>
    cfg_get c ingressKey = action_after ext config ingressKey ''reject'' \<and>
    cfg_get c egressKey = action_after ext config egressKey ''allow'' \<and>
    (\<forall>k. k \<notin> {aclsKey, ingressKey, egressKey} \<longrightarrow> cfg_get c k = cfg_get config k) \<and>
    attach ext acls c = None"
proof -
  note a = attach_some [OF assms(2)]
  let ?ns = "add_acls acls (aclNames (cfg_get config aclsKey))"
  have n: "aclNames (cfg_get c aclsKey) = ?ns"
    unfolding a(1) using assms(1) by (intro aclNames_join add_acls_good aclNames_good)
  moreover have "set acls \<subseteq> set ?ns" by (simp add: add_acls_set)
  moreover have "attach ext acls c = None"
    unfolding attach_none n using a(2,3) by (auto simp: add_acls_known add_acls_set action_after_def)
  ultimately show ?thesis using a(2,3,4) by simp
qed

text \<open>
  Detaching what was attached leaves the access lists others put on the network, in their order,
  and takes every name that was added off it.
\<close>
theorem detach_undoes_attach:
  assumes "list_all good_acl acls" "attach ext acls config = Some c"
  shows "let c' = (case detach acls c of None \<Rightarrow> c | Some x \<Rightarrow> x) in
    aclNames (cfg_get c' aclsKey) = filter (\<lambda>n. n \<notin> set acls) (aclNames (cfg_get config aclsKey)) \<and>
    (\<forall>k. k \<notin> {aclsKey, ingressKey, egressKey} \<longrightarrow> cfg_get c' k = cfg_get config k)"
proof -
  note a = attach_some [OF assms(2)]
  let ?rest = "filter (\<lambda>n. n \<notin> set acls) (aclNames (cfg_get config aclsKey))"
  have n: "aclNames (cfg_get c aclsKey) = add_acls acls (aclNames (cfg_get config aclsKey))"
    unfolding a(1) using assms(1) by (intro aclNames_join add_acls_good aclNames_good)
  have rest: "filter (\<lambda>n. n \<notin> set acls) (aclNames (cfg_get c aclsKey)) = ?rest" unfolding n by (rule add_acls_filter) simp
  show ?thesis
  proof (cases "detach acls c")
    case None
    then have "length (filter (\<lambda>n. n \<notin> set acls) (aclNames (cfg_get c aclsKey))) = length (aclNames (cfg_get c aclsKey))"
      by (simp add: detach_def Let_def split: if_splits)
    then have "filter (\<lambda>n. n \<notin> set acls) (aclNames (cfg_get c aclsKey)) = aclNames (cfg_get c aclsKey)"
      by (metis filter_id_conv length_filter_less less_irrefl)
    then show ?thesis using None rest a(4) by simp
  next
    case (Some c')
    have g: "list_all good_acl ?rest" using aclNames_good [of "cfg_get config aclsKey"] by (auto simp: list_all_iff)
    have "c' = (if ?rest = [] then AList.delete egressKey (AList.delete ingressKey (AList.delete aclsKey c))
      else AList.update aclsKey (go_join '', '' ?rest) c)"
      using Some unfolding detach_def Let_def rest by (simp split: if_splits)
    then show ?thesis using Some a(4) aclNames_join(2) [OF g]
      by (auto simp: cfg_get_def delete_conv' update_conv' aclNames_def split: if_splits)
  qed
qed


lemma demo_acl_good: "list_all good_acl [''app-back'']"
  by (simp add: good_acl_def trim_space_def is_space_def code_def)

lemma demo_attach: "attach [] [''app-back''] [(''security.acls'', ''site'')] = Some
   [(''security.acls'', ''site,app-back''), (''security.acls.default.ingress.action'', ''reject''), (''security.acls.default.egress.action'', ''allow'')]"
  by (simp add: attach_def set_action_def default_action_def put_if_def cfg_get_def aclsKey_def ingressKey_def egressKey_def
      aclNames_def trim_space_def is_space_def code_def add_acls_def)

lemma attaching_settles_witness:
  "attach [] [''app-back''] [(''security.acls'', ''site,app-back''), (''security.acls.default.ingress.action'', ''reject''),
     (''security.acls.default.egress.action'', ''allow'')] = None"
  using attaching_settles [OF demo_acl_good demo_attach] by blast

lemma detach_undoes_attach_witness:
  "let c = [(''security.acls'', ''site,app-back''), (''security.acls.default.ingress.action'', ''reject''), (''security.acls.default.egress.action'', ''allow'')];
       c' = (case detach [''app-back''] c of None \<Rightarrow> c | Some x \<Rightarrow> x)
   in aclNames (cfg_get c' aclsKey) = [''site'']"
proof -
  have "filter (\<lambda>n. n \<notin> set [''app-back'']) (aclNames (cfg_get [(''security.acls'', ''site'')] aclsKey)) = [''site'']"
    by (simp add: aclNames_def cfg_get_def aclsKey_def trim_space_def is_space_def code_def)
  then show ?thesis using detach_undoes_attach [OF demo_acl_good demo_attach] unfolding Let_def by metis
qed

subsection \<open>Peers settle\<close>

fun peer_apply :: "peer_request \<Rightarrow> peering list \<Rightarrow> peering list" where
  \<comment> \<open>What the server makes of a request it grants.\<close>
  "peer_apply (DropPeer n) xs = filter (\<lambda>e. pe_name (pg_peer e) \<noteq> n) xs"
| "peer_apply (MakePeer p) xs = xs @ [\<lparr>pg_peer = p, pg_errored = False\<rparr>]"

definition target_of :: "peering \<Rightarrow> string \<times> string" where
  "target_of e = (pe_project (pg_peer e), pe_network (pg_peer e))"

definition name_of :: "peering \<Rightarrow> string" where "name_of e = pe_name (pg_peer e)"

lemma last_with_snoc: "last_with P (xs @ [x]) = (if P x then Some x else last_with P xs)"
  by (simp add: last_with_def)

lemma last_with_None: "last_with P xs = None \<longleftrightarrow> (\<forall>x \<in> set xs. \<not> P x)"
  by (induction xs rule: rev_induct) (auto simp: last_with_snoc, simp add: last_with_def)

lemma last_with_Some: "last_with P xs = Some x \<Longrightarrow> x \<in> set xs \<and> P x"
  by (induction xs rule: rev_induct) (auto simp: last_with_snoc last_with_def split: if_splits)

lemma same_target_iff: "same_target (pg_peer e) p \<longleftrightarrow> target_of e = (pe_project p, pe_network p)"
  by (auto simp: same_target_def target_of_def)

lemma distinct_key: "distinct (map f xs) \<Longrightarrow> x \<in> set xs \<Longrightarrow> y \<in> set xs \<Longrightarrow> f x = f y \<Longrightarrow> x = y"
  by (simp add: distinct_map inj_on_def)

definition others :: "peer \<Rightarrow> peering list \<Rightarrow> peering list" where
  "others p xs = filter (\<lambda>e. name_of e \<noteq> pe_name p \<and> target_of e \<noteq> (pe_project p, pe_network p)) xs"

lemma plan_result:
  assumes "distinct (map name_of xs)" "distinct (map target_of xs)" "peer_plan p xs \<noteq> []"
  shows "fold peer_apply (peer_plan p xs) xs = others p xs @ [\<lparr>pg_peer = p, pg_errored = False\<rparr>]"
proof -
  let ?N = "last_with (\<lambda>e. pe_name (pg_peer e) = pe_name p) xs" and ?T = "last_with (\<lambda>e. same_target (pg_peer e) p) xs"
  have n: "(?N = None) = (\<forall>e \<in> set xs. name_of e \<noteq> pe_name p)" by (auto simp: last_with_None name_of_def)
  have t: "(?T = None) = (\<forall>e \<in> set xs. target_of e \<noteq> (pe_project p, pe_network p))" by (simp add: last_with_None same_target_iff)
  have drop: "filter (\<lambda>e. pe_name (pg_peer e) \<noteq> pe_name (pg_peer b)) xs = filter (\<lambda>e. target_of e \<noteq> (pe_project p, pe_network p)) xs"
    if "?T = Some b" for b
  proof (rule filter_cong [OF refl])
    fix e assume e: "e \<in> set xs"
    have b: "b \<in> set xs" "target_of b = (pe_project p, pe_network p)" using last_with_Some [OF that] by (simp_all add: same_target_iff)
    show "(pe_name (pg_peer e) \<noteq> pe_name (pg_peer b)) = (target_of e \<noteq> (pe_project p, pe_network p))"
      using distinct_key [OF assms(1) e b(1)] distinct_key [OF assms(2) e b(1)] b(2) by (auto simp: name_of_def)
  qed
  show ?thesis
  proof (cases ?T)
    case None
    then have "fold peer_apply (peer_plan p xs) xs = (if ?N \<noteq> None then filter (\<lambda>e. name_of e \<noteq> pe_name p) xs else xs) @ [\<lparr>pg_peer = p, pg_errored = False\<rparr>]"
      by (cases ?N) (simp_all add: peer_plan_def Let_def name_of_def)
    moreover have "others p xs = filter (\<lambda>e. name_of e \<noteq> pe_name p) xs"
      using None t unfolding others_def by (intro filter_cong) simp_all
    moreover have "?N = None \<Longrightarrow> filter (\<lambda>e. name_of e \<noteq> pe_name p) xs = xs" using n by (simp add: filter_id_conv)
    ultimately show ?thesis by auto
  next
    case (Some b)
    have d: "filter (\<lambda>e. name_of e \<noteq> pe_name p) (filter (\<lambda>e. target_of e \<noteq> (pe_project p, pe_network p)) xs) = others p xs"
      by (simp add: others_def conj_commute)
    show ?thesis
    proof (cases ?N)
      case None
      then have "others p xs = filter (\<lambda>e. target_of e \<noteq> (pe_project p, pe_network p)) xs"
        using n unfolding others_def by (intro filter_cong) simp_all
      then show ?thesis using None Some drop [OF Some] by (simp add: peer_plan_def Let_def)
    next
      case (Some a)
      note N = this
      show ?thesis
      proof (cases "pe_name (pg_peer a) = pe_name (pg_peer b)")
        case True
        have "pe_name (pg_peer a) = pe_name p" using last_with_Some [OF N] by simp
        then have "filter (\<lambda>e. name_of e \<noteq> pe_name p) xs = filter (\<lambda>e. target_of e \<noteq> (pe_project p, pe_network p)) xs"
          using drop [OF \<open>?T = Some b\<close>] True by (simp add: name_of_def)
        then have "others p xs = filter (\<lambda>e. name_of e \<noteq> pe_name p) xs"
          unfolding others_def by (simp flip: filter_filter add: conj_commute)
        then show ?thesis using N \<open>?T = Some b\<close> True assms(3) by (simp add: peer_plan_def Let_def name_of_def split: if_splits)
      next
        case False
        then show ?thesis using N \<open>?T = Some b\<close> drop [OF \<open>?T = Some b\<close>] d by (simp add: peer_plan_def Let_def name_of_def)
      qed
    qed
  qed
qed


text \<open>
  However the peers of a network stood, what \<open>ensurePeerOn\<close> asks leaves it with the wanted peer,
  under its name, with its target and working, no second one of that name or with that target, and
  every unrelated peer as it was; asked again it finds nothing to do.
\<close>
theorem peers_settle:
  assumes "distinct (map name_of xs)" "distinct (map target_of xs)"
  shows "let ys = fold peer_apply (peer_plan p xs) xs in
    distinct (map name_of ys) \<and> distinct (map target_of ys) \<and>
    (\<exists>e \<in> set ys. name_of e = pe_name p \<and> target_of e = (pe_project p, pe_network p) \<and> \<not> pg_errored e) \<and>
    others p ys = others p xs \<and> peer_plan p ys = []"
proof (cases "peer_plan p xs = []")
  case True
  then obtain a b where ab: "last_with (\<lambda>e. pe_name (pg_peer e) = pe_name p) xs = Some a"
    "last_with (\<lambda>e. same_target (pg_peer e) p) xs = Some b" "pe_name (pg_peer a) = pe_name (pg_peer b)" "\<not> pg_errored a"
    by (auto simp: peer_plan_def Let_def split: if_splits option.splits)
  have "a = b" using distinct_key [OF assms(1), of a b] last_with_Some [OF ab(1)] last_with_Some [OF ab(2)] ab(3) by (simp add: name_of_def)
  then have "\<exists>e \<in> set xs. name_of e = pe_name p \<and> target_of e = (pe_project p, pe_network p) \<and> \<not> pg_errored e"
    using last_with_Some [OF ab(1)] last_with_Some [OF ab(2)] ab(4) by (auto simp: name_of_def same_target_iff)
  then show ?thesis using assms True by (simp add: Let_def)
next
  case False
  let ?new = "\<lparr>pg_peer = p, pg_errored = False\<rparr>"
  have ys: "fold peer_apply (peer_plan p xs) xs = others p xs @ [?new]" by (rule plan_result [OF assms False])
  have new: "name_of ?new = pe_name p" "target_of ?new = (pe_project p, pe_network p)" by (simp_all add: name_of_def target_of_def)
  have "distinct (map name_of (others p xs @ [?new]))" "distinct (map target_of (others p xs @ [?new]))"
    using assms by (auto simp: others_def new distinct_map_filter)
  moreover have "others p (others p xs @ [?new]) = others p xs" by (simp add: others_def new conj_commute)
  moreover have "peer_plan p (others p xs @ [?new]) = []" by (simp add: peer_plan_def last_with_snoc same_target_def)
  ultimately show ?thesis unfolding ys Let_def by (auto simp: new)
qed

definition demo_peer :: peer where "demo_peer = \<lparr>pe_name = ''app-web'', pe_project = ''app'', pe_network = ''web''\<rparr>"

lemma peers_settle_witness:
  "let xs = [\<lparr>pg_peer = demo_peer, pg_errored = True\<rparr>] in peer_plan demo_peer (fold peer_apply (peer_plan demo_peer xs) xs) = []"
  using peers_settle [of "[\<lparr>pg_peer = demo_peer, pg_errored = True\<rparr>]" demo_peer] by (simp add: Let_def)

end
