(* ===== verification/NetworkRun.thy ===== *)
theory NetworkRun
  imports NetworkAttach InstanceRun
begin

text \<open>
  The actions on a network (\<open>client/resource_network.go\<close>, \<open>client/resource_network_acl.go\<close>) against a
  server that answers what it likes: ensuring, creating, starting and deleting it, its access lists and
  its peers.  An action is a function on the client's state, which keeps the log of every change asked
  of the server and the answer; what is only read is not logged.  Another network a rule names is the
  same code on another object and an argument here.
\<close>

subsection \<open>The server\<close>

datatype net_request =
    CreateNetwork string string string cfg "string option"   \<comment> \<open>project, name, type, configuration, member\<close>
  | UpdateNetwork string string cfg
  | PatchNetwork string string cfg
  | DeleteNetwork string string
  | CreateACL string acl
  | UpdateACL string acl
  | DeleteACL string string
  | CreatePeer string string peer
  | DeletePeer string string string

record 'w net_server =
  sv_get :: "string \<Rightarrow> string \<Rightarrow> 'w \<Rightarrow> (chain + net_info \<times> nat) \<times> 'w"   \<comment> \<open>with its etag\<close>
  sv_nets :: "string \<Rightarrow> 'w \<Rightarrow> (chain + net_info list) \<times> 'w"
  sv_type :: "string \<Rightarrow> string \<Rightarrow> 'w \<Rightarrow> (chain + string) \<times> 'w"
  sv_acl :: "string \<Rightarrow> string \<Rightarrow> 'w \<Rightarrow> (chain + nat) \<times> 'w"
  sv_peer :: "string \<Rightarrow> string \<Rightarrow> string \<Rightarrow> 'w \<Rightarrow> (chain + peering) \<times> 'w"
  sv_peers :: "string \<Rightarrow> string \<Rightarrow> 'w \<Rightarrow> (chain + peering list) \<times> 'w"
  sv_send :: "net_request \<Rightarrow> 'w \<Rightarrow> chain option \<times> 'w"

record 'w nst =
  nt_world :: 'w
  nt_log :: "(net_request \<times> chain option) list"
  nt_state :: "(net_info \<times> nat) option"   \<comment> \<open>as of the last fetch\<close>
  nt_incus :: string                       \<comment> \<open>the name it goes by\<close>
  nt_created :: bool
  nt_held :: bool                          \<comment> \<open>in the store of resources\<close>
  nt_ext :: cfg                            \<comment> \<open>its \<open>Extensions\<close>\<close>

record 'w net_env =
  ne_srv :: "'w net_server"
  ne_before :: "action_kind \<Rightarrow> chain option"
  ne_ignored :: "(action_kind \<times> sentinel) list"
  ne_conn :: "chain option"                \<comment> \<open>why there is no connection\<close>
  ne_features :: bool
  ne_project :: string
  ne_names :: net_names
  ne_digest :: "string \<Rightarrow> string"
  ne_type :: string
  ne_acl :: "acl option"
  ne_peers :: "peer list"
  ne_supported :: bool                     \<comment> \<open>the server has the extension 75\<close>
  ne_members :: "(chain + string list) option"   \<comment> \<open>of the cluster, where it is one\<close>
  ne_sanitize :: "string \<Rightarrow> string"       \<comment> \<open>\<open>SanitizeIncusName\<close> at the limit of Incus\<close>
  ne_peer_name :: "string \<Rightarrow> string \<Rightarrow> string"
  ne_rounds :: nat                         \<comment> \<open>the reads that fit into five seconds\<close>

definition asking :: "('w net_server \<Rightarrow> 'w \<Rightarrow> (chain + 'a) \<times> 'w) \<Rightarrow> 'w net_env \<Rightarrow> ('w nst, 'a) act" where
  "asking q env s = (case q (ne_srv env) (nt_world s) of (r, w) \<Rightarrow> (r, s\<lparr>nt_world := w\<rparr>))"

definition request :: "'w net_env \<Rightarrow> net_request \<Rightarrow> ('w nst, unit) act" where
  "request env q s =
     (case sv_send (ne_srv env) q (nt_world s) of
        (e, w) \<Rightarrow> (case e of None \<Rightarrow> Inr () | Some c \<Rightarrow> Inl c, s\<lparr>nt_world := w, nt_log := nt_log s @ [(q, e)]\<rparr>))"

definition connected :: "'w net_env \<Rightarrow> ('w nst, 'a) act \<Rightarrow> ('w nst, 'a) act" where
  \<comment> \<open>\<open>GlobalConnection\<close>, whose error is returned as it is.\<close>
  "connected env m = (case ne_conn env of None \<Rightarrow> m | Some e \<Rightarrow> fail e)"

definition hook_after :: "'w net_env \<Rightarrow> action_kind \<Rightarrow> ('w nst, unit) act \<Rightarrow> ('w nst, unit) act" where
  "hook_after env a m =
     tried m (case_sum (\<lambda>e. if list_ex (\<lambda>(b, k). b = a \<and> is_err k e) (ne_ignored env) then ret () else fail (default_after e)) ret)"

definition StatusErrorCheck :: "nat \<Rightarrow> chain \<Rightarrow> bool" where
  "StatusErrorCheck k e \<longleftrightarrow> list_ex (\<lambda>c. case c of ServerError j m \<Rightarrow> j = k | _ \<Rightarrow> False) e"

definition says_text :: "string \<Rightarrow> chain \<Rightarrow> bool" where
  \<comment> \<open>The text of the error has these words, which only the server's messages may.\<close>
  "says_text t e \<longleftrightarrow> list_ex (\<lambda>c. case c of ServerError j m \<Rightarrow> go_contains m t | _ \<Rightarrow> False) e"

definition lower_chain :: "chain \<Rightarrow> chain" where
  "lower_chain e = map (\<lambda>c. case c of ServerError j m \<Rightarrow> ServerError j (to_lower m) | _ \<Rightarrow> c) e"

definition isConcurrencyConflict :: "chain \<Rightarrow> bool" where
  "isConcurrencyConflict e \<longleftrightarrow>
     StatusErrorCheck 412 e \<or> StatusErrorCheck 409 e \<or>
     list_ex (\<lambda>t. says_text t (lower_chain e))
       [''referential integrity violation'', ''constraint violation'', ''failed getting acl usage'',
        ''failed removing default routes'', ''failed to load project'']"

fun attempts :: "nat \<Rightarrow> (chain \<Rightarrow> bool) \<Rightarrow> ('s, 'a) act \<Rightarrow> ('s, 'a) act" where
  \<comment> \<open>\<open>retry\<close>: one attempt and so many more, while the error is of the kind.\<close>
  "attempts 0 c m = m"
| "attempts (Suc k) c m = tried m (case_sum (\<lambda>e. if c e then attempts k c m else fail e) ret)"

definition project_of :: "'w net_env \<Rightarrow> string" where
  "project_of env = incusProject (ne_features env) (ne_project env)"

definition of_net :: "('w nst \<Rightarrow> ('w nst, 'a) act) \<Rightarrow> ('w nst, 'a) act" where "of_net f = reading f"

subsection \<open>Reading it\<close>

definition net_get :: "'w net_env \<Rightarrow> ('w nst, unit) act" where
  "net_get env =
     connected env (of_net (\<lambda>s.
       let n = nt_incus s; proj = project_of env in
       tried (tried (asking (\<lambda>srv. sv_get srv proj n) env)
                (case_sum (\<lambda>e. if nn_external (ne_names env) \<and> proj \<noteq> ''default'' then asking (\<lambda>srv. sv_get srv ''default'' n) env else fail e) ret))
         (case_sum (\<lambda>e. and_then (changing (\<lambda>s. s\<lparr>nt_state := None\<rparr>)) (\<lambda>_. fail (if StatusErrorCheck 404 e then ErrNotFound # e else e)))
                   (\<lambda>x. changing (\<lambda>s. s\<lparr>nt_state := Some x\<rparr>)))))"

definition net_type :: "'w net_env \<Rightarrow> ('w nst, string) act" where
  \<comment> \<open>\<open>Type\<close>\<close>
  "net_type env =
     of_net (\<lambda>s.
       let cached = (case nt_state s of None \<Rightarrow> [] | Some (i, tag) \<Rightarrow> ni_type i) in
       if cached \<noteq> [] then ret cached
       else tried (asking (\<lambda>srv. sv_type srv (project_of env) (nt_incus s)) env)
              (case_sum (\<lambda>e. ret (if ne_type env \<noteq> [] then ne_type env else ''bridge'')) ret))"

definition net_subnets :: "'w net_env \<Rightarrow> ('w nst, string list) act" where
  "net_subnets env = and_then (net_get env) (\<lambda>_. of_net (\<lambda>s. ret (case nt_state s of None \<Rightarrow> [] | Some (i, tag) \<Rightarrow> Subnets (ni_config i))))"

subsection \<open>Creating it\<close>





subsection \<open>Ensuring it\<close>

fun probe :: "'w net_env \<Rightarrow> chain option \<Rightarrow> string list \<Rightarrow> ('w nst, unit) act" where
  \<comment> \<open>The candidates in their order; the error is the last one's.\<close>
  "probe env e [] = (case e of None \<Rightarrow> ret () | Some err \<Rightarrow> fail err)"
| "probe env e (c # cs) =
     and_then (changing (\<lambda>s. s\<lparr>nt_incus := c\<rparr>)) (\<lambda>_. tried (net_get env) (case_sum (\<lambda>err. probe env (Some err) cs) ret))"



subsection \<open>Access lists\<close>



definition fetched :: "('w nst, 'a) act \<Rightarrow> (net_info \<Rightarrow> ('w nst, 'a) act) \<Rightarrow> ('w nst, 'a) act" where
  \<comment> \<open>By whether the network is known.\<close>
  "fetched no yes = of_net (\<lambda>s. case nt_state s of None \<Rightarrow> no | Some (i, tag) \<Rightarrow> yes i)"



definition detach_once :: "'w net_env \<Rightarrow> string list \<Rightarrow> ('w nst, unit) act" where
  "detach_once env names =
     (let reread = (\<lambda>m. tried (net_get env) (case_sum (\<lambda>e. if is_err ErrNotFound e then ret () else fail e) (\<lambda>_. m))) in
      reread (fetched (ret ()) (\<lambda>i. of_net (\<lambda>s.
        case detach names (ni_config i) of
          None \<Rightarrow> ret ()
        | Some c \<Rightarrow>
            and_then (request env (UpdateNetwork (project_of env) (nt_incus s) c)) (\<lambda>_.
              reread (fetched (ret ()) (\<lambda>i2.
                if list_ex (\<lambda>n. n \<in> set (aclNames (cfg_get (ni_config i2) aclsKey))) names
                then fail [ServerError 412 []] else ret ())))))))"

definition detachACLs :: "'w net_env \<Rightarrow> string list \<Rightarrow> ('w nst, unit) act" where
  "detachACLs env names = connected env (attempts 9 isConcurrencyConflict (detach_once env names))"


definition unless_gone :: "(chain \<Rightarrow> bool) \<Rightarrow> ('s, unit) act \<Rightarrow> ('s, unit) act" where
  "unless_gone c m = tried m (case_sum (\<lambda>e. if c e then ret () else fail e) ret)"


definition RemoveACL :: "'w net_env \<Rightarrow> string \<Rightarrow> ('w nst, unit) act" where
  "RemoveACL env name0 =
     (let name = ne_sanitize env name0 in
      connected env (and_then (detachACLs env [name]) (\<lambda>_.
        attempts 9 (\<lambda>e. says_text ''in use'' e \<or> isConcurrencyConflict e)
          (tried (request env (DeleteACL (project_of env) name)) (case_sum
             (\<lambda>e. if StatusErrorCheck 404 e then ret ()
                  else if says_text ''in use'' e then tried (detachACLs env [name]) (\<lambda>_. fail e) else fail e)
             ret)))))"

subsection \<open>Peers\<close>

definition no_peers :: "chain \<Rightarrow> bool" where
  \<comment> \<open>The network is gone or is none that has peers.\<close>
  "no_peers e \<longleftrightarrow> StatusErrorCheck 404 e \<or> says_text ''does not support'' e"




definition RemovePeer :: "'w net_env \<Rightarrow> string \<Rightarrow> ('w nst, unit) act" where
  "RemovePeer env name =
     and_then (net_type env) (\<lambda>typ. of_net (\<lambda>s.
       if typ \<noteq> ''ovn'' then ret ()
       else connected env (unless_gone no_peers (request env (DeletePeer (project_of env) (nt_incus s) (ne_sanitize env name))))))"



subsection \<open>Starting and deleting it\<close>





definition net_forget :: "('w nst, unit) act" where
  "net_forget = changing (\<lambda>s. s\<lparr>nt_state := None, nt_held := False\<rparr>)"


definition net_PatchConfig :: "'w net_env \<Rightarrow> cfg \<Rightarrow> ('w nst, unit) act" where
  "net_PatchConfig env config =
     (if config = [] then ret ()
      else connected env (of_net (\<lambda>s.
        and_then (attempts 9 isConcurrencyConflict
            (and_then (asking (\<lambda>srv. sv_get srv (project_of env) (nt_incus s)) env)
               (\<lambda>_. request env (PatchNetwork (project_of env) (nt_incus s) config))))
          (\<lambda>_. and_then (changing (\<lambda>s. s\<lparr>nt_ext := copy_into (nt_ext s) config\<rparr>)) (\<lambda>_. net_get env)))))"


definition updateDNSAliases :: "'w net_env \<Rightarrow> (records \<Rightarrow> records) \<Rightarrow> records \<Rightarrow> string list \<Rightarrow> records \<Rightarrow> ('w nst, bool) act" where
  "updateDNSAliases env ranged mine owned newIPs =
     fetched (ret False) (\<lambda>_. connected env (of_net (\<lambda>s.
       let n = nt_incus s; proj = project_of env in
       and_then (attempts 9 isConcurrencyConflict
           (and_then (asking (\<lambda>srv. sv_get srv proj n) env) (\<lambda>(i, tag).
              if ni_type i \<noteq> ''bridge'' \<or> \<not> ni_managed i then ret ()
              else (let raw = cfg_get (ni_config i) ''raw.dnsmasq'';
                        raw1 = new_raw owned newIPs mine (map_of (nt_ext s) ''raw.dnsmasq'') ranged raw
                    in if raw = raw1 then ret ()
                       else request env (UpdateNetwork proj n
                              (if raw1 = [] then AList.delete ''raw.dnsmasq'' (ni_config i)
                               else AList.update ''raw.dnsmasq'' raw1 (ni_config i)))))))
         (\<lambda>_. ret True))))"

subsection \<open>What the actions ask for\<close>

abbreviation asks :: "(net_request \<times> chain option \<Rightarrow> bool) \<Rightarrow> ('w nst, 'a) act \<Rightarrow> bool" where "asks \<equiv> logs_within nt_log"

lemma asks_asking [within_intros]: "asks A (asking q env)"
  by (simp add: logs_within_def asking_def split: prod.split)

lemma asks_request [within_intros]: "(\<And>e. A (q, e)) \<Longrightarrow> asks A (request env q)"
  by (simp add: logs_within_def request_def split: prod.split)

lemma asks_connected [within_intros]: "asks A m \<Longrightarrow> asks A (connected env m)"
  unfolding connected_def by (auto intro: within_intros split: option.split)

lemma asks_hook [within_intros]: "asks A m \<Longrightarrow> asks A (hook_after env a m)"
  unfolding hook_after_def by (intro within_intros)

lemma asks_of_net [within_intros]: "(\<And>s. asks A (f s)) \<Longrightarrow> asks A (of_net f)"
  unfolding of_net_def by (intro within_intros)

lemma asks_fetched [within_intros]: "asks A no \<Longrightarrow> (\<And>i. asks A (yes i)) \<Longrightarrow> asks A (fetched no yes)"
  unfolding fetched_def by (intro within_intros) (auto intro: within_intros split: option.split prod.split)

lemma asks_attempts [within_intros]: "asks A m \<Longrightarrow> asks A (attempts k c m)"
  by (induction k) (auto intro!: within_intros)

lemma asks_set [within_intros]: "(\<And>s. nt_log (f s) = nt_log s) \<Longrightarrow> asks A (changing f)"
  by (rule within_changing)

lemma asks_get [within_intros]: "asks A (net_get env)"
  unfolding net_get_def Let_def by (intro within_intros) simp_all

lemma asks_probe [within_intros]: "asks A (probe env e cs)"
proof (induction cs arbitrary: e)
  case Nil
  then show ?case by (auto intro: within_intros split: option.split)
next
  case (Cons c cs)
  show ?case unfolding probe.simps by (intro within_intros Cons) simp
qed


lemma asks_forget [within_intros]: "asks A net_forget"
  unfolding net_forget_def by (intro within_intros) simp






end
