(* ===== verification/Spec2Isabelle.thy ===== *)
theory Spec2Isabelle
  imports Prelude Queue Event Chain Debounce GoLib Netip HealthConfig Health HealthLoop Fleet
    Retries Reads ReadsRun ReadsHeld
    Enricher EnricherRun Sweeper
    DnsNames DnsState DnsPlugin DnsViews DnsZones EcsView Xfr
    VolumeLock Placement
    Instances InstanceDevices ServiceDevices InstanceConfig Act InstanceRun InstanceTrace Stack NetworkAcl Dnsmasq DnsWatcher Networks NetworkAttach NetworkRun
begin

text \<open>
  A verification development for incus-compose, which runs Compose projects on Incus, and for the two
  daemons it deploys beside them: \<open>ic-healthd\<close>, which checks and restarts instances, and \<open>ic-dns\<close>,
  which serves their names.

  \<^bold>\<open>The program.\<close>  Incus' event stream enters a chain of plugins (\<open>src/ievent\<close>): the source filters it
  to what the plugins want, the debounce plugin collapses bursts, the enricher reads the instances and
  networks the events speak of and keeps a copy of the fleet, and the daemon's own plugin comes last.
  The command line (\<open>src/cmd/incus-compose\<close>) loads a project (\<open>src/project\<close>), plans its instances and
  runs actions on resources of the client (\<open>src/client\<close>).  Instances carry their health check and their
  names in their configuration; that is how the two sides talk to each other.

  \<^bold>\<open>Theories.\<close>  Each models the files it names in its own header, its definitions in the code's order
  and under the code's names.
  \<^item> \<open>Prelude\<close>, \<open>GoLib\<close>, \<open>Netip\<close>: shared lemmas and collections, and what the code uses of Go's
    library (strings, maps as association lists, durations, addresses and prefixes).
  \<^item> \<open>Queue\<close>, \<open>Event\<close>, \<open>Chain\<close>, \<open>Debounce\<close>: the enricher's ring buffer with an abstract queue it
    refines, events and their equality, the source and the chain's sessions, the debounce loop.
  \<^item> \<open>Fleet\<close>, \<open>Retries\<close>, \<open>Reads\<close>, \<open>ReadsRun\<close>, \<open>ReadsHeld\<close>, \<open>Enricher\<close>, \<open>EnricherRun\<close>, \<open>Sweeper\<close>: the fleet,
    the schedule of re-reads, the table of reads in flight, the enricher's loop as one step per case
    of its select, and the sweep.
  \<^item> \<open>HealthConfig\<close>, \<open>Health\<close>, \<open>HealthLoop\<close>: the configuration of a check, and the checker's loop over its
    instances, timers and results.
  \<^item> \<open>DnsNames\<close>, \<open>DnsState\<close>, \<open>DnsPlugin\<close>, \<open>DnsViews\<close>, \<open>DnsZones\<close>, \<open>EcsView\<close>, \<open>Xfr\<close>: names and views, the state and
    its patches, the plugin's loop and the cold store, what the views and zones count, the answer to
    a query, and zone transfers.
  \<^item> \<open>VolumeLock\<close>, \<open>Placement\<close>, \<open>Instances\<close>, \<open>ServiceDevices\<close>, \<open>InstanceConfig\<close>, \<open>InstanceDevices\<close>: the advisory
    lock on a volume, the spreading of replicas over a cluster, the plan of a service's instances, and
    the devices and configuration an instance is made with.
  \<^item> \<open>InstanceRun\<close>, \<open>InstanceTrace\<close>: the actions on one instance against a server that may answer
    anything, and what they ask of it.
  \<^item> \<open>Act\<close>, \<open>Stack\<close>, \<open>NetworkAcl\<close>: the actions of the client and what is read off their logs; the store of
    resources, the batches a stack runs by priority and the pool of workers a batch goes through, with its
    bounded channel of errors, as steps; the access rules of a project's networks.
  \<^item> \<open>Dnsmasq\<close>, \<open>DnsWatcher\<close>: the name records a bridge keeps, merged by one update, and the hook that
    follows the instances of a run.
  \<^item> \<open>Networks\<close>, \<open>NetworkAttach\<close>, \<open>NetworkRun\<close>: a network's names, ranges and configuration, what its
    access lists and peers become, and the actions on it against a server that may answer anything.

  \<^bold>\<open>What the lemmas show.\<close>  Each loop has a step relation or step function, an invariant kept by every
  step, and properties of every run: no event is lost, overtaken or stranded, no read in flight is
  forgotten, every input is taken.  Locales state the interfaces (the enricher's queue, counted
  multisets of views and zones, the loops' invariants) and are interpreted on the model's own
  definitions.  The client's actions are functions on a state with a log of requests and answers;
  \<open>within\<close>, \<open>shows_ok\<close> and \<open>keeps\<close> have one rule per combinator, so a property of an action is
  read off its parts.  Round trips tie the two sides together: what \<open>InstanceConfig\<close> writes is what
  \<open>HealthConfig\<close> reads.

  \<^bold>\<open>Bounds and fuel.\<close>  Go's \<open>int\<close> is \<open>int\<close> or \<open>nat\<close> where the code cannot leave its range, and a word where
  it wraps (serials, addresses).  Loops that need not end are partial functions whose answer is an
  option (the counting of existing instances); the retries and waits of \<open>InstanceRun\<close> take the number
  of attempts the code gives them, and a wait for a verdict the number of re-reads its deadline
  allows.  Channels are bounded lists and a step that would block has no successor.  A Go map whose
  order matters is a list in some order, and the properties hold for every order.

  \<^bold>\<open>Parameters.\<close>  Incus itself, goroutine pools (which submissions they accept), time and random
  numbers, slugs, digests, shell quoting and the Incus client's \<open>IsTrue\<close> are arguments of the
  definitions that use them, with what is relied on as hypotheses.

  \<^bold>\<open>Not modelled.\<close>  Connections, files, terminals and progress; metrics and logging; the loading of
  Compose files, which is the library's; images and their building; profiles, storage and backups of
  the client, which are calls to Incus around little logic of their own; deadlines of a context within
  an action (the retries of \<open>InstanceRun\<close> and \<open>NetworkRun\<close> do not stop early for one, nor does
  \<open>Debounce\<close> have the branch of its context); the listener of the client that publishes an instance's
  state while an action runs (\<open>client_events.go\<close>), so a read of it in \<open>InstanceRun\<close> is as of the action's
  own last fetch; a file of \<open>VolumeLock\<close> that cannot be removed; the JSON form of the cold store, whose
  record stands for the document; what \<open>json.Marshal\<close> makes of bytes that are no ASCII in a health test;
  \<open>ResourceStore.Add\<close>, which nothing calls.
\<close>

end
